(* ===== verification/Wifibot_Prelude.thy ===== *)
theory Wifibot_Prelude
  imports Main "HOL-Library.Word"
begin

text \<open>
  Shared vocabulary of the development.

  The programs under \<^verbatim>\<open>src/raw_server\<close> and \<^verbatim>\<open>src/mjpg-streamer\<close> are built for a 32-bit ARM
  board (the object files committed beside the sources are ELF32/ARM), so \<^verbatim>\<open>int\<close>, \<^verbatim>\<open>long\<close> and
  \<^verbatim>\<open>size_t\<close> have 32 bits and \<^verbatim>\<open>short\<close> has 16.  This theory fixes the names of those types, the
  conversions the sources write as casts and shifts, and the lemmas on bytes, words and lists
  that several components use.
\<close>

unbundle bit_operations_syntax

named_theorems byte_simps \<open>splitting and recombining machine words byte by byte\<close>
named_theorems frame_defs \<open>definitions unfolded to compute a frame byte by byte\<close>

subsection \<open>Machine types\<close>

type_synonym byte = "8 word"
type_synonym short = "16 word"
type_synonym cint = "32 word"

subsection \<open>Casts and shifts of the C sources\<close>

definition uchar_of_short :: "short \<Rightarrow> byte" where
  "uchar_of_short s = ucast (scast s :: cint)"

definition uchar_of_short_shr8 :: "short \<Rightarrow> byte" where
  "uchar_of_short_shr8 s = ucast (signed_drop_bit 8 (scast s :: cint))"

definition uchar_of_int :: "cint \<Rightarrow> byte" where
  "uchar_of_int i = ucast i"

definition uchar_of_int_shr8 :: "cint \<Rightarrow> byte" where
  "uchar_of_int_shr8 i = ucast (signed_drop_bit 8 i)"

text \<open>\<^verbatim>\<open>(short)((hi << 8) + lo)\<close> on two unsigned bytes.\<close>

definition short_of_bytes :: "byte \<Rightarrow> byte \<Rightarrow> short" where
  "short_of_bytes hi lo = ucast (push_bit 8 (ucast hi :: cint) + ucast lo)"

text \<open>The two bytes of a \<^verbatim>\<open>short\<close>, as the plain low and high half.\<close>

lemma uchar_of_short_lo [byte_simps]: "uchar_of_short s = ucast s"
  by (rule bit_word_eqI) (simp add: uchar_of_short_def bit_simps)

lemma uchar_of_short_hi [byte_simps]: "uchar_of_short_shr8 s = ucast (drop_bit 8 s)"
proof (rule bit_word_eqI)
  fix n assume "n < LENGTH(8)"
  then consider "n < 7" | "n = 7" by fastforce
  then show "bit (uchar_of_short_shr8 s) n = bit (ucast (drop_bit 8 s) :: byte) n"
    by cases (auto simp: uchar_of_short_shr8_def bit_simps min_def)
qed

lemma push_bit_plus_ucast: "push_bit 8 (ucast hi :: cint) + ucast (lo :: byte) = push_bit 8 (ucast hi) OR ucast lo"
  by (rule disjunctive_add) (auto simp: bit_simps dest: bit_imp_le_length)

lemma short_of_bytes_or [byte_simps]: "short_of_bytes hi lo = push_bit 8 (ucast hi) OR ucast lo"
  unfolding short_of_bytes_def push_bit_plus_ucast
  by (rule bit_word_eqI) (auto simp: bit_simps)

lemma short_of_bytes_halves [simp]:
  "short_of_bytes (uchar_of_short_shr8 s) (uchar_of_short s) = s"
  unfolding byte_simps by (rule bit_word_eqI) (auto simp: bit_simps)

lemma uchar_of_short_of_bytes [simp]:
  "uchar_of_short (short_of_bytes hi lo) = lo"
  "uchar_of_short_shr8 (short_of_bytes hi lo) = hi"
  unfolding byte_simps by (rule bit_word_eqI; auto simp: bit_simps dest: bit_imp_le_length)+

lemma short_of_bytes_inject [simp]:
  "short_of_bytes h l = short_of_bytes h' l' \<longleftrightarrow> h = h' \<and> l = l'"
  by (metis uchar_of_short_of_bytes)

lemma word_xor_eq_0_iff [simp]: "a XOR b = 0 \<longleftrightarrow> (a :: 'a::len word) = b"
  by (metis xor.assoc xor.left_neutral xor.right_neutral xor_self_eq)

lemma word_xor_cancel [simp]:
  "c XOR a = c XOR b \<longleftrightarrow> (a :: 'a::len word) = b"
  "a XOR c = b XOR c \<longleftrightarrow> (a :: 'a::len word) = b"
  by (metis xor.assoc xor.left_neutral xor_self_eq, metis xor.assoc xor.right_neutral xor_self_eq)

lemma ucast_down_up [simp]: "(ucast (ucast (c :: short) :: cint) :: short) = c"
  by (rule bit_word_eqI) (auto simp: bit_simps)

subsection \<open>Lists\<close>

text \<open>\<^verbatim>\<open>memcpy(buf, src, n)\<close> into the front of a buffer that is at least as long.\<close>

definition overwrite :: "'a list \<Rightarrow> 'a list \<Rightarrow> 'a list" where
  "overwrite src buf = src @ drop (length src) buf"

lemma length_overwrite [simp]: "length src \<le> length buf \<Longrightarrow> length (overwrite src buf) = length buf"
  by (simp add: overwrite_def)

lemma overwrite_full: "length src = length buf \<Longrightarrow> overwrite src buf = src"
  by (simp add: overwrite_def)

lemma take_overwrite [simp]: "n \<le> length src \<Longrightarrow> take n (overwrite src buf) = take n src"
  by (simp add: overwrite_def)

lemma overwrite_Nil [simp]: "overwrite [] buf = buf"
  by (simp add: overwrite_def)

lemma nth_overwrite:
  "i < length buf \<Longrightarrow> length src \<le> length buf \<Longrightarrow>
    overwrite src buf ! i = (if i < length src then src ! i else buf ! i)"
  by (auto simp: overwrite_def nth_append)

lemma list_split_nth: "i < length xs \<Longrightarrow> xs = take i xs @ xs ! i # drop (Suc i) xs"
  by (simp add: id_take_nth_drop)

lemma list_all_update [intro]: "list_all P xs \<Longrightarrow> P y \<Longrightarrow> list_all P (xs[i := y])"
  unfolding list_all_iff using set_update_subset_insert [of xs i y] by auto

end
