(* ===== verification/Crc16.thy ===== *)
theory Crc16
  imports Wifibot_Prelude
begin

text \<open>
  The checksum of the motor-board protocol: \<^verbatim>\<open>crc16\<close> of
  \<^verbatim>\<open>src/raw_server/simple_server_main.c\<close>.  The C routine keeps its register in a 32-bit
  \<^verbatim>\<open>unsigned int\<close>; it is shown to refine a 16-bit serial shift register, and the register is
  shown to be linear and injective, which gives the error-detection facts the frames rely on.
\<close>

subsection \<open>The routine\<close>

definition Polynome :: cint where
  "Polynome = 0xA001"

text \<open>The body of the inner loop: one bit.\<close>

definition crc16_bit :: "cint \<Rightarrow> cint" where
  "crc16_bit Crc =
     (let Parity = Crc; Crc' = drop_bit 1 Crc
      in if Parity mod 2 = 1 then Crc' XOR Polynome else Crc')"

text \<open>The body of the outer loop: one octet, eight bits (\<^verbatim>\<open>CptBit = 0 .. 7\<close>).\<close>

definition crc16_octet :: "cint \<Rightarrow> byte \<Rightarrow> cint" where
  "crc16_octet Crc b = (crc16_bit ^^ 8) (Crc XOR ucast b)"

function crc16_loop :: "byte list \<Rightarrow> nat \<Rightarrow> nat \<Rightarrow> cint \<Rightarrow> cint" where
  "crc16_loop adresse_tab CptOctet taille_max Crc =
     (if CptOctet < taille_max
      then crc16_loop adresse_tab (Suc CptOctet) taille_max (crc16_octet Crc (adresse_tab ! CptOctet))
      else Crc)"
  by pat_completeness auto
termination
  by (relation "measure (\<lambda>(_, i, n, _). n - i)") auto

declare crc16_loop.simps [simp del]

definition crc16 :: "byte list \<Rightarrow> byte \<Rightarrow> short" where
  "crc16 adresse_tab taille_max = ucast (crc16_loop adresse_tab 0 (unat taille_max) 0xFFFF)"

subsection \<open>The specification: a 16-bit serial register\<close>

definition lfsr :: "short \<Rightarrow> short" where
  "lfsr c = drop_bit 1 c XOR (if odd c then 0xA001 else 0)"

definition lfsr_octet :: "short \<Rightarrow> byte \<Rightarrow> short" where
  "lfsr_octet c b = (lfsr ^^ 8) (c XOR ucast b)"

definition crc_feed :: "short \<Rightarrow> byte list \<Rightarrow> short" where
  "crc_feed c bs = foldl lfsr_octet c bs"

lemma crc_feed_simps [simp]:
  "crc_feed c [] = c"
  "crc_feed c (b # bs) = crc_feed (lfsr_octet c b) bs"
  "crc_feed c (bs @ bs') = crc_feed (crc_feed c bs) bs'"
  by (simp_all add: crc_feed_def)

subsection \<open>The routine refines the register\<close>

lemma mod_2_word_odd: "(c :: 'a::len word) mod 2 = 1 \<longleftrightarrow> odd c"
  by (simp add: odd_iff_mod_2_eq_one)

lemma crc16_bit_alt: "crc16_bit c = drop_bit 1 c XOR (if odd c then Polynome else 0)"
  by (simp add: crc16_bit_def mod_2_word_odd)

text \<open>The 32-bit register never leaves its low 16 bits: it is the embedding of a 16-bit register.\<close>

lemma ucast_Polynome: "Polynome = ucast (0xA001 :: short)"
  by (simp add: Polynome_def)

lemma odd_ucast_short [simp]: "odd (ucast (c :: short) :: cint) \<longleftrightarrow> odd c"
  by (simp add: bit_simps flip: bit_0)

lemma crc16_bit_ucast: "crc16_bit (ucast c) = ucast (lfsr c)"
proof -
  have "drop_bit 1 (ucast c :: cint) = ucast (drop_bit 1 c)"
    by (rule bit_word_eqI) (auto simp: bit_simps dest: bit_imp_le_length)
  then show ?thesis
    by (simp add: crc16_bit_alt lfsr_def ucast_Polynome unsigned_xor_eq)
qed

lemma crc16_bits_ucast: "(crc16_bit ^^ n) (ucast c) = ucast ((lfsr ^^ n) c)"
  by (induction n) (simp_all add: crc16_bit_ucast)

lemma crc16_octet_ucast: "crc16_octet (ucast c) b = ucast (lfsr_octet c b)"
proof -
  have "ucast c XOR ucast b = (ucast (c XOR ucast b :: short) :: cint)"
    by (rule bit_word_eqI) (auto simp: bit_simps dest: bit_imp_le_length)
  then show ?thesis
    by (simp add: crc16_octet_def lfsr_octet_def crc16_bits_ucast)
qed

lemma crc16_loop_ucast:
  "n \<le> length tab \<Longrightarrow> crc16_loop tab i n (ucast c) = ucast (crc_feed c (drop i (take n tab)))"
proof (induction "n - i" arbitrary: i c)
  case 0
  then show ?case by (simp add: crc16_loop.simps)
next
  case (Suc d)
  then have "i < n" by simp
  with Suc.prems have "drop i (take n tab) = tab ! i # drop (Suc i) (take n tab)"
    by (metis Cons_nth_drop_Suc length_take min.absorb2 nth_take)
  with Suc \<open>i < n\<close> show ?case
    by (simp add: crc16_loop.simps [of tab i] crc16_octet_ucast)
qed

theorem crc16_eq_feed:
  assumes "unat n \<le> length tab"
  shows "crc16 tab n = crc_feed 0xFFFF (take (unat n) tab)"
proof -
  have "(0xFFFF :: cint) = ucast (0xFFFF :: short)" by simp
  with assms show ?thesis
    unfolding crc16_def using crc16_loop_ucast [of "unat n" tab 0 "0xFFFF"]
    by simp
qed

subsection \<open>The register is linear and injective\<close>

lemma lfsr_xor: "lfsr (a XOR b) = lfsr a XOR lfsr b"
  by (auto simp: lfsr_def drop_bit_xor even_xor_iff ac_simps)

lemma lfsr_pow_xor: "(lfsr ^^ n) (a XOR b) = (lfsr ^^ n) a XOR (lfsr ^^ n) b"
  by (induction n) (simp_all add: lfsr_xor)

lemma lfsr_0 [simp]: "lfsr 0 = 0"
  by (simp add: lfsr_def)

lemma lfsr_pow_0 [simp]: "(lfsr ^^ n) 0 = 0"
  by (induction n) simp_all

lemma lfsr_kernel: "lfsr c = 0 \<Longrightarrow> c = 0"
proof -
  assume *: "lfsr c = 0"
  have "\<not> odd c"
  proof
    assume "odd c"
    with * have "drop_bit 1 c = 0xA001" by (simp add: lfsr_def)
    then have "bit (drop_bit 1 c) 15 = bit (0xA001 :: short) 15" by simp
    then show False by (auto simp: bit_simps dest: bit_imp_le_length)
  qed
  with * have "drop_bit 1 c = 0" "even c" by (simp_all add: lfsr_def)
  then have "\<not> bit c n" for n
    by (cases n) (auto simp: bit_simps dest: arg_cong [where f = "\<lambda>w. bit w (n - 1)"])
  then show "c = 0" by (simp add: bit_eq_iff)
qed

lemma lfsr_pow_kernel: "(lfsr ^^ n) c = 0 \<Longrightarrow> c = 0"
  by (induction n) (auto dest: lfsr_kernel)

lemma lfsr_pow_inject [simp]: "(lfsr ^^ n) a = (lfsr ^^ n) b \<longleftrightarrow> a = b"
proof
  assume "(lfsr ^^ n) a = (lfsr ^^ n) b"
  then have "(lfsr ^^ n) (a XOR b) = 0" by (simp add: lfsr_pow_xor)
  then show "a = b" by (auto dest: lfsr_pow_kernel)
qed simp

lemma xor_interchange: "(a XOR b) XOR (c XOR d) = (a XOR c) XOR (b XOR (d :: 'a::len word))"
  by (simp add: ac_simps)

lemma lfsr_octet_xor: "lfsr_octet (a XOR b) (x XOR y) = lfsr_octet a x XOR lfsr_octet b y"
  unfolding lfsr_octet_def
  by (simp add: unsigned_xor_eq xor_interchange flip: lfsr_pow_xor)

lemma lfsr_octet_inject_state [simp]: "lfsr_octet a x = lfsr_octet b x \<longleftrightarrow> a = b"
  by (auto simp: lfsr_octet_def)

lemma crc_feed_inject_state [simp]: "crc_feed a bs = crc_feed b bs \<longleftrightarrow> a = b"
  by (induction bs arbitrary: a b) simp_all

lemma crc_feed_xor:
  "length xs = length ys \<Longrightarrow>
    crc_feed (a XOR b) (map2 (XOR) xs ys) = crc_feed a xs XOR crc_feed b ys"
  by (induction xs ys arbitrary: a b rule: list_induct2) (simp_all add: lfsr_octet_xor)

text \<open>
  Two consecutive octets enter the register as one 16-bit value, so the register tells any two
  pairs of octets apart: every error confined to sixteen consecutive bits is detected.
\<close>

lemma lfsr_pow_push_bit: "n \<le> 8 \<Longrightarrow> (lfsr ^^ n) (push_bit 8 (ucast (b :: byte))) = push_bit (8 - n) (ucast b)"
proof (induction n)
  case (Suc n)
  then have "even (push_bit (8 - n) (ucast b :: short))"
    by (simp add: bit_simps flip: bit_0)
  moreover have "drop_bit 1 (push_bit (8 - n) (ucast b :: short)) = push_bit (8 - Suc n) (ucast b)"
    using Suc.prems by (intro bit_word_eqI) (auto simp: bit_simps dest: bit_imp_le_length)
  ultimately show ?case
    using Suc by (simp add: lfsr_def)
qed simp

lemma crc_feed_pair:
  "crc_feed c [x, y] = (lfsr ^^ 16) (c XOR short_of_bytes y x)"
proof -
  have "short_of_bytes y x = ucast x XOR push_bit 8 (ucast y)"
    unfolding byte_simps by (rule bit_word_eqI) (auto simp: bit_simps dest: bit_imp_le_length)
  moreover have "(lfsr ^^ 8) (push_bit 8 (ucast y)) = (ucast y :: short)"
    using lfsr_pow_push_bit [of 8 y] by simp
  moreover have "(lfsr ^^ 16) v = (lfsr ^^ 8) ((lfsr ^^ 8) v)" for v
    by (simp flip: funpow_add add: funpow_add [symmetric, THEN fun_cong, unfolded o_apply])
  ultimately show ?thesis
    by (simp add: lfsr_octet_def lfsr_pow_xor ac_simps)
qed

lemma crc_feed_pair_inject [simp]:
  "crc_feed c [x, y] = crc_feed c [x', y'] \<longleftrightarrow> x = x' \<and> y = y'"
  unfolding crc_feed_pair by auto

subsection \<open>The contract the frames rely on\<close>

text \<open>
  What a protocol needs of its checksum: it is a function of the bytes, a difference inside one
  window of two bytes always shows, and bytes that follow never hide a difference.
\<close>

locale checksum =
  fixes crc :: "byte list \<Rightarrow> short"
  assumes window: "crc (p @ [x, y]) = crc (p @ [x', y']) \<longleftrightarrow> x = x' \<and> y = y'"
    and suffix: "length p = length q \<Longrightarrow> crc (p @ s) = crc (q @ s) \<longleftrightarrow> crc p = crc q"
begin

lemma pair_detected: "crc (p @ x # y # s) = crc (p @ x' # y' # s) \<longleftrightarrow> x = x' \<and> y = y'"
  using suffix [of "p @ [x, y]" "p @ [x', y']" s] window by simp

lemma last_byte_detected: "crc (p @ [x]) = crc (p @ [x']) \<longleftrightarrow> x = x'"
  using suffix [of "p @ [x]" "p @ [x']" "[0]"] window [of p x 0 x' 0] by simp

lemma byte_detected: "crc (p @ x # s) = crc (p @ x' # s) \<longleftrightarrow> x = x'"
  using suffix [of "p @ [x]" "p @ [x']" s] last_byte_detected by simp

lemma update_detected:
  assumes "i < length p"
  shows "crc (p[i := x]) = crc p \<longleftrightarrow> x = p ! i"
proof -
  have "p[i := x] = take i p @ x # drop (Suc i) p"
    using assms by (rule upd_conv_take_nth_drop)
  moreover have "p = take i p @ p ! i # drop (Suc i) p"
    using assms by (rule id_take_nth_drop)
  ultimately show ?thesis
    using byte_detected [of "take i p" x "drop (Suc i) p" "p ! i"] by metis
qed

end

interpretation wire: checksum "crc_feed c"
proof
  fix p x y x' y'
  show "crc_feed c (p @ [x, y]) = crc_feed c (p @ [x', y']) \<longleftrightarrow> x = x' \<and> y = y'"
    using crc_feed_pair_inject [of "crc_feed c p" x y x' y'] by simp
next
  fix p q s :: "byte list"
  show "crc_feed c (p @ s) = crc_feed c (q @ s) \<longleftrightarrow> crc_feed c p = crc_feed c q"
    by simp
qed

text \<open>
  C7. \<^verbatim>\<open>crc16\<close> over a message of up to 255 bytes tells apart any two messages of the same length that
  differ only inside two consecutive bytes: damage confined to sixteen consecutive bits that
  start on a byte boundary, and so every damaged single byte, changes the checksum.
\<close>

theorem crc16_detects_pair:
  assumes "length p + 2 + length s \<le> 255"
  shows "crc16 (p @ [x, y] @ s) (of_nat (length p + 2 + length s)) =
      crc16 (p @ [x', y'] @ s) (of_nat (length p + 2 + length s)) \<longleftrightarrow> x = x' \<and> y = y'"
proof -
  have "unat (of_nat k :: byte) = k" if "k \<le> 255" for k
    using that by (simp add: unsigned_of_nat take_bit_nat_eq_self)
  then have "unat (of_nat (length p + 2 + length s) :: byte) = length p + 2 + length s"
    using assms by blast
  then show ?thesis
    using wire.pair_detected [of "0xFFFF" p x y s x' y'] by (simp add: crc16_eq_feed)
qed

theorem crc16_detects_pair_witness:
  "crc16 [7, 1, 2, 3] 4 \<noteq> crc16 [7, 1, 2, 4] 4"
  using crc16_detects_pair [of "[7, 1]" "[]" 2 3 2 4] by simp

end
