(* ===== verification/Serial_Port.thy ===== *)
theory Serial_Port
  imports Wifibot_Prelude "HOL-Library.Sublist"
begin

text \<open>
  The serial line to the motor board: \<^verbatim>\<open>openrs232\<close>, \<^verbatim>\<open>readrs232\<close>, \<^verbatim>\<open>closers232\<close> and
  \<^verbatim>\<open>writers232\<close> of \<^verbatim>\<open>src/raw_server/simple_server_main.c\<close>.

  The operating system is explicit.  What \<^verbatim>\<open>read\<close> answers is a list of results consumed one call
  at a time; an empty list is a call that never returns, and the routine then has no result
  (\<open>None\<close>).  What \<^verbatim>\<open>write\<close> answers is a function of the number of the call.
\<close>

subsection \<open>Configuration of the line\<close>

record termios =
  c_iflag :: cint
  c_oflag :: cint
  c_cflag :: cint
  c_lflag :: cint
  c_cc :: "nat \<Rightarrow> byte"

definition B9600 :: cint where "B9600 = 0x0D"
definition B19200 :: cint where "B19200 = 0x0E"
definition CS8 :: cint where "CS8 = 0x30"
definition CREAD :: cint where "CREAD = 0x80"
definition CLOCAL :: cint where "CLOCAL = 0x800"
definition IGNPAR :: cint where "IGNPAR = 0x4"
definition VTIME :: nat where "VTIME = 5"
definition VMIN :: nat where "VMIN = 6"

lemmas termios_defs = B9600_def B19200_def CS8_def CREAD_def CLOCAL_def IGNPAR_def VTIME_def VMIN_def

datatype serial_error = BaudrateUnsupported int | OpenFailed

text \<open>
  \<open>open_ret\<close> is what \<^verbatim>\<open>open(device, O_RDWR | O_NOCTTY)\<close> returns and \<open>attr\<close> what
  \<^verbatim>\<open>tcgetattr\<close> reads.  The result is the returned descriptor, the settings given to
  \<^verbatim>\<open>tcsetattr\<close> for that descriptor, and the message printed on an error.
\<close>

definition openrs232 ::
  "int \<Rightarrow> int \<Rightarrow> termios \<Rightarrow> int \<times> (int \<times> termios) option \<times> serial_error option" where
  "openrs232 baudrate open_ret attr =
     (let bitrate = (if baudrate = 9600 then B9600 else if baudrate = 19200 then B19200 else 0)
      in if bitrate = 0 then (0, None, Some (BaudrateUnsupported baudrate))
         else let myhUSB = open_ret
              in if myhUSB < 0 then (0, None, Some OpenFailed)
                 else let options = attr\<lparr>c_cflag := ((bitrate OR CS8) OR CREAD) OR CLOCAL,
                            c_iflag := IGNPAR, c_oflag := 0, c_lflag := 0,
                            c_cc := ((c_cc attr)(VMIN := 1))(VTIME := 0)\<rparr>
                      in (myhUSB, Some (myhUSB, options), None))"

subsection \<open>Reading\<close>

datatype read_result = ReadByte byte | ReadEof | ReadErr

text \<open>The value \<^verbatim>\<open>read(hUSB, buffer + kk, 1)\<close> returns.\<close>

fun read_ret :: "read_result \<Rightarrow> cint" where
  "read_ret (ReadByte b) = 1"
| "read_ret ReadEof = 0"
| "read_ret ReadErr = - 1"

fun read_into :: "byte list \<Rightarrow> nat \<Rightarrow> read_result \<Rightarrow> byte list" where
  "read_into buffer kk (ReadByte b) = buffer[kk := b]"
| "read_into buffer kk ReadEof = buffer"
| "read_into buffer kk ReadErr = buffer"

fun readrs232_loop ::
  "nat \<Rightarrow> nat \<Rightarrow> byte list \<Rightarrow> cint \<Rightarrow> read_result list \<Rightarrow> (byte list \<times> cint \<times> read_result list) option"
where
  "readrs232_loop kk 0 buffer n input = Some (buffer, n, input)"
| "readrs232_loop kk (Suc todo) buffer n [] = None"
| "readrs232_loop kk (Suc todo) buffer n (r # input) =
     readrs232_loop (Suc kk) todo (read_into buffer kk r) (n + read_ret r) input"

text \<open>
  The result is the returned value, the buffer, the counter \<^verbatim>\<open>*lpNumberOfBytesRead\<close> (left alone
  when the port is closed) and the results not yet consumed.
\<close>

definition readrs232 ::
  "int \<Rightarrow> byte list \<Rightarrow> nat \<Rightarrow> cint \<Rightarrow> read_result list \<Rightarrow>
    (int \<times> byte list \<times> cint \<times> read_result list) option"
where
  "readrs232 hUSB buffer nNumberOfBytesToRead n input =
     (if hUSB = 0 then Some (- 1, buffer, n, input)
      else case readrs232_loop 0 nNumberOfBytesToRead buffer 0 input of
             None \<Rightarrow> None
           | Some (buffer', n', input') \<Rightarrow> Some (1, buffer', n', input'))"

subsection \<open>Closing\<close>

text \<open>
  \<^verbatim>\<open>closers232\<close> works on the two global descriptors; the third component is the descriptor
  handed to \<^verbatim>\<open>close\<close>.
\<close>

definition closers232 :: "int \<times> int \<Rightarrow> int \<times> (int \<times> int) \<times> int option" where
  "closers232 h =
     (case h of (hUSB1, hUSB2) \<Rightarrow>
        if hUSB1 = 0 then (0, (hUSB1, hUSB2), None) else (1, (0, 0), Some hUSB1))"

subsection \<open>Writing\<close>

text \<open>
  \<open>w kk\<close> is what the \<open>kk\<close>-th \<^verbatim>\<open>write(hUSB, buffer + kk, 1)\<close> returns; the byte goes out on the
  line when that is 1.  The result is the counter and the bytes on the line.
\<close>

fun writers232_loop :: "(nat \<Rightarrow> cint) \<Rightarrow> nat \<Rightarrow> byte list \<Rightarrow> cint \<Rightarrow> byte list \<Rightarrow> cint \<times> byte list" where
  "writers232_loop w kk [] n line = (n, line)"
| "writers232_loop w kk (b # bs) n line =
     writers232_loop w (Suc kk) bs (n + w kk) (if w kk = 1 then line @ [b] else line)"

definition writers232 ::
  "(nat \<Rightarrow> cint) \<Rightarrow> int \<Rightarrow> byte list \<Rightarrow> nat \<Rightarrow> cint \<Rightarrow> int \<times> cint \<times> byte list"
where
  "writers232 w hUSB buffer nNumberOfBytesToWrite n =
     (if hUSB = 0 then (0, n, [])
      else case writers232_loop w 0 (take nNumberOfBytesToWrite buffer) 0 [] of
             (n', line) \<Rightarrow> (if n' \<ge> 0 then 1 else 0, n', line))"

subsection \<open>Facts\<close>

lemma openrs232_ok:
  assumes "baudrate \<in> {9600, 19200}" "0 \<le> fd"
  shows "fst (openrs232 baudrate fd attr) = fd"
    and "\<exists>opts. fst (snd (openrs232 baudrate fd attr)) = Some (fd, opts) \<and> c_cc opts VMIN = 1"
  using assms by (auto simp: openrs232_def termios_defs Let_def)

lemma openrs232_error: "snd (snd (openrs232 b fd attr)) \<noteq> None \<Longrightarrow> fst (openrs232 b fd attr) = 0"
  by (auto simp: openrs232_def Let_def split: if_splits)

lemma read_into_length [simp]: "length (read_into buffer kk r) = length buffer"
  by (cases r) simp_all

lemma readrs232_loop_length:
  "readrs232_loop kk todo buffer n input = Some (buffer', n', input') \<Longrightarrow> length buffer' = length buffer"
  by (induction kk todo buffer n input rule: readrs232_loop.induct) auto

lemma readrs232_length: "readrs232 h buffer k n input = Some (r, buffer', n', input') \<Longrightarrow> length buffer' = length buffer"
  by (auto simp: readrs232_def split: if_splits option.splits dest: readrs232_loop_length)

text \<open>The call never reports failure by 0: it answers 1 on an open port and -1 on a closed one.\<close>

lemma readrs232_ret: "readrs232 h buffer k n input = Some (r, out) \<Longrightarrow> r = (if h = 0 then - 1 else 1)"
  by (auto simp: readrs232_def split: if_splits option.splits)

lemma readrs232_loop_bytes:
  "kk + length bs \<le> length buffer \<Longrightarrow>
   readrs232_loop kk (length bs) buffer n (map ReadByte bs @ rest) =
     Some (take kk buffer @ bs @ drop (kk + length bs) buffer, n + of_nat (length bs), rest)"
proof (induction bs arbitrary: kk buffer n)
  case (Cons b bs)
  then have "take (Suc kk) (buffer[kk := b]) = take kk buffer @ [b]"
    by (simp add: take_Suc_conv_app_nth)
  with Cons show ?case by (simp add: add_ac)
qed simp

lemma readrs232_bytes:
  assumes "h \<noteq> 0" "length bs \<le> length buffer"
  shows "readrs232 h buffer (length bs) n (map ReadByte bs @ rest) =
    Some (1, overwrite bs buffer, of_nat (length bs), rest)"
  using assms readrs232_loop_bytes [of 0 bs buffer 0 rest]
  by (simp add: readrs232_def overwrite_def)

lemma readrs232_byte:
  "h \<noteq> 0 \<Longrightarrow> buffer \<noteq> [] \<Longrightarrow> readrs232 h buffer 1 n (r # rest) = Some (1, read_into buffer 0 r, read_ret r, rest)"
  by (simp add: readrs232_def)

lemma writers232_loop_ok:
  "(\<And>i. kk \<le> i \<Longrightarrow> i < kk + length bs \<Longrightarrow> w i = 1) \<Longrightarrow>
    writers232_loop w kk bs n line = (n + of_nat (length bs), line @ bs)"
proof (induction bs arbitrary: kk n line)
  case (Cons b bs)
  have "w kk = 1" by (rule Cons.prems) simp_all
  moreover have "writers232_loop w (Suc kk) bs (n + 1) (line @ [b]) = (n + 1 + of_nat (length bs), (line @ [b]) @ bs)"
    by (rule Cons.IH) (simp add: Cons.prems)
  ultimately show ?case by (simp add: add_ac)
qed simp

text \<open>When every \<^verbatim>\<open>write\<close> succeeds the whole prefix goes out, in order.\<close>

lemma writers232_ok:
  assumes "h \<noteq> 0" "k \<le> length buffer" "\<And>i. i < k \<Longrightarrow> w i = 1"
  shows "writers232 w h buffer k n = (1, of_nat k, take k buffer)"
  using assms writers232_loop_ok [of 0 "take k buffer" w 0 "[]"]
  by (simp add: writers232_def)

lemma writers232_loop_subseq:
  "subseq (snd (writers232_loop w kk bs n line)) (line @ bs)"
proof (induction w kk bs n line rule: writers232_loop.induct)
  case (2 w kk b bs n line)
  have "subseq (line @ bs) (line @ b # bs)" by (intro list_emb_append_mono) auto
  with 2 show ?case
    by (cases "w kk = 1") (auto intro: subseq_order.trans)
qed simp

end
