(* ===== verification/Motor_Frames.thy ===== *)
theory Motor_Frames
  imports Crc16 Serial_Port
begin

text \<open>
  The frames exchanged with the motor board (\<^verbatim>\<open>src/raw_server/simple_server_main.c\<close>): the three
  routines that build and send a command (\<^verbatim>\<open>SetRS232Motor33f_low_res\<close>, \<^verbatim>\<open>SetRS232Motor33f\<close>,
  \<^verbatim>\<open>SetRS232MotorPID33f\<close>), \<^verbatim>\<open>StopMotorRS23233f\<close>, and the telemetry reader
  \<^verbatim>\<open>GetRS232Motor33f\<close>.
\<close>

subsection \<open>Command frames\<close>

text \<open>
  A routine that sends fills the front of a local buffer and hands it to \<open>writers232\<close>; the
  counter argument \<open>n\<close> is the uninitialised local whose address is passed.  The frame itself is
  a definition of its own, so that it can be compared with what a receiver decodes.
\<close>

definition low_res_flags :: "byte \<Rightarrow> byte \<Rightarrow> byte" where
  "low_res_flags speed1 speed2 =
     (let tt = 0;
          tt = (if speed2 AND 0x80 \<noteq> 0 then tt + 32 else tt);
          tt = (if speed2 AND 0x40 \<noteq> 0 then tt + 16 else tt)
      in (speed1 AND 0x80) + (speed1 AND 0x40) + tt)"

definition motor_frame_low_res :: "byte \<Rightarrow> byte \<Rightarrow> byte list" where
  [frame_defs]: "motor_frame_low_res speed1 speed2 =
     (let tmp1 = 8 * (ucast speed1 AND 0x3F) :: cint;
          tmp2 = 8 * (ucast speed2 AND 0x3F) :: cint;
          sbuf = [255, 0x07, uchar_of_int tmp1, uchar_of_int_shr8 tmp1,
                  uchar_of_int tmp2, uchar_of_int_shr8 tmp2,
                  low_res_flags speed1 speed2];
          mycrcsend = crc16 (drop 1 sbuf) 6
      in sbuf @ [uchar_of_short mycrcsend, uchar_of_short_shr8 mycrcsend])"

definition SetRS232Motor33f_low_res ::
  "(nat \<Rightarrow> cint) \<Rightarrow> int \<Rightarrow> byte \<Rightarrow> byte \<Rightarrow> cint \<Rightarrow> int \<times> cint \<times> byte list"
where
  "SetRS232Motor33f_low_res w hUSB speed1 speed2 n =
     writers232 w hUSB (motor_frame_low_res speed1 speed2) 9 n"

definition motor_frame :: "short \<Rightarrow> short \<Rightarrow> byte \<Rightarrow> byte list" where
  [frame_defs]: "motor_frame speed1 speed2 SpeedFlag =
     (let sbuf = [255, 0x07, uchar_of_short speed1, uchar_of_short_shr8 speed1,
                  uchar_of_short speed2, uchar_of_short_shr8 speed2, SpeedFlag];
          mycrcsend = crc16 (drop 1 sbuf) 6
      in sbuf @ [uchar_of_short mycrcsend, uchar_of_short_shr8 mycrcsend])"

definition SetRS232Motor33f ::
  "(nat \<Rightarrow> cint) \<Rightarrow> int \<Rightarrow> short \<Rightarrow> short \<Rightarrow> byte \<Rightarrow> cint \<Rightarrow> int \<times> cint \<times> byte list"
where
  "SetRS232Motor33f w hUSB speed1 speed2 SpeedFlag n =
     writers232 w hUSB (motor_frame speed1 speed2 SpeedFlag) 9 n"

definition pid_frame :: "byte \<Rightarrow> byte \<Rightarrow> byte \<Rightarrow> byte \<Rightarrow> byte \<Rightarrow> short \<Rightarrow> byte list" where
  [frame_defs]: "pid_frame speed1 speed2 pp ii dd maxspeed =
     (let sbuf = [255, 0x09, speed1, speed2, pp, ii, dd,
                  uchar_of_short maxspeed, uchar_of_short_shr8 maxspeed];
          mycrcsend = crc16 (drop 1 sbuf) 8
      in sbuf @ [uchar_of_short mycrcsend, uchar_of_short_shr8 mycrcsend])"

definition SetRS232MotorPID33f ::
  "(nat \<Rightarrow> cint) \<Rightarrow> int \<Rightarrow> byte \<Rightarrow> byte \<Rightarrow> byte \<Rightarrow> byte \<Rightarrow> byte \<Rightarrow> short \<Rightarrow> cint \<Rightarrow> int \<times> cint \<times> byte list"
where
  "SetRS232MotorPID33f w hUSB speed1 speed2 pp ii dd maxspeed n =
     writers232 w hUSB (pid_frame speed1 speed2 pp ii dd maxspeed) 11 n"

text \<open>
  \<^verbatim>\<open>StopMotorRS23233f\<close> ignores its argument and stops through both global descriptors; the
  result is the returned value and what went out on each line.
\<close>

definition StopMotorRS23233f ::
  "(nat \<Rightarrow> cint) \<Rightarrow> (nat \<Rightarrow> cint) \<Rightarrow> int \<Rightarrow> int \<Rightarrow> int \<Rightarrow> cint \<Rightarrow> int \<times> byte list \<times> byte list"
where
  "StopMotorRS23233f w1 w2 hUSB hUSB1 hUSB2 n =
     (let r1 = SetRS232Motor33f_low_res w1 hUSB1 0 0 n;
          r2 = SetRS232Motor33f_low_res w2 hUSB2 0 0 n
      in (1, snd (snd r1), snd (snd r2)))"

subsection \<open>The check a receiver makes\<close>

text \<open>
  The condition of \<^verbatim>\<open>Thread_TCP_Trooper_In\<close>: the two bytes behind the payload, least
  significant first, are the checksum of the payload behind the start byte.
\<close>

definition frame_ok :: "byte list \<Rightarrow> bool" where
  "frame_ok f \<longleftrightarrow> short_of_bytes (f ! 8) (f ! 7) = crc16 (drop 1 f) 6"

definition pid_frame_ok :: "byte list \<Rightarrow> bool" where
  "pid_frame_ok f \<longleftrightarrow> short_of_bytes (f ! 10) (f ! 9) = crc16 (drop 1 f) 8"

lemma frame_ok_feed: "9 \<le> length f \<Longrightarrow>
    frame_ok f \<longleftrightarrow> short_of_bytes (f ! 8) (f ! 7) = crc_feed 0xFFFF (take 6 (drop 1 f))"
  by (simp add: frame_ok_def crc16_eq_feed)

lemma crc16_6_append: "length p = 6 \<Longrightarrow> crc16 (p @ q) 6 = crc16 p 6"
  by (simp add: crc16_eq_feed)

lemma crc16_8_append: "length p = 8 \<Longrightarrow> crc16 (p @ q) 8 = crc16 p 8"
  by (simp add: crc16_eq_feed)

lemma sealed_frame_ok:
  assumes "length p = 6"
  shows "frame_ok (h # p @ [uchar_of_short (crc16 p 6), uchar_of_short_shr8 (crc16 p 6)])"
  using assms crc16_6_append [of p] by (simp add: frame_ok_def nth_Cons' nth_append)

lemma sealed_pid_frame_ok:
  assumes "length p = 8"
  shows "pid_frame_ok (h # p @ [uchar_of_short (crc16 p 8), uchar_of_short_shr8 (crc16 p 8)])"
  using assms crc16_8_append [of p] by (simp add: pid_frame_ok_def nth_Cons' nth_append)

lemma motor_frame_ok [simp]: "frame_ok (motor_frame s1 s2 fl)"
  using sealed_frame_ok [of "[7, uchar_of_short s1, uchar_of_short_shr8 s1, uchar_of_short s2, uchar_of_short_shr8 s2, fl]" 255]
  by (simp add: motor_frame_def Let_def)

lemma motor_frame_low_res_ok [simp]: "frame_ok (motor_frame_low_res s1 s2)"
  unfolding motor_frame_low_res_def Let_def
  using sealed_frame_ok [of "[7, _, _, _, _, _]" 255] by simp

lemma pid_frame_pid_ok [simp]: "pid_frame_ok (pid_frame s1 s2 pp ii dd m)"
  unfolding pid_frame_def Let_def
  using sealed_pid_frame_ok [of "[9, _, _, _, _, _, _, _]" 255] by simp

lemma length_frames [simp]:
  "length (motor_frame_low_res s1 s2) = 9"
  "length (motor_frame t1 t2 fl) = 9"
  "length (pid_frame s1 s2 pp ii dd m) = 11"
  by (simp_all add: motor_frame_low_res_def motor_frame_def pid_frame_def Let_def)

subsection \<open>What the motor board reads out of a low-resolution command\<close>

text \<open>
  The board reads a 16-bit magnitude per side and a flag byte: bit 7 and bit 6 are the
  direction and regulation bits of the left side, bits 5 and 4 those of the right side.
  Reading a command back this way recovers both arguments of the C call.
\<close>

definition decode_low_res :: "byte list \<Rightarrow> byte \<times> byte" where
  "decode_low_res f =
     (let flags = f ! 6
      in (ucast (drop_bit 3 (short_of_bytes (f ! 3) (f ! 2))) OR (flags AND 0xC0),
          ucast (drop_bit 3 (short_of_bytes (f ! 5) (f ! 4))) OR push_bit 2 (flags AND 0x30)))"

lemma byte_int_split: "short_of_bytes (uchar_of_int_shr8 t) (uchar_of_int t) = ucast t"
  unfolding byte_simps uchar_of_int_def uchar_of_int_shr8_def
  by (rule bit_word_eqI) (auto simp: bit_simps)

lemma magnitude_bits: "bit (8 * (ucast (s :: byte) AND 0x3F) :: cint) n \<longleftrightarrow> 3 \<le> n \<and> n < 9 \<and> bit s (n - 3)"
proof -
  have "8 * (ucast s AND 0x3F) = push_bit 3 (take_bit 6 (ucast s :: cint))"
    by (simp add: push_bit_eq_mult take_bit_eq_mask mask_numeral mult.commute)
  then show ?thesis
    by (auto simp: bit_simps dest: bit_imp_le_length)
qed

lemma byte_and_exp: "(s :: byte) AND 2 ^ k = (if bit s k then 2 ^ k else 0)"
  by (rule bit_word_eqI) (auto simp: bit_simps)

lemma byte_and_flags:
  "(s :: byte) AND 0x80 = (if bit s 7 then 0x80 else 0)"
  "(s :: byte) AND 0x40 = (if bit s 6 then 0x40 else 0)"
  using byte_and_exp [of s 7] byte_and_exp [of s 6] by simp_all

lemma byte_and_C0: "(s :: byte) AND 0xC0 = (s AND 2 ^ 7) OR (s AND 2 ^ 6)"
proof -
  have "(0xC0 :: byte) = 2 ^ 7 OR 2 ^ 6" by simp
  then show ?thesis by (metis bit.conj_disj_distrib)
qed

lemma bit_and_exp: "bit ((s :: byte) AND 2 ^ k) n \<longleftrightarrow> n = k \<and> bit s n"
  by (auto simp: bit_simps dest: bit_imp_le_length)

lemma bit_and_C0: "bit ((s :: byte) AND 0xC0) n \<longleftrightarrow> (n = 6 \<or> n = 7) \<and> bit s n"
  unfolding byte_and_C0 bit_or_iff bit_and_exp by auto

lemma low_res_flags_split:
  "low_res_flags s1 s2 AND 0xC0 = s1 AND 0xC0"
  "push_bit 2 (low_res_flags s1 s2 AND 0x30) = s2 AND 0xC0"
  unfolding low_res_flags_def Let_def byte_and_C0 byte_and_flags byte_and_exp
  by (cases "bit s1 7"; cases "bit s1 6"; cases "bit s2 7"; cases "bit s2 6"; simp)+

lemma low_res_magnitude:
  "ucast (drop_bit 3 (ucast (8 * (ucast (s :: byte) AND 0x3F) :: cint) :: short)) OR (s AND 0xC0) = s"
proof (rule bit_word_eqI)
  fix n assume "n < LENGTH(8)"
  then have "n < 6 \<or> n = 6 \<or> n = 7" by fastforce
  then show "bit (ucast (drop_bit 3 (ucast (8 * (ucast s AND 0x3F) :: cint) :: short)) OR (s AND 0xC0)) n = bit s n"
    unfolding bit_or_iff bit_and_C0 by (auto simp: bit_simps magnitude_bits)
qed

text \<open>
  The low-resolution command loses nothing: reading magnitudes and flags back out of the frame that
  \<^verbatim>\<open>SetRS232Motor33f_low_res\<close> builds gives both of its arguments, for all 65536 pairs of them.
\<close>

theorem decode_low_res_frame: "decode_low_res (motor_frame_low_res s1 s2) = (s1, s2)"
  unfolding decode_low_res_def motor_frame_low_res_def Let_def
  by (simp add: byte_int_split low_res_flags_split low_res_magnitude del: push_bit_and)

end
