(* ===== verification/Telemetry.thy ===== *)
theory Telemetry
  imports Motor_Frames "HOL-Library.Monad_Syntax"
begin

text \<open>
  The telemetry reader \<^verbatim>\<open>GetRS232Motor33f\<close> of \<^verbatim>\<open>src/raw_server/simple_server_main.c\<close> and the
  structure \<^verbatim>\<open>SensorData\<close> of \<^verbatim>\<open>src/raw_server/wifibot.h\<close>.  The routine first skips bytes until a
  start byte 255, then reads 21 bytes: 19 bytes of measurements and their checksum.
\<close>

subsection \<open>Data\<close>

text \<open>\<^verbatim>\<open>odometry\<close> is a 32-bit \<^verbatim>\<open>long\<close>, so it is kept at its width; the other fields cannot overflow.\<close>

record SensorData =
  SpeedFront :: int
  robot_voltage :: int
  IR :: int
  IR2 :: int
  odometry :: cint
  robot_current :: int
  robot_version :: int

definition speed_of_bytes :: "byte \<Rightarrow> byte \<Rightarrow> int" where
  "speed_of_bytes hi lo =
     (let v = sint (push_bit 8 (ucast hi :: cint) + ucast lo)
      in if v > 32767 then v - 65536 else v)"

definition long_of_bytes :: "byte \<Rightarrow> byte \<Rightarrow> byte \<Rightarrow> byte \<Rightarrow> cint" where
  "long_of_bytes b3 b2 b1 b0 =
     push_bit 24 (ucast b3) + push_bit 16 (ucast b2) + push_bit 8 (ucast b1) + ucast b0"

definition store_left :: "byte list \<Rightarrow> SensorData \<Rightarrow> SensorData" where
  "store_left sbuf dataL = dataL
     \<lparr>SpeedFront := speed_of_bytes (sbuf ! 1) (sbuf ! 0),
      robot_voltage := uint (sbuf ! 2), IR := uint (sbuf ! 3), IR2 := uint (sbuf ! 4),
      odometry := long_of_bytes (sbuf ! 8) (sbuf ! 7) (sbuf ! 6) (sbuf ! 5),
      robot_current := uint (sbuf ! 17), robot_version := uint (sbuf ! 18)\<rparr>"

definition store_right :: "byte list \<Rightarrow> SensorData \<Rightarrow> SensorData" where
  "store_right sbuf dataR = dataR
     \<lparr>SpeedFront := speed_of_bytes (sbuf ! 10) (sbuf ! 9),
      robot_voltage := uint (sbuf ! 1), IR := uint (sbuf ! 11), IR2 := uint (sbuf ! 12),
      odometry := long_of_bytes (sbuf ! 16) (sbuf ! 15) (sbuf ! 14) (sbuf ! 13),
      robot_current := uint (sbuf ! 17), robot_version := uint (sbuf ! 18)\<rparr>"

subsection \<open>The reader\<close>

text \<open>
  \<^verbatim>\<open>do { r = readrs232(hUSB, sbuf, 1, &n); } while (sbuf[0] != 255 && r);\<close>
  The loop has no bound of its own, so it is an \<open>option\<close>-valued fixed point: \<open>None\<close> when it
  never leaves the loop (or waits for ever inside \<^verbatim>\<open>read\<close>).
\<close>

partial_function (option) sync_loop ::
  "int \<Rightarrow> byte list \<Rightarrow> cint \<Rightarrow> read_result list \<Rightarrow> (int \<times> byte list \<times> cint \<times> read_result list) option"
where
  "sync_loop hUSB sbuf n input =
     Option.bind (readrs232 hUSB sbuf 1 n input)
       (\<lambda>(r, sbuf', n', input').
          if sbuf' ! 0 \<noteq> 255 \<and> r \<noteq> 0 then sync_loop hUSB sbuf' n' input'
          else Some (r, sbuf', n', input'))"

record telemetry =
  dataL :: SensorData
  dataR :: SensorData
  buffso_Raw_Data_Out :: "byte list"

text \<open>The globals \<^verbatim>\<open>dataL\<close>, \<^verbatim>\<open>dataR\<close> and \<^verbatim>\<open>buffso_Raw_Data_Out\<close> before the program runs.\<close>

definition no_data :: SensorData where
  "no_data = \<lparr>SpeedFront = 0, robot_voltage = 0, IR = 0, IR2 = 0, odometry = 0, robot_current = 0, robot_version = 0\<rparr>"

definition telemetry0 :: telemetry where
  "telemetry0 = \<lparr>dataL = no_data, dataR = no_data, buffso_Raw_Data_Out = replicate 21 0\<rparr>"

text \<open>
  \<open>sbuf\<close> (30 bytes) and \<open>n\<close> are the uninitialised locals of the C function.  The result is the
  returned value (always 0), the new measurements and the read results not consumed.
\<close>

definition GetRS232Motor33f ::
  "int \<Rightarrow> byte list \<Rightarrow> cint \<Rightarrow> read_result list \<Rightarrow> telemetry \<Rightarrow>
    (int \<times> telemetry \<times> read_result list) option"
where
  "GetRS232Motor33f hUSB sbuf n input t = do {
     (r, sbuf, n, input) \<leftarrow> sync_loop hUSB sbuf n input;
     (r, sbuf, n, input) \<leftarrow>
       (if r \<noteq> 0 then readrs232 hUSB sbuf 21 n input else Some (r, sbuf, n, input));
     let mycrcrcv = short_of_bytes (sbuf ! 20) (sbuf ! 19);
     let mycrcsend = crc16 sbuf 19;
     if mycrcrcv \<noteq> mycrcsend then do {
       (r, sbuf, n, input) \<leftarrow> sync_loop hUSB sbuf n input;
       Some (0, t, input)
     } else
       Some (0, t\<lparr>dataL := store_left sbuf (dataL t), dataR := store_right sbuf (dataR t),
                  buffso_Raw_Data_Out := take 21 sbuf\<rparr>, input)
   }"

definition telemetry_ok :: "byte list \<Rightarrow> bool" where
  "telemetry_ok f \<longleftrightarrow> length f = 21 \<and> short_of_bytes (f ! 20) (f ! 19) = crc16 f 19"

subsection \<open>What the fields mean\<close>

lemma speed_of_bytes_sint: "speed_of_bytes hi lo = sint (short_of_bytes hi lo)"
proof -
  define w where "w = short_of_bytes hi lo"
  have "push_bit 8 (ucast hi :: cint) + ucast lo = ucast w"
    unfolding push_bit_plus_ucast w_def byte_simps
    by (rule bit_word_eqI) (auto simp: bit_simps dest: bit_imp_le_length)
  moreover have "sint (ucast w :: cint) = uint w"
    by (simp add: sint_uint signed_take_bit_eq_take_bit_shift take_bit_eq_mod unsigned_ucast_eq)
       (use uint_lt2p [of w] in simp)
  moreover have "sint w = (if uint w > 32767 then uint w - 65536 else uint w)"
  proof -
    have "sint w = (uint w + 32768) mod 65536 - 32768"
      by (simp add: sint_uint signed_take_bit_eq_take_bit_shift take_bit_eq_mod)
    moreover have "0 \<le> uint w" "uint w < 65536"
      using uint_lt2p [of w] by simp_all
    moreover have "(uint w + 32768) mod 65536 = (if uint w > 32767 then uint w - 32768 else uint w + 32768)"
    proof (cases "uint w > 32767")
      case True
      have "(uint w + 32768) mod 65536 = (uint w - 32768) mod 65536"
        using mod_add_self2 [of "uint w - 32768" "65536 :: int"] by (simp add: add.commute)
      then show ?thesis using True \<open>uint w < 65536\<close> by simp
    next
      case False
      then show ?thesis using \<open>0 \<le> uint w\<close> by simp
    qed
    ultimately show ?thesis by simp
  qed
  ultimately show ?thesis
    by (simp add: speed_of_bytes_def Let_def w_def)
qed

lemma long_of_bytes_bits:
  "bit (long_of_bytes b3 b2 b1 b0) n \<longleftrightarrow>
     (if n < 8 then bit b0 n else if n < 16 then bit b1 (n - 8)
      else if n < 24 then bit b2 (n - 16) else n < 32 \<and> bit b3 (n - 24))"
proof -
  have 1: "push_bit 24 (ucast b3 :: cint) + push_bit 16 (ucast b2) = push_bit 24 (ucast b3) OR push_bit 16 (ucast b2)"
    by (rule disjunctive_add) (auto simp: bit_simps dest: bit_imp_le_length)
  have 2: "(push_bit 24 (ucast b3 :: cint) OR push_bit 16 (ucast b2)) + push_bit 8 (ucast b1) =
      (push_bit 24 (ucast b3) OR push_bit 16 (ucast b2)) OR push_bit 8 (ucast b1)"
    by (rule disjunctive_add) (auto simp: bit_simps dest: bit_imp_le_length)
  have 3: "((push_bit 24 (ucast b3 :: cint) OR push_bit 16 (ucast b2)) OR push_bit 8 (ucast b1)) + ucast b0 =
      ((push_bit 24 (ucast b3) OR push_bit 16 (ucast b2)) OR push_bit 8 (ucast b1)) OR ucast b0"
    by (rule disjunctive_add) (auto simp: bit_simps dest: bit_imp_le_length)
  show ?thesis
    unfolding long_of_bytes_def 1 2 3
    by (auto simp: bit_simps dest: bit_imp_le_length)
qed

lemma long_of_bytes_split:
  "long_of_bytes (ucast (drop_bit 24 w)) (ucast (drop_bit 16 w)) (ucast (drop_bit 8 w)) (ucast w) = w"
  by (rule bit_word_eqI) (auto simp: long_of_bytes_bits bit_simps)

subsection \<open>Synchronisation\<close>

text \<open>
  On a closed port \<^verbatim>\<open>readrs232\<close> answers -1, which the loop condition takes for success: unless
  the uninitialised buffer happens to hold the start byte, the loop never ends.
\<close>

lemma sync_loop_closed:
  assumes "sbuf ! 0 \<noteq> 255"
  shows "sync_loop 0 sbuf n input = None"
proof (rule ccontr)
  assume "sync_loop 0 sbuf n input \<noteq> None"
  then obtain out where out: "sync_loop 0 sbuf n input = Some out" by blast
  have "hUSB = 0 \<longrightarrow> sbuf ! 0 = 255" if "sync_loop hUSB sbuf n input = Some out" for hUSB
  proof (rule sync_loop.raw_induct [where P = "\<lambda>hUSB sbuf n input out. hUSB = 0 \<longrightarrow> sbuf ! 0 = 255", OF _ that])
    fix f hUSB sbuf n input out
    assume IH: "\<And>hUSB sbuf n input out. f hUSB sbuf n input = Some out \<Longrightarrow> hUSB = (0::int) \<longrightarrow> sbuf ! 0 = (255::byte)"
      and eq: "Option.bind (readrs232 hUSB sbuf 1 n input)
        (\<lambda>(r, sbuf', n', input'). if sbuf' ! 0 \<noteq> 255 \<and> r \<noteq> 0 then f hUSB sbuf' n' input'
           else Some (r, sbuf', n', input')) = Some out"
    show "hUSB = 0 \<longrightarrow> sbuf ! 0 = 255"
      using eq IH by (auto simp: readrs232_def split: if_splits)
  qed
  with out assms show False by blast
qed

lemma sync_loop_step:
  assumes "hUSB \<noteq> 0" "sbuf \<noteq> []"
  shows "sync_loop hUSB sbuf n (ReadByte b # input) =
    (if b = 255 then Some (1, sbuf[0 := 255], 1, input) else sync_loop hUSB (sbuf[0 := b]) 1 input)"
  using assms by (subst sync_loop.simps) (auto simp: readrs232_byte simp del: One_nat_def)

text \<open>On an open port the loop ends at the first start byte, having dropped what came before.\<close>

lemma sync_loop_finds:
  assumes "hUSB \<noteq> 0" "sbuf \<noteq> []" "255 \<notin> set junk"
  shows "sync_loop hUSB sbuf n (map ReadByte junk @ ReadByte 255 # input) =
    Some (1, sbuf[0 := 255], 1, input)"
  using assms(2,3)
proof (induction junk arbitrary: sbuf n)
  case Nil
  then show ?case using assms(1) by (simp add: sync_loop_step)
next
  case (Cons b junk)
  then show ?case using assms(1) by (simp add: sync_loop_step)
qed

subsection \<open>A whole record\<close>

lemma crc16_19_take: "21 \<le> length s \<Longrightarrow> crc16 (take 21 s) 19 = crc16 s 19"
  by (simp add: crc16_eq_feed)

text \<open>
  C14. On an open port \<^verbatim>\<open>GetRS232Motor33f\<close> skips any bytes before the start byte and then, when the 21
  bytes that follow carry their checksum, stores their fields on both sides, publishes exactly
  those 21 bytes and leaves the input right behind them.
\<close>

theorem GetRS232Motor33f_good:
  assumes "hUSB \<noteq> 0" "length sbuf = 30" "255 \<notin> set junk" "telemetry_ok f"
  shows "GetRS232Motor33f hUSB sbuf n (map ReadByte junk @ ReadByte 255 # map ReadByte f @ input) t =
    Some (0, t\<lparr>dataL := store_left f (dataL t), dataR := store_right f (dataR t),
               buffso_Raw_Data_Out := f\<rparr>, input)"
proof -
  from assms(4) have f: "length f = 21" "short_of_bytes (f ! 20) (f ! 19) = crc16 f 19"
    by (simp_all add: telemetry_ok_def)
  let ?s = "overwrite f (sbuf[0 := 255])"
  have s: "?s ! i = f ! i" if "i < 21" for i
    using that f(1) assms(2) by (simp add: nth_overwrite)
  have take_s: "take 21 ?s = f" using f(1) by simp
  have crc: "crc16 ?s 19 = crc16 f 19"
    using crc16_19_take [of ?s] take_s f(1) assms(2) by simp
  have "readrs232 hUSB (sbuf[0 := 255]) 21 1 (map ReadByte f @ input) = Some (1, ?s, 21, input)"
    using readrs232_bytes [of hUSB f "sbuf[0 := 255]" 1 input] f(1) assms(1,2) by simp
  moreover have "sbuf \<noteq> []" using assms(2) by auto
  ultimately show ?thesis
    using assms(1,3) f(2)
    by (simp add: GetRS232Motor33f_def sync_loop_finds crc s take_s store_left_def store_right_def Let_def)
qed

definition sample_record :: "byte list" where
  "sample_record = (let p = [44, 1, 120, 0, 0, 1, 2, 0, 0, 200, 255, 0, 0, 9, 9, 0, 0, 3, 1]
     in p @ [uchar_of_short (crc16 p 19), uchar_of_short_shr8 (crc16 p 19)])"

lemma sample_record_ok: "telemetry_ok sample_record"
  by (simp add: telemetry_ok_def sample_record_def Let_def crc16_eq_feed del: short_of_bytes_inject)

theorem GetRS232Motor33f_good_witness:
  "map_option (\<lambda>(r, t, rest). (SpeedFront (dataL t), SpeedFront (dataR t), odometry (dataL t), rest))
     (GetRS232Motor33f 3 (replicate 30 0) 0 (map ReadByte [1, 2] @ ReadByte 255 # map ReadByte sample_record @ [ReadEof]) telemetry0) =
   Some (300, - 56, 513, [ReadEof])"
proof -
  have "speed_of_bytes 1 44 = 300" "speed_of_bytes 255 200 = - 56" "long_of_bytes 0 0 2 1 = 513"
    by (simp_all add: speed_of_bytes_def long_of_bytes_def push_bit_eq_mult)
  then show ?thesis
    using GetRS232Motor33f_good [of 3 "replicate 30 0" "[1, 2]" sample_record 0 "[ReadEof]" telemetry0] sample_record_ok
    by (simp add: store_left_def store_right_def sample_record_def Let_def)
qed

text \<open>
  Whatever arrives, the published record is either left alone together with the measurements,
  or replaced by 21 bytes that carry their checksum.
\<close>

lemma sync_loop_length:
  assumes "sync_loop hUSB sbuf n input = Some (r, sbuf', n', input')"
  shows "length sbuf' = length sbuf"
proof -
  have "length (fst (snd (r, sbuf', n', input'))) = length sbuf"
  proof (rule sync_loop.raw_induct [where P = "\<lambda>_ sbuf _ _ out. length (fst (snd out)) = length sbuf", OF _ assms])
    fix f hUSB sbuf n input out
    assume IH: "\<And>hUSB sbuf n input out. f hUSB sbuf n input = Some out \<Longrightarrow> length (fst (snd out)) = length (sbuf :: byte list)"
      and eq: "Option.bind (readrs232 hUSB sbuf 1 n input)
        (\<lambda>(r, sbuf', n', input'). if sbuf' ! 0 \<noteq> 255 \<and> r \<noteq> 0 then f hUSB sbuf' n' input'
           else Some (r, sbuf', n', input')) = Some out"
    then show "length (fst (snd out)) = length sbuf"
      by (auto simp: bind_eq_Some_conv dest!: readrs232_length IH split: if_splits)
  qed
  then show ?thesis by simp
qed

lemma GetRS232Motor33f_cases:
  assumes "GetRS232Motor33f hUSB sbuf n input t = Some (ret, t', input')" "length sbuf = 30"
  shows "ret = 0 \<and> (t' = t \<or>
    (telemetry_ok (buffso_Raw_Data_Out t') \<and>
     dataL t' = store_left (buffso_Raw_Data_Out t') (dataL t) \<and>
     dataR t' = store_right (buffso_Raw_Data_Out t') (dataR t)))"
proof -
  have published: "telemetry_ok (take 21 s) \<and> store_left s = store_left (take 21 s) \<and> store_right s = store_right (take 21 s)"
    if "short_of_bytes (s ! 20) (s ! 19) = crc16 s 19" "length s = 30" for s
    using that by (auto simp: telemetry_ok_def crc16_19_take store_left_def store_right_def fun_eq_iff)
  obtain r1 s1 n1 i1 where sync: "sync_loop hUSB sbuf n input = Some (r1, s1, n1, i1)"
    using assms(1) by (auto simp: GetRS232Motor33f_def bind_eq_Some_conv)
  then obtain r2 s2 n2 i2 where rd:
      "(if r1 \<noteq> 0 then readrs232 hUSB s1 21 n1 i1 else Some (r1, s1, n1, i1)) = Some (r2, s2, n2, i2)"
    using assms(1) by (auto simp: GetRS232Motor33f_def bind_eq_Some_conv simp del: split_paired_Ex)
  have "length s2 = 30"
    using rd sync assms(2) by (auto dest!: readrs232_length sync_loop_length split: if_splits)
  with assms(1) sync rd published [of s2] show ?thesis
    by (auto simp: GetRS232Motor33f_def Let_def bind_eq_Some_conv split: if_splits)
qed

text \<open>
  C15. When the serial port could not be opened, its descriptor is 0 and \<^verbatim>\<open>GetRS232Motor33f\<close> does not return,
  whatever is still to be read, unless the byte its uninitialised local buffer starts with happens to
  be the start byte 255: the answer -1 of \<^verbatim>\<open>readrs232\<close> counts as success in the loop
  that waits for the start byte, and the buffer never changes.
\<close>

theorem GetRS232Motor33f_closed_port_hangs:
  "GetRS232Motor33f (fst (openrs232 19200 (- 1) attr)) sbuf n input t = None \<longleftrightarrow> sbuf ! 0 \<noteq> 255"
proof (cases "sbuf ! 0 = 255")
  case True
  then show ?thesis
    by (auto simp: GetRS232Motor33f_def openrs232_def readrs232_def sync_loop.simps [of 0] Let_def)
next
  case False
  then show ?thesis
    using sync_loop_closed [OF False] by (simp add: GetRS232Motor33f_def openrs232_def)
qed

theorem GetRS232Motor33f_closed_port_hangs_witness:
  "GetRS232Motor33f 0 (replicate 30 0) 0 [ReadByte 255] telemetry0 = None"
  using GetRS232Motor33f_closed_port_hangs [of "\<lparr>c_iflag = 0, c_oflag = 0, c_cflag = 0, c_lflag = 0, c_cc = \<lambda>_. 0\<rparr>" "replicate 30 0"]
  by (simp add: openrs232_def termios_defs)

end
