(* ===== verification/C_Strings.thy ===== *)
theory C_Strings
  imports Wifibot_Prelude "HOL-Library.Sublist"
begin

text \<open>
  The part of the C string library the sources call.  A C string is the list of its characters
  without the terminating NUL; a \<^verbatim>\<open>char\<close> array is a list that may hold NULs, and \<open>cstr\<close> is the
  string it holds.  Functions that return a pointer into their argument return the rest of the
  string from there (\<open>None\<close> for a null pointer).
\<close>

subsection \<open>Searching\<close>

definition NUL :: char where "NUL = CHR 0x00"

definition cstr :: "string \<Rightarrow> string" where
  "cstr buf = takeWhile (\<lambda>c. c \<noteq> NUL) buf"

definition cstr_bytes :: "byte list \<Rightarrow> byte list" where
  "cstr_bytes buf = takeWhile (\<lambda>b. b \<noteq> 0) buf"

definition bytes_of :: "string \<Rightarrow> byte list" where
  "bytes_of s = map of_char s"

fun strstr :: "'a list \<Rightarrow> 'a list \<Rightarrow> 'a list option" where
  "strstr [] pat = (if pat = [] then Some [] else None)"
| "strstr (c # cs) pat = (if prefix pat (c # cs) then Some (c # cs) else strstr cs pat)"

fun strchr :: "'a list \<Rightarrow> 'a \<Rightarrow> 'a list option" where
  "strchr [] c = None"
| "strchr (x # xs) c = (if x = c then Some (x # xs) else strchr xs c)"

definition strspn :: "'a list \<Rightarrow> 'a list \<Rightarrow> nat" where
  "strspn s accept = length (takeWhile (\<lambda>c. c \<in> set accept) s)"

lemma strstr_Some: "strstr s pat = Some r \<Longrightarrow> \<exists>pre suf. s = pre @ r \<and> r = pat @ suf"
proof (induction s)
  case (Cons c cs)
  show ?case
  proof (cases "prefix pat (c # cs)")
    case True
    with Cons.prems show ?thesis by (auto simp: prefix_def intro: exI [of _ "[]"])
  next
    case False
    with Cons obtain pre suf where "cs = pre @ r" "r = pat @ suf" by auto
    then have "c # cs = (c # pre) @ r" by simp
    with \<open>r = pat @ suf\<close> show ?thesis by blast
  qed
qed (simp split: if_splits)

lemma strstr_prefix: "strstr (pat @ s) pat = Some (pat @ s)"
  by (metis strstr.elims prefixI prefix_Nil)

lemma strstr_append_Some: "\<exists>r. strstr (pre @ pat @ suf) pat = Some r"
  by (induction pre) (auto simp: strstr_prefix)

lemma strstr_None_iff: "strstr s pat = None \<longleftrightarrow> \<not> sublist pat s"
proof -
  have "sublist pat s" if "strstr s pat = Some r" for r
    using strstr_Some [OF that] by (auto simp: sublist_def)
  moreover have "strstr s pat \<noteq> None" if "sublist pat s"
    using that strstr_append_Some by (fastforce simp: sublist_def)
  ultimately show ?thesis by (cases "strstr s pat") auto
qed

lemma strstr_length: "strstr s pat = Some r \<Longrightarrow> length r \<le> length s"
  by (auto dest: strstr_Some)

lemma strchr_None_iff: "strchr s c = None \<longleftrightarrow> c \<notin> set s"
  by (induction s) auto

lemma strchr_Some: "strchr s c = Some r \<Longrightarrow> \<exists>pre suf. s = pre @ r \<and> r = c # suf \<and> c \<notin> set pre"
proof (induction s)
  case (Cons x xs)
  show ?case
  proof (cases "x = c")
    case True
    with Cons.prems show ?thesis by (auto intro: exI [of _ "[]"])
  next
    case False
    with Cons obtain pre suf where "xs = pre @ r" "r = c # suf" "c \<notin> set pre" by auto
    with False have "x # xs = (x # pre) @ r" "c \<notin> set (x # pre)" by auto
    with \<open>r = c # suf\<close> show ?thesis by blast
  qed
qed simp

lemma take_strspn: "take (strspn s accept) s = takeWhile (\<lambda>c. c \<in> set accept) s"
  by (metis strspn_def takeWhile_eq_take)

lemma set_take_strspn: "k \<le> strspn s accept \<Longrightarrow> set (take k s) \<subseteq> set accept"
proof -
  assume "k \<le> strspn s accept"
  then have "take k s = take k (takeWhile (\<lambda>c. c \<in> set accept) s)"
    by (metis min.absorb1 take_strspn take_take)
  then show ?thesis by (metis set_takeWhileD set_take_subset subset_iff)
qed

subsection \<open>Numbers\<close>

definition LONG_MAX :: int where "LONG_MAX = 2147483647"
definition LONG_MIN :: int where "LONG_MIN = - 2147483648"

text \<open>The values of an \<^verbatim>\<open>int\<close>.\<close>

definition int_ok :: "int \<Rightarrow> bool" where
  "int_ok i \<longleftrightarrow> LONG_MIN \<le> i \<and> i \<le> LONG_MAX"

lemmas long_defs = LONG_MAX_def LONG_MIN_def

definition is_digit :: "char \<Rightarrow> bool" where
  "is_digit c \<longleftrightarrow> (48 :: nat) \<le> of_char c \<and> of_char c \<le> (57 :: nat)"

definition digit_val :: "char \<Rightarrow> int" where
  "digit_val c = int (of_char c) - 48"

definition is_space :: "char \<Rightarrow> bool" where
  "is_space c \<longleftrightarrow> c = CHR '' '' \<or> c \<in> {CHR 0x09, CHR 0x0A, CHR 0x0B, CHR 0x0C, CHR 0x0D}"

definition digits_val :: "string \<Rightarrow> int" where
  "digits_val ds = foldl (\<lambda>a c. 10 * a + digit_val c) 0 ds"

text \<open>
  \<^verbatim>\<open>strtol(s, &end, 10)\<close>: the value, saturated to the range of \<^verbatim>\<open>long\<close>, and where it stopped
  (the argument itself when there are no digits).
\<close>

definition strtol :: "string \<Rightarrow> int \<times> string" where
  "strtol s =
     (let t = dropWhile is_space s;
          neg = (t \<noteq> [] \<and> hd t = CHR ''-'');
          u = (if t \<noteq> [] \<and> (hd t = CHR ''-'' \<or> hd t = CHR ''+'') then tl t else t);
          ds = takeWhile is_digit u;
          v = (if neg then - digits_val ds else digits_val ds)
      in if ds = [] then (0, s) else (max LONG_MIN (min LONG_MAX v), dropWhile is_digit u))"

definition atoi :: "string \<Rightarrow> int" where
  "atoi s = fst (strtol s)"

fun show_nat :: "nat \<Rightarrow> string" where
  "show_nat n = (if n < 10 then [char_of (48 + n)] else show_nat (n div 10) @ [char_of (48 + n mod 10)])"

declare show_nat.simps [simp del]

text \<open>\<^verbatim>\<open>%d\<close> and \<^verbatim>\<open>%06d\<close>.\<close>

definition show_int :: "int \<Rightarrow> string" where
  "show_int i = (if i < 0 then CHR ''-'' # show_nat (nat (- i)) else show_nat (nat i))"

definition show_int_06 :: "int \<Rightarrow> string" where
  "show_int_06 i =
     (let s = show_nat (nat \<bar>i\<bar>); w = (if i < 0 then 5 else 6)
      in (if i < 0 then ''-'' else '''') @ replicate (w - length s) (CHR ''0'') @ s)"

lemma strtol_range: "LONG_MIN \<le> fst (strtol s) \<and> fst (strtol s) \<le> LONG_MAX"
  by (auto simp: strtol_def Let_def long_defs)

lemma atoi_range: "LONG_MIN \<le> atoi s \<and> atoi s \<le> LONG_MAX"
  unfolding atoi_def by (rule strtol_range)

subsection \<open>Printing and reading back\<close>

lemma char_of_digit: "d < 10 \<Longrightarrow> is_digit (char_of (48 + d :: nat)) \<and> digit_val (char_of (48 + d)) = int d"
  by (simp add: is_digit_def digit_val_def)

lemma show_nat_ne [simp]: "show_nat n \<noteq> []"
  by (subst show_nat.simps) simp

lemma show_nat_digits: "c \<in> set (show_nat n) \<Longrightarrow> is_digit c"
proof (induction n rule: show_nat.induct)
  case (1 n)
  show ?case
  proof (cases "n < 10")
    case True
    with 1 show ?thesis by (simp add: show_nat.simps [of n] char_of_digit)
  next
    case False
    with "1.prems" have "c \<in> set (show_nat (n div 10)) \<or> c = char_of (48 + n mod 10)"
      by (auto simp: show_nat.simps [of n])
    with "1.IH" False show ?thesis using char_of_digit [of "n mod 10"] by auto
  qed
qed

lemma digits_val_snoc: "digits_val (ds @ [c]) = 10 * digits_val ds + digit_val c"
  by (simp add: digits_val_def)

lemma digits_val_show_nat: "digits_val (show_nat n) = int n"
proof (induction n rule: show_nat.induct)
  case (1 n)
  show ?case
  proof (cases "n < 10")
    case True
    then show ?thesis
      by (subst show_nat.simps) (simp add: digits_val_def char_of_digit)
  next
    case False
    then have "digits_val (show_nat n) = 10 * int (n div 10) + int (n mod 10)"
      by (subst show_nat.simps) (simp add: digits_val_snoc char_of_digit 1)
    then show ?thesis by presburger
  qed
qed

text \<open>What \<^verbatim>\<open>%d\<close> prints, \<^verbatim>\<open>strtol\<close> reads back.\<close>

lemma is_digit_not_sign: "is_digit c \<Longrightarrow> c \<noteq> CHR ''-'' \<and> c \<noteq> CHR ''+'' \<and> \<not> is_space c"
  by (auto simp: is_digit_def is_space_def)

lemma show_nat_hd: "\<exists>c cs. show_nat n = c # cs \<and> is_digit c"
  by (metis list.exhaust list.set_intros(1) show_nat_digits show_nat_ne)

lemma takeWhile_show_nat:
  assumes "r = [] \<or> \<not> is_digit (hd r)"
  shows "takeWhile is_digit (show_nat n @ r) = show_nat n" "dropWhile is_digit (show_nat n @ r) = r"
proof -
  have "takeWhile is_digit r = [] \<and> dropWhile is_digit r = r"
    using assms by (cases r) auto
  then show "takeWhile is_digit (show_nat n @ r) = show_nat n" "dropWhile is_digit (show_nat n @ r) = r"
    by (simp_all add: show_nat_digits takeWhile_append2 dropWhile_append2)
qed

lemma strtol_show_int:
  assumes "LONG_MIN \<le> i" "i \<le> LONG_MAX" "r = [] \<or> \<not> is_digit (hd r)"
  shows "strtol (show_int i @ r) = (i, r)"
proof (cases "i < 0")
  case True
  have "is_space (CHR ''-'') = False" by (simp add: is_space_def)
  with True assms show ?thesis
    using takeWhile_show_nat [OF assms(3), of "nat (- i)"]
    by (simp add: strtol_def show_int_def Let_def digits_val_show_nat)
next
  case False
  obtain c cs where c: "show_nat (nat i) = c # cs" "is_digit c" using show_nat_hd by blast
  then have "dropWhile is_space (show_nat (nat i) @ r) = show_nat (nat i) @ r"
    using is_digit_not_sign by simp
  moreover have "hd (show_nat (nat i) @ r) \<noteq> CHR ''-''" "hd (show_nat (nat i) @ r) \<noteq> CHR ''+''"
    using c is_digit_not_sign by auto
  ultimately show ?thesis
    using False assms takeWhile_show_nat [OF assms(3), of "nat i"]
    by (simp add: strtol_def show_int_def Let_def digits_val_show_nat)
qed

lemma atoi_show_int: "LONG_MIN \<le> i \<Longrightarrow> i \<le> LONG_MAX \<Longrightarrow> atoi (show_int i) = i"
  using strtol_show_int [of i "[]"] by (simp add: atoi_def)

end
