(* ===== verification/Robot_Server.thy ===== *)
theory Robot_Server
  imports Telemetry C_Strings
begin

text \<open>
  The robot server \<^verbatim>\<open>src/raw_server/simple_server_main.c\<close>: five threads over the global variables
  of \<^verbatim>\<open>src/raw_server/wifibot.h\<close>.  The globals are one record; an iteration of a thread's loop,
  from the return of the system call it blocks in to the next such call, is one operation on
  that record.  Everything handed to the network and the thread library is appended to the log
  \<open>events\<close>, every byte put on the serial line to \<open>line\<close>.
\<close>

subsection \<open>State\<close>

datatype tcp_phase = TcpOpening | TcpListening | TcpServing

datatype net_event =
    Bind int nat | Listen int | Send int "byte list" | SendTo int "byte list"
  | Shutdown int | Close int | Sleep nat
  | PthreadCreate nat | PthreadCancel nat

record robot =
  debug :: int
  simu :: int
  dog :: int
  connected :: int
  watchdog :: int
  cycles :: int
  servermode :: int
  speed1 :: byte
  speed2 :: byte
  buffso_Raw_Data_In :: "byte list"
  tele :: telemetry
  buffso_send :: "byte list"
  buffso_rcvIN :: "byte list"
  buffso_rcvOUT :: "byte list"
  buffso_sendOUT :: "byte list"
  recvMsgSize :: int
  servSock :: int
  clntSock :: int
  socket_tcp :: int
  socket_in :: int
  socket_out :: int
  hUSB1 :: int
  hUSB2 :: int
  tcp :: tcp_phase
  events :: "net_event list"
  line :: "byte list"

definition emit :: "net_event list \<Rightarrow> robot \<Rightarrow> robot" where
  "emit es s = s\<lparr>events := events s @ es\<rparr>"

text \<open>The globals before \<^verbatim>\<open>main\<close> runs.\<close>

definition globals0 :: robot where
  "globals0 = \<lparr>debug = 0, simu = 0, dog = 0, connected = 0, watchdog = 0, cycles = 0, servermode = 0,
     speed1 = 0, speed2 = 0, buffso_Raw_Data_In = replicate 9 0,
     tele = telemetry0,
     buffso_send = replicate 30 0, buffso_rcvIN = replicate 100 0, buffso_rcvOUT = replicate 100 0,
     buffso_sendOUT = replicate 100 0, recvMsgSize = 0, servSock = 0, clntSock = 0, socket_tcp = 0,
     socket_in = 0, socket_out = 0, hUSB1 = 0, hUSB2 = 0, tcp = TcpOpening, events = [], line = []\<rparr>"

subsection \<open>main\<close>

text \<open>
  \<open>create i\<close> is what the \<^verbatim>\<open>pthread_create\<close> for \<^verbatim>\<open>thread[i]\<close> returns, \<open>sigquit\<close> and \<open>sigint\<close>
  what the two \<^verbatim>\<open>sigaction\<close> calls return.  \<open>Inl\<close> is \<^verbatim>\<open>exit\<close> with its code.
\<close>

fun launch :: "(nat \<Rightarrow> int) \<Rightarrow> nat list \<Rightarrow> robot \<Rightarrow> int + robot" where
  "launch create [] s = Inr s"
| "launch create (i # is) s =
     (if create i \<noteq> 0 then Inl 1 else launch create is (emit [PthreadCreate i] s))"

datatype main_error = NullArgument | Exit int

definition main_init :: "string list \<Rightarrow> (nat \<Rightarrow> int) \<Rightarrow> int \<Rightarrow> int \<Rightarrow> robot \<Rightarrow> main_error + robot" where
  "main_init argv create sigquit sigint s =
     (let s = s\<lparr>buffso_send := (buffso_send s)[0 := 0, 1 := 0, 2 := 0, 3 := 0, 4 := 0, 5 := 0, 6 := 0]\<rparr>
      in if length argv < 2 then Inl NullArgument
         else let s = s\<lparr>debug := atoi (argv ! 1)\<rparr>
              in case launch create [11, 4, 0, 1, 2] s of
                   Inl e \<Rightarrow> Inl (Exit e)
                 | Inr s \<Rightarrow>
                     if sigquit \<noteq> 0 then Inl (Exit 1)
                     else if sigint \<noteq> 0 then Inl (Exit 1)
                     else Inr s)"

text \<open>The keyboard loop of \<^verbatim>\<open>main\<close>: one \<^verbatim>\<open>getchar\<close>.\<close>

definition main_key :: "char \<Rightarrow> robot \<Rightarrow> robot" where
  "main_key c s = (if c = CHR ''p'' then s\<lparr>speed1 := speed1 s + 10\<rparr> else s)"

subsection \<open>Thread_TCP\<close>

definition tcp_open :: "int \<Rightarrow> robot \<Rightarrow> robot" where
  "tcp_open socket_ret s =
     emit [Bind socket_ret 15020] (s\<lparr>socket_tcp := socket_ret, tcp := TcpListening\<rparr>)"

definition tcp_accept :: "int \<Rightarrow> robot \<Rightarrow> robot" where
  "tcp_accept accept_ret s =
     emit [Listen (socket_tcp s)] (s\<lparr>clntSock := accept_ret, tcp := TcpServing\<rparr>)"

text \<open>What \<^verbatim>\<open>recv\<close> and \<^verbatim>\<open>recvfrom\<close> return: a count below 1, or that many bytes.\<close>

datatype recv_result = RecvFail int | RecvData "byte list"

definition tcp_serve :: "robot \<Rightarrow> robot" where
  "tcp_serve s =
     (let s = s\<lparr>connected := 1, dog := 0\<rparr>
      in if debug s = 0 then
           emit [Send (clntSock s) (take 21 (buffso_Raw_Data_Out (tele s)))] (s\<lparr>watchdog := 0, cycles := 3\<rparr>)
         else if debug s = 1 \<or> debug s = 3 then
           let s = s\<lparr>buffso_send := (buffso_send s)[0 := word_of_int (simu s)]\<rparr>;
               s = s\<lparr>simu := simu s + 1\<rparr>;
               s = (if simu s = 160 then s\<lparr>simu := 0\<rparr> else s)
           in emit [Send (clntSock s) (take 7 (buffso_send s))] s
         else s)"

text \<open>
  A \<^verbatim>\<open>recv\<close> in the inner loop.  A count below 1 leaves the loop: the connection is shut down
  twice, closed, and the thread goes back to \<^verbatim>\<open>listen\<close>.
\<close>

fun tcp_recv :: "recv_result \<Rightarrow> robot \<Rightarrow> robot" where
  "tcp_recv (RecvFail n) s =
     emit [Shutdown (clntSock s), Shutdown (clntSock s), Close (clntSock s), Sleep 1]
       (s\<lparr>recvMsgSize := n, connected := 0, tcp := TcpListening\<rparr>)"
| "tcp_recv (RecvData d) s =
     tcp_serve (s\<lparr>recvMsgSize := int (length d), buffso_Raw_Data_In := overwrite d (buffso_Raw_Data_In s)\<rparr>)"

subsection \<open>Thread_TCP_Trooper_In\<close>

definition udp_in_open :: "int \<Rightarrow> robot \<Rightarrow> robot" where
  "udp_in_open socket_ret s = emit [Bind socket_ret 15000] (s\<lparr>socket_in := socket_ret\<rparr>)"

definition received :: "recv_result \<Rightarrow> byte list" where
  "received r = (case r of RecvFail _ \<Rightarrow> [] | RecvData d \<Rightarrow> d)"

definition udp_in :: "recv_result \<Rightarrow> robot \<Rightarrow> robot" where
  "udp_in r s =
     (let s = s\<lparr>buffso_rcvIN := overwrite (received r) (buffso_rcvIN s)\<rparr>
      in if frame_ok (buffso_rcvIN s)
         then s\<lparr>watchdog := 0, buffso_Raw_Data_In := take 9 (buffso_rcvIN s), cycles := 3, servermode := 0\<rparr>
         else s)"

subsection \<open>Thread_TCP_Trooper_Out\<close>

definition udp_out_open :: "int \<Rightarrow> robot \<Rightarrow> robot" where
  "udp_out_open socket_ret s = emit [Bind socket_ret 15010] (s\<lparr>socket_out := socket_ret\<rparr>)"

definition clear_out :: "robot \<Rightarrow> robot" where
  "clear_out s = s\<lparr>tele := (tele s)\<lparr>buffso_Raw_Data_Out := replicate 21 0\<rparr>\<rparr>"

definition reseal_out :: "byte list \<Rightarrow> byte list" where
  "reseal_out f =
     (let mycrcsend = crc16 f 18
      in f[19 := uchar_of_short mycrcsend, 20 := uchar_of_short_shr8 mycrcsend])"

text \<open>The answer to one datagram, up to the end of the loop body.\<close>

definition udp_out_answer :: "recv_result \<Rightarrow> robot \<Rightarrow> robot" where
  "udp_out_answer r s =
     (let s = s\<lparr>buffso_rcvOUT := overwrite (received r) (buffso_rcvOUT s)\<rparr>;
          text = cstr_bytes (buffso_rcvOUT s)
      in if strstr text (bytes_of ''init'') \<noteq> None then
           let s = s\<lparr>buffso_sendOUT := overwrite (bytes_of ''ok'' @ [0]) (buffso_sendOUT s)\<rparr>
           in emit [SendTo (socket_out s) (take 3 (buffso_sendOUT s))] s
         else if strstr text (bytes_of ''data'') \<noteq> None then
           let out = reseal_out (buffso_Raw_Data_Out (tele s));
               s = s\<lparr>tele := (tele s)\<lparr>buffso_Raw_Data_Out := out\<rparr>\<rparr>
           in emit [SendTo (socket_out s) (take 21 out)] s
         else s)"

text \<open>The loop clears the record before it waits again.\<close>

definition udp_out :: "recv_result \<Rightarrow> robot \<Rightarrow> robot" where
  "udp_out r s = clear_out (udp_out_answer r s)"

subsection \<open>Thread_RS232_33f\<close>

text \<open>
  \<open>fd1\<close> and \<open>fd2\<close> are what the two \<^verbatim>\<open>open\<close> calls return; \<open>w\<close> and \<open>w'\<close> answer the writes of the
  two initial commands.
\<close>

definition rs232_start :: "int \<Rightarrow> int \<Rightarrow> termios \<Rightarrow> (nat \<Rightarrow> cint) \<Rightarrow> (nat \<Rightarrow> cint) \<Rightarrow> cint \<Rightarrow> robot \<Rightarrow> robot" where
  "rs232_start fd1 fd2 attr w w' n s =
     (let s = s\<lparr>hUSB1 := fst (openrs232 19200 fd1 attr)\<rparr>;
          s = emit [Close (hUSB1 s), Sleep 8] s;
          s = s\<lparr>hUSB1 := fst (openrs232 19200 fd2 attr)\<rparr>;
          s = s\<lparr>speed1 := 0, speed2 := 0\<rparr>;
          s = s\<lparr>line := line s @ snd (snd (SetRS232Motor33f_low_res w (hUSB1 s) 0 0 n))\<rparr>;
          s = s\<lparr>line := line s @ snd (snd (SetRS232MotorPID33f w' (hUSB1 s) 0 0 80 45 0 360 n))\<rparr>
      in s)"

definition driveraw :: "(nat \<Rightarrow> cint) \<Rightarrow> cint \<Rightarrow> robot \<Rightarrow> robot" where
  "driveraw w n s =
     s\<lparr>line := line s @ snd (snd (writers232 w (hUSB1 s) (buffso_Raw_Data_In s) 9 n))\<rparr>"

text \<open>One turn of the loop; \<open>None\<close> when it does not come back from the serial line.\<close>

definition rs232_iter ::
  "(nat \<Rightarrow> cint) \<Rightarrow> cint \<Rightarrow> byte list \<Rightarrow> read_result list \<Rightarrow> robot \<Rightarrow> robot option"
where
  "rs232_iter w n sbuf input s =
     (let s = driveraw w n s
      in case GetRS232Motor33f (hUSB1 s) sbuf n input (tele s) of
           None \<Rightarrow> None
         | Some (ret, t, rest) \<Rightarrow> Some (s\<lparr>tele := t\<rparr>))"

subsection \<open>Thread_Dog\<close>

text \<open>
  One turn of the watchdog, every half second; \<open>create_ret\<close> is what \<^verbatim>\<open>pthread_create\<close> returns
  when the TCP thread is restarted.  \<open>None\<close> is \<^verbatim>\<open>exit(1)\<close>.
\<close>

definition dog_stop :: "robot \<Rightarrow> robot" where
  "dog_stop s =
     (let s = s\<lparr>speed1 := 0, speed2 := 0\<rparr>
      in s\<lparr>buffso_Raw_Data_In := (buffso_Raw_Data_In s)
             [2 := speed1 s, 3 := drop_bit 8 (speed1 s), 4 := speed2 s, 5 := drop_bit 8 (speed2 s)]\<rparr>)"

definition Thread_Dog :: "int \<Rightarrow> robot \<Rightarrow> robot option" where
  "Thread_Dog create_ret s =
     (if watchdog s < cycles s then Some (s\<lparr>watchdog := watchdog s + 1\<rparr>)
      else if watchdog s = cycles s then
        let s = dog_stop s
        in if connected s \<noteq> 0 then
             let s = emit [PthreadCancel 0, Shutdown (clntSock s), Close (clntSock s),
                           Close (servSock s), Close (socket_tcp s), Sleep 4] (s\<lparr>connected := 0\<rparr>)
             in if create_ret \<noteq> 0 then None
                else Some (emit [PthreadCreate 0] (s\<lparr>tcp := TcpOpening\<rparr>))
           else Some s
      else Some s)"

subsection \<open>gestionnaire\<close>

datatype signal = SIGQUIT | SIGINT

text \<open>
  \<open>wa\<close> answers the writes of the first stop command on the two descriptors, \<open>wb\<close> those of the
  second one; \<open>line\<close> is what reaches the robot's own board, on \<open>hUSB1\<close>.
\<close>

fun gestionnaire ::
  "(nat \<Rightarrow> cint) \<times> (nat \<Rightarrow> cint) \<Rightarrow> (nat \<Rightarrow> cint) \<times> (nat \<Rightarrow> cint) \<Rightarrow> cint \<Rightarrow> signal \<Rightarrow> robot \<Rightarrow> robot"
where
  "gestionnaire wa wb n SIGQUIT s = s"
| "gestionnaire wa wb n SIGINT s =
     (let r = StopMotorRS23233f (fst wa) (snd wa) (hUSB1 s) (hUSB1 s) (hUSB2 s) n;
          s = emit [Close (hUSB1 s)] (s\<lparr>line := line s @ fst (snd r)\<rparr>);
          r = StopMotorRS23233f (fst wb) (snd wb) (hUSB2 s) (hUSB1 s) (hUSB2 s) n;
          s = emit [Close (hUSB2 s)] (s\<lparr>line := line s @ fst (snd r)\<rparr>)
      in s)"

subsection \<open>Interleaving of the threads\<close>

text \<open>
  A run of the server is a sequence of thread turns in any order.  The guards are what the
  system calls promise: \<^verbatim>\<open>recv\<close> and \<^verbatim>\<open>recvfrom\<close> deliver no more than they were asked for, and the
  TCP thread is where its phase says.
\<close>

datatype robot_event =
    Key char
  | TcpOpen int | TcpAccept int | TcpRecv recv_result
  | UdpInOpen int | UdpIn recv_result
  | UdpOutOpen int | UdpOut recv_result
  | SerialStart int int termios "nat \<Rightarrow> cint" "nat \<Rightarrow> cint" cint
  | SerialTurn "nat \<Rightarrow> cint" cint "byte list" "read_result list"
  | DogTick int
  | Signal "(nat \<Rightarrow> cint) \<times> (nat \<Rightarrow> cint)" "(nat \<Rightarrow> cint) \<times> (nat \<Rightarrow> cint)" cint signal

fun recv_ok :: "nat \<Rightarrow> recv_result \<Rightarrow> bool" where
  "recv_ok k (RecvFail n) \<longleftrightarrow> n < 1"
| "recv_ok k (RecvData d) \<longleftrightarrow> length d \<le> k"

inductive robot_step :: "robot \<Rightarrow> robot_event \<Rightarrow> robot \<Rightarrow> bool" where
  key: "robot_step s (Key c) (main_key c s)"
| tcp_open: "tcp s = TcpOpening \<Longrightarrow> robot_step s (TcpOpen r) (tcp_open r s)"
| tcp_accept: "tcp s = TcpListening \<Longrightarrow> robot_step s (TcpAccept r) (tcp_accept r s)"
| tcp_recv: "\<lbrakk>tcp s = TcpServing; recv_ok 9 r; r \<noteq> RecvData []\<rbrakk> \<Longrightarrow> robot_step s (TcpRecv r) (tcp_recv r s)"
| udp_in_open: "robot_step s (UdpInOpen r) (udp_in_open r s)"
| udp_in: "recv_ok 9 r \<Longrightarrow> robot_step s (UdpIn r) (udp_in r s)"
| udp_out_open: "robot_step s (UdpOutOpen r) (clear_out (udp_out_open r s))"
| udp_out: "recv_ok 21 r \<Longrightarrow> robot_step s (UdpOut r) (udp_out r s)"
| serial_start: "robot_step s (SerialStart fd1 fd2 attr w w' n) (rs232_start fd1 fd2 attr w w' n s)"
| serial_turn: "\<lbrakk>length sbuf = 30; rs232_iter w n sbuf input s = Some s'\<rbrakk> \<Longrightarrow> robot_step s (SerialTurn w n sbuf input) s'"
| dog_tick: "Thread_Dog r s = Some s' \<Longrightarrow> robot_step s (DogTick r) s'"
| signal: "robot_step s (Signal wa wb n g) (gestionnaire wa wb n g s)"

inductive_cases robot_step_DogE: "robot_step s (DogTick r) s'"
inductive_simps robot_step_UdpIn: "robot_step s (UdpIn r) s'"
inductive_simps robot_step_TcpRecv: "robot_step s (TcpRecv r) s'"
inductive_simps robot_step_SerialTurn: "robot_step s (SerialTurn w n sbuf input) s'"

inductive robot_run :: "robot \<Rightarrow> robot_event list \<Rightarrow> robot \<Rightarrow> bool" where
  run_nil: "robot_run s [] s"
| run_cons: "robot_step s e s' \<Longrightarrow> robot_run s' es s'' \<Longrightarrow> robot_run s (e # es) s''"

inductive_simps robot_run_Nil: "robot_run s [] s'"
inductive_simps robot_run_Cons: "robot_run s (e # es) s'"

lemma robot_run_append: "robot_run s es s' \<Longrightarrow> robot_run s' es' s'' \<Longrightarrow> robot_run s (es @ es') s''"
  by (induction rule: robot_run.induct) (auto intro: robot_run.intros)

definition robot_inv :: "robot \<Rightarrow> bool" where
  "robot_inv s \<longleftrightarrow>
     length (buffso_Raw_Data_In s) = 9 \<and> length (buffso_Raw_Data_Out (tele s)) = 21 \<and>
     length (buffso_rcvIN s) = 100 \<and> length (buffso_rcvOUT s) = 100 \<and>
     length (buffso_sendOUT s) = 100 \<and> length (buffso_send s) = 30 \<and>
     0 \<le> watchdog s \<and> watchdog s \<le> cycles s \<and> (cycles s = 0 \<or> cycles s = 3) \<and>
     0 \<le> simu s \<and> simu s < 160 \<and> (connected s = 0 \<or> connected s = 1) \<and>
     set (drop 21 (buffso_rcvOUT s)) \<subseteq> {0}"

text \<open>An event that carries a new order from a client.\<close>

fun is_order :: "robot_event \<Rightarrow> bool" where
  "is_order (TcpRecv (RecvData d)) \<longleftrightarrow> True"
| "is_order (UdpIn r) \<longleftrightarrow> True"
| "is_order _ \<longleftrightarrow> False"

fun is_tick :: "robot_event \<Rightarrow> bool" where
  "is_tick (DogTick r) \<longleftrightarrow> True"
| "is_tick _ \<longleftrightarrow> False"

fun is_tcp_order :: "robot_event \<Rightarrow> bool" where
  "is_tcp_order (TcpRecv (RecvData d)) \<longleftrightarrow> True"
| "is_tcp_order _ \<longleftrightarrow> False"

definition speeds :: "byte list \<Rightarrow> byte list" where
  "speeds f = take 4 (drop 2 f)"

end
