(* ===== verification/Robot_Safety.thy ===== *)
theory Robot_Safety
  imports Robot_Server
begin

text \<open>
  Properties of runs of the robot server: the invariant of the shared variables, the watchdog,
  where the orders sent to the motors come from, and what the checksum still says about them.
\<close>

subsection \<open>Frame facts about the operations\<close>

lemmas robot_ops = emit_def main_key_def tcp_open_def tcp_accept_def tcp_serve_def
  udp_in_open_def udp_in_def udp_out_open_def clear_out_def udp_out_answer_def udp_out_def
  rs232_start_def driveraw_def dog_stop_def Thread_Dog_def

lemma emit_simps [simp]:
  "buffso_Raw_Data_In (emit es s) = buffso_Raw_Data_In s"
  "watchdog (emit es s) = watchdog s" "cycles (emit es s) = cycles s"
  "connected (emit es s) = connected s" "tele (emit es s) = tele s" "robot_inv (emit es s) = robot_inv s"
  "events (emit es s) = events s @ es" "tcp (emit es s) = tcp s" "clntSock (emit es s) = clntSock s"
  by (simp_all add: emit_def robot_inv_def)

lemma length_received [simp]: "recv_ok k r \<Longrightarrow> length (received r) \<le> k"
  by (cases r) (auto simp: received_def)

lemma length_overwrite_received:
  "\<lbrakk>recv_ok k r; k \<le> length buf\<rbrakk> \<Longrightarrow> length (overwrite (received r) buf) = length buf"
  using length_received [of k r] length_overwrite [of "received r" buf] by linarith

lemma length_reseal_out [simp]: "length (reseal_out f) = length f"
  by (simp add: reseal_out_def Let_def)

lemma drop_overwrite [simp]: "length src \<le> k \<Longrightarrow> drop k (overwrite src buf) = drop k buf"
  by (simp add: overwrite_def)

lemma rs232_iterE:
  assumes "rs232_iter w n sbuf input s = Some s'" "length sbuf = 30"
  obtains t where "s' = (driveraw w n s)\<lparr>tele := t\<rparr>"
    "t = tele s \<or> telemetry_ok (buffso_Raw_Data_Out t)"
proof -
  from assms(1) obtain ret t rest where
    "GetRS232Motor33f (hUSB1 (driveraw w n s)) sbuf n input (tele (driveraw w n s)) = Some (ret, t, rest)"
    "s' = (driveraw w n s)\<lparr>tele := t\<rparr>"
    by (auto simp: rs232_iter_def Let_def split: option.splits)
  with GetRS232Motor33f_cases [OF this(1) assms(2)] that show ?thesis
    by (auto simp: driveraw_def)
qed

subsection \<open>Invariant\<close>

lemma inv_tcp_serve: "robot_inv s \<Longrightarrow> robot_inv (tcp_serve s)"
  by (simp add: tcp_serve_def Let_def robot_inv_def emit_def)

lemma inv_udp_in: "\<lbrakk>robot_inv s; recv_ok 9 r\<rbrakk> \<Longrightarrow> robot_inv (udp_in r s)"
  by (simp add: udp_in_def Let_def robot_inv_def length_overwrite_received [where k = 9])

lemma inv_udp_out_answer: "\<lbrakk>robot_inv s; recv_ok 21 r\<rbrakk> \<Longrightarrow> robot_inv (udp_out_answer r s)"
  using length_received [of 21 r]
  by (simp add: udp_out_answer_def Let_def robot_inv_def bytes_of_def emit_def
      length_overwrite_received [where k = 21])

lemma inv_clear_out: "robot_inv s \<Longrightarrow> robot_inv (clear_out s)"
  by (simp add: clear_out_def robot_inv_def)

lemma inv_dog_stop: "robot_inv s \<Longrightarrow> robot_inv (dog_stop s)"
  by (simp add: dog_stop_def Let_def robot_inv_def)

lemma inv_disconnect: "robot_inv s \<Longrightarrow> robot_inv (s\<lparr>connected := 0\<rparr>)"
  by (simp add: robot_inv_def)

lemma inv_phase [simp]:
  "robot_inv (s\<lparr>tcp := p\<rparr>) = robot_inv s" "robot_inv (s\<lparr>recvMsgSize := k\<rparr>) = robot_inv s"
  "robot_inv (s\<lparr>line := l\<rparr>) = robot_inv s" "robot_inv (s\<lparr>hUSB1 := h\<rparr>) = robot_inv s"
  "robot_inv (s\<lparr>speed1 := v1\<rparr>) = robot_inv s" "robot_inv (s\<lparr>speed2 := v2\<rparr>) = robot_inv s"
  "robot_inv (s\<lparr>socket_tcp := fd\<rparr>) = robot_inv s" "robot_inv (s\<lparr>clntSock := fd\<rparr>) = robot_inv s"
  "robot_inv (s\<lparr>socket_in := fd\<rparr>) = robot_inv s" "robot_inv (s\<lparr>socket_out := fd\<rparr>) = robot_inv s"
  "robot_inv (s\<lparr>debug := d\<rparr>) = robot_inv s"
  by (simp_all add: robot_inv_def)

lemma inv_Thread_Dog: "\<lbrakk>robot_inv s; Thread_Dog r s = Some s'\<rbrakk> \<Longrightarrow> robot_inv s'"
  using inv_disconnect [OF inv_dog_stop, of s] inv_dog_stop [of s]
  by (cases "watchdog s < cycles s") (auto simp: Thread_Dog_def Let_def robot_inv_def [of "s\<lparr>watchdog := _\<rparr>"]
        robot_inv_def [of s] split: if_splits)

lemma inv_rs232_iter:
  assumes "robot_inv s" "rs232_iter w n sbuf input s = Some s'" "length sbuf = 30"
  shows "robot_inv s'"
  using assms(2,3)
proof (rule rs232_iterE)
  fix t assume "s' = (driveraw w n s)\<lparr>tele := t\<rparr>" "t = tele s \<or> telemetry_ok (buffso_Raw_Data_Out t)"
  then show ?thesis
    using assms(1) by (elim disjE) (simp_all add: robot_inv_def driveraw_def telemetry_ok_def)
qed

lemma inv_tcp_recv: "\<lbrakk>robot_inv s; recv_ok 9 r\<rbrakk> \<Longrightarrow> robot_inv (tcp_recv r s)"
proof (cases r)
  case (RecvFail n)
  assume "robot_inv s"
  then have "robot_inv (s\<lparr>recvMsgSize := n, connected := 0\<rparr>)" by (simp add: robot_inv_def)
  then show ?thesis using RecvFail by simp
next
  case (RecvData d)
  assume "robot_inv s" "recv_ok 9 r"
  then have "robot_inv (s\<lparr>recvMsgSize := int (length d), buffso_Raw_Data_In := overwrite d (buffso_Raw_Data_In s)\<rparr>)"
    using RecvData by (simp add: robot_inv_def)
  then show ?thesis using RecvData by (simp add: inv_tcp_serve)
qed

lemma inv_gestionnaire: "robot_inv (gestionnaire wa wb n g s) = robot_inv s"
  by (cases g) (simp_all only: gestionnaire.simps Let_def emit_simps inv_phase)

lemma inv_rs232_start: "robot_inv (rs232_start fd1 fd2 attr w w' n s) = robot_inv s"
  by (simp only: rs232_start_def Let_def emit_simps inv_phase)

lemma inv_opens:
  "robot_inv (main_key c s) = robot_inv s" "robot_inv (tcp_open r s) = robot_inv s"
  "robot_inv (tcp_accept r s) = robot_inv s" "robot_inv (udp_in_open r s) = robot_inv s"
  "robot_inv (udp_out_open r s) = robot_inv s"
  by (simp_all add: main_key_def tcp_open_def tcp_accept_def udp_in_open_def udp_out_open_def)

lemma inv_robot_step: "\<lbrakk>robot_step s e s'; robot_inv s\<rbrakk> \<Longrightarrow> robot_inv s'"
  by (induction rule: robot_step.induct)
     (erule (1) inv_Thread_Dog [rotated] inv_rs232_iter [rotated 1] |
      simp add: inv_tcp_recv inv_udp_in inv_udp_out_answer inv_clear_out
        inv_gestionnaire inv_rs232_start inv_opens udp_out_def
        del: gestionnaire.simps tcp_recv.simps)+

lemma inv_robot_run: "\<lbrakk>robot_run s es s'; robot_inv s\<rbrakk> \<Longrightarrow> robot_inv s'"
  by (induction rule: robot_run.induct) (auto dest: inv_robot_step)

lemma inv_launch: "\<lbrakk>launch create is s = Inr s'; robot_inv s\<rbrakk> \<Longrightarrow> robot_inv s'"
  by (induction "is" arbitrary: s) (auto split: if_splits)

lemma inv_globals0: "robot_inv (globals0\<lparr>buffso_send := (buffso_send globals0)[0 := 0, 1 := 0, 2 := 0, 3 := 0, 4 := 0, 5 := 0, 6 := 0], debug := d\<rparr>)"
  by (simp add: robot_inv_def globals0_def telemetry0_def)

lemma inv_main_init: "main_init argv create q i globals0 = Inr s \<Longrightarrow> robot_inv s"
  unfolding main_init_def Let_def
  by (auto split: if_splits sum.splits elim!: inv_launch intro: inv_globals0 [simplified])

subsection \<open>Watchdog\<close>

definition stopped :: "robot \<Rightarrow> bool" where
  "stopped s \<longleftrightarrow> watchdog s = cycles s \<and> speeds (buffso_Raw_Data_In s) = [0, 0, 0, 0] \<and> connected s = 0"

definition time_left :: "robot \<Rightarrow> nat" where
  "time_left s = nat (cycles s - watchdog s)"

text \<open>A list of nine bytes, written out.\<close>

lemma nine_cases:
  assumes "length xs = 9"
  obtains a b c d e f g h i where "xs = [a, b, c, d, e, f, g, h, i]"
  using assms by (auto simp: length_Suc_conv eval_nat_numeral)

lemma dog_stop_In:
  assumes "length (buffso_Raw_Data_In s) = 9"
  shows "buffso_Raw_Data_In (dog_stop s) = (buffso_Raw_Data_In s)[2 := 0, 3 := 0, 4 := 0, 5 := 0]"
    "speeds (buffso_Raw_Data_In (dog_stop s)) = [0, 0, 0, 0]"
proof -
  obtain a b c d e f g h i where "buffso_Raw_Data_In s = [a, b, c, d, e, f, g, h, i]"
    using assms by (rule nine_cases)
  then show "buffso_Raw_Data_In (dog_stop s) = (buffso_Raw_Data_In s)[2 := 0, 3 := 0, 4 := 0, 5 := 0]"
      "speeds (buffso_Raw_Data_In (dog_stop s)) = [0, 0, 0, 0]"
    by (simp_all add: dog_stop_def speeds_def Let_def)
qed

lemma dog_stop_keeps [simp]:
  "watchdog (dog_stop s) = watchdog s" "cycles (dog_stop s) = cycles s" "connected (dog_stop s) = connected s"
  "line (dog_stop s) = line s"
  by (simp_all add: dog_stop_def Let_def)

lemma Thread_Dog_waits: "watchdog s < cycles s \<Longrightarrow> Thread_Dog r s = Some (s\<lparr>watchdog := watchdog s + 1\<rparr>)"
  by (simp add: Thread_Dog_def)

lemma Thread_Dog_fires:
  assumes "Thread_Dog r s = Some s'" "watchdog s = cycles s" "robot_inv s"
  shows "stopped s' \<and> buffso_Raw_Data_In s' = (buffso_Raw_Data_In s)[2 := 0, 3 := 0, 4 := 0, 5 := 0]"
  using assms dog_stop_In [of s]
  by (auto simp: Thread_Dog_def stopped_def Let_def robot_inv_def [of s] split: if_splits)

lemma quiet_step:
  assumes "robot_step s e s'" "\<not> is_order e" "\<not> is_tick e"
  shows "buffso_Raw_Data_In s' = buffso_Raw_Data_In s \<and> watchdog s' = watchdog s \<and> cycles s' = cycles s \<and>
    (connected s' = connected s \<or> connected s' = 0)"
  using assms
proof (induction rule: robot_step.induct)
  case (tcp_recv s r)
  then show ?case by (cases r) auto
next
  case (serial_turn sbuf w n input s s')
  then show ?case by (auto elim!: rs232_iterE simp: driveraw_def)
next
  case (signal s wa wb n g)
  then show ?case by (cases g) (simp_all add: Let_def)
qed (simp_all add: robot_ops Let_def)

lemma quiet_run:
  assumes "robot_run s es s'" "robot_inv s" "list_all (\<lambda>e. \<not> is_order e) es"
  shows "(stopped s \<or> time_left s < length (filter is_tick es) \<longrightarrow> stopped s')"
  using assms
proof (induction rule: robot_run.induct)
  case (run_nil s)
  then show ?case by simp
next
  case (run_cons s e s' es s'')
  have inv': "robot_inv s'" using inv_robot_step [OF run_cons.hyps(1)] run_cons.prems(1) .
  have IH: "stopped s' \<or> time_left s' < length (filter is_tick es) \<longrightarrow> stopped s''"
    using run_cons.IH [OF inv'] run_cons.prems(2) by simp
  show ?case
  proof (cases "is_tick e")
    case False
    with quiet_step [OF run_cons.hyps(1)] run_cons.prems(2) IH show ?thesis
      by (auto simp: stopped_def time_left_def)
  next
    case True
    then obtain r where "Thread_Dog r s = Some s'"
      using run_cons.hyps(1) by (cases e) (auto elim: robot_step_DogE)
    moreover have "watchdog s < cycles s \<or> watchdog s = cycles s"
      using run_cons.prems(1) by (auto simp: robot_inv_def)
    ultimately consider "watchdog s < cycles s" "s' = s\<lparr>watchdog := watchdog s + 1\<rparr>" | "stopped s'"
      using Thread_Dog_fires [of r s s'] run_cons.prems(1) Thread_Dog_waits [of s r] by force
    then show ?thesis
    proof cases
      case 1
      then have "\<not> stopped s" "time_left s = Suc (time_left s')"
        by (simp_all add: stopped_def time_left_def)
      with True IH show ?thesis by simp
    next
      case 2
      with IH show ?thesis by simp
    qed
  qed
qed

lemma time_left_max: "robot_inv s \<Longrightarrow> time_left s \<le> 3"
  by (auto simp: robot_inv_def time_left_def)

subsection \<open>Where orders come from\<close>

lemma frame_ok_take: "9 \<le> length f \<Longrightarrow> frame_ok (take 9 f) = frame_ok f"
  by (simp add: frame_ok_feed drop_take min_def)

definition order_ok :: "byte list \<Rightarrow> bool" where
  "order_ok f \<longleftrightarrow> speeds f = [0, 0, 0, 0] \<or> frame_ok f"

lemma order_ok_udp_in:
  assumes "order_ok (buffso_Raw_Data_In s)" "robot_inv s" "recv_ok 9 r"
  shows "order_ok (buffso_Raw_Data_In (udp_in r s))"
  using assms length_overwrite_received [of 9 r "buffso_rcvIN s"]
  by (simp add: udp_in_def order_ok_def Let_def robot_inv_def frame_ok_take)

lemma order_ok_step:
  assumes "robot_step s e s'" "robot_inv s" "\<not> is_tcp_order e" "order_ok (buffso_Raw_Data_In s)"
  shows "order_ok (buffso_Raw_Data_In s')"
proof (cases "is_order e \<or> is_tick e")
  case False
  with assms quiet_step [OF assms(1)] show ?thesis by simp
next
  case True
  then consider r where "e = UdpIn r" | r where "e = DogTick r"
    using assms(3) by (cases e rule: is_order.cases) auto
  then show ?thesis
  proof cases
    case 1
    with assms show ?thesis by (auto simp: robot_step_UdpIn order_ok_udp_in)
  next
    case 2
    then have dog: "Thread_Dog r s = Some s'" using assms(1) by (auto elim: robot_step_DogE)
    then show ?thesis
      using Thread_Dog_fires [OF dog] Thread_Dog_waits [of s r] assms(2,4)
      by (cases "watchdog s < cycles s") (auto simp: robot_inv_def [of s] stopped_def order_ok_def)
  qed
qed

lemma order_ok_run:
  "\<lbrakk>robot_run s es s'; robot_inv s; list_all (\<lambda>e. \<not> is_tcp_order e) es; order_ok (buffso_Raw_Data_In s)\<rbrakk>
    \<Longrightarrow> order_ok (buffso_Raw_Data_In s')"
  by (induction rule: robot_run.induct) (auto dest: inv_robot_step order_ok_step)

lemma launch_keeps: "launch create is s = Inr s' \<Longrightarrow> buffso_Raw_Data_In s' = buffso_Raw_Data_In s"
  by (induction "is" arbitrary: s) (auto split: if_splits)

lemma order_ok_init: "main_init argv create q i globals0 = Inr s \<Longrightarrow> order_ok (buffso_Raw_Data_In s)"
  unfolding main_init_def Let_def
  by (auto split: if_splits sum.splits dest!: launch_keeps simp: order_ok_def speeds_def globals0_def eval_nat_numeral)

subsection \<open>What the checksum catches\<close>

lemma frame_ok_nine:
  "frame_ok [a, b, c, d, e, f, g, h, i] \<longleftrightarrow> short_of_bytes i h = crc_feed 0xFFFF [b, c, d, e, f, g]"
  by (subst frame_ok_feed) simp_all

lemma frame_ok_corrupted:
  assumes "length f = 9" "frame_ok f" "0 < i" "i < 9" "x \<noteq> f ! i"
  shows "\<not> frame_ok (f[i := x])"
proof -
  have crc: "short_of_bytes (f ! 8) (f ! 7) = crc_feed 0xFFFF (take 6 (drop 1 f))"
    using assms(1,2) frame_ok_feed by simp
  show ?thesis
  proof (cases "i < 7")
    case True
    have "take 6 (drop 1 (f[i := x])) = (take 6 (drop 1 f))[i - 1 := x]"
      using assms(3) True by (simp add: drop_update_swap take_update_swap)
    moreover have "crc_feed 0xFFFF ((take 6 (drop 1 f))[i - 1 := x]) \<noteq> crc_feed 0xFFFF (take 6 (drop 1 f))"
      using assms True by (subst wire.update_detected) (auto simp: nth_drop)
    ultimately show ?thesis
      using crc True assms(1) by (simp add: frame_ok_feed)
  next
    case False
    then have "i = 7 \<or> i = 8" using assms(4) by auto
    moreover have "take 6 (drop 1 (f[i := x])) = take 6 (drop 1 f)"
      using False by (simp add: drop_update_swap)
    ultimately show ?thesis
      using assms(1,5) crc [symmetric] by (auto simp: frame_ok_feed)
  qed
qed

text \<open>
  Zeroing the four speed bytes of a frame changes the register by the checksum of those four
  bytes alone; the checksum bytes of the frame stay valid only when that is 0.
\<close>

lemma frame_ok_zeroed:
  assumes "length f = 9" "frame_ok f"
  shows "frame_ok (f[2 := 0, 3 := 0, 4 := 0, 5 := 0]) \<longleftrightarrow> crc_feed 0 (speeds f) = 0"
proof -
  obtain a b c d e g h i j where f: "f = [a, b, c, d, e, g, h, i, j]"
    using assms(1) by (rule nine_cases)
  let ?r = "crc_feed 0xFFFF [b]"
  have "crc_feed 0xFFFF ([b, c, d, e, g] @ [h]) = crc_feed 0xFFFF ([b, 0, 0, 0, 0] @ [h]) \<longleftrightarrow>
      crc_feed 0xFFFF [b, c, d, e, g] = crc_feed 0xFFFF [b, 0, 0, 0, 0]"
    by (rule wire.suffix) simp
  moreover have "crc_feed ?r [c, d, e, g] XOR crc_feed ?r [0, 0, 0, 0] = crc_feed 0 [c, d, e, g]"
    using crc_feed_xor [of "[c, d, e, g]" "[0, 0, 0, 0]" ?r ?r] by simp
  ultimately show ?thesis
    using assms(2) unfolding f
    by (simp add: frame_ok_nine speeds_def del: crc_feed_inject_state)
       (metis word_xor_eq_0_iff)
qed

lemma crc_feed_0_zeros: "set bs \<subseteq> {0} \<Longrightarrow> crc_feed 0 bs = 0"
  by (induction bs) (auto simp: lfsr_octet_def)

lemma one_side_crc:
  assumes "speeds f = [a, b, 0, 0] \<and> (a, b) \<noteq> (0, 0) \<or> speeds f = [0, 0, a, b] \<and> (a, b) \<noteq> (0, 0)"
  shows "crc_feed 0 (speeds f) \<noteq> 0"
proof -
  have "crc_feed 0 [a, b, 0, 0] = crc_feed 0 [0, 0, 0, 0] \<longleftrightarrow> a = 0 \<and> b = 0"
    using wire.pair_detected [of 0 "[]" a b "[0, 0]" 0 0] by simp
  moreover have "crc_feed 0 [0, 0, a, b] = crc_feed 0 [0, 0, 0, 0] \<longleftrightarrow> a = 0 \<and> b = 0"
    using wire.pair_detected [of 0 "[0, 0]" a b "[]" 0 0] by simp
  moreover have "crc_feed 0 [0, 0, 0, 0] = 0"
    by (rule crc_feed_0_zeros) simp
  ultimately show ?thesis using assms by metis
qed

subsection \<open>The properties\<close>

text \<open>
  C2. Start the server, let its threads run in any order on any input, then let no client send an
  order any more.  After four turns of the watchdog (two seconds) the frame that the serial
  thread keeps sending to the motors carries speed 0 on both sides, and no TCP client is
  counted as connected; whatever else happens meanwhile, this stays so.
\<close>

theorem watchdog_stops_motors:
  assumes "main_init argv create sigquit sigint globals0 = Inr s0" "robot_run s0 es s"
    and "robot_run s es' s'" "list_all (\<lambda>e. \<not> is_order e) es'" "4 \<le> length (filter is_tick es')"
  shows "watchdog s' = cycles s' \<and> speeds (buffso_Raw_Data_In s') = [0, 0, 0, 0] \<and> connected s' = 0"
proof -
  have "robot_inv s" using inv_main_init [OF assms(1)] inv_robot_run [OF assms(2)] by simp
  with quiet_run [OF assms(3) _ assms(4)] time_left_max [of s] assms(5) have "stopped s'" by simp
  then show ?thesis by (simp add: stopped_def)
qed

lemma Thread_Dog_restarts: "\<exists>s'. Thread_Dog 0 s = Some s'"
  by (simp add: Thread_Dog_def Let_def)

lemma dog_run: "\<exists>s'. robot_run s (replicate k (DogTick 0)) s'"
proof (induction k arbitrary: s)
  case (Suc k)
  from Thread_Dog_restarts obtain s1 where "Thread_Dog 0 s = Some s1" by blast
  moreover from Suc obtain s2 where "robot_run s1 (replicate k (DogTick 0)) s2" by blast
  ultimately show ?case by (auto intro: robot_run.intros robot_step.intros)
qed (auto intro: robot_run.intros)

lemma start_ok: "\<exists>s. main_init [''server'', ''0''] (\<lambda>_. 0) 0 0 globals0 = Inr s"
  by (simp add: main_init_def Let_def)

lemma udp_run:
  "robot_run s [UdpIn (RecvData (motor_frame 100 200 80))] (udp_in (RecvData (motor_frame 100 200 80)) s)"
  by (auto intro!: robot_run.intros robot_step.intros)

theorem watchdog_stops_motors_witness:
  "\<exists>s0 s s'. main_init [''server'', ''0''] (\<lambda>_. 0) 0 0 globals0 = Inr s0 \<and>
     robot_run s0 [UdpIn (RecvData (motor_frame 100 200 80))] s \<and>
     robot_run s (replicate 4 (DogTick 0)) s' \<and>
     watchdog s' = cycles s' \<and> speeds (buffso_Raw_Data_In s') = [0, 0, 0, 0] \<and> connected s' = 0"
proof -
  obtain s0 where s0: "main_init [''server'', ''0''] (\<lambda>_. 0) 0 0 globals0 = Inr s0"
    using start_ok by blast
  obtain s' where run: "robot_run (udp_in (RecvData (motor_frame 100 200 80)) s0) (replicate 4 (DogTick 0)) s'"
    using dog_run by blast
  have "list_all (\<lambda>e. \<not> is_order e) (replicate 4 (DogTick 0))"
    by (simp add: eval_nat_numeral)
  with s0 udp_run [of s0] run watchdog_stops_motors [OF s0 udp_run run] show ?thesis
    by (intro exI [of _ s0] exI [of _ "udp_in (RecvData (motor_frame 100 200 80)) s0"] exI [of _ s']) simp
qed

text \<open>
  C3. As long as no order arrives by TCP, the frame sent to the motors is at any time either one that
  carries speed 0 on both sides or one whose checksum is right: no datagram damaged on its way
  and no interleaving of the threads makes the robot move.
\<close>

theorem motors_obey_checked_orders:
  assumes "main_init argv create sigquit sigint globals0 = Inr s0"
    and "robot_run s0 es s" "list_all (\<lambda>e. \<not> is_tcp_order e) es"
  shows "speeds (buffso_Raw_Data_In s) = [0, 0, 0, 0] \<or> frame_ok (buffso_Raw_Data_In s)"
  using order_ok_run [OF assms(2) inv_main_init [OF assms(1)] assms(3) order_ok_init [OF assms(1)]]
  by (simp add: order_ok_def)

theorem motors_obey_checked_orders_witness:
  "\<exists>s0 s. main_init [''server'', ''0''] (\<lambda>_. 0) 0 0 globals0 = Inr s0 \<and>
     robot_run s0 [UdpIn (RecvData (motor_frame 100 200 80))] s \<and>
     (speeds (buffso_Raw_Data_In s) = [0, 0, 0, 0] \<or> frame_ok (buffso_Raw_Data_In s))"
proof -
  obtain s0 where s0: "main_init [''server'', ''0''] (\<lambda>_. 0) 0 0 globals0 = Inr s0"
    using start_ok by blast
  then show ?thesis
    using udp_run [of s0] motors_obey_checked_orders [OF s0 udp_run] by auto
qed

text \<open>
  C4. A datagram of nine bytes in which one byte behind the start byte was changed on the way changes
  neither the order in force nor the watchdog; the original datagram becomes the order in force
  and rearms the watchdog for three turns.
\<close>

theorem udp_in_rejects_corruption:
  assumes "robot_inv s" "length f = 9" "frame_ok f" "0 < i" "i < 9" "x \<noteq> f ! i"
  shows "buffso_Raw_Data_In (udp_in (RecvData (f[i := x])) s) = buffso_Raw_Data_In s \<and>
    watchdog (udp_in (RecvData (f[i := x])) s) = watchdog s \<and>
    buffso_Raw_Data_In (udp_in (RecvData f) s) = f \<and>
    watchdog (udp_in (RecvData f) s) = 0 \<and> cycles (udp_in (RecvData f) s) = 3"
proof -
  have eq: "frame_ok (overwrite g (buffso_rcvIN s)) = frame_ok g" if "length g = 9" for g
    using frame_ok_take [of "overwrite g (buffso_rcvIN s)"] assms(1) that by (simp add: robot_inv_def)
  have "\<not> frame_ok (f[i := x])" using assms(2-) by (rule frame_ok_corrupted)
  then show ?thesis
    using assms(2,3) by (simp add: udp_in_def received_def Let_def eq)
qed

theorem udp_in_rejects_corruption_witness:
  "watchdog (udp_in (RecvData ((motor_frame 100 200 80)[2 := 7])) (globals0\<lparr>debug := 0\<rparr>)) = watchdog globals0 \<and>
   buffso_Raw_Data_In (udp_in (RecvData (motor_frame 100 200 80)) (globals0\<lparr>debug := 0\<rparr>)) = motor_frame 100 200 80"
proof -
  have "robot_inv (globals0\<lparr>debug := 0\<rparr>)" by (simp add: robot_inv_def globals0_def telemetry0_def)
  moreover have "(7 :: byte) \<noteq> motor_frame 100 200 80 ! 2"
    by (simp add: motor_frame_def Let_def uchar_of_short_def)
  ultimately show ?thesis
    using udp_in_rejects_corruption [of "globals0\<lparr>debug := 0\<rparr>" "motor_frame 100 200 80" 2 7] by simp
qed

text \<open>
  C5. When the watchdog fires on an order in force whose checksum is right, it clears the speeds and
  leaves the checksum bytes as they were.  The frame that goes to the motors from then on still
  passes the check exactly when the checksum register, started at 0, ends at 0 over the four old
  speed bytes; so it fails the check whenever just one of the two sides was moving.
\<close>

theorem watchdog_frame_checksum:
  assumes "robot_inv s" "watchdog s = cycles s" "frame_ok (buffso_Raw_Data_In s)" "Thread_Dog r s = Some s'"
  shows "(frame_ok (buffso_Raw_Data_In s') \<longleftrightarrow> crc_feed 0 (speeds (buffso_Raw_Data_In s)) = 0) \<and>
    (speeds (buffso_Raw_Data_In s) = [a, b, 0, 0] \<and> (a, b) \<noteq> (0, 0) \<longrightarrow> \<not> frame_ok (buffso_Raw_Data_In s')) \<and>
    (speeds (buffso_Raw_Data_In s) = [0, 0, a, b] \<and> (a, b) \<noteq> (0, 0) \<longrightarrow> \<not> frame_ok (buffso_Raw_Data_In s'))"
proof -
  have "length (buffso_Raw_Data_In s) = 9" using assms(1) by (simp add: robot_inv_def)
  then have *: "frame_ok (buffso_Raw_Data_In s') \<longleftrightarrow> crc_feed 0 (speeds (buffso_Raw_Data_In s)) = 0"
    using Thread_Dog_fires [OF assms(4,2,1)] frame_ok_zeroed assms(3) by simp
  then show ?thesis
    using one_side_crc [of "buffso_Raw_Data_In s" a b] by blast
qed

lemma motor_frame_speeds:
  "speeds (motor_frame v1 v2 fl) = [uchar_of_short v1, uchar_of_short_shr8 v1, uchar_of_short v2, uchar_of_short_shr8 v2]"
  by (simp add: speeds_def motor_frame_def Let_def)

theorem watchdog_frame_checksum_witness:
  "\<exists>s s'. buffso_Raw_Data_In s = motor_frame 100 0 80 \<and> Thread_Dog 0 s = Some s' \<and>
     speeds (buffso_Raw_Data_In s) = [100, 0, 0, 0] \<and> \<not> frame_ok (buffso_Raw_Data_In s')"
proof -
  define s where "s = globals0\<lparr>buffso_Raw_Data_In := motor_frame 100 0 80\<rparr>"
  have "robot_inv s" by (simp add: robot_inv_def s_def globals0_def telemetry0_def)
  moreover have "watchdog s = cycles s" "frame_ok (buffso_Raw_Data_In s)"
    by (simp_all add: s_def globals0_def telemetry0_def)
  moreover have "speeds (buffso_Raw_Data_In s) = [100, 0, 0, 0]"
    by (simp add: s_def motor_frame_speeds byte_simps)
  moreover obtain s' where "Thread_Dog 0 s = Some s'" using Thread_Dog_restarts by blast
  moreover have "buffso_Raw_Data_In s = motor_frame 100 0 80" by (simp add: s_def)
  moreover have "(100, 0) \<noteq> (0 :: byte, 0 :: byte)" by simp
  ultimately have "Thread_Dog 0 s = Some s' \<and> buffso_Raw_Data_In s = motor_frame 100 0 80 \<and>
      speeds (buffso_Raw_Data_In s) = [100, 0, 0, 0] \<and> \<not> frame_ok (buffso_Raw_Data_In s')"
    using watchdog_frame_checksum [of s 0 s' 100 0] by blast
  then show ?thesis by blast
qed

text \<open>
  C6. In every state the server can reach, each shared buffer has the size its declaration gives it, the
  watchdog counter lies between 0 and \<open>cycles\<close>, which is 0 or 3, and the text that the UDP
  answering thread searches ends inside its buffer.
\<close>

theorem server_invariant:
  assumes "main_init argv create sigquit sigint globals0 = Inr s0" "robot_run s0 es s"
  shows "robot_inv s"
  using inv_main_init [OF assms(1)] inv_robot_run [OF assms(2)] by simp

theorem server_invariant_witness:
  "\<exists>s0. main_init [''server'', ''0''] (\<lambda>_. 0) 0 0 globals0 = Inr s0 \<and>
     robot_inv (udp_in (RecvData (motor_frame 100 200 80)) s0)"
  using start_ok server_invariant [OF _ udp_run] by blast

end
