(* ===== verification/Http_Io.thy ===== *)
theory Http_Io
  imports C_Strings
begin

text \<open>
  Buffered reading from an HTTP client: \<^verbatim>\<open>iobuffer\<close>, \<^verbatim>\<open>_read\<close> and \<^verbatim>\<open>_readline\<close> of
  \<^verbatim>\<open>src/mjpg-streamer/plugins/output_http/httpd.c\<close>.  What \<^verbatim>\<open>select\<close> and the \<^verbatim>\<open>read\<close> behind it
  answer is a list; an empty list is a client that sends nothing any more, so that every
  further \<^verbatim>\<open>select\<close> times out.
\<close>

subsection \<open>State\<close>

definition IO_BUFFER :: nat where "IO_BUFFER = 256"
definition BUFFER_SIZE :: nat where "BUFFER_SIZE = 1024"

record iobuffer =
  level :: int
  iob_buffer :: string

text \<open>\<^verbatim>\<open>select\<close> fails, times out, or signals data that \<^verbatim>\<open>read\<close> then delivers or not.\<close>

datatype sel_result = SelError | SelTimeout | ReadFail int | ReadData string

text \<open>\<open>ExitFailure\<close> is \<^verbatim>\<open>exit(EXIT_FAILURE)\<close>, \<open>Overrun\<close> an access behind the end of the buffer.\<close>

datatype io_error = ExitFailure | Overrun

type_synonym conn = "iobuffer \<times> sel_result list"

subsection \<open>Operations\<close>

definition init_iobuffer :: "iobuffer \<Rightarrow> iobuffer" where
  "init_iobuffer iobuf = iobuf\<lparr>iob_buffer := replicate IO_BUFFER NUL, level := 0\<rparr>"

text \<open>
  \<^verbatim>\<open>MIN(iobuf->level, len - copied)\<close> compares an \<^verbatim>\<open>int\<close> with a \<^verbatim>\<open>size_t\<close>: a negative level is a
  huge number there.
\<close>

definition read_amount :: "int \<Rightarrow> nat \<Rightarrow> nat" where
  "read_amount lev rest = (if lev < 0 then rest else min (nat lev) rest)"

fun read_loop ::
  "nat \<Rightarrow> string \<Rightarrow> nat \<Rightarrow> iobuffer \<Rightarrow> sel_result list \<Rightarrow> io_error + (int \<times> string \<times> conn)"
where
  "read_loop len buf copied iobuf input =
     (if copied < len then
        let i = read_amount (level iobuf) (len - copied);
            start = nat (int IO_BUFFER - level iobuf)
        in if IO_BUFFER < start + i then Inl Overrun
           else
             let buf = take copied buf @ take i (drop start (iob_buffer iobuf)) @ drop (copied + i) buf;
                 iobuf = iobuf\<lparr>level := level iobuf - int i\<rparr>;
                 copied = copied + i
             in if len \<le> copied then Inr (int copied, buf, iobuf, input)
                else case input of
                       [] \<Rightarrow> Inr (int copied, buf, iobuf, [])
                     | SelTimeout # input \<Rightarrow> Inr (int copied, buf, iobuf, input)
                     | SelError # input \<Rightarrow> Inl ExitFailure
                     | ReadFail rc # input \<Rightarrow> Inr (- 1, buf, (init_iobuffer iobuf)\<lparr>level := rc\<rparr>, input)
                     | ReadData d # input \<Rightarrow>
                         let iobuf = init_iobuffer iobuf;
                             filled = overwrite d (iob_buffer iobuf);
                             iobuf = iobuf\<lparr>level := int (length d),
                                iob_buffer := take (IO_BUFFER - length d) filled @ d\<rparr>
                         in read_loop len buf copied iobuf input
      else Inr (0, buf, iobuf, input))"

declare read_loop.simps [simp del]

definition http_read :: "nat \<Rightarrow> conn \<Rightarrow> io_error + (int \<times> string \<times> conn)" where
  "http_read len c = read_loop len (replicate len NUL) 0 (fst c) (snd c)"

text \<open>\<open>_readline\<close> asks for one character at a time; the loop is written over the reader it calls.\<close>

definition read_char :: "conn \<Rightarrow> io_error + (int \<times> char \<times> conn)" where
  "read_char c = (case http_read 1 c of Inl e \<Rightarrow> Inl e | Inr (rc, buf, c') \<Rightarrow> Inr (rc, hd buf, c'))"

definition NL :: char where "NL = CHR 0x0A"
definition CR :: char where "CR = CHR 0x0D"

fun readline_loop ::
  "('s \<Rightarrow> 'e + (int \<times> char \<times> 's)) \<Rightarrow> nat \<Rightarrow> char \<Rightarrow> string \<Rightarrow> 's \<Rightarrow> 'e + (int \<times> string \<times> 's)"
where
  "readline_loop rd 0 c out s = Inr (int (length out), out, s)"
| "readline_loop rd (Suc todo) c out s =
     (if c = NL then Inr (int (length out), out, s)
      else case rd s of
             Inl e \<Rightarrow> Inl e
           | Inr (rc, c', s') \<Rightarrow>
               if rc \<le> 0 then Inr (- 1, out, s') else readline_loop rd todo c' (out @ [c']) s')"

definition http_readline :: "nat \<Rightarrow> conn \<Rightarrow> io_error + (int \<times> string \<times> conn)" where
  "http_readline len c =
     (case readline_loop read_char len NUL [] c of
        Inl e \<Rightarrow> Inl e
      | Inr (n, out, c') \<Rightarrow> Inr (n, out @ replicate (len - length out) NUL, c'))"

subsection \<open>What a line is\<close>

text \<open>The first line of a text: up to and including the line feed, at most \<open>len\<close> characters.\<close>

fun first_line :: "nat \<Rightarrow> string \<Rightarrow> string option" where
  "first_line 0 s = Some []"
| "first_line (Suc k) [] = None"
| "first_line (Suc k) (c # cs) = (if c = NL then Some [c] else map_option ((#) c) (first_line k cs))"

lemma first_line_prefix: "first_line k s = Some l \<Longrightarrow> \<exists>rest. s = l @ rest"
  by (induction k s arbitrary: l rule: first_line.induct) (auto split: if_splits)

lemma first_line_length: "first_line k s = Some l \<Longrightarrow> length l \<le> k"
  by (induction k s arbitrary: l rule: first_line.induct) (auto split: if_splits)

lemma first_line_newline:
  assumes "NL \<notin> set l" "length l < k"
  shows "first_line k (l @ NL # rest) = Some (l @ [NL])"
  using assms by (induction l arbitrary: k) (case_tac k; auto)+

subsection \<open>The contract of a character source\<close>

text \<open>
  What \<^verbatim>\<open>_readline\<close> needs from the reader it calls: while characters are left it delivers the
  next one with a positive count, and at the end of them it reports an error or no progress.
\<close>

locale char_source =
  fixes rd :: "'s \<Rightarrow> 'e + (int \<times> char \<times> 's)"
    and contents :: "'s \<Rightarrow> string"
    and inv :: "'s \<Rightarrow> bool"
    and ok_err :: "'e \<Rightarrow> bool"
  assumes rd_Cons: "\<lbrakk>inv s; contents s = c # cs\<rbrakk> \<Longrightarrow> \<exists>s'. rd s = Inr (1, c, s') \<and> contents s' = cs \<and> inv s'"
    and rd_Nil: "\<lbrakk>inv s; contents s = []; rd s = Inr (rc, c, s')\<rbrakk> \<Longrightarrow> rc \<le> 0"
    and rd_err: "\<lbrakk>inv s; rd s = Inl e\<rbrakk> \<Longrightarrow> ok_err e"
begin

lemma line_error:
  assumes "inv s" "readline_loop rd k c out s = Inl e"
  shows "ok_err e"
  using assms
proof (induction k arbitrary: s c out)
  case (Suc k)
  show ?case
  proof (cases "contents s")
    case Nil
    then show ?thesis
      using Suc.prems rd_Nil rd_err by (auto split: sum.splits if_splits)
  next
    case (Cons x xs)
    with Suc.prems(1) rd_Cons obtain s1 where "rd s = Inr (1, x, s1)" "inv s1" by blast
    then show ?thesis using Suc by (auto split: if_splits)
  qed
qed simp

lemma line_found:
  assumes "inv s" "first_line k (contents s) = Some l" "c \<noteq> NL"
  shows "\<exists>s'. readline_loop rd k c out s = Inr (int (length (out @ l)), out @ l, s') \<and>
    contents s = l @ contents s' \<and> inv s'"
  using assms
proof (induction k arbitrary: s l c out)
  case 0
  then show ?case by auto
next
  case (Suc k)
  then obtain x xs where s: "contents s = x # xs" by (cases "contents s") auto
  with Suc.prems(1) rd_Cons obtain s1 where s1: "rd s = Inr (1, x, s1)" "contents s1 = xs" "inv s1" by blast
  show ?case
  proof (cases "x = NL")
    case True
    then have "l = [x]" using Suc.prems(2) s by simp
    moreover have "readline_loop rd k NL (out @ [x]) s1 = Inr (int (length (out @ [x])), out @ [x], s1)"
      by (cases k) simp_all
    ultimately show ?thesis using Suc.prems(3) s s1 True by simp
  next
    case False
    with Suc.prems(2) s s1(2) obtain l' where l': "first_line k (contents s1) = Some l'" "l = x # l'" by auto
    from Suc.IH [OF s1(3) l'(1) False, of "out @ [x]"] obtain s' where
      "readline_loop rd k x (out @ [x]) s1 = Inr (int (length (out @ [x] @ l')), out @ [x] @ l', s')"
      "contents s1 = l' @ contents s'" "inv s'" by auto
    then show ?thesis using Suc.prems(3) s s1 l' by auto
  qed
qed

lemma line_missing:
  assumes "inv s" "first_line k (contents s) = None" "c \<noteq> NL" "readline_loop rd k c out s = Inr (n, out', s')"
  shows "n = - 1"
  using assms
proof (induction k arbitrary: s c out)
  case (Suc k)
  show ?case
  proof (cases "contents s")
    case Nil
    then show ?thesis
      using Suc.prems rd_Nil by (auto split: sum.splits if_splits)
  next
    case (Cons x xs)
    with Suc.prems(1) rd_Cons obtain s1 where s1: "rd s = Inr (1, x, s1)" "contents s1 = xs" "inv s1" by blast
    have "x \<noteq> NL" "first_line k xs = None"
      using Suc.prems(2) Cons by (auto split: if_splits)
    then show ?thesis
      using Suc.IH [of s1 x "out @ [x]"] Suc.prems(3,4) s1 by simp
  qed
qed simp

end

subsection \<open>The buffered connection is a character source\<close>

definition pending :: "iobuffer \<Rightarrow> string" where
  "pending iobuf = drop (IO_BUFFER - nat (level iobuf)) (iob_buffer iobuf)"

text \<open>What arrives before the first timeout, error or end of file.\<close>

fun arriving :: "sel_result list \<Rightarrow> string" where
  "arriving (ReadData d # input) = d @ arriving input"
| "arriving input = []"

fun input_ok :: "sel_result list \<Rightarrow> bool" where
  "input_ok [] \<longleftrightarrow> True"
| "input_ok (ReadData d # input) \<longleftrightarrow> 1 \<le> length d \<and> length d \<le> IO_BUFFER \<and> input_ok input"
| "input_ok (ReadFail rc # input) \<longleftrightarrow> rc \<le> 0 \<and> input_ok input"
| "input_ok (_ # input) \<longleftrightarrow> input_ok input"

definition conn_ok :: "conn \<Rightarrow> bool" where
  "conn_ok c \<longleftrightarrow> 0 \<le> level (fst c) \<and> level (fst c) \<le> int IO_BUFFER \<and>
     length (iob_buffer (fst c)) = IO_BUFFER \<and> input_ok (snd c)"

definition conn_text :: "conn \<Rightarrow> string" where
  "conn_text c = pending (fst c) @ arriving (snd c)"

lemma length_pending: "conn_ok c \<Longrightarrow> length (pending (fst c)) = nat (level (fst c))"
  by (auto simp: conn_ok_def pending_def)

text \<open>A refilled buffer holds what was read, aligned to its end.\<close>

definition refill :: "iobuffer \<Rightarrow> string \<Rightarrow> iobuffer" where
  "refill iobuf d = (let iobuf = init_iobuffer iobuf; filled = overwrite d (iob_buffer iobuf)
     in iobuf\<lparr>level := int (length d), iob_buffer := take (IO_BUFFER - length d) filled @ d\<rparr>)"

lemma refill_ok:
  assumes "1 \<le> length d" "length d \<le> IO_BUFFER" "input_ok input"
  shows "conn_ok (refill iobuf d, input)" "pending (refill iobuf d) = d"
  using assms by (auto simp: refill_def conn_ok_def pending_def init_iobuffer_def Let_def)

lemma read_one_buffered:
  assumes "conn_ok c" "pending (fst c) = x # xs"
  shows "\<exists>c'. read_char c = Inr (1, x, c') \<and> pending (fst c') = xs \<and> snd c' = snd c \<and> conn_ok c'"
proof -
  obtain iobuf input where c: "c = (iobuf, input)" by force
  from assms length_pending [OF assms(1)] c have lev: "1 \<le> level iobuf" "level iobuf \<le> int IO_BUFFER"
      "length (iob_buffer iobuf) = IO_BUFFER" "input_ok input"
    by (auto simp: conn_ok_def)
  let ?k = "IO_BUFFER - nat (level iobuf)"
  have k: "nat (int IO_BUFFER - level iobuf) = ?k" "?k < IO_BUFFER" using lev by simp_all
  have one: "read_amount (level iobuf) 1 = 1" using lev by (simp add: read_amount_def)
  have x: "take 1 (drop ?k (iob_buffer iobuf)) = [x]"
    using assms(2) c by (simp add: pending_def)
  have "http_read 1 c = Inr (1, [x], iobuf\<lparr>level := level iobuf - 1\<rparr>, input)"
    using k x one unfolding c http_read_def by (subst read_loop.simps) (simp add: Let_def)
  moreover have "pending (iobuf\<lparr>level := level iobuf - 1\<rparr>) = xs"
  proof -
    have "IO_BUFFER - nat (level iobuf - 1) = Suc ?k" using lev by auto
    then show ?thesis
      using assms(2) c by (simp add: pending_def) (metis drop_Suc list.sel(3) tl_drop)
  qed
  ultimately show ?thesis
    using lev c by (auto simp: read_char_def conn_ok_def)
qed

lemma read_char_empty:
  assumes "conn_ok (iobuf, input)" "level iobuf = 0"
  shows "read_char (iobuf, input) = (case input of
       [] \<Rightarrow> Inr (0, NUL, iobuf, [])
     | SelTimeout # input \<Rightarrow> Inr (0, NUL, iobuf, input)
     | SelError # input \<Rightarrow> Inl ExitFailure
     | ReadFail rc # input \<Rightarrow> Inr (- 1, NUL, (init_iobuffer iobuf)\<lparr>level := rc\<rparr>, input)
     | ReadData d # input \<Rightarrow> read_char (refill iobuf d, input))"
  unfolding read_char_def http_read_def using assms
  by (subst read_loop.simps)
     (auto simp: Let_def read_amount_def refill_def conn_ok_def init_iobuffer_def split: list.splits sel_result.splits)

interpretation client: char_source read_char conn_text conn_ok "\<lambda>e. e = ExitFailure"
proof
  fix c :: conn and x xs
  assume ok: "conn_ok c" and whole: "conn_text c = x # xs"
  obtain iobuf input where c: "c = (iobuf, input)" by force
  show "\<exists>c'. read_char c = Inr (1, x, c') \<and> conn_text c' = xs \<and> conn_ok c'"
  proof (cases "pending iobuf")
    case (Cons y ys)
    with read_one_buffered [OF ok, of y ys] whole c show ?thesis by (auto simp: conn_text_def)
  next
    case Nil
    then have "level iobuf = 0" using length_pending [OF ok] ok c by (simp add: conn_ok_def)
    moreover obtain d rest where input: "input = ReadData d # rest"
      using whole c Nil by (auto simp: conn_text_def elim: arriving.elims)
    moreover have d: "1 \<le> length d" "length d \<le> IO_BUFFER" "input_ok rest"
      using ok c input by (auto simp: conn_ok_def)
    moreover obtain ds where "d = x # ds"
      using whole c Nil input d(1) by (cases d) (auto simp: conn_text_def)
    ultimately show ?thesis
      using read_char_empty [of iobuf input] ok c read_one_buffered [OF refill_ok(1) [OF d], of iobuf x ds] refill_ok(2) [OF d]
        whole Nil by (auto simp: conn_text_def)
  qed
next
  fix c :: conn and rc x c'
  assume ok: "conn_ok c" and whole: "conn_text c = []" and rd: "read_char c = Inr (rc, x, c')"
  obtain iobuf input where c: "c = (iobuf, input)" by force
  have "level iobuf = 0"
    using length_pending [OF ok] ok whole c by (simp add: conn_text_def conn_ok_def)
  with read_char_empty [of iobuf input] ok rd whole c show "rc \<le> 0"
    by (cases input rule: arriving.cases) (auto simp: conn_text_def conn_ok_def)
next
  fix c :: conn and e
  assume ok: "conn_ok c" and rd: "read_char c = Inl e"
  obtain iobuf input where c: "c = (iobuf, input)" by force
  show "e = ExitFailure"
  proof (cases "pending iobuf")
    case (Cons y ys)
    with read_one_buffered [OF ok, of y ys] rd c show ?thesis by auto
  next
    case Nil
    then have lev: "level iobuf = 0" using length_pending [OF ok] ok c by (simp add: conn_ok_def)
    show ?thesis
    proof (cases "\<exists>d rest. input = ReadData d # rest")
      case True
      then obtain d rest where input: "input = ReadData d # rest" by blast
      then have d: "1 \<le> length d" "length d \<le> IO_BUFFER" "input_ok rest"
        using ok c by (auto simp: conn_ok_def)
      then obtain y ys where "d = y # ys" by (cases d) auto
      then show ?thesis
        using read_char_empty [of iobuf input] ok rd c lev input refill_ok(2) [OF d, of iobuf]
          read_one_buffered [OF refill_ok(1) [OF d], of iobuf y ys] by auto
    next
      case False
      with read_char_empty [of iobuf input] ok rd c lev show ?thesis
        by (cases input rule: arriving.cases) auto
    qed
  qed
qed

lemma NUL_not_NL [simp]: "NUL \<noteq> NL" "NL \<noteq> NUL"
  by (simp_all add: NUL_def NL_def)

lemma readline_found:
  assumes "conn_ok c" "first_line len (conn_text c) = Some l"
  shows "\<exists>c'. http_readline len c = Inr (int (length l), l @ replicate (len - length l) NUL, c') \<and>
    conn_text c = l @ conn_text c' \<and> conn_ok c'"
  using client.line_found [OF assms, of NUL "[]"] by (auto simp: http_readline_def)

lemma readline_missing:
  assumes "conn_ok c" "first_line len (conn_text c) = None" "http_readline len c = Inr (n, buf, c')"
  shows "n = - 1"
  using assms client.line_missing [OF assms(1,2), of NUL "[]"]
  by (auto simp: http_readline_def split: sum.splits)

lemma readline_error:
  assumes "conn_ok c" "http_readline len c = Inl e"
  shows "e = ExitFailure"
  using assms client.line_error [OF assms(1)] by (auto simp: http_readline_def split: sum.splits)

definition start_conn :: "sel_result list \<Rightarrow> conn" where
  "start_conn input = (init_iobuffer \<lparr>level = 0, iob_buffer = []\<rparr>, input)"

lemma start_conn_ok [simp]: "input_ok input \<Longrightarrow> conn_ok (start_conn input)"
  by (simp add: start_conn_def conn_ok_def init_iobuffer_def)

lemma start_conn_text [simp]: "conn_text (start_conn input) = arriving input"
  by (simp add: start_conn_def conn_text_def pending_def init_iobuffer_def)

text \<open>
  C19. \<^verbatim>\<open>_readline\<close> returns the first line of what the client sends, line feed included and cut at the
  size of the buffer, and leaves exactly the rest to be read; how the network cuts the text
  into pieces and what is still buffered from earlier calls makes no difference.  When the text
  ends before the line does, it returns -1 or the process exits; it never reads outside the buffer.
\<close>

theorem http_readline_first_line:
  assumes "conn_ok c"
  shows "case first_line len (conn_text c) of
      Some l \<Rightarrow> \<exists>c'. http_readline len c = Inr (int (length l), l @ replicate (len - length l) NUL, c') \<and>
                  conn_text c = l @ conn_text c' \<and> conn_ok c'
    | None \<Rightarrow> http_readline len c = Inl ExitFailure \<or> (\<exists>buf c'. http_readline len c = Inr (- 1, buf, c'))"
proof (cases "first_line len (conn_text c)")
  case None
  then show ?thesis
    using readline_missing [OF assms None] readline_error [OF assms]
    by (cases "http_readline len c") auto
next
  case (Some l)
  then show ?thesis using readline_found [OF assms Some] by simp
qed

theorem http_readline_first_line_witness:
  "\<exists>c'. http_readline 8 (start_conn [ReadData ''GE'', ReadData (''T /'' @ [NL] @ ''x'')]) =
     Inr (6, ''GET /'' @ [NL] @ replicate 2 NUL, c') \<and> conn_text c' = ''x''"
proof -
  let ?c = "start_conn [ReadData ''GE'', ReadData (''T /'' @ [NL] @ ''x'')]"
  have "conn_ok ?c" by (rule start_conn_ok) (simp add: IO_BUFFER_def)
  moreover have "first_line 8 (conn_text ?c) = Some (''GET /'' @ [NL])"
    using first_line_newline [of "''GET /''" 8 "''x''"] by (simp add: NL_def)
  ultimately show ?thesis
    using http_readline_first_line [of ?c 8] by (auto simp: numeral_2_eq_2)
qed

end
