(* ===== verification/Streamer_Types.thy ===== *)
theory Streamer_Types
  imports C_Strings
begin

text \<open>
  The data shared by the camera streamer and its plugins: \<^verbatim>\<open>struct _globals\<close> and \<^verbatim>\<open>struct _control\<close> of
  \<^verbatim>\<open>src/mjpg-streamer/mjpg_streamer.h\<close>, \<^verbatim>\<open>input\<close> and \<^verbatim>\<open>output\<close> of \<^verbatim>\<open>plugins/input.h\<close> and
  \<^verbatim>\<open>plugins/output.h\<close>.  A null pointer is \<open>None\<close>; a function pointer found by \<^verbatim>\<open>dlsym\<close> is the flag
  that it was found.  The arrays \<^verbatim>\<open>in\<close> and \<^verbatim>\<open>out\<close> are lists of their declared length.  Of \<^verbatim>\<open>jpegcomp\<close> only the quality is kept; a NULL table of formats
  is the empty list, and \<^verbatim>\<open>resolutionCount\<close> is the length of the list of resolutions.
\<close>

definition MAX_INPUT_PLUGINS :: nat where "MAX_INPUT_PLUGINS = 10"
definition MAX_OUTPUT_PLUGINS :: nat where "MAX_OUTPUT_PLUGINS = 10"
definition MAX_PLUGIN_ARGUMENTS :: nat where "MAX_PLUGIN_ARGUMENTS = 32"

subsection \<open>Controls\<close>

text \<open>The fields of \<^verbatim>\<open>struct v4l2_queryctrl\<close> the sources use, and the name of each menu entry.\<close>

record v4l2_queryctrl =
  qc_id :: cint
  qc_type :: nat
  qc_name :: string
  qc_minimum :: int
  qc_maximum :: int
  qc_step :: int
  qc_default_value :: int
  qc_flags :: cint

definition V4L2_CTRL_TYPE_INTEGER :: nat where "V4L2_CTRL_TYPE_INTEGER = 1"
definition V4L2_CTRL_TYPE_BOOLEAN :: nat where "V4L2_CTRL_TYPE_BOOLEAN = 2"
definition V4L2_CTRL_TYPE_MENU :: nat where "V4L2_CTRL_TYPE_MENU = 3"
definition V4L2_CTRL_TYPE_BUTTON :: nat where "V4L2_CTRL_TYPE_BUTTON = 4"

record control =
  ctrl :: v4l2_queryctrl
  cvalue :: int
  menuitems :: "string list option"
  class_id :: cint
  cgroup :: int

subsection \<open>Plugins\<close>

record input_resolution =
  width :: nat
  height :: nat

record input_format =
  fmt_index :: nat
  pixelformat :: cint
  supportedResolutions :: "input_resolution list"
  currentResolution :: int

record timeval =
  tv_sec :: int
  tv_usec :: int

record plugin_parameter =
  pid :: int
  parameters :: "string option"
  pargc :: int
  pargv :: "string option list"

record input_plugin =
  in_plugin_name :: "string option"
  in_handle :: bool
  in_param :: plugin_parameter
  in_parameters :: "control list option"
  parametercount :: int
  jpegquality :: int
  in_buf :: "byte list option"
  in_size :: int
  in_timestamp :: timeval
  in_formats :: "input_format list"
  formatCount :: int
  currentFormat :: int
  in_cmd :: bool

record output_plugin =
  out_plugin_name :: "string option"
  out_handle :: bool
  out_param :: plugin_parameter
  out_parameters :: "control list option"
  out_parametercount :: int
  out_cmd :: bool

record globals =
  gstop :: bool
  gin :: "input_plugin list"
  incnt :: int
  gout :: "output_plugin list"
  outcnt :: int

definition globals_ok :: "globals \<Rightarrow> bool" where
  "globals_ok g \<longleftrightarrow>
     length (gin g) = MAX_INPUT_PLUGINS \<and> length (gout g) = MAX_OUTPUT_PLUGINS \<and>
     0 \<le> incnt g \<and> incnt g \<le> int MAX_INPUT_PLUGINS \<and> 0 \<le> outcnt g \<and> outcnt g \<le> int MAX_OUTPUT_PLUGINS"

text \<open>A change of one entry of \<^verbatim>\<open>pglobal->in\<close>.\<close>

definition upd_in :: "nat \<Rightarrow> (input_plugin \<Rightarrow> input_plugin) \<Rightarrow> globals \<Rightarrow> globals" where
  "upd_in i f g = g\<lparr>gin := (gin g)[i := f (gin g ! i)]\<rparr>"

lemma gin_upd_in [simp]: "i < length (gin g) \<Longrightarrow> gin (upd_in i f g) ! i = f (gin g ! i)"
  by (simp add: upd_in_def)

lemma length_gin_upd_in [simp]: "length (gin (upd_in i f g)) = length (gin g)"
  by (simp add: upd_in_def)

subsection \<open>Memory errors\<close>

text \<open>
  What the C program does with no defined behaviour is an error value of its own, so that
  operations which cannot run into it can be told from those that can.
\<close>

datatype crash = NullDereference | OutOfBounds | BufferOverflow | UseAfterFree | DivisionByZero | SignedOverflow

text \<open>Element \<open>i\<close> of an array, with a signed index.\<close>

definition at :: "'a list \<Rightarrow> int \<Rightarrow> crash + 'a" where
  "at xs i = (if 0 \<le> i \<and> i < int (length xs) then Inr (xs ! nat i) else Inl OutOfBounds)"

lemma at_ok [simp]: "0 \<le> i \<Longrightarrow> i < int (length xs) \<Longrightarrow> at xs i = Inr (xs ! nat i)"
  by (simp add: at_def)

lemma at_Inr: "at xs i = Inr x \<longleftrightarrow> 0 \<le> i \<and> i < int (length xs) \<and> x = xs ! nat i"
  by (auto simp: at_def)

lemma at_Inl: "at xs i = Inl e \<longleftrightarrow> (i < 0 \<or> int (length xs) \<le> i) \<and> e = OutOfBounds"
  by (auto simp: at_def)

subsection \<open>Sequencing of operations that may fail\<close>

definition sbind :: "'e + 'a \<Rightarrow> ('a \<Rightarrow> 'e + 'b) \<Rightarrow> 'e + 'b" where
  "sbind m f = (case m of Inl e \<Rightarrow> Inl e | Inr x \<Rightarrow> f x)"

lemma sbind_simps [simp]: "sbind (Inl e) f = Inl e" "sbind (Inr x) f = f x"
  by (simp_all add: sbind_def)

lemma sbind_Inr: "sbind m f = Inr y \<longleftrightarrow> (\<exists>x. m = Inr x \<and> f x = Inr y)"
  by (cases m) auto

lemma sbind_Inl: "sbind m f = Inl e \<longleftrightarrow> m = Inl e \<or> (\<exists>x. m = Inr x \<and> f x = Inl e)"
  by (cases m) auto

lemma sbind_cong [fundef_cong]:
  "m = m' \<Longrightarrow> (\<And>x. m' = Inr x \<Longrightarrow> f x = f' x) \<Longrightarrow> sbind m f = sbind m' f'"
  by (cases m') auto

definition guard :: "bool \<Rightarrow> 'e \<Rightarrow> 'e + unit" where
  "guard b e = (if b then Inr () else Inl e)"

lemma guard_simps [simp]: "guard True e = Inr ()" "guard False e = Inl e"
  by (simp_all add: guard_def)

end
