(* ===== verification/Http_Response.thy ===== *)
theory Http_Response
  imports Http_Io Streamer_Types
begin

text \<open>
  The answers of the HTTP server (\<^verbatim>\<open>src/mjpg-streamer/plugins/output_http/httpd.c\<close>):
  \<^verbatim>\<open>send_error\<close>, \<^verbatim>\<open>send_file\<close>, \<^verbatim>\<open>send_snapshot\<close> and \<^verbatim>\<open>send_stream\<close>.  The connection's descriptor is
  an output log; what \<^verbatim>\<open>write\<close> returns for the k-th call is a function of k.
\<close>

subsection \<open>Writing to the client\<close>

record out_fd =
  written :: "byte list list"
  wcount :: nat

definition new_fd :: out_fd where "new_fd = \<lparr>written = [], wcount = 0\<rparr>"

definition write_fd :: "(nat \<Rightarrow> nat \<Rightarrow> int) \<Rightarrow> byte list \<Rightarrow> out_fd \<Rightarrow> int \<times> out_fd" where
  "write_fd wr bs fd =
     (let r = wr (wcount fd) (length bs)
      in (r, fd\<lparr>written := written fd @ (if r < 0 then [] else [take (nat r) bs]), wcount := Suc (wcount fd)\<rparr>))"

definition write_str :: "(nat \<Rightarrow> nat \<Rightarrow> int) \<Rightarrow> string \<Rightarrow> out_fd \<Rightarrow> int \<times> out_fd" where
  "write_str wr s fd = write_fd wr (bytes_of s) fd"

text \<open>A client that takes everything.\<close>

definition all_written :: "nat \<Rightarrow> nat \<Rightarrow> int" where
  "all_written k n = int n"

lemma write_fd_all [simp]:
  "write_fd all_written bs fd = (int (length bs), fd\<lparr>written := written fd @ [bs], wcount := Suc (wcount fd)\<rparr>)"
  by (simp add: write_fd_def all_written_def Let_def)

subsection \<open>Fixed texts\<close>

definition CRLF :: string where "CRLF = [CR, NL]"

definition BOUNDARY :: string where "BOUNDARY = ''boundarydonotcross''"

definition STD_HEADER :: string where
  "STD_HEADER = ''Connection: close'' @ CRLF @
     ''Server: MJPG-Streamer/0.2'' @ CRLF @
     ''Cache-Control: no-store, no-cache, must-revalidate, pre-check=0, post-check=0, max-age=0'' @ CRLF @
     ''Pragma: no-cache'' @ CRLF @
     ''Expires: Mon, 3 Jan 2000 12:34:56 GMT'' @ CRLF"

definition mimetypes :: "(string \<times> string) list" where
  "mimetypes = [
     (''.html'', ''text/html''), (''.htm'', ''text/html''), (''.css'', ''text/css''),
     (''.js'', ''text/javascript''), (''.txt'', ''text/plain''), (''.jpg'', ''image/jpeg''),
     (''.jpeg'', ''image/jpeg''), (''.png'', ''image/png''), (''.gif'', ''image/gif''),
     (''.ico'', ''image/x-icon''), (''.swf'', ''application/x-shockwave-flash''),
     (''.cab'', ''application/x-shockwave-flash''), (''.jar'', ''application/java-archive''),
     (''.json'', ''application/json'')]"

subsection \<open>send_error\<close>

definition error_text :: "int \<Rightarrow> string \<Rightarrow> string" where
  "error_text which message =
     (if which = 401 then
        ''HTTP/1.0 401 Unauthorized'' @ CRLF @ ''Content-type: text/plain'' @ CRLF @ STD_HEADER @
        ''WWW-Authenticate: Basic realm=\"MJPG-Streamer\"'' @ CRLF @ CRLF @
        ''401: Not Authenticated!'' @ CRLF @ message
      else if which = 404 then
        ''HTTP/1.0 404 Not Found'' @ CRLF @ ''Content-type: text/plain'' @ CRLF @ STD_HEADER @ CRLF @
        ''404: Not Found!'' @ CRLF @ message
      else if which = 500 then
        ''HTTP/1.0 500 Internal Server Error'' @ CRLF @ ''Content-type: text/plain'' @ CRLF @ STD_HEADER @ CRLF @
        ''500: Internal Server Error!'' @ CRLF @ message
      else if which = 400 then
        ''HTTP/1.0 400 Bad Request'' @ CRLF @ ''Content-type: text/plain'' @ CRLF @ STD_HEADER @ CRLF @
        ''400: Not Found!'' @ CRLF @ message
      else
        ''HTTP/1.0 501 Not Implemented'' @ CRLF @ ''Content-type: text/plain'' @ CRLF @ STD_HEADER @ CRLF @
        ''501: Not Implemented!'' @ CRLF @ message)"

text \<open>\<^verbatim>\<open>sprintf\<close> into a buffer of \<open>n\<close> bytes stores the text and its NUL.\<close>

definition sprintf :: "nat \<Rightarrow> string \<Rightarrow> crash + string" where
  "sprintf n s = (if length s < n then Inr s else Inl BufferOverflow)"

definition send_error :: "(nat \<Rightarrow> nat \<Rightarrow> int) \<Rightarrow> int \<Rightarrow> string \<Rightarrow> out_fd \<Rightarrow> crash + out_fd" where
  "send_error wr which message fd =
     (case sprintf BUFFER_SIZE (error_text which message) of
        Inl e \<Rightarrow> Inl e
      | Inr buffer \<Rightarrow> Inr (snd (write_str wr buffer fd)))"

lemma length_CRLF [simp]: "length CRLF = 2"
  by (simp add: CRLF_def)

lemma length_STD_HEADER [simp]: "length STD_HEADER = 193"
  by (simp add: STD_HEADER_def)

lemma error_text_fits: "length message \<le> 300 \<Longrightarrow> length (error_text which message) < BUFFER_SIZE"
  by (simp add: error_text_def BUFFER_SIZE_def)

lemma send_error_ok:
  "length message \<le> 300 \<Longrightarrow> send_error wr which message fd = Inr (snd (write_str wr (error_text which message) fd))"
  by (simp add: send_error_def sprintf_def error_text_fits)

subsection \<open>send_file\<close>

text \<open>The position of the last dot, found by repeated \<^verbatim>\<open>strchr\<close>; 0 when there is none.\<close>

fun last_dot :: "nat \<Rightarrow> nat \<Rightarrow> string \<Rightarrow> nat" where
  "last_dot pos lastDot [] = lastDot"
| "last_dot pos lastDot (c # cs) = last_dot (Suc pos) (if c = CHR ''.'' then pos else lastDot) cs"

definition mimetype_of :: "string \<Rightarrow> string option" where
  "mimetype_of extension = map_of mimetypes extension"

text \<open>\<^verbatim>\<open>strncat\<close> twice into the zeroed buffer of 1024 bytes.\<close>

definition file_path :: "string \<Rightarrow> string \<Rightarrow> string" where
  "file_path www_folder parameter =
     (let buffer = take (BUFFER_SIZE - 1) www_folder
      in buffer @ take (BUFFER_SIZE - length buffer - 1) parameter)"

text \<open>
  The opened file is the list of what the successive \<^verbatim>\<open>read\<close> calls deliver; the loop ends with
  the first failing \<^verbatim>\<open>write\<close>.
\<close>

fun file_loop :: "(nat \<Rightarrow> nat \<Rightarrow> int) \<Rightarrow> byte list \<Rightarrow> byte list list \<Rightarrow> out_fd \<Rightarrow> out_fd" where
  "file_loop wr chunk chunks fd =
     (case write_fd wr chunk fd of
        (r, fd) \<Rightarrow> if r < 0 then fd
                  else case chunks of [] \<Rightarrow> fd | c # cs \<Rightarrow> file_loop wr c cs fd)"

declare file_loop.simps [simp del]

definition file_header :: "string \<Rightarrow> string" where
  "file_header mimetype = ''HTTP/1.0 200 OK'' @ CRLF @ ''Content-type: '' @ mimetype @ CRLF @ STD_HEADER @ CRLF"

definition send_file ::
  "(nat \<Rightarrow> nat \<Rightarrow> int) \<Rightarrow> (string \<Rightarrow> byte list list option) \<Rightarrow> string \<Rightarrow> string option \<Rightarrow> out_fd \<Rightarrow>
    crash + (string option \<times> out_fd)"
where
  "send_file wr fs www_folder parameter fd =
     (let parameter = (case parameter of None \<Rightarrow> ''index.html'' | Some p \<Rightarrow> if p = [] then ''index.html'' else p);
          lastDot = last_dot 0 0 parameter;
          fail = (\<lambda>which message opened. map_sum id (Pair opened) (send_error wr which message fd))
      in if lastDot = 0 then fail 400 ''No file extension found'' None
         else case mimetype_of (drop lastDot parameter) of
                None \<Rightarrow> fail 404 ''MIME-TYPE not known'' None
              | Some mimetype \<Rightarrow>
                  let path = file_path www_folder parameter
                  in case fs path of
                       None \<Rightarrow> fail 404 ''Could not open file'' (Some path)
                     | Some chunks \<Rightarrow>
                         (case sprintf BUFFER_SIZE (file_header mimetype) of
                            Inl e \<Rightarrow> Inl e
                          | Inr buffer \<Rightarrow> Inr (Some path, file_loop wr (bytes_of buffer) chunks fd)))"

text \<open>The last dot is really the last one, and a file is served by the part of its name behind it.\<close>

lemma last_dot_none: "CHR ''.'' \<notin> set p \<Longrightarrow> last_dot pos d p = d"
  by (induction p arbitrary: pos d) auto

lemma last_dot_append: "CHR ''.'' \<notin> set ext \<Longrightarrow> last_dot pos d (p @ CHR ''.'' # ext) = pos + length p"
  by (induction p arbitrary: pos d) (auto simp: last_dot_none)

lemma file_loop_all:
  "file_loop all_written c cs fd = fd\<lparr>written := written fd @ c # cs, wcount := wcount fd + Suc (length cs)\<rparr>"
proof (induction cs arbitrary: c fd)
  case Nil
  then show ?case by (simp add: file_loop.simps)
next
  case (Cons d cs)
  show ?case by (subst file_loop.simps) (simp add: Cons)
qed

lemma length_mimetype: "mimetype_of e = Some m \<Longrightarrow> length m \<le> 29"
  by (auto simp: mimetype_of_def mimetypes_def split: if_splits)

lemma file_header_fits: "mimetype_of e = Some m \<Longrightarrow> sprintf BUFFER_SIZE (file_header m) = Inr (file_header m)"
  using length_mimetype [of e m] by (simp add: sprintf_def file_header_def BUFFER_SIZE_def)

lemma mimetype_ext: "mimetype_of e = Some m \<Longrightarrow> CHR ''/'' \<notin> set e \<and> e \<noteq> []"
  by (auto simp: mimetype_of_def mimetypes_def split: if_splits)

text \<open>Whatever the name, the answer never overflows its buffer.\<close>

lemma send_file_total: "\<exists>opened fd'. send_file wr fs www p fd = Inr (opened, fd')"
  by (auto simp: send_file_def Let_def send_error_ok file_header_fits split: option.split)

lemma send_file_opened:
  assumes "send_file wr fs www parameter fd = Inr (Some path, fd')"
  shows "\<exists>name. path = file_path www name \<and>
    name = (case parameter of None \<Rightarrow> ''index.html'' | Some p \<Rightarrow> if p = [] then ''index.html'' else p) \<and>
    mimetype_of (drop (last_dot 0 0 name) name) \<noteq> None"
proof -
  let ?name = "case parameter of None \<Rightarrow> ''index.html'' | Some p \<Rightarrow> if p = [] then ''index.html'' else p"
  show ?thesis
    using assms unfolding send_file_def Let_def
    by (auto simp: send_error_ok file_header_fits intro!: exI [of _ ?name] split: if_splits option.splits)
qed

lemma file_path_short:
  "length www + length name < BUFFER_SIZE \<Longrightarrow> file_path www name = www @ name"
  by (simp add: file_path_def Let_def)

lemma file_path_prefix:
  assumes "length www < BUFFER_SIZE"
  shows "\<exists>k. file_path www name = www @ take k name"
  using assms by (auto simp: file_path_def Let_def)

subsection \<open>send_snapshot\<close>

text \<open>
  \<^verbatim>\<open>memcpy(frame, in[i].buf, in[i].size)\<close>, on the input as it is when the condition variable has
  been signalled and the mutex is held.
\<close>

definition frame_of :: "input_plugin \<Rightarrow> crash + byte list" where
  "frame_of inp =
     (if in_size inp = 0 then Inr []
      else case in_buf inp of
             None \<Rightarrow> Inl NullDereference
           | Some b \<Rightarrow> if 0 \<le> in_size inp \<and> in_size inp \<le> int (length b) then Inr (take (nat (in_size inp)) b)
                       else Inl OutOfBounds)"

definition x_timestamp :: "timeval \<Rightarrow> string" where
  "x_timestamp ts = ''X-Timestamp: '' @ show_int (tv_sec ts) @ ''.'' @ show_int_06 (tv_usec ts) @ CRLF"

definition snapshot_header :: "timeval \<Rightarrow> string" where
  "snapshot_header ts =
     ''HTTP/1.0 200 OK'' @ CRLF @ STD_HEADER @ ''Content-type: image/jpeg'' @ CRLF @ x_timestamp ts @ CRLF"

definition send_snapshot :: "(nat \<Rightarrow> nat \<Rightarrow> int) \<Rightarrow> bool \<Rightarrow> input_plugin \<Rightarrow> out_fd \<Rightarrow> crash + out_fd" where
  "send_snapshot wr malloc_ok inp fd =
     (if \<not> malloc_ok then send_error wr 500 ''not enough memory'' fd
      else case frame_of inp of
             Inl e \<Rightarrow> Inl e
           | Inr frame \<Rightarrow>
               (case sprintf BUFFER_SIZE (snapshot_header (in_timestamp inp)) of
                  Inl e \<Rightarrow> Inl e
                | Inr buffer \<Rightarrow>
                    (case write_str wr buffer fd of
                       (r, fd) \<Rightarrow> if r < 0 then Inr fd else Inr (snd (write_fd wr frame fd)))))"

subsection \<open>send_stream\<close>

definition TEN_K :: int where "TEN_K = 10 * 1024"

definition stream_header :: string where
  "stream_header =
     ''HTTP/1.0 200 OK'' @ CRLF @ STD_HEADER @
     ''Content-Type: multipart/x-mixed-replace;boundary='' @ BOUNDARY @ CRLF @
     CRLF @ ''--'' @ BOUNDARY @ CRLF"

definition part_header :: "int \<Rightarrow> timeval \<Rightarrow> string" where
  "part_header frame_size ts =
     ''Content-Type: image/jpeg'' @ CRLF @ ''Content-Length: '' @ show_int frame_size @ CRLF @
     x_timestamp ts @ CRLF"

definition part_boundary :: string where
  "part_boundary = CRLF @ ''--'' @ BOUNDARY @ CRLF"

datatype stream_end = StreamStopped | ClientGone | NoMemory | WaitingForFrame

text \<open>
  A turn of the loop: the flag \<^verbatim>\<open>pglobal->stop\<close> at its head, whether \<^verbatim>\<open>realloc\<close> finds memory if it is
  called, and the input when the next frame is signalled.  At the end of the list the loop
  waits for a frame.
\<close>

fun stream_loop ::
  "(nat \<Rightarrow> nat \<Rightarrow> int) \<Rightarrow> (bool \<times> bool \<times> input_plugin) list \<Rightarrow> int \<Rightarrow> out_fd \<Rightarrow> crash + (stream_end \<times> out_fd)"
where
  "stream_loop wr [] max_frame_size fd = Inr (WaitingForFrame, fd)"
| "stream_loop wr ((stopping, realloc_ok, inp) # turns) max_frame_size fd =
     (if stopping then Inr (StreamStopped, fd)
      else
        let frame_size = in_size inp;
            grow = frame_size > max_frame_size;
            max_frame_size = (if grow then frame_size + TEN_K else max_frame_size)
        in if grow \<and> max_frame_size > LONG_MAX then Inl SignedOverflow
           else if grow \<and> \<not> realloc_ok then map_sum id (Pair NoMemory) (send_error wr 500 ''not enough memory'' fd)
           else case frame_of inp of
                  Inl e \<Rightarrow> Inl e
                | Inr frame \<Rightarrow>
                    (case sprintf BUFFER_SIZE (part_header frame_size (in_timestamp inp)) of
                       Inl e \<Rightarrow> Inl e
                     | Inr buffer \<Rightarrow>
                         (case write_str wr buffer fd of (r, fd) \<Rightarrow>
                            if r < 0 then Inr (ClientGone, fd)
                            else case write_fd wr frame fd of (r, fd) \<Rightarrow>
                              if r < 0 then Inr (ClientGone, fd)
                              else case write_str wr part_boundary fd of (r, fd) \<Rightarrow>
                                if r < 0 then Inr (ClientGone, fd)
                                else stream_loop wr turns max_frame_size fd)))"

definition send_stream ::
  "(nat \<Rightarrow> nat \<Rightarrow> int) \<Rightarrow> (bool \<times> bool \<times> input_plugin) list \<Rightarrow> out_fd \<Rightarrow> crash + (stream_end \<times> out_fd)"
where
  "send_stream wr turns fd =
     (case write_str wr stream_header fd of
        (r, fd) \<Rightarrow> if r < 0 then Inr (ClientGone, fd) else stream_loop wr turns 0 fd)"

subsection \<open>What a streaming client receives\<close>

text \<open>The text of the timestamps always fits.\<close>

lemma length_show_nat: "length (show_nat n) \<le> (if n < 10 then 1 else 1 + length (show_nat (n div 10)))"
  by (subst show_nat.simps) simp

lemma length_show_nat_bound: "n < 10 ^ Suc k \<Longrightarrow> length (show_nat n) \<le> Suc k"
proof (induction k arbitrary: n)
  case 0
  then show ?case using length_show_nat [of n] by simp
next
  case (Suc k)
  then have "length (show_nat (n div 10)) \<le> Suc k" by (intro Suc.IH) (simp add: less_mult_imp_div_less)
  then show ?case using length_show_nat [of n] by (simp split: if_splits)
qed

lemma length_show_int: "LONG_MIN \<le> i \<Longrightarrow> i \<le> LONG_MAX \<Longrightarrow> length (show_int i) \<le> 11"
proof -
  assume i: "LONG_MIN \<le> i" "i \<le> LONG_MAX"
  have "nat i < 10 ^ Suc 9" "nat (- i) < 10 ^ Suc 9" using i by (simp_all add: long_defs)
  then show ?thesis
    using length_show_nat_bound [of "nat i" 9] length_show_nat_bound [of "nat (- i)" 9]
    by (auto simp: show_int_def)
qed

definition timeval_ok :: "timeval \<Rightarrow> bool" where
  "timeval_ok ts \<longleftrightarrow> LONG_MIN \<le> tv_sec ts \<and> tv_sec ts \<le> LONG_MAX \<and> 0 \<le> tv_usec ts \<and> tv_usec ts < 1000000"

lemma length_x_timestamp: "timeval_ok ts \<Longrightarrow> length (x_timestamp ts) \<le> 40"
  using length_show_int [of "tv_sec ts"] length_show_nat_bound [of "nat (tv_usec ts)" 5]
  by (auto simp: x_timestamp_def timeval_ok_def show_int_06_def Let_def)

definition input_ready :: "input_plugin \<Rightarrow> bool" where
  "input_ready inp \<longleftrightarrow> timeval_ok (in_timestamp inp) \<and> 0 \<le> in_size inp \<and> in_size inp \<le> LONG_MAX \<and>
     (\<exists>b. in_buf inp = Some b \<and> in_size inp \<le> int (length b))"

definition frame :: "input_plugin \<Rightarrow> byte list" where
  "frame inp = (case in_buf inp of None \<Rightarrow> [] | Some b \<Rightarrow> take (nat (in_size inp)) b)"

lemma frame_of_ready: "input_ready inp \<Longrightarrow> frame_of inp = Inr (frame inp)"
  by (auto simp: input_ready_def frame_of_def frame_def)

lemma headers_fit:
  assumes "input_ready inp"
  shows "sprintf BUFFER_SIZE (snapshot_header (in_timestamp inp)) = Inr (snapshot_header (in_timestamp inp))"
    "sprintf BUFFER_SIZE (part_header (in_size inp) (in_timestamp inp)) = Inr (part_header (in_size inp) (in_timestamp inp))"
  using assms length_x_timestamp [of "in_timestamp inp"] length_show_int [of "in_size inp"]
  by (auto simp: sprintf_def snapshot_header_def part_header_def BUFFER_SIZE_def input_ready_def long_defs)

definition part :: "input_plugin \<Rightarrow> byte list" where
  "part inp = bytes_of (part_header (in_size inp) (in_timestamp inp)) @ frame inp @ bytes_of part_boundary"

text \<open>A frame the loop can make room for: its size plus 10 KB is still an \<^verbatim>\<open>int\<close>.\<close>

definition stream_ready :: "input_plugin \<Rightarrow> bool" where
  "stream_ready inp \<longleftrightarrow> input_ready inp \<and> in_size inp + TEN_K \<le> LONG_MAX"

lemma stream_loop_all:
  assumes "list_all stream_ready inps"
  shows "\<exists>fd'. stream_loop all_written (map (\<lambda>inp. (False, True, inp)) inps) m fd = Inr (WaitingForFrame, fd') \<and>
    concat (written fd') = concat (written fd) @ concat (map part inps)"
  using assms
proof (induction inps arbitrary: m fd)
  case (Cons inp inps)
  let ?fd = "fd\<lparr>written := written fd @ [bytes_of (part_header (in_size inp) (in_timestamp inp)), frame inp, bytes_of part_boundary],
                wcount := wcount fd + 3\<rparr>"
  let ?m = "if m < in_size inp then in_size inp + TEN_K else m"
  from Cons.prems have "stream_ready inp" "list_all stream_ready inps" by simp_all
  then have "input_ready inp" "in_size inp + TEN_K \<le> LONG_MAX" "list_all stream_ready inps"
    by (simp only: stream_ready_def)+
  with Cons.IH [of ?m ?fd] obtain fd' where
    "stream_loop all_written (map (\<lambda>inp. (False, True, inp)) inps) ?m ?fd = Inr (WaitingForFrame, fd')"
    "concat (written fd') = concat (written ?fd) @ concat (map part inps)" by blast
  with \<open>input_ready inp\<close> \<open>in_size inp + TEN_K \<le> LONG_MAX\<close> show ?case
    by (auto simp: frame_of_ready headers_fit Let_def write_str_def part_def [of inp] eval_nat_numeral)
qed simp

text \<open>
  Every path that \<^verbatim>\<open>send_file\<close> opens is the configured folder followed by the start of the requested
  name, whose extension is one of the table; a name that only has characters the request parser
  lets through has no slash, so the path stays in the folder itself.  The answer never
  overflows its buffer.
\<close>

lemma send_file_stays_in_folder:
  assumes "length www < BUFFER_SIZE" "\<forall>p. parameter = Some p \<longrightarrow> CHR ''/'' \<notin> set p"
  shows "\<exists>opened fd'. send_file wr fs www parameter fd = Inr (opened, fd') \<and>
    (\<forall>path. opened = Some path \<longrightarrow> (\<exists>name. path = www @ name \<and> CHR ''/'' \<notin> set name))"
proof -
  obtain opened fd' where r: "send_file wr fs www parameter fd = Inr (opened, fd')"
    using send_file_total by blast
  have "\<exists>name. path = www @ name \<and> CHR ''/'' \<notin> set name" if o: "opened = Some path" for path
  proof -
    from send_file_opened [of wr fs www parameter fd path fd'] r o obtain name where
      path: "path = file_path www name" and
      name: "name = (case parameter of None \<Rightarrow> ''index.html'' | Some p \<Rightarrow> if p = [] then ''index.html'' else p)"
      by blast
    then have "CHR ''/'' \<notin> set name" using assms(2) by (cases parameter) auto
    moreover obtain k where "path = www @ take k name"
      using file_path_prefix [OF assms(1)] path by blast
    ultimately show ?thesis by (auto dest: in_set_takeD)
  qed
  with r show ?thesis by blast
qed

subsection \<open>Frames published and frames sent\<close>

text \<open>
  The loop of \<^verbatim>\<open>send_stream\<close> against the thread of the input: it waits in \<^verbatim>\<open>pthread_cond_wait\<close>, is
  woken but has not got the mutex \<^verbatim>\<open>db\<close> yet, or is copying and writing a frame (at first the header).  The
  condition is not a queue: a frame published while the loop does not wait wakes nobody, and one
  published before the woken loop gets the mutex replaces the frame it was woken for.  POSIX allows
  the wait to return without a signal, which the loop does not check.
\<close>

datatype waiter = Waiting | Woken | Sending

datatype stream_event = Publish input_plugin | Spurious | Turn

text \<open>The record of the input at each turn of the loop, in an interleaving of both threads.\<close>

fun stream_turns :: "waiter \<Rightarrow> input_plugin \<Rightarrow> stream_event list \<Rightarrow> input_plugin list" where
  "stream_turns w inp [] = []"
| "stream_turns w inp (Publish inp' # es) = stream_turns (if w = Waiting then Woken else w) inp' es"
| "stream_turns w inp (Spurious # es) = stream_turns (if w = Waiting then Woken else w) inp es"
| "stream_turns Waiting inp (Turn # es) = stream_turns Waiting inp es"
| "stream_turns Woken inp (Turn # es) = inp # stream_turns Sending inp es"
| "stream_turns Sending inp (Turn # es) = stream_turns Waiting inp es"

definition published :: "stream_event list \<Rightarrow> input_plugin list" where
  "published es = concat (map (\<lambda>e. case e of Publish inp \<Rightarrow> [inp] | _ \<Rightarrow> []) es)"

lemma published_simps [simp]:
  "published [] = []" "published (Publish inp # es) = inp # published es"
  "published (Spurious # es) = published es" "published (Turn # es) = published es"
  by (simp_all add: published_def)

text \<open>The loop waits whenever a frame is published, and takes it before the next one.\<close>

fun keeps_up :: "waiter \<Rightarrow> stream_event list \<Rightarrow> bool" where
  "keeps_up w [] \<longleftrightarrow> w \<noteq> Woken"
| "keeps_up w (Publish inp # es) \<longleftrightarrow> w = Waiting \<and> keeps_up Woken es"
| "keeps_up w (Spurious # es) \<longleftrightarrow> False"
| "keeps_up Waiting (Turn # es) \<longleftrightarrow> keeps_up Waiting es"
| "keeps_up Woken (Turn # es) \<longleftrightarrow> keeps_up Sending es"
| "keeps_up Sending (Turn # es) \<longleftrightarrow> keeps_up Waiting es"

lemma stream_turns_set: "set (stream_turns w inp es) \<subseteq> insert inp (set (published es))"
  by (induction w inp es rule: stream_turns.induct) auto

lemma stream_turns_order:
  "Spurious \<notin> set es \<Longrightarrow> subseq (stream_turns w inp es) ((if w = Woken then [inp] else []) @ published es)"
  by (induction w inp es rule: stream_turns.induct) (auto split: if_splits)

lemma stream_turns_complete:
  "keeps_up w es \<Longrightarrow> stream_turns w inp es = (if w = Woken then [inp] else []) @ published es"
  by (induction w inp es rule: stream_turns.induct) auto

text \<open>
  C24. A client that takes what it is sent receives the header of a multipart stream and then, for
  every turn of the loop, a part with the length and time of the frame that the input holds, exactly
  the bytes of that frame, and the boundary; while the server runs and finds memory, and the frames have a
  valid time and a size with 10 KB to spare in an \<^verbatim>\<open>int\<close>.  Every such frame is one the input held or
  published; without a spurious wake-up they are published frames in their order, each sent at most
  once; and when the loop keeps up, waiting again before each frame is published, none is missed.
\<close>

theorem stream_delivers_frames:
  assumes "list_all stream_ready (inp # published es)"
  shows "\<exists>fd. send_stream all_written (map (\<lambda>inp. (False, True, inp)) (stream_turns Sending inp es)) new_fd = Inr (WaitingForFrame, fd) \<and>
    concat (written fd) = bytes_of stream_header @
      concat (map (\<lambda>inp. bytes_of (part_header (in_size inp) (in_timestamp inp)) @ frame inp @ bytes_of part_boundary)
        (stream_turns Sending inp es)) \<and>
    set (stream_turns Sending inp es) \<subseteq> insert inp (set (published es)) \<and>
    (Spurious \<notin> set es \<longrightarrow> subseq (stream_turns Sending inp es) (published es)) \<and>
    (keeps_up Sending es \<longrightarrow> stream_turns Sending inp es = published es)"
proof -
  let ?inps = "stream_turns Sending inp es"
  have part: "(\<lambda>inp. bytes_of (part_header (in_size inp) (in_timestamp inp)) @ frame inp @ bytes_of part_boundary) = part"
    by (simp add: part_def fun_eq_iff)
  have "list_all stream_ready ?inps"
    using assms stream_turns_set [of Sending inp es] by (auto simp: list_all_iff)
  from stream_loop_all [OF this, of 0 "\<lparr>written = [bytes_of stream_header], wcount = 1\<rparr>"]
  obtain fd where "send_stream all_written (map (\<lambda>inp. (False, True, inp)) ?inps) new_fd = Inr (WaitingForFrame, fd)"
    "concat (written fd) = bytes_of stream_header @ concat (map part ?inps)"
    by (auto simp: send_stream_def write_str_def new_fd_def)
  then show ?thesis
    using stream_turns_set [of Sending inp es] stream_turns_order [of es Sending inp] stream_turns_complete [of Sending es inp]
    by (auto simp: part)
qed

definition sample_input :: "byte list \<Rightarrow> input_plugin" where
  "sample_input f = \<lparr>in_plugin_name = Some ''input_uvc.so'', in_handle = True,
     in_param = \<lparr>pid = 0, parameters = None, pargc = 1, pargv = [None]\<rparr>,
     in_parameters = None, parametercount = 0, jpegquality = 0, in_buf = Some f, in_size = int (length f),
     in_timestamp = \<lparr>tv_sec = 12, tv_usec = 345\<rparr>, in_formats = [], formatCount = 0, currentFormat = 0, in_cmd = True\<rparr>"

theorem stream_delivers_frames_witness:
  "\<exists>fd. send_stream all_written (map (\<lambda>inp. (False, True, inp)) [sample_input [255, 216], sample_input [1, 2, 3]]) new_fd =
      Inr (WaitingForFrame, fd) \<and>
    concat (written fd) = bytes_of stream_header @
      concat (map (\<lambda>inp. bytes_of (part_header (in_size inp) (in_timestamp inp)) @ frame inp @ bytes_of part_boundary)
        [sample_input [255, 216], sample_input [1, 2, 3]])"
  using stream_delivers_frames [of "sample_input []"
      "[Turn, Publish (sample_input [255, 216]), Turn, Publish (sample_input [7]), Turn, Publish (sample_input [1, 2, 3]), Turn]"]
  by (auto simp: sample_input_def stream_ready_def input_ready_def timeval_ok_def long_defs TEN_K_def)

end
