(* ===== verification/Http_Json.thy ===== *)
theory Http_Json
  imports Http_Response
begin

text \<open>
  The descriptions of the controls and of the loaded plugins that the HTTP server sends:
  \<^verbatim>\<open>send_Input_JSON\<close>, \<^verbatim>\<open>send_Output_JSON\<close> and \<^verbatim>\<open>send_Program_JSON\<close> of
  \<^verbatim>\<open>src/mjpg-streamer/plugins/output_http/httpd.c\<close>, with the sizes of the buffers they print to.
\<close>

subsection \<open>Texts\<close>

definition DQ :: char where "DQ = CHR 0x22"

definition quoted :: "string \<Rightarrow> string" where
  "quoted s = DQ # s @ [DQ]"

definition entry :: "string \<Rightarrow> string \<Rightarrow> string" where
  "entry key v = quoted key @ '': '' @ quoted v"

text \<open>\<^verbatim>\<open>printf("%s", NULL)\<close> prints \<^verbatim>\<open>(null)\<close>.\<close>

definition print_ptr :: "string option \<Rightarrow> string" where
  "print_ptr s = (case s of None \<Rightarrow> ''(null)'' | Some s \<Rightarrow> s)"

definition json_header :: string where
  "json_header = ''HTTP/1.0 200 OK'' @ CRLF @ ''Content-type: '' @ ''application/x-javascript'' @ CRLF @ STD_HEADER @ CRLF"

text \<open>
  The server stops early when memory runs out, with no answer, and has no defined behaviour after
  a memory error.
\<close>

datatype json_stop = JsonCrash crash | JsonNoMemory

definition crashing :: "crash + 'a \<Rightarrow> json_stop + 'a" where
  "crashing m = map_sum JsonCrash id m"

lemma crashing_simps [simp]: "crashing (Inr x) = Inr x" "crashing (Inl e) = Inl (JsonCrash e)"
  by (simp_all add: crashing_def)

text \<open>\<^verbatim>\<open>sprintf(buffer + strlen(buffer), ...)\<close> into the buffer of 16 KB.\<close>

definition JSON_BUFFER :: nat where "JSON_BUFFER = BUFFER_SIZE * 16"

definition json_print :: "string \<Rightarrow> string \<Rightarrow> json_stop + string" where
  "json_print s buf = crashing (sprintf JSON_BUFFER (buf @ s))"

subsection \<open>Menus\<close>

text \<open>
  An entry of a menu goes to a heap string that was just extended by the length of its name
  plus 6 for the punctuation plus 5.
\<close>

definition menu_entry :: "int \<Rightarrow> string \<Rightarrow> bool \<Rightarrow> string" where
  "menu_entry j name is_last = entry (show_int j) name @ (if is_last then [] else '', '')"

definition menu_append :: "int \<Rightarrow> string \<Rightarrow> bool \<Rightarrow> string \<Rightarrow> crash + string" where
  "menu_append j name is_last menuString =
     (let item = menu_entry j name is_last;
          itemLength = length name + 6
      in if length item < itemLength + 5 then Inr (menuString @ item) else Inl BufferOverflow)"

fun menu_loop_in ::
  "(int \<Rightarrow> bool) \<Rightarrow> string list \<Rightarrow> int \<Rightarrow> int \<Rightarrow> nat \<Rightarrow> string option \<Rightarrow> json_stop + string option"
where
  "menu_loop_in mem items maximum j 0 menuString = Inr menuString"
| "menu_loop_in mem items maximum j (Suc todo) menuString =
     sbind (crashing (at items j)) (\<lambda>name.
     if \<not> mem j then Inl JsonNoMemory
     else
       let prev = (case menuString of None \<Rightarrow> [] | Some m \<Rightarrow> m)
       in sbind (crashing (menu_append j name (j = maximum) prev)) (\<lambda>m.
          menu_loop_in mem items maximum (j + 1) todo (Some m)))"

text \<open>The output variant takes \<^verbatim>\<open>strlen(menuString)\<close> first, a null pointer in the first turn.\<close>

fun menu_loop_out ::
  "(int \<Rightarrow> bool) \<Rightarrow> string list \<Rightarrow> int \<Rightarrow> int \<Rightarrow> nat \<Rightarrow> string option \<Rightarrow> json_stop + string option"
where
  "menu_loop_out mem items maximum j 0 menuString = Inr menuString"
| "menu_loop_out mem items maximum j (Suc todo) menuString =
     (case menuString of
        None \<Rightarrow> Inl (JsonCrash NullDereference)
      | Some prev \<Rightarrow>
          sbind (crashing (at items j)) (\<lambda>name.
          if \<not> mem j then Inl JsonNoMemory
          else
            sbind (crashing (menu_append j name (j = maximum) prev)) (\<lambda>m.
            menu_loop_out mem items maximum (j + 1) todo (Some m))))"

type_synonym menu_printer =
  "(int \<Rightarrow> bool) \<Rightarrow> string list \<Rightarrow> int \<Rightarrow> int \<Rightarrow> nat \<Rightarrow> string option \<Rightarrow> json_stop + string option"

definition menu_string :: "menu_printer \<Rightarrow> (int \<Rightarrow> bool) \<Rightarrow> control \<Rightarrow> json_stop + string option" where
  "menu_string menu_loop mem c =
     (if qc_type (ctrl c) = V4L2_CTRL_TYPE_MENU then
        case menuitems c of
          None \<Rightarrow> Inr None
        | Some items \<Rightarrow>
            menu_loop mem items (qc_maximum (ctrl c)) (qc_minimum (ctrl c))
              (nat (qc_maximum (ctrl c) - qc_minimum (ctrl c) + 1)) None
      else Inr None)"

subsection \<open>Controls\<close>

definition control_text :: "string \<Rightarrow> control \<Rightarrow> string" where
  "control_text dest c =
     (let q = ctrl c; sep = '','' @ [NL]
      in ''{'' @ [NL] @
         entry ''name'' (qc_name q) @ sep @
         entry ''id'' (show_int (sint (qc_id q))) @ sep @
         entry ''type'' (show_int (int (qc_type q))) @ sep @
         entry ''min'' (show_int (qc_minimum q)) @ sep @
         entry ''max'' (show_int (qc_maximum q)) @ sep @
         entry ''step'' (show_int (qc_step q)) @ sep @
         entry ''default'' (show_int (qc_default_value q)) @ sep @
         entry ''value'' (show_int (cvalue c)) @ sep @
         entry ''dest'' dest @ sep @
         entry ''flags'' (show_int (sint (qc_flags q))) @ sep @
         entry ''group'' (show_int (cgroup c)))"

definition control_tail :: "control \<Rightarrow> string option \<Rightarrow> string" where
  "control_tail c menuString =
     (if qc_type (ctrl c) = V4L2_CTRL_TYPE_MENU
      then '','' @ [NL] @ quoted ''menu'' @ '': {'' @ print_ptr menuString @ ''}'' @ [NL] @ ''}''
      else [NL] @ ''}'')"

fun controls_loop ::
  "menu_printer \<Rightarrow> string \<Rightarrow> (nat \<Rightarrow> int \<Rightarrow> bool) \<Rightarrow> control list \<Rightarrow> int \<Rightarrow> nat \<Rightarrow> nat \<Rightarrow> string \<Rightarrow> json_stop + string"
where
  "controls_loop menu_loop dest mem params count i 0 buf = Inr buf"
| "controls_loop menu_loop dest mem params count i (Suc todo) buf =
     sbind (crashing (at params (int i))) (\<lambda>c.
     sbind (menu_string menu_loop (mem i) c) (\<lambda>menuString.
     sbind (json_print (control_text dest c) buf) (\<lambda>buf.
     sbind (json_print (control_tail c menuString) buf) (\<lambda>buf.
     sbind (if int i \<noteq> count - 1 then json_print ('','' @ [NL]) buf else Inr buf) (\<lambda>buf.
     controls_loop menu_loop dest mem params count (Suc i) todo buf)))))"

definition json_controls ::
  "menu_printer \<Rightarrow> string \<Rightarrow> (nat \<Rightarrow> int \<Rightarrow> bool) \<Rightarrow> control list option \<Rightarrow> int \<Rightarrow> json_stop + string"
where
  "json_controls menu_loop dest mem params count =
     sbind (json_print json_header []) (\<lambda>buf.
     sbind (json_print (''{'' @ [NL] @ quoted ''controls'' @ '': ['' @ [NL]) buf) (\<lambda>buf.
     case params of
       None \<Rightarrow> Inr buf
     | Some ps \<Rightarrow> controls_loop menu_loop dest mem ps count 0 (nat count) buf))"

definition answer_json :: "(nat \<Rightarrow> nat \<Rightarrow> int) \<Rightarrow> json_stop + string \<Rightarrow> out_fd \<Rightarrow> crash + out_fd" where
  "answer_json wr r fd =
     (case r of
        Inl (JsonCrash e) \<Rightarrow> Inl e
      | Inl JsonNoMemory \<Rightarrow> Inr fd
      | Inr buf \<Rightarrow> Inr (snd (write_str wr buf fd)))"

definition send_Input_JSON ::
  "(nat \<Rightarrow> nat \<Rightarrow> int) \<Rightarrow> (nat \<Rightarrow> int \<Rightarrow> bool) \<Rightarrow> globals \<Rightarrow> int \<Rightarrow> out_fd \<Rightarrow> crash + out_fd"
where
  "send_Input_JSON wr mem g plugin_number fd =
     sbind (at (gin g) plugin_number) (\<lambda>inp.
     answer_json wr
       (sbind (json_controls menu_loop_in ''0'' mem (in_parameters inp) (parametercount inp)) (\<lambda>buf.
        json_print ([NL] @ '']'' @ [NL] @ ''}'' @ [NL]) buf)) fd)"

definition send_Output_JSON ::
  "(nat \<Rightarrow> nat \<Rightarrow> int) \<Rightarrow> (nat \<Rightarrow> int \<Rightarrow> bool) \<Rightarrow> globals \<Rightarrow> int \<Rightarrow> out_fd \<Rightarrow> crash + out_fd"
where
  "send_Output_JSON wr mem g plugin_number fd =
     sbind (at (gout g) plugin_number) (\<lambda>out.
     answer_json wr
       (sbind (json_controls menu_loop_out ''1'' mem (out_parameters out) (out_parametercount out)) (\<lambda>buf.
        sbind (json_print ([NL] @ '']'' @ [NL]) buf) (\<lambda>buf.
        json_print (''}'' @ [NL]) buf))) fd)"

subsection \<open>The program\<close>

definition plugin_text :: "int \<Rightarrow> string option \<Rightarrow> string option \<Rightarrow> string" where
  "plugin_text i name args =
     ''{'' @ [NL] @ entry ''id'' (show_int i) @ '','' @ [NL] @ entry ''name'' (print_ptr name) @ '','' @ [NL] @
     entry ''args'' (print_ptr args) @ [NL] @ ''}''"

fun plugins_loop :: "(int \<times> string option \<times> string option) list \<Rightarrow> int \<Rightarrow> int \<Rightarrow> nat \<Rightarrow> string \<Rightarrow> json_stop + string" where
  "plugins_loop ps count k 0 buf = Inr buf"
| "plugins_loop ps count k (Suc todo) buf =
     sbind (crashing (at ps k)) (\<lambda>(i, name, args).
     sbind (json_print (plugin_text i name args) buf) (\<lambda>buf.
     sbind (json_print (if k \<noteq> count - 1 then '', '' @ [NL] else [NL]) buf) (\<lambda>buf.
     plugins_loop ps count (k + 1) todo buf)))"

definition send_Program_JSON :: "(nat \<Rightarrow> nat \<Rightarrow> int) \<Rightarrow> globals \<Rightarrow> out_fd \<Rightarrow> crash + out_fd" where
  "send_Program_JSON wr g fd =
     answer_json wr
       (sbind (json_print json_header []) (\<lambda>buf.
        sbind (json_print (''{'' @ [NL] @ quoted ''inputs'' @ '':['' @ [NL]) buf) (\<lambda>buf.
        sbind (plugins_loop (map (\<lambda>i. (pid (in_param i), in_plugin_name i, parameters (in_param i))) (gin g))
                 (incnt g) 0 (nat (incnt g)) buf) (\<lambda>buf.
        sbind (json_print ('']'' @ '','' @ [NL]) buf) (\<lambda>buf.
        sbind (json_print (quoted ''outputs'' @ '':['' @ [NL]) buf) (\<lambda>buf.
        sbind (plugins_loop (map (\<lambda>p. (pid (out_param p), out_plugin_name p, parameters (out_param p))) (gout g))
                 (outcnt g) 0 (nat (outcnt g)) buf) (\<lambda>buf.
        json_print ('']}'' @ [NL]) buf))))))) fd"

subsection \<open>When the answers fit\<close>

text \<open>
  A control as a driver reports it: the name has at most 31 characters, the numbers are 32-bit,
  a menu is numbered from 0 to at most 9 and has its entries.
\<close>

definition control_ok :: "control \<Rightarrow> bool" where
  "control_ok c \<longleftrightarrow> length (qc_name (ctrl c)) \<le> 31 \<and>
     int_ok (qc_minimum (ctrl c)) \<and> int_ok (qc_maximum (ctrl c)) \<and> int_ok (qc_step (ctrl c)) \<and>
     int_ok (qc_default_value (ctrl c)) \<and> int_ok (cvalue c) \<and> int_ok (cgroup c) \<and> qc_type (ctrl c) \<le> 10 \<and>
     (qc_type (ctrl c) = V4L2_CTRL_TYPE_MENU \<longrightarrow> 0 \<le> qc_minimum (ctrl c) \<and> qc_maximum (ctrl c) \<le> 9 \<and>
        (\<forall>items. menuitems c = Some items \<longrightarrow> qc_maximum (ctrl c) < int (length items) \<and> list_all (\<lambda>n. length n \<le> 31) items))"

lemma length_show_int_ok: "int_ok i \<Longrightarrow> length (show_int i) \<le> 11"
  by (simp add: int_ok_def length_show_int)

lemma length_show_word: "length (show_int (sint (w :: cint))) \<le> 11"
proof (rule length_show_int)
  have "- (2 ^ 31) \<le> sint w" "sint w < 2 ^ 31"
    using sint_ge [of w] sint_lt [of w] by simp_all
  then show "LONG_MIN \<le> sint w" "sint w \<le> LONG_MAX" by (simp_all add: long_defs)
qed

lemma length_show_digit: "0 \<le> j \<Longrightarrow> j \<le> 9 \<Longrightarrow> length (show_int j) = 1"
  by (simp add: show_int_def show_nat.simps)

lemma length_entry [simp]: "length (entry k v) = length k + length v + 6"
  by (simp add: entry_def quoted_def)

lemma length_control_text:
  assumes "control_ok c" "length dest = 1"
  shows "length (control_text dest c) \<le> 265"
proof -
  have "length (show_int (int (qc_type (ctrl c)))) \<le> 11"
    using assms(1) by (intro length_show_int_ok) (simp add: control_ok_def int_ok_def long_defs)
  moreover have "length (show_int (sint (qc_id (ctrl c)))) \<le> 11" "length (show_int (sint (qc_flags (ctrl c)))) \<le> 11"
    by (rule length_show_word)+
  moreover have "length (show_int (qc_minimum (ctrl c))) \<le> 11" "length (show_int (qc_maximum (ctrl c))) \<le> 11"
      "length (show_int (qc_step (ctrl c))) \<le> 11" "length (show_int (qc_default_value (ctrl c))) \<le> 11"
      "length (show_int (cvalue c)) \<le> 11" "length (show_int (cgroup c)) \<le> 11" "length (qc_name (ctrl c)) \<le> 31"
    using assms(1) by (simp_all add: control_ok_def length_show_int_ok)
  ultimately show ?thesis
    using assms(2) by (simp add: control_text_def Let_def)
qed

lemma menu_append_ok:
  assumes "0 \<le> j" "j \<le> 9"
  shows "menu_append j name is_last m = Inr (m @ menu_entry j name is_last)"
    "length (menu_entry j name is_last) \<le> length name + 9"
  using length_show_digit [OF assms] by (simp_all add: menu_append_def menu_entry_def Let_def)

lemma menu_loop_in_ok:
  assumes "0 \<le> j" "j + int todo \<le> 10" "j + int todo \<le> int (length items)" "list_all (\<lambda>n. length n \<le> 31) items"
  shows "\<exists>m'. menu_loop_in (\<lambda>_. True) items maximum j todo m = Inr m' \<and>
    length (print_ptr m') \<le> (case m of None \<Rightarrow> 6 | Some s \<Rightarrow> length s) + 40 * todo"
  using assms(1-3)
proof (induction todo arbitrary: j m)
  case 0
  then show ?case by (simp add: print_ptr_def split: option.split)
next
  case (Suc todo)
  let ?name = "items ! nat j" and ?p = "case m of None \<Rightarrow> [] | Some m \<Rightarrow> m"
  have "length ?name \<le> 31"
    using Suc.prems assms(4) by (simp add: list_all_length)
  moreover obtain m' where
    "menu_loop_in (\<lambda>_. True) items maximum (j + 1) todo (Some (?p @ menu_entry j ?name (j = maximum))) = Inr m'"
    "length (print_ptr m') \<le> length (?p @ menu_entry j ?name (j = maximum)) + 40 * todo"
    using Suc.IH [of "j + 1" "Some (?p @ menu_entry j ?name (j = maximum))"] Suc.prems by auto
  moreover have "length ?p \<le> (case m of None \<Rightarrow> 6 | Some s \<Rightarrow> length s)" by (simp split: option.split)
  ultimately show ?case
    using Suc.prems menu_append_ok [of j ?name "j = maximum"] by (simp add: Let_def)
qed

lemma menu_string_ok:
  assumes "control_ok c"
  shows "\<exists>m. menu_string menu_loop_in (\<lambda>_. True) c = Inr m \<and> length (control_tail c m) \<le> 420"
proof (cases "qc_type (ctrl c) = V4L2_CTRL_TYPE_MENU")
  case False
  then show ?thesis by (simp add: menu_string_def control_tail_def)
next
  case True
  let ?todo = "nat (qc_maximum (ctrl c) - qc_minimum (ctrl c) + 1)"
  show ?thesis
  proof (cases "menuitems c")
    case None
    with True show ?thesis by (simp add: menu_string_def control_tail_def print_ptr_def quoted_def)
  next
    case (Some items)
    with True assms have "0 \<le> qc_minimum (ctrl c)" "qc_maximum (ctrl c) \<le> 9" "qc_maximum (ctrl c) < int (length items)"
        "list_all (\<lambda>n. length n \<le> 31) items" by (auto simp: control_ok_def)
    then have *: "?todo \<le> 10" "?todo = 0 \<or> qc_minimum (ctrl c) + int ?todo \<le> 10 \<and> qc_minimum (ctrl c) + int ?todo \<le> int (length items)"
      by linarith+
    obtain m where "menu_loop_in (\<lambda>_. True) items (qc_maximum (ctrl c)) (qc_minimum (ctrl c)) ?todo None = Inr m"
        "length (print_ptr m) \<le> 6 + 40 * ?todo"
    proof (cases "?todo = 0")
      case True
      then show ?thesis using that by (simp add: print_ptr_def)
    next
      case False
      then show ?thesis
        using that menu_loop_in_ok [of "qc_minimum (ctrl c)" ?todo items _ None] * \<open>0 \<le> qc_minimum (ctrl c)\<close>
          \<open>list_all (\<lambda>n. length n \<le> 31) items\<close> by fastforce
    qed
    then show ?thesis
      using True Some *(1) by (auto simp: menu_string_def control_tail_def quoted_def)
  qed
qed

lemma json_print_ok: "length buf + length s < JSON_BUFFER \<Longrightarrow> json_print s buf = Inr (buf @ s)"
  by (simp add: json_print_def sprintf_def)

lemma controls_loop_ok:
  assumes "list_all control_ok ps" "i + todo \<le> length ps" "length buf + 690 * todo < JSON_BUFFER"
  shows "\<exists>buf'. controls_loop menu_loop_in ''0'' (\<lambda>_ _. True) ps count i todo buf = Inr buf' \<and>
    length buf' \<le> length buf + 690 * todo"
  using assms(2,3)
proof (induction todo arbitrary: i buf)
  case (Suc todo)
  let ?c = "ps ! i"
  have c: "control_ok ?c" "at ps (int i) = Inr ?c"
    using assms(1) Suc.prems(1) by (simp_all add: list_all_length)
  obtain m where m: "menu_string menu_loop_in (\<lambda>_. True) ?c = Inr m" "length (control_tail ?c m) \<le> 420"
    using menu_string_ok [OF c(1)] by blast
  have l: "length (control_text ''0'' ?c) \<le> 265" using c(1) by (rule length_control_text) simp
  let ?b1 = "buf @ control_text ''0'' ?c @ control_tail ?c m"
  let ?b2 = "?b1 @ (if int i \<noteq> count - 1 then '','' @ [NL] else [])"
  have b2: "length ?b2 \<le> length buf + 690" using l m(2) by simp
  then obtain buf' where "controls_loop menu_loop_in ''0'' (\<lambda>_ _. True) ps count (Suc i) todo ?b2 = Inr buf'"
      "length buf' \<le> length ?b2 + 690 * todo"
    using Suc.IH [of "Suc i" ?b2] Suc.prems by auto
  moreover have "json_print (control_text ''0'' ?c) buf = Inr (buf @ control_text ''0'' ?c)"
      "json_print (control_tail ?c m) (buf @ control_text ''0'' ?c) = Inr ?b1"
      "(if int i \<noteq> count - 1 then json_print ('','' @ [NL]) ?b1 else Inr ?b1) = Inr ?b2"
    using l m(2) Suc.prems(2) by (simp_all add: json_print_ok)
  ultimately show ?case
    using c(2) m(1) b2 by auto
qed simp

lemma length_json_header: "length json_header = 252"
  by (simp add: json_header_def)


definition sample_menu :: control where
  "sample_menu = \<lparr>ctrl = \<lparr>qc_id = 0x980918, qc_type = 3, qc_name = ''Power Line Frequency'', qc_minimum = 0,
      qc_maximum = 2, qc_step = 1, qc_default_value = 2, qc_flags = 0\<rparr>, cvalue = 1,
    menuitems = Some [''Disabled'', ''50 Hz'', ''60 Hz''], class_id = 0x980000, cgroup = 1\<rparr>"

definition sample_globals :: "control list \<Rightarrow> globals" where
  "sample_globals ps = \<lparr>gstop = False,
     gin = replicate 10 (sample_input []\<lparr>in_parameters := Some ps, parametercount := int (length ps)\<rparr>), incnt = 1,
     gout = replicate 10 \<lparr>out_plugin_name = Some ''output_http.so'', out_handle = True,
       out_param = \<lparr>pid = 0, parameters = None, pargc = 1, pargv = [None]\<rparr>,
       out_parameters = Some ps, out_parametercount = int (length ps), out_cmd = True\<rparr>, outcnt = 1\<rparr>"


definition prints_menu :: "control \<Rightarrow> bool" where
  "prints_menu c \<longleftrightarrow> qc_type (ctrl c) = V4L2_CTRL_TYPE_MENU \<and> menuitems c \<noteq> None \<and> qc_minimum (ctrl c) \<le> qc_maximum (ctrl c)"

lemma menu_string_out:
  "menu_string menu_loop_out mem c = (if prints_menu c then Inl (JsonCrash NullDereference) else Inr None)"
proof (cases "nat (qc_maximum (ctrl c) - qc_minimum (ctrl c) + 1)")
  case 0
  then show ?thesis by (auto simp: menu_string_def prints_menu_def split: option.split)
next
  case (Suc k)
  then show ?thesis by (auto simp: menu_string_def prints_menu_def split: option.split)
qed

lemma json_print_cases: "json_print s buf = Inr (buf @ s) \<or> json_print s buf = Inl (JsonCrash BufferOverflow)"
  by (simp add: json_print_def sprintf_def)

lemma controls_loop_out_crash:
  assumes "i + todo \<le> length ps" "i \<le> j" "j < i + todo" "prints_menu (ps ! j)"
  shows "\<exists>e. controls_loop menu_loop_out dest mem ps count i todo buf = Inl (JsonCrash e)"
  using assms(1-3)
proof (induction todo arbitrary: i buf)
  case (Suc todo)
  show ?case
  proof (cases "prints_menu (ps ! i)")
    case True
    then show ?thesis using Suc.prems by (simp add: menu_string_out)
  next
    case False
    then have "i < j" using Suc.prems assms(4) by (cases "i = j") auto
    then have "\<exists>e. controls_loop menu_loop_out dest mem ps count (Suc i) todo b = Inl (JsonCrash e)" for b
      using Suc.IH [of "Suc i" b] Suc.prems by simp
    then have "\<exists>e. sbind (json_print s b) (\<lambda>buf. controls_loop menu_loop_out dest mem ps count (Suc i) todo buf) = Inl (JsonCrash e)" for s b
      using json_print_cases [of s b] by auto
    moreover note \<open>\<And>b. \<exists>e. controls_loop menu_loop_out dest mem ps count (Suc i) todo b = Inl (JsonCrash e)\<close>
    ultimately show ?thesis
      using False Suc.prems json_print_cases [of "control_text dest (ps ! i)" buf]
        json_print_cases [of "control_tail (ps ! i) None" "buf @ control_text dest (ps ! i)"]
      by (auto simp: menu_string_out)
  qed
qed simp

text \<open>
  The description of an output plugin cannot be printed as soon as one of its controls is a menu with an
  entry: the routine takes the length of a string it has not allocated yet.
\<close>

theorem send_Output_JSON_menu_crash:
  assumes "0 \<le> n" "n < int (length (gout g))" "out_parameters (gout g ! nat n) = Some ps"
    and "out_parametercount (gout g ! nat n) = int (length ps)" "j < length ps" "prints_menu (ps ! j)"
  shows "\<exists>e. send_Output_JSON wr mem g n fd = Inl e"
proof -
  have "\<exists>e. controls_loop menu_loop_out ''1'' mem ps (int (length ps)) 0 (length ps) b = Inl (JsonCrash e)" for b
    using assms(5,6) by (intro controls_loop_out_crash [where j = j]) auto
  then have "\<exists>e. json_controls menu_loop_out ''1'' mem (Some ps) (int (length ps)) = Inl (JsonCrash e)"
    using json_print_cases [of json_header "[]"]
      json_print_cases [of "''{'' @ [NL] @ quoted ''controls'' @ '': ['' @ [NL]" json_header]
    by (auto simp: json_controls_def)
  then show ?thesis
    using assms(1-4) by (auto simp: send_Output_JSON_def answer_json_def)
qed

theorem send_Output_JSON_menu_crash_witness:
  "\<exists>e. send_Output_JSON all_written (\<lambda>_ _. True) (sample_globals [sample_menu]) 0 new_fd = Inl e"
  by (rule send_Output_JSON_menu_crash [of _ _ "[sample_menu]" 0])
     (simp_all add: sample_globals_def sample_menu_def prints_menu_def V4L2_CTRL_TYPE_MENU_def)

end
