(* ===== verification/Http_Command.thy ===== *)
theory Http_Command
  imports Http_Json
begin

text \<open>
  \<^verbatim>\<open>command\<close> of \<^verbatim>\<open>src/mjpg-streamer/plugins/output_http/httpd.c\<close>: a control command taken out of the
  query string and handed to the input or output plugin it names.  The function a plugin
  provides is an argument (\<open>run\<close>), \<open>alloc k\<close> tells whether the k-th \<^verbatim>\<open>strndup\<close> finds memory.
\<close>

datatype command_dest = Dest_Input | Dest_Output | Dest_Program

definition IN_CMD_GENERIC :: int where "IN_CMD_GENERIC = 0"

definition DIGITS :: string where "DIGITS = ''-1234567890''"
definition LETTERS :: string where
  "LETTERS = ''abcdefghijklmnopqrstuvwxyzABCDEFGHIJKLMNOPQRSTUVWXYZ''"
definition COMMAND_CHARS :: string where "COMMAND_CHARS = LETTERS @ ''_1234567890''"

text \<open>\<^verbatim>\<open>MAX(MIN(strtol(svalue, NULL, 10), INT_MAX), INT_MIN)\<close> on the digits at the front.\<close>

definition number_at :: "string \<Rightarrow> int" where
  "number_at v =
     (let svalue = take (strspn v DIGITS) v
      in max (min (fst (strtol svalue)) 2147483647) (- 2147483648))"

text \<open>An optional variable of the query string; \<open>None\<close> when memory runs out.\<close>

definition field :: "bool \<Rightarrow> string \<Rightarrow> int \<Rightarrow> string \<Rightarrow> int option" where
  "field mem key dflt p =
     (case strstr p key of
        None \<Rightarrow> Some dflt
      | Some v \<Rightarrow> if mem then Some (number_at (drop (length key) v)) else None)"

type_synonym plugin_call = "command_dest \<Rightarrow> int \<Rightarrow> cint \<Rightarrow> cint \<Rightarrow> int \<Rightarrow> globals \<Rightarrow> int \<times> globals"

text \<open>The \<^verbatim>\<open>switch(dest)\<close>; the function pointer of a plugin may be null.\<close>

definition call_plugin :: "plugin_call \<Rightarrow> globals \<Rightarrow> int \<Rightarrow> int \<Rightarrow> int \<Rightarrow> int \<Rightarrow> int \<Rightarrow> crash + (int \<times> globals)" where
  "call_plugin run g dest plugin_no command_id grp ivalue =
     (if dest = 0 then
        if plugin_no < incnt g then
          sbind (at (gin g) plugin_no) (\<lambda>inp.
          if in_cmd inp then Inr (run Dest_Input plugin_no (word_of_int command_id) (word_of_int grp) ivalue g)
          else Inl NullDereference)
        else Inr (0, g)
      else if dest = 1 then
        if plugin_no < outcnt g then
          sbind (at (gout g) plugin_no) (\<lambda>out.
          if out_cmd out then Inr (run Dest_Output plugin_no (word_of_int command_id) (word_of_int grp) ivalue g)
          else Inl NullDereference)
        else Inr (0, g)
      else Inr (0, g))"

definition command_reply :: "string \<Rightarrow> int \<Rightarrow> string" where
  "command_reply cmd res =
     ''HTTP/1.0 200 OK'' @ CRLF @ ''Content-type: text/plain'' @ CRLF @ STD_HEADER @ CRLF @ cmd @ '': '' @ show_int res"

definition bad_parameter :: string where
  "bad_parameter = ''Parameter-string of command does not look valid.''"

definition no_command_id :: string where
  "no_command_id = ''no GET variable \"id=...\" found, it is required to specify which command id to execute''"

definition no_memory :: string where
  "no_memory = ''could not allocate memory''"

definition command ::
  "(nat \<Rightarrow> nat \<Rightarrow> int) \<Rightarrow> (nat \<Rightarrow> bool) \<Rightarrow> plugin_call \<Rightarrow> globals \<Rightarrow> string option \<Rightarrow> out_fd \<Rightarrow> crash + (globals \<times> out_fd)"
where
  "command wr alloc run g parameter fd =
     (let fail = (\<lambda>which message. map_sum id (Pair g) (send_error wr which message fd))
      in case parameter of
           None \<Rightarrow> fail 400 bad_parameter
         | Some p \<Rightarrow>
             if length p \<ge> 255 \<or> length p = 0 then fail 400 bad_parameter
             else case strstr p ''id='' of
               None \<Rightarrow> fail 400 no_command_id
             | Some c \<Rightarrow>
                 let c = drop 3 c;
                     cmd = take (strspn c COMMAND_CHARS) c
                 in if \<not> alloc 0 then fail 500 no_memory
                    else if \<not> alloc 1 then fail 500 no_memory
                    else
                      let command_id = number_at cmd
                      in case field (alloc 2) ''value='' 0 p of None \<Rightarrow> fail 500 no_memory | Some ivalue \<Rightarrow>
                         case field (alloc 3) ''group='' IN_CMD_GENERIC p of None \<Rightarrow> fail 500 no_memory | Some grp \<Rightarrow>
                         case field (alloc 4) ''dest='' 0 p of None \<Rightarrow> fail 500 no_memory | Some dest \<Rightarrow>
                         case field (alloc 5) ''plugin='' 0 p of None \<Rightarrow> fail 500 no_memory | Some plugin_no \<Rightarrow>
                           sbind (call_plugin run g dest plugin_no command_id grp ivalue) (\<lambda>(res, g).
                           sbind (sprintf BUFFER_SIZE (command_reply cmd res)) (\<lambda>buffer.
                           Inr (g, snd (write_str wr buffer fd)))))"

subsection \<open>Properties\<close>

lemma number_at_range: "LONG_MIN \<le> number_at v \<and> number_at v \<le> LONG_MAX"
  by (auto simp: number_at_def Let_def long_defs)


lemma digit_in_DIGITS: "is_digit c \<Longrightarrow> c \<in> set DIGITS"
proof -
  assume "is_digit c"
  moreover define n :: nat where "n = of_char c"
  ultimately have "48 \<le> n" "n \<le> 57" by (simp_all add: is_digit_def)
  then have "n = 48 \<or> n = 49 \<or> n = 50 \<or> n = 51 \<or> n = 52 \<or> n = 53 \<or> n = 54 \<or> n = 55 \<or> n = 56 \<or> n = 57" by presburger
  then have "n \<in> of_char ` set DIGITS" by (elim disjE) (simp_all add: DIGITS_def)
  then show ?thesis by (auto simp: n_def)
qed

lemma show_int_DIGITS: "set (show_int i) \<subseteq> set DIGITS"
proof -
  have "set (show_nat n) \<subseteq> set DIGITS" for n
    using show_nat_digits digit_in_DIGITS by blast
  then show ?thesis by (auto simp: show_int_def DIGITS_def)
qed

lemma show_int_COMMAND_CHARS: "0 \<le> i \<Longrightarrow> set (show_int i) \<subseteq> set COMMAND_CHARS"
proof -
  assume "0 \<le> i"
  then have "\<forall>c \<in> set (show_int i). is_digit c" by (simp add: show_int_def show_nat_digits)
  moreover have "c \<in> set COMMAND_CHARS" if "is_digit c" for c
    using digit_in_DIGITS [OF that] is_digit_not_sign [OF that] by (auto simp: DIGITS_def COMMAND_CHARS_def)
  ultimately show ?thesis by blast
qed

lemma take_strspn_append:
  assumes "set a \<subseteq> set accept" "r = [] \<or> hd r \<notin> set accept"
  shows "take (strspn (a @ r) accept) (a @ r) = a"
proof -
  have "takeWhile (\<lambda>c. c \<in> set accept) r = []" using assms(2) by (cases r) auto
  then show ?thesis using assms(1) unfolding take_strspn by (simp add: takeWhile_append2 subset_iff)
qed

lemma number_at_show:
  assumes "int_ok i" "r = [] \<or> hd r \<notin> set DIGITS"
  shows "number_at (show_int i @ r) = i"
  using assms(1) strtol_show_int [of i "[]"] take_strspn_append [OF show_int_DIGITS assms(2)]
  by (simp add: number_at_def Let_def int_ok_def long_defs)

lemma strstr_skip: "\<lbrakk>pat \<noteq> []; hd pat \<notin> set pre\<rbrakk> \<Longrightarrow> strstr (pre @ s) pat = strstr s pat"
  by (induction pre) (auto simp: prefix_def neq_Nil_conv)

text \<open>The query string of a complete control command.\<close>

definition command_query :: "int \<Rightarrow> int \<Rightarrow> int \<Rightarrow> int \<Rightarrow> int \<Rightarrow> string" where
  "command_query dest plugin_no command_id grp ivalue =
     ''&dest='' @ show_int dest @ ''&plugin='' @ show_int plugin_no @ ''&id='' @ show_int command_id @
     ''&group='' @ show_int grp @ ''&value='' @ show_int ivalue"

lemma letters_not_in_number: "x \<in> set ''idvgp'' \<Longrightarrow> x \<notin> set (show_int i)"
  using show_int_DIGITS [of i] by (auto simp: DIGITS_def)

lemma strstr_number: "\<lbrakk>pat = x # xs; x \<in> set ''idvgp''\<rbrakk> \<Longrightarrow> strstr (show_int i @ s) pat = strstr s pat"
  using letters_not_in_number [of x i] by (simp add: strstr_skip)

lemma strstr_number_keys [simp]:
  "strstr (show_int i @ s) ''id='' = strstr s ''id=''" "strstr (show_int i @ s) ''value='' = strstr s ''value=''"
  "strstr (show_int i @ s) ''group='' = strstr s ''group=''" "strstr (show_int i @ s) ''dest='' = strstr s ''dest=''"
  "strstr (show_int i @ s) ''plugin='' = strstr s ''plugin=''"
  by (simp_all add: strstr_number [OF refl])

lemma not_DIGITS: "CHR ''&'' \<notin> set DIGITS" "CHR ''&'' \<notin> set COMMAND_CHARS"
  by (simp_all add: DIGITS_def COMMAND_CHARS_def LETTERS_def)

lemma field_query:
  assumes "int_ok d" "int_ok n" "int_ok i" "int_ok gr" "int_ok v"
  shows "field True ''value='' 0 (command_query d n i gr v) = Some v"
    "field True ''group='' 0 (command_query d n i gr v) = Some gr"
    "field True ''dest='' 0 (command_query d n i gr v) = Some d"
    "field True ''plugin='' 0 (command_query d n i gr v) = Some n"
  using assms number_at_show [of v "[]"] not_DIGITS(1)
  by (simp_all add: field_def command_query_def number_at_show)

lemma id_query:
  "strstr (command_query d n i gr v) ''id='' = Some (''id='' @ show_int i @ ''&group='' @ show_int gr @ ''&value='' @ show_int v)"
  by (simp add: command_query_def)

lemma length_command_query:
  assumes "int_ok d" "int_ok n" "int_ok i" "int_ok gr" "int_ok v"
  shows "length (command_query d n i gr v) < 255" "command_query d n i gr v \<noteq> []"
  using length_show_int [of d] length_show_int [of n] length_show_int [of i] length_show_int [of gr] length_show_int [of v] assms
  by (simp_all add: command_query_def int_ok_def)

text \<open>
  The characters taken for the control do not include the minus sign, those taken for its number do:
  a negative control number is read as nothing, and becomes 0.
\<close>

lemma number_at_empty: "number_at '''' = 0"
  proof -
  have "strtol '''' = (0, '''')" by (simp add: strtol_def)
  then show ?thesis by (simp add: number_at_def)
qed

lemma command_id_query:
  assumes "int_ok i"
  shows "take (strspn (show_int i @ ''&group='' @ r) COMMAND_CHARS) (show_int i @ ''&group='' @ r) =
      (if 0 \<le> i then show_int i else '''')"
    "number_at (if 0 \<le> i then show_int i else '''') = max i 0"
proof -
  show "take (strspn (show_int i @ ''&group='' @ r) COMMAND_CHARS) (show_int i @ ''&group='' @ r) =
      (if 0 \<le> i then show_int i else '''')"
  proof (cases "0 \<le> i")
    case True
    with take_strspn_append [OF show_int_COMMAND_CHARS, of i "''&group='' @ r"] not_DIGITS(2) show ?thesis
      by simp
  next
    case False
    have "CHR ''-'' \<notin> set COMMAND_CHARS" by (simp add: COMMAND_CHARS_def LETTERS_def)
    with False show ?thesis unfolding take_strspn by (simp add: show_int_def)
  qed
  show "number_at (if 0 \<le> i then show_int i else '''') = max i 0"
    using number_at_show [OF assms, of "[]"] number_at_empty by simp
qed

text \<open>
  C21. A complete control command in the query string (destination, plugin, control, group and value, as the
  pages of the server send it) reaches exactly the plugin it names, an input plugin for
  destination 0 and an output plugin for destination 1, with its number, control, group and value;
  for an unknown plugin or destination no plugin is called and the result is 0.  The plugin has a
  command function, its number is not negative and the five numbers fit an \<^verbatim>\<open>int\<close>.  A negative
  control arrives as 0.  The client is told the control and what the plugin returned, in a text that
  fits its buffer.
\<close>

theorem command_reaches_plugin:
  assumes "globals_ok g" "int_ok d" "int_ok n" "0 \<le> n" "int_ok i" "int_ok gr" "int_ok v"
    and "d = 0 \<and> n < incnt g \<longrightarrow> in_cmd (gin g ! nat n)"
    and "d = 1 \<and> n < outcnt g \<longrightarrow> out_cmd (gout g ! nat n)"
    and "(if d = 0 \<and> n < incnt g then run Dest_Input n (word_of_int (max i 0)) (word_of_int gr) v g
          else if d = 1 \<and> n < outcnt g then run Dest_Output n (word_of_int (max i 0)) (word_of_int gr) v g
          else (0, g)) = (res, g')" "int_ok res"
  shows "command all_written (\<lambda>_. True) run g (Some (command_query d n i gr v)) fd =
    Inr (g', fd\<lparr>written := written fd @ [bytes_of (command_reply (if 0 \<le> i then show_int i else '''') res)],
      wcount := Suc (wcount fd)\<rparr>)"
proof -
  let ?cmd = "if 0 \<le> i then show_int i else ''''"
  note fields = field_query [OF assms(2,3,5-7)] length_command_query [OF assms(2,3,5-7)]
  have "call_plugin run g d n (max i 0) gr v = Inr (res, g')"
    using assms(1,4,8-10) by (auto simp: call_plugin_def globals_ok_def split: if_splits)
  moreover have "sprintf BUFFER_SIZE (command_reply ?cmd res) = Inr (command_reply ?cmd res)"
    using length_show_int [of i] length_show_int [of res] assms(5,11)
    by (simp add: sprintf_def command_reply_def BUFFER_SIZE_def int_ok_def)
  ultimately show ?thesis
    using fields command_id_query(1) [OF assms(5), of "show_int gr @ ''&value='' @ show_int v"] command_id_query(2) [OF assms(5)]
    by (simp add: command_def Let_def id_query IN_CMD_GENERIC_def write_str_def del: if_split)
qed

lemma sample_globals_ok: "globals_ok (sample_globals ps)"
  by (simp add: globals_ok_def sample_globals_def MAX_INPUT_PLUGINS_def MAX_OUTPUT_PLUGINS_def)

theorem command_reaches_plugin_witness:
  "command all_written (\<lambda>_. True) (\<lambda>dest n i gr v g. (v, g)) (sample_globals []) (Some (command_query 0 0 9963776 1 42)) new_fd =
    Inr (sample_globals [], new_fd\<lparr>written := written new_fd @ [bytes_of (command_reply (show_int 9963776) 42)],
      wcount := Suc (wcount new_fd)\<rparr>) \<and>
   command all_written (\<lambda>_. True) (\<lambda>dest n i gr v g. (v, g)) (sample_globals []) (Some (command_query 2 7 (- 5) 1 42)) new_fd =
    Inr (sample_globals [], new_fd\<lparr>written := written new_fd @ [bytes_of (command_reply '''' 0)],
      wcount := Suc (wcount new_fd)\<rparr>)"
  by (rule conjI; rule command_reaches_plugin [OF sample_globals_ok, THEN trans])
     (simp_all add: sample_globals_def sample_input_def int_ok_def long_defs)

text \<open>
  A control command with a negative plugin number passes the check against the number of plugins and
  indexes the table of plugins in front of its start.
\<close>

theorem command_negative_plugin:
  assumes "globals_ok g" "n < 0" "int_ok n" "int_ok i" "int_ok gr" "int_ok v"
  shows "command wr (\<lambda>_. True) run g (Some (command_query 0 n i gr v)) fd = Inl OutOfBounds"
proof -
  have "int_ok 0" by (simp add: int_ok_def long_defs)
  note fields = field_query [OF \<open>int_ok 0\<close> assms(3-6)] length_command_query [OF \<open>int_ok 0\<close> assms(3-6)]
  have "call_plugin run g 0 n k gr v = Inl OutOfBounds" for k
    using assms(1,2) by (simp add: call_plugin_def globals_ok_def at_def)
  then show ?thesis
    using fields by (simp add: command_def Let_def id_query IN_CMD_GENERIC_def)
qed

theorem command_negative_plugin_witness:
  "command all_written (\<lambda>_. True) (\<lambda>dest n i gr v g. (v, g)) (sample_globals []) (Some (command_query 0 (- 1) 1 1 1)) new_fd =
    Inl OutOfBounds"
  by (rule command_negative_plugin) (simp_all add: sample_globals_ok int_ok_def long_defs)

end
