(* ===== verification/Http_Codec.thy ===== *)
theory Http_Codec
  imports C_Strings
begin

text \<open>
  The decoders of \<^verbatim>\<open>src/mjpg-streamer/plugins/output_http/httpd.c\<close>: \<^verbatim>\<open>decodeBase64\<close> (HTTP basic
  authentication), \<^verbatim>\<open>hex_char_to_int\<close> and \<^verbatim>\<open>unescape\<close> (URI escapes).  Both decoders work in
  place; the write position never overtakes the read position, so the result is a list of its
  own here.
\<close>

subsection \<open>Base 64\<close>

abbreviation code :: "char \<Rightarrow> nat" where "code c \<equiv> of_char c"

definition base64_digit :: "char \<Rightarrow> cint option" where
  "base64_digit c =
     (let t = code c
      in if 48 \<le> t \<and> t \<le> 57 then Some (of_nat (t - 48 + 52))
         else if 65 \<le> t \<and> t \<le> 90 then Some (of_nat (t - 65))
         else if 97 \<le> t \<and> t \<le> 122 then Some (of_nat (t - 97 + 26))
         else if c = CHR ''+'' then Some 62
         else if c = CHR ''/'' then Some 63
         else if c = CHR ''='' then Some 0
         else None)"

definition char_of_word :: "cint \<Rightarrow> char" where
  "char_of_word w = char_of (unat (ucast w :: byte))"

fun base64_loop :: "string \<Rightarrow> cint \<Rightarrow> nat \<Rightarrow> string \<Rightarrow> string" where
  "base64_loop [] ch i out = out"
| "base64_loop (c # cs) ch i out =
     (case base64_digit c of
        None \<Rightarrow> base64_loop cs ch i out
      | Some t \<Rightarrow>
          let ch = push_bit 6 ch OR t;
              i = Suc i
          in if i = 4 then
               base64_loop cs ch 0
                 (out @ [char_of_word (drop_bit 16 ch), char_of_word (drop_bit 8 ch), char_of_word ch])
             else base64_loop cs ch i out)"

definition decodeBase64 :: "string \<Rightarrow> string" where
  "decodeBase64 data = base64_loop data 0 0 []"

subsection \<open>URI escapes\<close>

definition hex_char_to_int :: "char \<Rightarrow> int" where
  "hex_char_to_int c =
     (let t = code c
      in if 48 \<le> t \<and> t \<le> 57 then int t - 48
         else if 97 \<le> t \<and> t \<le> 102 then (int t - 97) + 10
         else if 65 \<le> t \<and> t \<le> 70 then (int t - 65) + 10
         else - 1)"

text \<open>\<^verbatim>\<open>source[i]\<close>, which is the terminating NUL at the length of the string.\<close>

definition char_at :: "string \<Rightarrow> nat \<Rightarrow> char" where
  "char_at s i = (if i < length s then s ! i else NUL)"

function unescape_loop :: "string \<Rightarrow> nat \<Rightarrow> string \<Rightarrow> string option" where
  "unescape_loop source src dst =
     (if length source \<le> src then Some dst
      else if char_at source src \<noteq> CHR ''%'' then unescape_loop source (src + 1) (dst @ [char_at source src])
      else if length source < src + 2 then None
      else
        let rc = hex_char_to_int (char_at source (src + 1))
        in if rc = - 1 then None
           else let rc' = hex_char_to_int (char_at source (src + 2))
                in if rc' = - 1 then None
                   else unescape_loop source (src + 3) (dst @ [char_of (nat (rc * 16 + rc'))]))"
  by pat_completeness auto
termination by (relation "measure (\<lambda>(source, src, dst). length source - src)") auto

declare unescape_loop.simps [simp del]

text \<open>\<open>None\<close> is the answer -1; otherwise the characters stored before the final NUL.\<close>

definition unescape :: "string \<Rightarrow> string option" where
  "unescape s = unescape_loop s 0 []"

subsection \<open>Encoders\<close>

text \<open>The inverse directions, as a client computes them.\<close>

definition sextet :: "nat \<Rightarrow> char" where
  "sextet k =
     (if k < 26 then char_of (65 + k) else if k < 52 then char_of (97 + (k - 26))
      else if k < 62 then char_of (48 + (k - 52)) else if k = 62 then CHR ''+'' else CHR ''/'')"

fun encodeBase64 :: "string \<Rightarrow> string" where
  "encodeBase64 [] = []"
| "encodeBase64 [a] =
     [sextet (code a div 4), sextet (code a mod 4 * 16), CHR ''='', CHR ''='']"
| "encodeBase64 [a, b] =
     [sextet (code a div 4), sextet (code a mod 4 * 16 + code b div 16), sextet (code b mod 16 * 4), CHR ''='']"
| "encodeBase64 (a # b # c # s) =
     sextet (code a div 4) # sextet (code a mod 4 * 16 + code b div 16) #
     sextet (code b mod 16 * 4 + code c div 64) # sextet (code c mod 64) # encodeBase64 s"

definition hex_digit :: "nat \<Rightarrow> char" where
  "hex_digit d = (if d < 10 then char_of (48 + d) else char_of (65 + (d - 10)))"

definition escape_char :: "char \<Rightarrow> string" where
  "escape_char c = [CHR ''%'', hex_digit (code c div 16), hex_digit (code c mod 16)]"

definition escape :: "(char \<Rightarrow> bool) \<Rightarrow> string \<Rightarrow> string" where
  "escape keep s = concat (map (\<lambda>c. if keep c \<and> c \<noteq> CHR ''%'' then [c] else escape_char c) s)"

subsection \<open>Base 64 round trip\<close>

lemma base64_digit_sextet: "k < 64 \<Longrightarrow> base64_digit (sextet k) = Some (of_nat k)"
proof -
  assume "k < 64"
  then consider "k < 26" | "26 \<le> k" "k < 52" | "52 \<le> k" "k < 62" | "k = 62" | "k = 63" by linarith
  then show ?thesis
    by cases (simp add: base64_digit_def sextet_def Let_def del: of_nat_add; linarith)+
qed

text \<open>The byte of a character, and the sextets of three bytes as shifts and masks.\<close>

definition char_byte :: "char \<Rightarrow> byte" where
  "char_byte c = of_nat (code c)"

lemma unat_char_byte: "unat (char_byte c) = code c"
  by (simp add: char_byte_def unsigned_of_nat take_bit_nat_eq_self)

lemma char_of_unat_char_byte [simp]: "char_of (unat (char_byte c)) = c"
  by (simp add: unat_char_byte)

lemma of_nat_unat_byte: "(of_nat (unat (b :: byte)) :: cint) = ucast b"
  by (rule bit_word_eqI) (simp add: bit_simps)

lemma of_nat_div_exp: "(of_nat (code a div 2 ^ k) :: cint) = ucast (drop_bit k (char_byte a))"
  unfolding unat_char_byte [symmetric]
  by (metis of_nat_unat_byte drop_bit_eq_div unat_drop_bit_eq)

lemma of_nat_mod_exp: "(of_nat (code a mod 2 ^ k) :: cint) = ucast (take_bit k (char_byte a))"
  unfolding unat_char_byte [symmetric]
  by (metis of_nat_unat_byte take_bit_eq_mod unsigned_take_bit_eq)

lemma of_nat_sextets:
  "(of_nat (code a div 4) :: cint) = ucast (drop_bit 2 (char_byte a))"
  "(of_nat (code a mod 4 * 16 + code b div 16) :: cint) = push_bit 4 (ucast (take_bit 2 (char_byte a))) OR ucast (drop_bit 4 (char_byte b))"
  "(of_nat (code b mod 16 * 4 + code c div 64) :: cint) = push_bit 2 (ucast (take_bit 4 (char_byte b))) OR ucast (drop_bit 6 (char_byte c))"
  "(of_nat (code c mod 64) :: cint) = ucast (take_bit 6 (char_byte c))"
proof -
  have or2: "push_bit 4 (ucast (take_bit 2 x) :: cint) + ucast (drop_bit 4 y) = push_bit 4 (ucast (take_bit 2 x)) OR ucast (drop_bit 4 (y :: byte))" for x y :: byte
    by (rule disjunctive_add) (auto simp: bit_simps dest: bit_imp_le_length)
  have or3: "push_bit 2 (ucast (take_bit 4 x) :: cint) + ucast (drop_bit 6 y) = push_bit 2 (ucast (take_bit 4 x)) OR ucast (drop_bit 6 (y :: byte))" for x y :: byte
    by (rule disjunctive_add) (auto simp: bit_simps dest: bit_imp_le_length)
  have s: "of_nat (m * 2 ^ k + n) = push_bit k (of_nat m :: cint) + of_nat n" for m n k
    by (simp add: push_bit_eq_mult)
  show "(of_nat (code a div 4) :: cint) = ucast (drop_bit 2 (char_byte a))"
    using of_nat_div_exp [of a 2] by simp
  show "(of_nat (code a mod 4 * 16 + code b div 16) :: cint) = push_bit 4 (ucast (take_bit 2 (char_byte a))) OR ucast (drop_bit 4 (char_byte b))"
    using s [of "code a mod 2 ^ 2" 4 "code b div 2 ^ 4"] unfolding of_nat_mod_exp of_nat_div_exp or2 by simp
  show "(of_nat (code b mod 16 * 4 + code c div 64) :: cint) = push_bit 2 (ucast (take_bit 4 (char_byte b))) OR ucast (drop_bit 6 (char_byte c))"
    using s [of "code b mod 2 ^ 4" 2 "code c div 2 ^ 6"] unfolding of_nat_mod_exp of_nat_div_exp or3 by simp
  show "(of_nat (code c mod 64) :: cint) = ucast (take_bit 6 (char_byte c))"
    using of_nat_mod_exp [of c 6] by simp
qed

text \<open>The four steps over a group of four sextets, and the three characters they store.\<close>

definition group :: "cint \<Rightarrow> cint \<Rightarrow> cint \<Rightarrow> cint \<Rightarrow> cint \<Rightarrow> cint" where
  "group ch w1 w2 w3 w4 = push_bit 6 (push_bit 6 (push_bit 6 (push_bit 6 ch OR w1) OR w2) OR w3) OR w4"

lemma base64_loop_group:
  assumes "base64_digit d1 = Some w1" "base64_digit d2 = Some w2" "base64_digit d3 = Some w3" "base64_digit d4 = Some w4"
  shows "base64_loop (d1 # d2 # d3 # d4 # cs) ch 0 out =
    base64_loop cs (group ch w1 w2 w3 w4) 0
      (out @ [char_of_word (drop_bit 16 (group ch w1 w2 w3 w4)), char_of_word (drop_bit 8 (group ch w1 w2 w3 w4)),
              char_of_word (group ch w1 w2 w3 w4)])"
  using assms by (simp add: Let_def group_def)

lemma group_bytes:
  fixes a b c :: byte and ch :: cint
  defines "g \<equiv> group ch (ucast (drop_bit 2 a)) (push_bit 4 (ucast (take_bit 2 a)) OR ucast (drop_bit 4 b))
      (push_bit 2 (ucast (take_bit 4 b)) OR ucast (drop_bit 6 c)) (ucast (take_bit 6 c))"
  shows "ucast (drop_bit 16 g) = a" "ucast (drop_bit 8 g) = b" "ucast g = c"
proof -
  have n: "n < LENGTH(8) \<Longrightarrow> n < 8" for n by simp
  have s: "2 \<le> n \<Longrightarrow> Suc (Suc (n - 2)) = n" for n by simp
  show "ucast (drop_bit 16 g) = a"
    by (rule bit_word_eqI) (drule n, auto simp: s g_def group_def bit_simps dest: bit_imp_le_length)
  show "ucast (drop_bit 8 g) = b"
    by (rule bit_word_eqI) (drule n, auto simp: s g_def group_def bit_simps dest: bit_imp_le_length)
  show "ucast g = c"
    by (rule bit_word_eqI) (drule n, auto simp: s g_def group_def bit_simps dest: bit_imp_le_length)
qed

lemma base64_loop_quad:
  assumes "base64_digit d1 = Some (of_nat (code a div 4))"
    and "base64_digit d2 = Some (of_nat (code a mod 4 * 16 + code b div 16))"
    and "base64_digit d3 = Some (of_nat (code b mod 16 * 4 + code c div 64))"
    and "base64_digit d4 = Some (of_nat (code c mod 64))"
  shows "\<exists>ch'. base64_loop (d1 # d2 # d3 # d4 # cs) ch 0 out = base64_loop cs ch' 0 (out @ [a, b, c])"
  using assms unfolding of_nat_sextets
  by (intro exI) (simp only: base64_loop_group char_of_word_def group_bytes char_of_unat_char_byte)

lemma sextet_bounds:
  "code a div 4 < 64" "code a mod 4 * 16 + code b div 16 < 64"
  "code b mod 16 * 4 + code c div 64 < 64" "code c mod 64 < 64"
proof -
  have "code a < 256" "code b < 256" "code c < 256" by simp_all
  then show "code a div 4 < 64" "code c mod 64 < 64" by linarith simp
  have "code a mod 4 \<le> 3" "code b div 16 \<le> 15" "code b mod 16 \<le> 15" "code c div 64 \<le> 3"
    using \<open>code b < 256\<close> \<open>code c < 256\<close> mod_less_divisor [of 4 "code a"] mod_less_divisor [of 16 "code b"] by linarith+
  then show "code a mod 4 * 16 + code b div 16 < 64" "code b mod 16 * 4 + code c div 64 < 64" by linarith+
qed

lemma code_NUL [simp]: "code NUL = 0"
  by (simp add: NUL_def)

lemma digit_pad: "base64_digit (CHR ''='') = Some (of_nat 0)"
  by (simp add: base64_digit_def Let_def)

lemma base64_loop_encode: "\<exists>k \<le> 2. base64_loop (encodeBase64 s) ch 0 out = out @ s @ replicate k NUL"
proof (induction s arbitrary: ch out rule: encodeBase64.induct)
  case 1
  then show ?case by (auto intro: exI [of _ 0])
next
  case (2 a)
  obtain ch' where "base64_loop (encodeBase64 [a]) ch 0 out = base64_loop [] ch' 0 (out @ [a, NUL, NUL])"
    using base64_loop_quad [of "sextet (code a div 4)" a "sextet (code a mod 4 * 16)" NUL "CHR ''=''" NUL "CHR ''=''" "[]" ch out]
      base64_digit_sextet sextet_bounds(1) [of a] sextet_bounds(2) [of a NUL] digit_pad by auto
  then show ?case by (auto intro!: exI [of _ 2] simp: numeral_2_eq_2)
next
  case (3 a b)
  obtain ch' where "base64_loop (encodeBase64 [a, b]) ch 0 out = base64_loop [] ch' 0 (out @ [a, b, NUL])"
    using base64_loop_quad [of "sextet (code a div 4)" a "sextet (code a mod 4 * 16 + code b div 16)" b "sextet (code b mod 16 * 4)" NUL "CHR ''=''" "[]" ch out]
      base64_digit_sextet sextet_bounds(1) [of a] sextet_bounds(2) [of a b] sextet_bounds(3) [of b NUL] digit_pad by auto
  then show ?case by (auto intro!: exI [of _ 1])
next
  case (4 a b c s)
  obtain ch' where "base64_loop (encodeBase64 (a # b # c # s)) ch 0 out = base64_loop (encodeBase64 s) ch' 0 (out @ [a, b, c])"
    unfolding encodeBase64.simps
    using base64_loop_quad [OF base64_digit_sextet [OF sextet_bounds(1)] base64_digit_sextet [OF sextet_bounds(2)]
        base64_digit_sextet [OF sextet_bounds(3)] base64_digit_sextet [OF sextet_bounds(4)]] by blast
  then show ?case using "4.IH" [of ch' "out @ [a, b, c]"] by auto
qed

lemma cstr_pad: "NUL \<notin> set s \<Longrightarrow> cstr (s @ replicate k NUL) = s"
  by (induction s) (auto simp: cstr_def takeWhile_replicate split: if_splits)

lemma decode_encode: "NUL \<notin> set s \<Longrightarrow> cstr (decodeBase64 (encodeBase64 s)) = s"
  using base64_loop_encode [of s 0 "[]"] cstr_pad by (auto simp: decodeBase64_def)

text \<open>
  C22. \<^verbatim>\<open>decodeBase64\<close> inverts the base 64 encoding of every string: what it leaves in the buffer, read as
  a C string, is what the client encoded, with or without padding.
\<close>

theorem base64_round_trip: "NUL \<notin> set s \<Longrightarrow> cstr (decodeBase64 (encodeBase64 s)) = s"
  by (rule decode_encode)

theorem base64_round_trip_witness: "cstr (decodeBase64 (encodeBase64 ''user:pass'')) = ''user:pass''"
  by (rule base64_round_trip) (simp add: NUL_def)

subsection \<open>URI round trip\<close>

lemma hex_digit_int: "d < 16 \<Longrightarrow> hex_char_to_int (hex_digit d) = int d"
  by (auto simp: hex_digit_def hex_char_to_int_def Let_def)

lemma hex_char_to_int_range: "- 1 \<le> hex_char_to_int c \<and> hex_char_to_int c \<le> 15"
  by (auto simp: hex_char_to_int_def Let_def)

lemma char_at_append [simp]:
  "char_at (pre @ c # s) (length pre) = c"
  "char_at (pre @ c # d # s) (Suc (length pre)) = d"
  "char_at (pre @ c # d # e # s) (Suc (Suc (length pre))) = e"
  by (auto simp: char_at_def nth_append)

lemma unescape_loop_end: "unescape_loop s (length s) dst = Some dst"
  by (simp add: unescape_loop.simps)

lemma unescape_loop_plain:
  "c \<noteq> CHR ''%'' \<Longrightarrow> unescape_loop (pre @ c # s) (length pre) dst = unescape_loop ((pre @ [c]) @ s) (length (pre @ [c])) (dst @ [c])"
  by (subst unescape_loop.simps) simp

lemma code_hex: "nat (int (code c div 16) * 16 + int (code c mod 16)) = code c"
  by (metis div_mult_mod_eq nat_int of_nat_add of_nat_mult of_nat_numeral)

lemma unescape_loop_escaped:
  "unescape_loop (pre @ escape_char c @ s) (length pre) dst =
     unescape_loop ((pre @ escape_char c) @ s) (length (pre @ escape_char c)) (dst @ [c])"
proof -
  have "code c div 16 < 16" "code c mod 16 < 16" using nat_of_char_less_256 [of c] by linarith+
  then show ?thesis
    by (subst unescape_loop.simps)
       (simp add: escape_char_def hex_digit_int Let_def code_hex numeral_3_eq_3 del: of_nat_mult of_nat_add of_nat_div of_nat_mod zdiv_int zmod_int)
qed

lemma unescape_loop_escape:
  "unescape_loop (pre @ escape keep s) (length pre) dst = Some (dst @ s)"
proof (induction s arbitrary: pre dst)
  case Nil
  then show ?case by (simp add: escape_def unescape_loop_end)
next
  case (Cons c s)
  show ?case
  proof (cases "keep c \<and> c \<noteq> CHR ''%''")
    case True
    then have "escape keep (c # s) = c # escape keep s" by (simp add: escape_def)
    then show ?thesis
      using Cons [of "pre @ [c]" "dst @ [c]"] unescape_loop_plain [of c pre "escape keep s" dst] True by simp
  next
    case False
    then have "escape keep (c # s) = escape_char c @ escape keep s" by (auto simp: escape_def)
    then show ?thesis
      using Cons [of "pre @ escape_char c" "dst @ [c]"] unescape_loop_escaped [of pre c "escape keep s" dst] by simp
  qed
qed

text \<open>
  C23. \<^verbatim>\<open>unescape\<close> inverts percent encoding, whichever characters the client chose to leave as they are.
\<close>

theorem unescape_round_trip: "unescape (escape keep s) = Some s"
  using unescape_loop_escape [of "[]" keep s "[]"] by (simp add: unescape_def)

text \<open>The result never outgrows the buffer the decoder works in.\<close>

lemma unescape_loop_length:
  "unescape_loop s src dst = Some r \<Longrightarrow> src \<le> length s + 2 \<Longrightarrow> length r \<le> length dst + (length s - src)"
proof (induction s src dst rule: unescape_loop.induct)
  case (1 s src dst)
  show ?case
    using "1.prems"(1)
    by (subst (asm) unescape_loop.simps)
       (use "1.IH" in \<open>fastforce simp: Let_def char_at_def split: if_splits\<close>)
qed

subsection \<open>Shape of an encoded string\<close>

lemma base64_loop_skip: "base64_digit c = None \<Longrightarrow> base64_loop (s @ [c]) ch i out = base64_loop s ch i out"
  by (induction s ch i out rule: base64_loop.induct) (auto simp: Let_def split: option.split)

lemma encodeBase64_digits: "c \<in> set (encodeBase64 s) \<Longrightarrow> base64_digit c \<noteq> None"
proof (induction s rule: encodeBase64.induct)
  case (2 a)
  then show ?case
    using base64_digit_sextet [OF sextet_bounds(1)] base64_digit_sextet [OF sextet_bounds(2) [of a NUL]] digit_pad by auto
next
  case (3 a b)
  then show ?case
    using base64_digit_sextet [OF sextet_bounds(1)] base64_digit_sextet [OF sextet_bounds(2)]
      base64_digit_sextet [OF sextet_bounds(3) [of b NUL]] digit_pad by auto
next
  case (4 a b c s)
  then show ?case
    using base64_digit_sextet [OF sextet_bounds(1)] base64_digit_sextet [OF sextet_bounds(2)]
      base64_digit_sextet [OF sextet_bounds(3)] base64_digit_sextet [OF sextet_bounds(4)] by auto
qed simp

lemma length_encodeBase64: "3 * length (encodeBase64 s) \<le> 4 * length s + 8"
  by (induction s rule: encodeBase64.induct) auto

end
