(* ===== verification/Http_Client.thy ===== *)
theory Http_Client
  imports Http_Command Http_Codec
begin

text \<open>
  \<^verbatim>\<open>client_thread\<close> of \<^verbatim>\<open>src/mjpg-streamer/plugins/output_http/httpd.c\<close>: reading and classifying a
  request, checking the credentials, and dispatching to the answers of the other theories.
\<close>

subsection \<open>Requests\<close>

datatype answer_t =
    A_UNKNOWN | A_SNAPSHOT | A_STREAM | A_COMMAND | A_FILE | A_INPUT_JSON | A_OUTPUT_JSON | A_PROGRAM_JSON

record request =
  req_type :: answer_t
  req_parameter :: "string option"
  req_client :: "string option"
  req_credentials :: "string option"

definition init_request :: request where
  "init_request = \<lparr>req_type = A_UNKNOWN, req_parameter = None, req_client = None, req_credentials = None\<rparr>"

record config =
  port :: "16 word"
  credentials :: "string option"
  www_folder :: "string option"
  nocommands :: bool

definition COMMAND_PARAMETER_CHARS :: string where
  "COMMAND_PARAMETER_CHARS = LETTERS @ ''_-=&1234567890%./''"

definition FILE_CHARS :: string where
  "FILE_CHARS = LETTERS @ ''._-1234567890''"

subsection \<open>The request line\<close>

text \<open>
  \<open>Reject\<close> is an answer with an error before the rest of the request is read, \<open>RequestExit\<close> is
  \<^verbatim>\<open>exit(EXIT_FAILURE)\<close>; otherwise the request, and the flag \<^verbatim>\<open>input_suffixed\<close>.
\<close>

datatype parsed = Reject int string | RequestExit | Request request bool

definition has :: "string \<Rightarrow> string \<Rightarrow> bool" where
  "has buffer pat \<longleftrightarrow> strstr buffer pat \<noteq> None"

definition malformed :: string where "malformed = ''Malformed HTTP request''"
definition bad_escape :: string where "bad_escape = ''could not properly unescape command parameter string''"

definition parse_command :: "bool \<Rightarrow> string \<Rightarrow> parsed" where
  "parse_command malloc_ok buffer =
     (case strstr buffer ''GET /?action=command'' of
        None \<Rightarrow> Reject 400 malformed
      | Some pb \<Rightarrow>
          let pb = drop (length ''GET /?action=command'') pb;
              len = min (strspn pb COMMAND_PARAMETER_CHARS) 100
          in if \<not> malloc_ok then RequestExit
             else case unescape (take len pb) of
                    None \<Rightarrow> Reject 500 bad_escape
                  | Some p \<Rightarrow> Request (init_request\<lparr>req_type := A_COMMAND, req_parameter := Some (cstr p)\<rparr>) False)"

definition parse_file :: "bool \<Rightarrow> string \<Rightarrow> parsed" where
  "parse_file malloc_ok buffer =
     (case strstr buffer ''GET /'' of
        None \<Rightarrow> Reject 400 malformed
      | Some pb \<Rightarrow>
          let pb = drop (length ''GET /'') pb;
              len = min (strspn pb FILE_CHARS) 100
          in if \<not> malloc_ok then RequestExit
             else Request (init_request\<lparr>req_type := A_FILE, req_parameter := Some (take len pb)\<rparr>) False)"

definition parse_request :: "bool \<Rightarrow> string \<Rightarrow> parsed" where
  "parse_request malloc_ok buffer =
     (if has buffer ''GET /?action=snapshot'' then Request (init_request\<lparr>req_type := A_SNAPSHOT\<rparr>) True
      else if has buffer ''GET /?action=stream'' then Request (init_request\<lparr>req_type := A_STREAM\<rparr>) True
      else if has buffer ''GET /input'' \<and> has buffer ''.json'' then Request (init_request\<lparr>req_type := A_INPUT_JSON\<rparr>) True
      else if has buffer ''GET /output'' \<and> has buffer ''.json'' then Request (init_request\<lparr>req_type := A_OUTPUT_JSON\<rparr>) True
      else if has buffer ''GET /program.json'' then Request (init_request\<lparr>req_type := A_PROGRAM_JSON\<rparr>) True
      else if has buffer ''GET /?action=command'' then parse_command malloc_ok buffer
      else parse_file malloc_ok buffer)"

text \<open>The digit behind the first underscore of the request line.\<close>

definition input_number_of :: "bool \<Rightarrow> string \<Rightarrow> int" where
  "input_number_of input_suffixed buffer =
     (if input_suffixed then
        case strchr buffer (CHR ''_'') of None \<Rightarrow> 0 | Some sch \<Rightarrow> atoi (take 1 (tl sch))
      else 0)"

subsection \<open>The header lines\<close>

definition user_agent :: string where "user_agent = ''User-Agent: ''"
definition authorization :: string where "authorization = ''Authorization: Basic ''"

definition header_line :: "string \<Rightarrow> request \<Rightarrow> request" where
  "header_line buffer req =
     (if has buffer user_agent then req\<lparr>req_client := Some (drop (length user_agent) buffer)\<rparr>
      else if has buffer authorization then
        req\<lparr>req_credentials := Some (cstr (decodeBase64 (drop (length authorization) buffer)))\<rparr>
      else req)"

text \<open>Every line read takes something off the connection.\<close>

fun data_size :: "sel_result \<Rightarrow> nat" where
  "data_size (ReadData d) = length d"
| "data_size _ = 0"

definition conn_size :: "conn \<Rightarrow> nat" where
  "conn_size c = nat (level (fst c)) + sum_list (map data_size (snd c))"

lemma read_one_size:
  "\<lbrakk>read_loop 1 buf 0 iobuf input = Inr (rc, buf', c'); 0 < rc\<rbrakk> \<Longrightarrow> conn_size c' < conn_size (iobuf, input)"
proof (induction input arbitrary: buf iobuf)
  case Nil
  then show ?case
    by (subst (asm) read_loop.simps)
       (auto simp: Let_def read_amount_def IO_BUFFER_def conn_size_def split: if_splits)
next
  case (Cons r input)
  show ?case
  proof (cases "level iobuf = 0")
    case False
    with Cons.prems show ?thesis
      by (subst (asm) read_loop.simps)
         (auto simp: Let_def read_amount_def IO_BUFFER_def conn_size_def split: if_splits)
  next
    case True
    show ?thesis
    proof (cases r)
      case (ReadData d)
      with Cons.prems True have "read_loop 1 (take 0 buf @ drop 0 buf) 0 (refill (iobuf\<lparr>level := 0\<rparr>) d) input = Inr (rc, buf', c')"
        by (subst (asm) read_loop.simps)
           (simp add: Let_def read_amount_def refill_def split: if_splits)
      with Cons.IH Cons.prems(2) have "conn_size c' < conn_size (refill (iobuf\<lparr>level := 0\<rparr>) d, input)" by blast
      then show ?thesis
        using True ReadData by (simp add: conn_size_def refill_def Let_def)
    qed (use Cons.prems True in \<open>auto simp: read_loop.simps [of "Suc 0" buf 0 iobuf "_ # input"] Let_def read_amount_def split: if_splits\<close>)
  qed
qed

lemma read_char_size: "\<lbrakk>read_char c = Inr (rc, x, c'); 0 < rc\<rbrakk> \<Longrightarrow> conn_size c' < conn_size c"
  using read_one_size [of _ "fst c" "snd c" rc _ c']
  by (auto simp: read_char_def http_read_def split: sum.splits)

lemma readline_loop_size:
  "\<lbrakk>readline_loop read_char k x out c = Inr (n, out', c'); n \<noteq> - 1\<rbrakk> \<Longrightarrow>
    conn_size c' + nat n \<le> conn_size c + length out"
proof (induction read_char k x out c rule: readline_loop.induct)
  case (2 todo x out c)
  show ?case
  proof (cases "x = NL")
    case False
    with "2.prems" obtain rc y c1 where rd: "read_char c = Inr (rc, y, c1)" "0 < rc"
        "readline_loop read_char todo y (out @ [y]) c1 = Inr (n, out', c')"
      by (auto split: sum.splits if_splits)
    with "2.hyps" [OF False rd(1) refl refl] "2.prems"(2) read_char_size [OF rd(1,2)] show ?thesis by simp
  qed (use "2.prems" in auto)
qed auto

lemma http_readline_size:
  "\<lbrakk>http_readline k c = Inr (n, buf, c'); 0 < n\<rbrakk> \<Longrightarrow> conn_size c' < conn_size c"
  using readline_loop_size [of k NUL "[]" c n _ c']
  by (auto simp: http_readline_def split: sum.splits)

function header_loop :: "conn \<Rightarrow> request \<Rightarrow> io_error + (request option \<times> conn)" where
  "header_loop c req =
     (case http_readline (BUFFER_SIZE - 1) c of
        Inl e \<Rightarrow> Inl e
      | Inr (cnt, buffer, c') \<Rightarrow>
          if cnt = - 1 then Inr (None, c')
          else let req = header_line (cstr buffer) req
               in if cnt > 2 \<and> \<not> (buffer ! 0 = CR \<and> buffer ! 1 = NL) then header_loop c' req
                  else Inr (Some req, c'))"
  by pat_completeness auto
termination by (relation "measure (\<lambda>(c, req). conn_size c)") (auto intro: http_readline_size)

declare header_loop.simps [simp del]


subsection \<open>The thread\<close>

text \<open>
  What the surroundings answer: \<^verbatim>\<open>write\<close>, the files of the www folder, the functions of the
  plugins, memory, and the frames published while the client is served.
\<close>

record client_env =
  e_write :: "nat \<Rightarrow> nat \<Rightarrow> int"
  e_files :: "string \<Rightarrow> byte list list option"
  e_run :: plugin_call
  e_malloc :: bool
  e_strndup :: "nat \<Rightarrow> bool"
  e_menu_mem :: "nat \<Rightarrow> int \<Rightarrow> bool"
  e_frame_mem :: bool
  e_frame :: "int \<Rightarrow> input_plugin"
  e_turns :: "int \<Rightarrow> (bool \<times> bool \<times> input_plugin) list"

definition not_authorized :: string where
  "not_authorized = ''username and password do not match to configuration''"

text \<open>The \<^verbatim>\<open>switch(req.type)\<close> at the end.\<close>

fun answer_request ::
  "client_env \<Rightarrow> config \<Rightarrow> globals \<Rightarrow> int \<Rightarrow> answer_t \<Rightarrow> string option \<Rightarrow> out_fd \<Rightarrow> crash + (globals \<times> out_fd)"
where
  "answer_request env conf g input_number A_SNAPSHOT parameter fd =
     map_sum id (Pair g) (send_snapshot (e_write env) (e_frame_mem env) (e_frame env input_number) fd)"
| "answer_request env conf g input_number A_STREAM parameter fd =
     map_sum id (\<lambda>r. (g, snd r)) (send_stream (e_write env) (e_turns env input_number) fd)"
| "answer_request env conf g input_number A_COMMAND parameter fd =
     (if nocommands conf
      then map_sum id (Pair g) (send_error (e_write env) 501 ''this server is configured to not accept commands'' fd)
      else command (e_write env) (e_strndup env) (e_run env) g parameter fd)"
| "answer_request env conf g input_number A_INPUT_JSON parameter fd =
     map_sum id (Pair g) (send_Input_JSON (e_write env) (e_menu_mem env) g input_number fd)"
| "answer_request env conf g input_number A_OUTPUT_JSON parameter fd =
     map_sum id (Pair g) (send_Output_JSON (e_write env) (e_menu_mem env) g input_number fd)"
| "answer_request env conf g input_number A_PROGRAM_JSON parameter fd =
     map_sum id (Pair g) (send_Program_JSON (e_write env) g fd)"
| "answer_request env conf g input_number A_FILE parameter fd =
     (case www_folder conf of
        None \<Rightarrow> map_sum id (Pair g) (send_error (e_write env) 501 ''no www-folder configured'' fd)
      | Some www \<Rightarrow> map_sum id (\<lambda>r. (g, snd r)) (send_file (e_write env) (e_files env) www parameter fd))"
| "answer_request env conf g input_number A_UNKNOWN parameter fd = Inr (g, fd)"

datatype client_failure = ClientExit | ClientOverrun | ClientCrash crash

definition io_failure :: "io_error \<Rightarrow> client_failure" where
  "io_failure e = (case e of ExitFailure \<Rightarrow> ClientExit | Overrun \<Rightarrow> ClientOverrun)"

definition finish :: "crash + 'a \<Rightarrow> client_failure + 'a" where
  "finish m = map_sum ClientCrash id m"

text \<open>After the header lines: the credentials, the input number, the answer.\<close>

definition serve_request ::
  "client_env \<Rightarrow> config \<Rightarrow> globals \<Rightarrow> int \<Rightarrow> request \<Rightarrow> out_fd \<Rightarrow> crash + (globals \<times> out_fd)"
where
  "serve_request env conf g input_number req fd =
     (if credentials conf \<noteq> None \<and> (req_credentials req = None \<or> credentials conf \<noteq> req_credentials req)
      then map_sum id (Pair g) (send_error (e_write env) 401 not_authorized fd)
      else if \<not> input_number < incnt g
      then sbind (send_error (e_write env) 404 ''Invalid input plugin number'' fd) (\<lambda>fd.
           answer_request env conf g input_number A_UNKNOWN (req_parameter req) fd)
      else answer_request env conf g input_number (req_type req) (req_parameter req) fd)"

definition client_thread ::
  "client_env \<Rightarrow> config \<Rightarrow> globals \<Rightarrow> sel_result list \<Rightarrow> client_failure + (globals \<times> out_fd)"
where
  "client_thread env conf g input =
     (let c = start_conn input; fd = new_fd
      in case http_readline (BUFFER_SIZE - 1) c of
           Inl e \<Rightarrow> Inl (io_failure e)
         | Inr (cnt, buffer, c) \<Rightarrow>
             if cnt = - 1 then Inr (g, fd)
             else
               let buffer = cstr buffer
               in case parse_request (e_malloc env) buffer of
                    Reject which message \<Rightarrow> finish (map_sum id (Pair g) (send_error (e_write env) which message fd))
                  | RequestExit \<Rightarrow> Inl ClientExit
                  | Request req input_suffixed \<Rightarrow>
                      let input_number = input_number_of input_suffixed buffer
                      in case header_loop c req of
                           Inl e \<Rightarrow> Inl (io_failure e)
                         | Inr (None, c) \<Rightarrow> Inr (g, fd)
                         | Inr (Some req, c) \<Rightarrow> finish (serve_request env conf g input_number req fd))"

end
