(* ===== verification/Http_Safety.thy ===== *)
theory Http_Safety
  imports Http_Client
begin

text \<open>
  Properties of a whole HTTP connection: nothing but errors is answered without the configured
  credentials, whatever pieces the request arrives in; the answers do not depend on files
  outside the www folder; a server that accepts no commands never changes the plugins.
\<close>

subsection \<open>Reading the header\<close>

lemma has_sublist: "has buffer pat \<longleftrightarrow> sublist pat buffer"
  using strstr_None_iff [of buffer pat] by (auto simp: has_def)

lemma cstr_prefix: "\<exists>r. buf = cstr buf @ r"
  by (metis cstr_def takeWhile_dropWhile_id)

text \<open>A line as \<^verbatim>\<open>_readline\<close> stores it, seen as a C string.\<close>

lemma readline_text:
  assumes "conn_ok c" "http_readline k c = Inr (n, buf, c')" "n \<noteq> - 1"
  shows "conn_ok c' \<and> (\<exists>l. buf = l @ replicate (k - length l) NUL \<and> int (length l) = n \<and> conn_text c = l @ conn_text c')"
proof (cases "first_line k (conn_text c)")
  case None
  then show ?thesis using readline_missing [OF assms(1) None assms(2)] assms(3) by simp
next
  case (Some l)
  then show ?thesis using readline_found [OF assms(1) Some] assms(2) by auto
qed

lemma cstr_of_line: "\<exists>r. l = cstr (l @ replicate k NUL) @ r"
proof -
  have "takeWhile (\<lambda>c. c \<noteq> NUL) (l @ replicate k NUL) = takeWhile (\<lambda>c. c \<noteq> NUL) l"
    by (induction l) (auto simp: takeWhile_replicate)
  then show ?thesis by (metis cstr_def takeWhile_dropWhile_id)
qed

definition carries :: "string \<Rightarrow> string \<Rightarrow> bool" where
  "carries line cr \<longleftrightarrow> has line authorization \<and> cstr (decodeBase64 (drop (length authorization) line)) = cr"

lemma header_line_credentials:
  "req_credentials (header_line b req) = Some cr \<Longrightarrow> req_credentials req = Some cr \<or> carries b cr"
  by (auto simp: header_line_def carries_def split: if_splits)

lemma sublist_append_left: "sublist xs ys \<Longrightarrow> sublist xs (zs @ ys)"
  unfolding sublist_def by (metis append.assoc)

lemma header_loop_error:
  "\<lbrakk>conn_ok c; header_loop c req = Inl e\<rbrakk> \<Longrightarrow> e = ExitFailure"
proof (induction c req rule: header_loop.induct)
  case (1 c req)
  show ?case
  proof (cases "http_readline (BUFFER_SIZE - 1) c")
    case (Inl e')
    with "1.prems"(2) readline_error [OF "1.prems"(1) Inl] show ?thesis
      by (subst (asm) header_loop.simps) simp
  next
    case (Inr r)
    then obtain cnt buf c1 where rd: "http_readline (BUFFER_SIZE - 1) c = Inr (cnt, buf, c1)" by (cases r) auto
    with "1.prems"(2) have step: "cnt \<noteq> - 1" "cnt > 2 \<and> \<not> (buf ! 0 = CR \<and> buf ! 1 = NL)"
        "header_loop c1 (header_line (cstr buf) req) = Inl e"
      by (subst (asm) header_loop.simps, simp add: Let_def split: if_splits)+
    with readline_text [OF "1.prems"(1) rd] "1.IH" [OF rd refl refl] show ?thesis by blast
  qed
qed

lemma header_loop_credentials:
  assumes "conn_ok c" "header_loop c req = Inr (Some req', c')" "req_credentials req' = Some cr"
  shows "req_credentials req = Some cr \<or> (\<exists>line. sublist line (conn_text c) \<and> carries line cr)"
  using assms
proof (induction c req rule: header_loop.induct)
  case (1 c req)
  from "1.prems"(2) obtain cnt buf c1 where rd: "http_readline (BUFFER_SIZE - 1) c = Inr (cnt, buf, c1)" "cnt \<noteq> - 1"
    by (subst (asm) header_loop.simps) (auto split: sum.splits if_splits)
  from readline_text [OF "1.prems"(1) rd] obtain l where
    c1: "conn_ok c1" "conn_text c = l @ conn_text c1" and l: "buf = l @ replicate (BUFFER_SIZE - 1 - length l) NUL" by blast
  let ?req = "header_line (cstr buf) req"
  have line: "sublist (cstr buf) (conn_text c)"
    using cstr_of_line [of l] c1(2) l by (metis sublist_appendI append_Nil append.assoc)
  have "req_credentials ?req = Some cr \<or> (\<exists>line. sublist line (conn_text c1) \<and> carries line cr)"
  proof (cases "cnt > 2 \<and> \<not> (buf ! 0 = CR \<and> buf ! 1 = NL)")
    case True
    with "1.prems"(2) rd have "header_loop c1 ?req = Inr (Some req', c')"
      by (subst (asm) header_loop.simps) (simp add: Let_def)
    then show ?thesis using "1.IH" [OF rd(1) refl refl rd(2) refl] True c1(1) "1.prems"(3) by blast
  next
    case False
    with "1.prems"(2) rd have "req' = ?req"
      by (subst (asm) header_loop.simps) (auto simp: Let_def split: if_splits)
    with "1.prems"(3) show ?thesis by simp
  qed
  moreover have "sublist line (conn_text c)" if "sublist line (conn_text c1)" for line
    using that c1(2) by (simp add: sublist_append_left)
  ultimately show ?case
    using header_line_credentials line by blast
qed

subsection \<open>Requests and answers\<close>

lemma parse_reject:
  "parse_request m b = Reject which message \<Longrightarrow>
    which = 400 \<and> message = malformed \<or> which = 500 \<and> message = bad_escape"
  by (auto simp: parse_request_def parse_command_def parse_file_def Let_def split: if_splits option.splits)

lemma parse_no_credentials: "parse_request m b = Request req sfx \<Longrightarrow> req_credentials req = None"
  by (auto simp: parse_request_def parse_command_def parse_file_def init_request_def Let_def split: if_splits option.splits)

lemma parse_request_file:
  assumes "parse_request m b = Request req sfx" "req_type req = A_FILE"
  shows "parse_file m b = Request req sfx"
  using assms by (auto simp: parse_request_def parse_command_def init_request_def Let_def split: if_splits option.splits)

lemma parse_file_name:
  assumes "parse_request m b = Request req sfx" "req_type req = A_FILE"
  shows "\<exists>p. req_parameter req = Some p \<and> set p \<subseteq> set FILE_CHARS"
proof -
  obtain pb where "req_parameter req = Some (take (min (strspn pb FILE_CHARS) 100) pb)"
    using parse_request_file [OF assms]
    by (auto simp: parse_file_def Let_def split: option.splits if_splits)
  moreover have "set (take (min (strspn pb FILE_CHARS) 100) pb) \<subseteq> set FILE_CHARS"
    by (rule set_take_strspn) simp
  ultimately show ?thesis by blast
qed

lemma messages_short: "length malformed \<le> 300" "length bad_escape \<le> 300" "length not_authorized \<le> 300"
  by (simp_all add: malformed_def bad_escape_def not_authorized_def)

definition refusal :: "client_env \<Rightarrow> out_fd \<Rightarrow> bool" where
  "refusal env fd \<longleftrightarrow> fd = new_fd \<or>
     (\<exists>which message. (which = 400 \<or> which = 401 \<or> which = 500) \<and> fd = snd (write_str (e_write env) (error_text which message) new_fd))"

lemma refusal_error:
  "which = 400 \<or> which = 401 \<or> which = 500 \<Longrightarrow> refusal env (snd (write_str (e_write env) (error_text which message) new_fd))"
  unfolding refusal_def by blast

text \<open>How far a connection gets: the request with its headers, or an early end.\<close>

lemma client_thread_cases:
  assumes "client_thread env conf g input = Inr (g', fd')" "input_ok input"
  obtains (refused) "g' = g" "refusal env fd'"
  | (served) req0 sfx req c c' n where "conn_ok c" "\<exists>l. arriving input = l @ conn_text c"
      "\<exists>b. parse_request (e_malloc env) b = Request req0 sfx"
      "header_loop c req0 = Inr (Some req, c')" "serve_request env conf g n req new_fd = Inr (g', fd')"
proof -
  from assms(1) obtain cnt buf c where rd: "http_readline (BUFFER_SIZE - 1) (start_conn input) = Inr (cnt, buf, c)"
    by (auto simp: client_thread_def Let_def split: sum.splits)
  show thesis
  proof (cases "cnt = - 1")
    case True
    with assms(1) rd show thesis using refused by (auto simp: client_thread_def Let_def refusal_def)
  next
    case False
    from readline_text [OF start_conn_ok [OF assms(2)] rd False] have
      c: "conn_ok c" "\<exists>l. arriving input = l @ conn_text c" by auto
    show thesis
    proof (cases "parse_request (e_malloc env) (cstr buf)")
      case (Reject which message)
      with parse_reject [OF this] messages_short assms(1) rd False have
        "g' = g" "fd' = snd (write_str (e_write env) (error_text which message) new_fd)"
        by (auto simp: client_thread_def Let_def send_error_ok finish_def)
      moreover have "which = 400 \<or> which = 401 \<or> which = 500" using parse_reject [OF Reject] by blast
      ultimately show thesis using refused refusal_error by blast
    next
      case RequestExit
      with assms(1) rd False show thesis by (simp add: client_thread_def Let_def)
    next
      case (Request req0 sfx)
      let ?n = "input_number_of sfx (cstr buf)"
      obtain r c' where hl: "header_loop c req0 = Inr (r, c')"
        using assms(1) rd False Request by (auto simp: client_thread_def Let_def split: sum.splits)
      show thesis
      proof (cases r)
        case None
        with hl assms(1) rd False Request have "g' = g" "fd' = new_fd" by (auto simp: client_thread_def Let_def)
        then show thesis using refused by (simp add: refusal_def)
      next
        case (Some req)
        with hl assms(1) rd False Request have "serve_request env conf g ?n req new_fd = Inr (g', fd')"
          by (cases "serve_request env conf g ?n req new_fd") (auto simp: client_thread_def Let_def finish_def)
        then show thesis using served c Request hl Some by blast
      qed
    qed
  qed
qed

text \<open>
  C16. On a server with credentials, a client none of whose lines carries them gets nothing but an error
  answer (400, 401 or 500) or a closed connection, and changes nothing: no frame, file, control
  or description is sent and no plugin is called.
\<close>

theorem answers_need_credentials:
  assumes "input_ok input" "credentials conf = Some cr"
    and "\<forall>line. sublist line (arriving input) \<longrightarrow> \<not> carries line cr"
    and "client_thread env conf g input = Inr (g', fd')"
  shows "g' = g \<and> refusal env fd'"
  using assms(4,1)
proof (cases rule: client_thread_cases)
  case refused
  then show ?thesis by simp
next
  case (served req0 sfx req c c' n)
  have "req_credentials req \<noteq> Some cr"
  proof
    assume "req_credentials req = Some cr"
    then obtain line where "sublist line (conn_text c)" "carries line cr"
      using header_loop_credentials [OF served(1,4)] parse_no_credentials served(3) by fastforce
    with served(2) assms(3) show False by (metis sublist_append_left)
  qed
  then have "g' = g" "fd' = snd (write_str (e_write env) (error_text 401 not_authorized) new_fd)"
    using served(5) assms(2) messages_short(3) by (auto simp: serve_request_def send_error_ok)
  then show ?thesis using refusal_error by blast
qed

text \<open>
  When the server is configured to accept no commands, no request changes the state that the plugins share.
\<close>

theorem nocommands_changes_nothing:
  assumes "input_ok input" "nocommands conf" "client_thread env conf g input = Inr (g', fd')"
  shows "g' = g"
  using assms(3,1)
proof (cases rule: client_thread_cases)
  case (served req0 sfx req c c' n)
  have "g1 = g" if "answer_request env conf g n ty p fd = Inr (g1, fd1)" for ty p fd g1 fd1
    using that assms(2) by (cases ty) (auto simp: map_sum_def split: sum.splits option.splits)
  moreover have "map_sum id (Pair g) m = Inr (g1, fd1) \<Longrightarrow> g1 = g" for g1 fd1 and m :: "crash + out_fd"
    by (cases m) auto
  ultimately show ?thesis
    using served(5) by (auto simp: serve_request_def sbind_Inr split: if_splits)
qed

subsection \<open>A request that is served\<close>

text \<open>The line a client sends for its credentials.\<close>

definition authorization_line :: "string \<Rightarrow> string" where
  "authorization_line cr = authorization @ encodeBase64 cr @ CRLF"

lemma encoded_chars:
  assumes "c \<in> set (encodeBase64 s)"
  shows "c \<noteq> NL \<and> c \<noteq> CR \<and> c \<noteq> NUL \<and> c \<noteq> CHR ''-''"
  using encodeBase64_digits [OF assms] by (auto simp: base64_digit_def NL_def CR_def NUL_def Let_def)

lemma authorization_line_chars:
  assumes "c \<in> set (authorization @ encodeBase64 cr @ [CR])"
  shows "c \<noteq> NL \<and> c \<noteq> NUL \<and> c \<noteq> CHR ''-''"
  using assms encoded_chars [of c cr] by (auto simp: authorization_def NL_def CR_def NUL_def)

lemma not_has: "c \<in> set pat \<Longrightarrow> c \<notin> set b \<Longrightarrow> \<not> has b pat"
  unfolding has_sublist by (auto simp: sublist_def)

lemma header_authorization:
  assumes "NUL \<notin> set cr"
  shows "header_line (authorization_line cr) req = req\<lparr>req_credentials := Some cr\<rparr>"
proof -
  have "\<not> has (authorization_line cr) user_agent"
  proof (rule not_has)
    show "CHR ''-'' \<in> set user_agent" by (simp add: user_agent_def)
    show "CHR ''-'' \<notin> set (authorization_line cr)"
      using authorization_line_chars [of "CHR ''-''" cr] by (auto simp: authorization_line_def CRLF_def NL_def)
  qed
  moreover have "has (authorization_line cr) authorization"
    unfolding has_sublist authorization_line_def by (simp add: sublist_append_rightI)
  moreover have "decodeBase64 (encodeBase64 cr @ CRLF) = decodeBase64 (encodeBase64 cr)"
  proof -
    have "base64_digit CR = None" "base64_digit NL = None" by (simp_all add: base64_digit_def CR_def NL_def Let_def)
    then show ?thesis
      using base64_loop_skip [of NL "encodeBase64 cr @ [CR]"] base64_loop_skip [of CR "encodeBase64 cr"]
      by (simp add: decodeBase64_def CRLF_def)
  qed
  ultimately show ?thesis
    using decode_encode [OF assms] by (simp add: header_line_def authorization_line_def)
qed

text \<open>One line off the connection.\<close>

lemma readline_line:
  assumes "conn_ok c" "conn_text c = l @ [NL] @ rest" "NL \<notin> set l" "NUL \<notin> set l" "length l < k"
  obtains c' where "http_readline k c = Inr (int (length l) + 1, l @ [NL] @ replicate (k - Suc (length l)) NUL, c')"
    "cstr (l @ [NL] @ replicate (k - Suc (length l)) NUL) = l @ [NL]" "conn_ok c'" "conn_text c' = rest"
proof -
  have "first_line k (conn_text c) = Some (l @ [NL])"
    using first_line_newline [OF assms(3,5), of rest] assms(2) by simp
  from readline_found [OF assms(1) this] assms(2) obtain c' where
    "http_readline k c = Inr (int (length l) + 1, l @ [NL] @ replicate (k - Suc (length l)) NUL, c')"
    "conn_ok c'" "conn_text c' = rest" by auto
  moreover have "cstr ((l @ [NL]) @ replicate (k - Suc (length l)) NUL) = l @ [NL]"
    using assms(4) by (intro cstr_pad) auto
  ultimately show thesis using that by simp
qed

lemma header_loop_more:
  assumes "http_readline (BUFFER_SIZE - 1) c = Inr (cnt, buf, c')" "cnt > 2" "buf ! 0 \<noteq> CR"
  shows "header_loop c req = header_loop c' (header_line (cstr buf) req)"
  using assms by (subst header_loop.simps) (simp add: Let_def)

lemma header_loop_last:
  assumes "http_readline (BUFFER_SIZE - 1) c = Inr (2, buf, c')"
  shows "header_loop c req = Inr (Some (header_line (cstr buf) req), c')"
  using assms by (subst header_loop.simps) (simp add: Let_def)

lemma header_of_credentials:
  assumes "conn_ok c" "conn_text c = authorization_line cr @ CRLF @ rest" "NUL \<notin> set cr" "length cr \<le> 700"
  shows "\<exists>c'. header_loop c req = Inr (Some (req\<lparr>req_credentials := Some cr\<rparr>), c')"
proof -
  let ?l = "authorization @ encodeBase64 cr @ [CR]"
  have len: "length ?l < BUFFER_SIZE - 1" "2 < length ?l"
    using length_encodeBase64 [of cr] assms(4) by (auto simp: authorization_def BUFFER_SIZE_def)
  have t0: "conn_text c = ?l @ [NL] @ CRLF @ rest" using assms(2) by (simp add: authorization_line_def CRLF_def)
  obtain c1 where c1: "http_readline (BUFFER_SIZE - 1) c =
        Inr (int (length ?l) + 1, ?l @ [NL] @ replicate (BUFFER_SIZE - 1 - Suc (length ?l)) NUL, c1)"
      "cstr (?l @ [NL] @ replicate (BUFFER_SIZE - 1 - Suc (length ?l)) NUL) = ?l @ [NL]"
      "conn_ok c1" "conn_text c1 = CRLF @ rest"
    using readline_line [OF assms(1) t0 _ _ len(1)] authorization_line_chars by blast
  have "(?l @ [NL] @ replicate (BUFFER_SIZE - 1 - Suc (length ?l)) NUL) ! 0 \<noteq> CR"
    by (simp add: authorization_def CR_def)
  then have "header_loop c req = header_loop c1 (header_line (?l @ [NL]) req)"
    using header_loop_more [OF c1(1)] len(2) c1(2) by simp
  moreover have "?l @ [NL] = authorization_line cr" by (simp add: authorization_line_def CRLF_def)
  moreover have t1: "conn_text c1 = [CR] @ [NL] @ rest" using c1(4) by (simp add: CRLF_def)
  have side: "NL \<notin> set [CR]" "NUL \<notin> set [CR]" "length [CR] < BUFFER_SIZE - 1"
    by (simp_all add: CR_def NL_def NUL_def BUFFER_SIZE_def)
  obtain c2 where "http_readline (BUFFER_SIZE - 1) c1 =
        Inr (int (length [CR]) + 1, [CR] @ [NL] @ replicate (BUFFER_SIZE - 1 - Suc (length [CR])) NUL, c2)"
    and cs: "cstr ([CR] @ [NL] @ replicate (BUFFER_SIZE - 1 - Suc (length [CR])) NUL) = [CR] @ [NL]"
    using readline_line [OF c1(3) t1 side] by blast
  then have c2: "http_readline (BUFFER_SIZE - 1) c1 =
        Inr (2, [CR] @ [NL] @ replicate (BUFFER_SIZE - 1 - Suc (length [CR])) NUL, c2)" by simp
  moreover have "header_line ([CR] @ [NL]) r = r" for r
    by (simp add: header_line_def has_def user_agent_def authorization_def CR_def NL_def)
  ultimately show ?thesis
    using header_loop_last [OF c2] cs header_authorization [OF assms(3)] by simp
qed

lemma snapshot_all:
  assumes "input_ready inp"
  shows "send_snapshot all_written True inp fd =
    Inr (fd\<lparr>written := written fd @ [bytes_of (snapshot_header (in_timestamp inp)), frame inp], wcount := wcount fd + 2\<rparr>)"
  using assms by (simp add: send_snapshot_def frame_of_ready headers_fit write_str_def)

text \<open>
  C17. A client that asks for a snapshot and gives the configured credentials is served the frame that the
  input publishes next, behind its header, whatever pieces its request arrives in.
\<close>

theorem authorized_snapshot:
  assumes "input_ok input"
    and "arriving input = ''GET /?action=snapshot HTTP/1.1'' @ CRLF @ authorization_line cr @ CRLF @ rest"
    and "credentials conf = Some cr" "NUL \<notin> set cr" "length cr \<le> 700" "0 < incnt g"
    and "e_write env = all_written" "e_frame_mem env" "input_ready (e_frame env 0)"
  shows "client_thread env conf g input = Inr (g, new_fd\<lparr>written :=
    [bytes_of (snapshot_header (in_timestamp (e_frame env 0))), frame (e_frame env 0)], wcount := 2\<rparr>)"
proof -
  let ?l = "''GET /?action=snapshot HTTP/1.1'' @ [CR]"
  have ok: "conn_ok (start_conn input)" using assms(1) by simp
  have t0: "conn_text (start_conn input) = ?l @ [NL] @ authorization_line cr @ CRLF @ rest"
    using assms(2) by (simp add: CRLF_def)
  have side: "NL \<notin> set ?l" "NUL \<notin> set ?l" "length ?l < BUFFER_SIZE - 1"
    by (simp_all add: CR_def NL_def NUL_def BUFFER_SIZE_def)
  obtain c1 where c1: "http_readline (BUFFER_SIZE - 1) (start_conn input) =
        Inr (int (length ?l) + 1, ?l @ [NL] @ replicate (BUFFER_SIZE - 1 - Suc (length ?l)) NUL, c1)"
      "cstr (?l @ [NL] @ replicate (BUFFER_SIZE - 1 - Suc (length ?l)) NUL) = ?l @ [NL]"
      "conn_ok c1" "conn_text c1 = authorization_line cr @ CRLF @ rest"
    using readline_line [OF ok t0 side] by blast
  let ?req = "init_request\<lparr>req_type := A_SNAPSHOT\<rparr>"
  obtain c2 where c2: "header_loop c1 ?req = Inr (Some (?req\<lparr>req_credentials := Some cr\<rparr>), c2)"
    using header_of_credentials [OF c1(3,4) assms(4,5)] by blast
  have parse: "parse_request (e_malloc env) (?l @ [NL]) = Request ?req True"
    by (simp add: parse_request_def has_def)
  have num: "input_number_of True (?l @ [NL]) = 0"
    by (simp add: input_number_of_def CR_def NL_def)
  have "serve_request env conf g 0 (?req\<lparr>req_credentials := Some cr\<rparr>) new_fd = Inr (g, new_fd\<lparr>written :=
    [bytes_of (snapshot_header (in_timestamp (e_frame env 0))), frame (e_frame env 0)], wcount := 2\<rparr>)"
    using assms(3,6-9) snapshot_all [OF assms(9)] by (simp add: serve_request_def new_fd_def)
  then show ?thesis
    unfolding client_thread_def Let_def c1(1) using c1(2) c2 parse num
    by (simp add: finish_def del: append.simps append_assoc)
qed

definition sample_env :: client_env where
  "sample_env = \<lparr>e_write = all_written, e_files = (\<lambda>p. if p = ''/www/index.html'' then Some [[60, 62]] else None),
     e_run = (\<lambda>dest n i gr v g. (v, g)), e_malloc = True, e_strndup = (\<lambda>_. True), e_menu_mem = (\<lambda>_ _. True),
     e_frame_mem = True, e_frame = (\<lambda>_. sample_input [255, 216]), e_turns = (\<lambda>_. [])\<rparr>"

definition sample_conf :: config where
  "sample_conf = \<lparr>port = 8080, credentials = Some ''user:pass'', www_folder = Some ''/www/'', nocommands = False\<rparr>"

theorem authorized_snapshot_witness:
  "client_thread sample_env sample_conf (sample_globals [])
     [ReadData ''GET /?act'', ReadData (''ion=snapshot HTTP/1.1'' @ CRLF @ authorization_line ''user:pass'' @ CRLF)] =
   Inr (sample_globals [], new_fd\<lparr>written :=
    [bytes_of (snapshot_header (in_timestamp (e_frame sample_env 0))), frame (e_frame sample_env 0)], wcount := 2\<rparr>)"
proof (rule authorized_snapshot [where rest = "[]" and cr = "''user:pass''"])
  show "input_ok [ReadData ''GET /?act'', ReadData (''ion=snapshot HTTP/1.1'' @ CRLF @ authorization_line ''user:pass'' @ CRLF)]"
    by (simp add: authorization_line_def authorization_def IO_BUFFER_def)
  show "input_ready (e_frame sample_env 0)"
    by (simp add: sample_env_def sample_input_def input_ready_def timeval_ok_def long_defs)
qed (simp_all add: sample_env_def sample_conf_def sample_globals_def NUL_def)

text \<open>A request with no header lines.\<close>

lemma bare_header:
  assumes "conn_ok c" "conn_text c = CRLF"
  shows "\<exists>c'. header_loop c req = Inr (Some req, c')"
proof -
  have t1: "conn_text c = [CR] @ [NL] @ []" using assms(2) by (simp add: CRLF_def)
  have side: "NL \<notin> set [CR]" "NUL \<notin> set [CR]" "length [CR] < BUFFER_SIZE - 1"
    by (simp_all add: CR_def NL_def NUL_def BUFFER_SIZE_def)
  obtain c2 where "http_readline (BUFFER_SIZE - 1) c =
        Inr (int (length [CR]) + 1, [CR] @ [NL] @ replicate (BUFFER_SIZE - 1 - Suc (length [CR])) NUL, c2)"
    and cs: "cstr ([CR] @ [NL] @ replicate (BUFFER_SIZE - 1 - Suc (length [CR])) NUL) = [CR] @ [NL]"
    using readline_line [OF assms(1) t1 side] by blast
  then have "http_readline (BUFFER_SIZE - 1) c =
        Inr (2, [CR] @ [NL] @ replicate (BUFFER_SIZE - 1 - Suc (length [CR])) NUL, c2)" by simp
  moreover have "header_line ([CR] @ [NL]) r = r" for r
    by (simp add: header_line_def has_def user_agent_def authorization_def CR_def NL_def)
  ultimately show ?thesis using header_loop_last cs by metis
qed

lemma bare_request:
  assumes "NL \<notin> set l" "NUL \<notin> set l" "1 \<le> length l" "length l < 250"
    and "parse_request (e_malloc env) (l @ CRLF) = Request req sfx"
  shows "client_thread env conf g [ReadData (l @ CRLF @ CRLF)] =
    finish (serve_request env conf g (input_number_of sfx (l @ CRLF)) req new_fd)"
proof -
  let ?i = "[ReadData (l @ CRLF @ CRLF)]" and ?l = "l @ [CR]"
  have ok: "conn_ok (start_conn ?i)" using assms(4) by (intro start_conn_ok) (simp add: IO_BUFFER_def)
  have t0: "conn_text (start_conn ?i) = ?l @ [NL] @ CRLF" by (simp add: CRLF_def)
  have side: "NL \<notin> set ?l" "NUL \<notin> set ?l" "length ?l < BUFFER_SIZE - 1"
    using assms(1,2,4) by (auto simp: BUFFER_SIZE_def CR_def NL_def NUL_def)
  obtain c1 where c1: "http_readline (BUFFER_SIZE - 1) (start_conn ?i) =
        Inr (int (length ?l) + 1, ?l @ [NL] @ replicate (BUFFER_SIZE - 1 - Suc (length ?l)) NUL, c1)"
      "cstr (?l @ [NL] @ replicate (BUFFER_SIZE - 1 - Suc (length ?l)) NUL) = ?l @ [NL]"
      "conn_ok c1" "conn_text c1 = CRLF"
    using readline_line [OF ok t0 side] by blast
  obtain c2 where "header_loop c1 req = Inr (Some req, c2)" using bare_header [OF c1(3,4)] by blast
  moreover have "?l @ [NL] = l @ CRLF" by (simp add: CRLF_def)
  ultimately show ?thesis
    unfolding client_thread_def Let_def c1(1) using c1(2) assms(5) by (simp del: append_assoc)
qed

lemma sublist_set: "sublist xs ys \<Longrightarrow> set xs \<subseteq> set ys"
  by (auto simp: sublist_def)

theorem answers_need_credentials_witness:
  "\<exists>g' fd'. client_thread sample_env sample_conf (sample_globals []) [ReadData (''GET /?action=snapshot'' @ CRLF @ CRLF)] = Inr (g', fd') \<and>
     g' = sample_globals [] \<and> refusal sample_env fd'"
proof -
  let ?i = "[ReadData (''GET /?action=snapshot'' @ CRLF @ CRLF)]"
  have run: "client_thread sample_env sample_conf (sample_globals []) ?i =
      Inr (sample_globals [], snd (write_str all_written (error_text 401 not_authorized) new_fd))"
    by (subst bare_request [of _ _ "init_request\<lparr>req_type := A_SNAPSHOT\<rparr>" True])
       (simp_all add: NL_def NUL_def CRLF_def CR_def parse_request_def has_def finish_def serve_request_def
          sample_conf_def sample_env_def init_request_def send_error_ok messages_short)
  have "\<not> carries line cr" if "sublist line (arriving ?i)" for line cr
  proof
    assume "carries line cr"
    then have "set authorization \<subseteq> set (arriving ?i)"
      using that sublist_set unfolding carries_def has_sublist by blast
    then show False by (simp add: authorization_def CRLF_def CR_def NL_def)
  qed
  then have "sample_globals [] = sample_globals [] \<and> refusal sample_env (snd (write_str all_written (error_text 401 not_authorized) new_fd))"
    using run by (intro answers_need_credentials [of ?i sample_conf "''user:pass''"])
      (simp_all add: sample_conf_def IO_BUFFER_def)
  with run show ?thesis by blast
qed

theorem nocommands_changes_nothing_witness:
  "\<exists>g' fd'. client_thread sample_env (sample_conf\<lparr>credentials := None, nocommands := True\<rparr>) (sample_globals [])
      [ReadData (''GET /?action=command&id=1'' @ CRLF @ CRLF)] = Inr (g', fd') \<and> g' = sample_globals []"
proof -
  let ?c = "sample_conf\<lparr>credentials := None, nocommands := True\<rparr>"
  let ?i = "[ReadData (''GET /?action=command&id=1'' @ CRLF @ CRLF)]"
  have run: "\<exists>fd'. client_thread sample_env ?c (sample_globals []) ?i = Inr (sample_globals [], fd')"
    by (subst bare_request [of _ _ "init_request\<lparr>req_type := A_COMMAND, req_parameter := Some ''&id=1''\<rparr>" False])
       (simp_all add: NL_def NUL_def CRLF_def CR_def parse_request_def parse_command_def has_def finish_def serve_request_def
          sample_env_def sample_globals_def init_request_def send_error_ok input_number_of_def COMMAND_PARAMETER_CHARS_def LETTERS_def
          strspn_def unescape_def unescape_loop.simps char_at_def cstr_def)
  then show ?thesis
    using nocommands_changes_nothing [of ?i ?c sample_env "sample_globals []"] by (auto simp: IO_BUFFER_def)
qed

subsection \<open>Files\<close>

lemma header_loop_keeps:
  "header_loop c req = Inr (Some req', c') \<Longrightarrow> req_type req' = req_type req \<and> req_parameter req' = req_parameter req"
proof (induction c req rule: header_loop.induct)
  case (1 c req)
  have keep: "req_type (header_line b r) = req_type r \<and> req_parameter (header_line b r) = req_parameter r" for b r
    by (simp add: header_line_def)
  from "1.prems" obtain cnt buf c1 where rd: "http_readline (BUFFER_SIZE - 1) c = Inr (cnt, buf, c1)" "cnt \<noteq> - 1"
    by (subst (asm) header_loop.simps) (auto split: sum.splits if_splits)
  show ?case
  proof (cases "cnt > 2 \<and> \<not> (buf ! 0 = CR \<and> buf ! 1 = NL)")
    case True
    with "1.prems" rd have "header_loop c1 (header_line (cstr buf) req) = Inr (Some req', c')"
      by (subst (asm) header_loop.simps) (simp add: Let_def)
    then show ?thesis using "1.IH" [OF rd(1) refl refl rd(2) refl True] keep by auto
  next
    case False
    with "1.prems" rd have "req' = header_line (cstr buf) req"
      by (subst (asm) header_loop.simps) (auto simp: Let_def split: if_splits)
    then show ?thesis using keep by simp
  qed
qed

definition same_in_folder ::
  "string \<Rightarrow> (string \<Rightarrow> byte list list option) \<Rightarrow> (string \<Rightarrow> byte list list option) \<Rightarrow> bool"
where
  "same_in_folder www fs fs' \<longleftrightarrow> (\<forall>name. CHR ''/'' \<notin> set name \<longrightarrow> fs (www @ name) = fs' (www @ name))"

lemma send_file_same:
  assumes "same_in_folder www fs fs'" "length www < BUFFER_SIZE" "CHR ''/'' \<notin> set p"
  shows "send_file wr fs www (Some p) fd = send_file wr fs' www (Some p) fd"
proof -
  let ?name = "if p = [] then ''index.html'' else p"
  have "CHR ''/'' \<notin> set ?name" using assms(3) by simp
  moreover obtain k where "file_path www ?name = www @ take k ?name" using file_path_prefix [OF assms(2)] by blast
  moreover have "CHR ''/'' \<notin> set (take k ?name)" using \<open>CHR ''/'' \<notin> set ?name\<close> by (blast dest: in_set_takeD)
  ultimately have "fs (file_path www ?name) = fs' (file_path www ?name)"
    using assms(1) unfolding same_in_folder_def by presburger
  then show ?thesis unfolding send_file_def Let_def option.case by (simp only:)
qed

lemma answer_request_same:
  assumes "same_in_folder www fs fs'" "length www < BUFFER_SIZE" "www_folder conf = Some www"
    and "ty = A_FILE \<longrightarrow> (\<exists>p. par = Some p \<and> CHR ''/'' \<notin> set p)"
  shows "answer_request (env\<lparr>e_files := fs\<rparr>) conf g n ty par fd = answer_request (env\<lparr>e_files := fs'\<rparr>) conf g n ty par fd"
  using assms send_file_same [OF assms(1,2)] by (cases ty) auto

text \<open>
  C18. What the server answers depends on no file outside its www folder, nor on any below a subfolder of it:
  two file systems that agree on the files directly in the folder give the same answer to every
  request.
\<close>

theorem files_outside_folder_irrelevant:
  assumes "www_folder conf = Some www" "length www < BUFFER_SIZE" "same_in_folder www fs fs'"
  shows "client_thread (env\<lparr>e_files := fs\<rparr>) conf g input = client_thread (env\<lparr>e_files := fs'\<rparr>) conf g input"
proof -
  have "serve_request (env\<lparr>e_files := fs\<rparr>) conf g n req fd = serve_request (env\<lparr>e_files := fs'\<rparr>) conf g n req fd"
    if "parse_request m b = Request req0 sfx" "header_loop c req0 = Inr (Some req, c')" for n req fd m b req0 sfx c c'
  proof -
    have "\<exists>p. req_parameter req = Some p \<and> CHR ''/'' \<notin> set p" if ty: "req_type req = A_FILE"
    proof -
      have "req_type req0 = A_FILE" "req_parameter req0 = req_parameter req"
        using header_loop_keeps [OF \<open>header_loop c req0 = _\<close>] ty by simp_all
      then obtain p where "req_parameter req = Some p" "set p \<subseteq> set FILE_CHARS"
        using parse_file_name [OF \<open>parse_request m b = _\<close>] by auto
      moreover have "CHR ''/'' \<notin> set FILE_CHARS" by (simp add: FILE_CHARS_def LETTERS_def)
      ultimately show ?thesis by blast
    qed
    moreover have "answer_request e conf g n A_UNKNOWN par = (\<lambda>fd. Inr (g, fd))" for e par by (rule ext) simp
    ultimately show ?thesis
      using answer_request_same [OF assms(3,2,1)] by (simp add: serve_request_def)
  qed
  then show ?thesis
    unfolding client_thread_def Let_def by (auto split: sum.splits parsed.splits option.splits)
qed

theorem files_outside_folder_irrelevant_witness:
  "client_thread (sample_env\<lparr>e_files := (\<lambda>p. if p = ''/etc/x.txt'' then Some [[1]] else None)\<rparr>) sample_conf (sample_globals [])
     [ReadData (''GET /../etc/x.txt'' @ CRLF @ CRLF)] =
   client_thread (sample_env\<lparr>e_files := (\<lambda>p. None)\<rparr>) sample_conf (sample_globals [])
     [ReadData (''GET /../etc/x.txt'' @ CRLF @ CRLF)]"
  by (rule files_outside_folder_irrelevant [of _ "''/www/''"])
     (simp_all add: sample_conf_def BUFFER_SIZE_def same_in_folder_def)

text \<open>
  C20. Whatever a client sends and however it is cut into pieces, its thread never reads outside its input buffer.
\<close>

theorem client_input_safe:
  assumes "input_ok input"
  shows "client_thread env conf g input \<noteq> Inl ClientOverrun"
proof
  assume run: "client_thread env conf g input = Inl ClientOverrun"
  have "finish m \<noteq> Inl ClientOverrun" for m :: "crash + (globals \<times> out_fd)"
    by (cases m) (simp_all add: finish_def)
  moreover have "io_failure e = ClientOverrun \<longleftrightarrow> e = Overrun" for e by (cases e) (simp_all add: io_failure_def)
  ultimately have "http_readline (BUFFER_SIZE - 1) (start_conn input) = Inl Overrun \<or>
      (\<exists>cnt buf c req. http_readline (BUFFER_SIZE - 1) (start_conn input) = Inr (cnt, buf, c) \<and> cnt \<noteq> - 1 \<and> header_loop c req = Inl Overrun)"
    using run unfolding client_thread_def Let_def
    by (auto split: sum.splits parsed.splits option.splits if_splits)
  then show False
    using readline_error [OF start_conn_ok [OF assms]] readline_text [OF start_conn_ok [OF assms]] header_loop_error by blast
qed

theorem client_input_safe_witness:
  "client_thread sample_env sample_conf (sample_globals []) [ReadData ''GET'', ReadFail 0, ReadData ''x''] \<noteq> Inl ClientOverrun"
  by (rule client_input_safe) (simp add: IO_BUFFER_def)

end
