(* ===== verification/Http_Server.thy ===== *)
theory Http_Server
  imports Http_Client
begin

text \<open>
  The listening side of the HTTP plugin: \<^verbatim>\<open>server_thread\<close> and \<^verbatim>\<open>server_cleanup\<close> of
  \<^verbatim>\<open>src/mjpg-streamer/plugins/output_http/httpd.c\<close>, and the plugin interface of
  \<^verbatim>\<open>plugins/output_http/output_http.c\<close>.  What the socket calls return is an argument.
\<close>

subsection \<open>Configuration\<close>

definition MAX_SD_LEN :: nat where "MAX_SD_LEN = 50"

record server_context =
  sd :: "int list"
  sd_len :: nat
  ctx_id :: int
  conf :: config

text \<open>The two bytes of a port number swapped, on the little-endian board.\<close>

definition htons :: "int \<Rightarrow> 16 word" where
  "htons x = (let w = word_of_int x :: 16 word in push_bit 8 w OR drop_bit 8 w)"

definition ntohs :: "16 word \<Rightarrow> 16 word" where
  "ntohs w = push_bit 8 w OR drop_bit 8 w"

text \<open>
  What \<^verbatim>\<open>getopt_long_only\<close> reports: an option by its position in \<^verbatim>\<open>long_options\<close> with \<^verbatim>\<open>optarg\<close>, or
  the question mark for an option it does not know.
\<close>

datatype getopt_result = Unrecognized | Opt nat string

text \<open>\<open>None\<close> is the return value 1 after the help text.\<close>

fun output_options :: "(nat \<Rightarrow> bool) \<Rightarrow> getopt_result list \<Rightarrow> config \<Rightarrow> crash + config option" where
  "output_options malloc_ok [] cf = Inr (Some cf)"
| "output_options malloc_ok (Unrecognized # opts) cf = Inr None"
| "output_options malloc_ok (Opt option_index optarg # opts) cf =
     (if option_index = 0 \<or> option_index = 1 then Inr None
      else if option_index = 2 \<or> option_index = 3 then
        output_options malloc_ok opts (cf\<lparr>port := htons (atoi optarg)\<rparr>)
      else if option_index = 4 \<or> option_index = 5 then
        output_options malloc_ok opts (cf\<lparr>credentials := Some optarg\<rparr>)
      else if option_index = 6 \<or> option_index = 7 then
        if \<not> malloc_ok (length opts) then Inl NullDereference
        else if optarg = [] then Inl OutOfBounds
        else output_options malloc_ok opts
               (cf\<lparr>www_folder := Some (if last optarg \<noteq> CHR ''/'' then optarg @ ''/'' else optarg)\<rparr>)
      else if option_index = 8 \<or> option_index = 9 then
        output_options malloc_ok opts (cf\<lparr>nocommands := True\<rparr>)
      else output_options malloc_ok opts cf)"

definition default_config :: config where
  "default_config = \<lparr>port = htons 8080, credentials = None, www_folder = None, nocommands = False\<rparr>"

definition output_init ::
  "(nat \<Rightarrow> bool) \<Rightarrow> getopt_result list \<Rightarrow> int \<Rightarrow> server_context list \<Rightarrow> crash + (int \<times> server_context list)"
where
  "output_init malloc_ok opts i servers =
     sbind (output_options malloc_ok opts default_config) (\<lambda>r.
     case r of
       None \<Rightarrow> Inr (1, servers)
     | Some cf \<Rightarrow>
         sbind (at servers i) (\<lambda>ctx.
         Inr (0, servers[nat i := ctx\<lparr>ctx_id := i, conf := cf\<rparr>])))"

definition output_cmd :: "int \<Rightarrow> cint \<Rightarrow> cint \<Rightarrow> int \<Rightarrow> int" where
  "output_cmd plugin control_id grp v = 0"

datatype thread_op = CancelServer int | CreateServer int | DetachServer int

definition output_stop :: "int \<Rightarrow> int \<times> thread_op list" where
  "output_stop i = (0, [CancelServer i])"

definition output_run :: "int \<Rightarrow> int \<times> thread_op list" where
  "output_run i = (0, [CreateServer i, DetachServer i])"

subsection \<open>Opening the sockets\<close>

text \<open>What \<^verbatim>\<open>socket\<close>, \<^verbatim>\<open>bind\<close> and \<^verbatim>\<open>listen\<close> return for one address.\<close>

record addr_try =
  t_socket :: int
  t_bind :: int
  t_listen :: int

fun open_sockets :: "addr_try list \<Rightarrow> int list \<Rightarrow> nat \<Rightarrow> crash + (int list \<times> nat)" where
  "open_sockets [] fds i = Inr (fds, i)"
| "open_sockets (a # as) fds i =
     (if length fds \<le> i then Inl OutOfBounds
      else
        let fds = fds[i := t_socket a]
        in if t_socket a < 0 then open_sockets as fds i
           else if t_bind a < 0 then open_sockets as (fds[i := - 1]) i
           else if t_listen a < 0 then open_sockets as (fds[i := - 1]) i
           else
             let i = Suc i
             in if i \<ge> MAX_SD_LEN then Inr (fds, i - 1) else open_sockets as fds i)"

datatype server_failure = ServerExit | ServerCrash crash

text \<open>\<open>addrs\<close> is \<open>None\<close> when \<^verbatim>\<open>getaddrinfo\<close> fails.\<close>

definition server_open :: "addr_try list option \<Rightarrow> server_context \<Rightarrow> server_failure + server_context" where
  "server_open addrs ctx =
     (case addrs of
        None \<Rightarrow> Inl ServerExit
      | Some as \<Rightarrow>
          (case open_sockets as (replicate MAX_SD_LEN (- 1)) 0 of
             Inl e \<Rightarrow> Inl (ServerCrash e)
           | Inr (fds, i) \<Rightarrow>
               if i < 1 then Inl ServerExit else Inr (ctx\<lparr>sd := fds, sd_len := i\<rparr>)))"

definition server_cleanup :: "server_context \<Rightarrow> int list" where
  "server_cleanup ctx = take MAX_SD_LEN (sd ctx)"

subsection \<open>Accepting clients\<close>

text \<open>
  \<^verbatim>\<open>max_fds\<close> grows over the rounds.  A \<^verbatim>\<open>select\<close> is interrupted, fails, or signals descriptors.
\<close>

datatype select_result = SelectInterrupted | SelectNone | SelectFailed | SelectReady "int list"

definition max_fd :: "int list \<Rightarrow> int \<Rightarrow> int" where
  "max_fd fds m = fold (\<lambda>d m. if d \<noteq> - 1 \<and> d > m then d else m) fds m"

text \<open>The inner \<^verbatim>\<open>do\<close> loop; \<open>None\<close> when nothing is signalled any more.\<close>

fun wait_ready :: "select_result list \<Rightarrow> server_failure + (int list \<times> select_result list) option" where
  "wait_ready [] = Inr None"
| "wait_ready (SelectFailed # rs) = Inl ServerExit"
| "wait_ready (SelectInterrupted # rs) = wait_ready rs"
| "wait_ready (SelectNone # rs) = wait_ready rs"
| "wait_ready (SelectReady ready # rs) = Inr (Some (ready, rs))"

datatype served = ClientThread int | ClosedClient int

text \<open>
  The loop over the sockets after a \<^verbatim>\<open>select\<close>: \<open>acc i\<close> is what \<^verbatim>\<open>accept\<close> returns for socket \<open>i\<close> and
  \<open>thr i\<close> what \<^verbatim>\<open>pthread_create\<close> returns.  \<open>ours\<close> tells that the one structure allocated for the
  round still belongs to this thread: after it was handed to a client thread or freed, writing
  to it is an error.
\<close>

fun accept_loop ::
  "int list \<Rightarrow> int list \<Rightarrow> (nat \<Rightarrow> int) \<Rightarrow> (nat \<Rightarrow> int) \<Rightarrow> nat \<Rightarrow> nat \<Rightarrow> bool \<Rightarrow> served list \<Rightarrow> crash + served list"
where
  "accept_loop fds ready acc thr i 0 ours log = Inr log"
| "accept_loop fds ready acc thr i (Suc todo) ours log =
     (if length fds \<le> i then Inl OutOfBounds
      else if fds ! i \<noteq> - 1 \<and> fds ! i \<in> set ready then
        if \<not> ours then Inl UseAfterFree
        else if thr i \<noteq> 0 then accept_loop fds ready acc thr (Suc i) todo False (log @ [ClosedClient (acc i)])
        else accept_loop fds ready acc thr (Suc i) todo False (log @ [ClientThread (acc i)])
      else accept_loop fds ready acc thr (Suc i) todo ours log)"

definition accept_round ::
  "server_context \<Rightarrow> int \<Rightarrow> int list \<Rightarrow> (nat \<Rightarrow> int) \<Rightarrow> (nat \<Rightarrow> int) \<Rightarrow> crash + served list"
where
  "accept_round ctx max_fds ready acc thr = accept_loop (sd ctx) ready acc thr 0 (nat (max_fds + 1)) True []"

text \<open>
  The outer loop of \<^verbatim>\<open>server_thread\<close>, one element of \<open>stops\<close> per test of \<^verbatim>\<open>pglobal->stop\<close>; \<open>mem\<close> tells whether
  \<^verbatim>\<open>malloc\<close> finds memory for the structure of the round.
\<close>

fun server_loop ::
  "(bool \<times> bool \<times> (nat \<Rightarrow> int) \<times> (nat \<Rightarrow> int)) list \<Rightarrow> select_result list \<Rightarrow> server_context \<Rightarrow> int \<Rightarrow> served list \<Rightarrow>
    server_failure + served list"
where
  "server_loop [] rs ctx max_fds log = Inr log"
| "server_loop ((stopping, mem, acc, thr) # turns) rs ctx max_fds log =
     (if stopping then Inr log
      else if \<not> mem then Inl ServerExit
      else
        let max_fds = max_fd (take MAX_SD_LEN (sd ctx)) max_fds
        in case wait_ready rs of
             Inl e \<Rightarrow> Inl e
           | Inr None \<Rightarrow> Inr log
           | Inr (Some (ready, rs)) \<Rightarrow>
               (case accept_round ctx max_fds ready acc thr of
                  Inl e \<Rightarrow> Inl (ServerCrash e)
                | Inr l \<Rightarrow> server_loop turns rs ctx max_fds (log @ l)))"

definition server_thread ::
  "addr_try list option \<Rightarrow> (bool \<times> bool \<times> (nat \<Rightarrow> int) \<times> (nat \<Rightarrow> int)) list \<Rightarrow> select_result list \<Rightarrow> server_context \<Rightarrow>
    server_failure + (served list \<times> int list)"
where
  "server_thread addrs turns rs ctx =
     sbind (server_open addrs ctx) (\<lambda>ctx.
     sbind (server_loop turns rs ctx 0 []) (\<lambda>log.
     Inr (log, server_cleanup ctx)))"

subsection \<open>Properties\<close>

lemma ntohs_htons: "ntohs (htons x) = word_of_int x"
  unfolding ntohs_def htons_def Let_def
  by (rule bit_word_eqI) (auto simp: bit_simps)

lemma open_sockets_shape:
  assumes "length fds = MAX_SD_LEN" "i < MAX_SD_LEN" "\<forall>k < i. 0 \<le> fds ! k"
  shows "\<exists>fds' n. open_sockets as fds i = Inr (fds', n) \<and> length fds' = MAX_SD_LEN \<and> n < MAX_SD_LEN \<and> (\<forall>k < n. 0 \<le> fds' ! k)"
  using assms
proof (induction as arbitrary: fds i)
  case Nil
  then show ?case by simp
next
  case (Cons a as)
  have keep: "\<forall>k < i. 0 \<le> (fds[i := v]) ! k" for v using Cons.prems by simp
  have next_ok: "\<forall>k < Suc i. 0 \<le> (fds[i := t_socket a]) ! k" if "0 \<le> t_socket a"
    using Cons.prems that by (auto simp: nth_list_update less_Suc_eq)
  show ?case
  proof (cases "0 \<le> t_socket a \<and> 0 \<le> t_bind a \<and> 0 \<le> t_listen a")
    case True
    show ?thesis
    proof (cases "Suc i < MAX_SD_LEN")
      case more: True
      then show ?thesis
        using Cons.IH [of "fds[i := t_socket a]" "Suc i"] Cons.prems next_ok True by (simp add: Let_def)
    next
      case False
      then show ?thesis using True Cons.prems keep by (simp add: Let_def)
    qed
  next
    case False
    then show ?thesis
      using Cons.IH [of "fds[i := t_socket a]" i] Cons.IH [of "fds[i := - 1]" i] Cons.prems keep
      by (auto simp: Let_def)
  qed
qed

lemma accept_loop_silent:
  assumes "\<forall>k. i \<le> k \<and> k < i + todo \<longrightarrow> fds ! k = - 1 \<or> fds ! k \<notin> set ready" "i + todo \<le> length fds"
  shows "accept_loop fds ready acc thr i todo ours log = Inr log"
  using assms by (induction todo arbitrary: i) auto

lemma accept_loop_one:
  assumes "i \<le> j" "j < i + todo" "i + todo \<le> length fds" "fds ! j \<noteq> - 1" "fds ! j \<in> set ready"
    and "\<forall>k. i \<le> k \<and> k < i + todo \<and> k \<noteq> j \<longrightarrow> fds ! k = - 1 \<or> fds ! k \<notin> set ready"
  shows "accept_loop fds ready acc thr i todo True log =
    Inr (log @ [if thr j \<noteq> 0 then ClosedClient (acc j) else ClientThread (acc j)])"
  using assms(1-3,6)
proof (induction todo arbitrary: i)
  case (Suc todo)
  show ?case
  proof (cases "i = j")
    case True
    with Suc.prems assms(4,5) accept_loop_silent [of "Suc i" todo fds ready] show ?thesis by simp
  next
    case False
    with Suc.prems have "fds ! i = - 1 \<or> fds ! i \<notin> set ready" by auto
    with False Suc show ?thesis by auto
  qed
qed simp

text \<open>
  When all listening descriptors are below 50 and one of them is ready, a round of the server accepts on
  exactly that one: the client gets a thread of its own, or is closed if no thread can be made.
\<close>

theorem server_accepts_ready_client:
  assumes "length (sd ctx) = MAX_SD_LEN" "0 \<le> max_fds" "max_fds < int MAX_SD_LEN"
    and "j \<le> nat max_fds" "sd ctx ! j \<noteq> - 1" "sd ctx ! j \<in> set ready"
    and "\<forall>k \<le> nat max_fds. k \<noteq> j \<longrightarrow> sd ctx ! k = - 1 \<or> sd ctx ! k \<notin> set ready"
  shows "accept_round ctx max_fds ready acc thr = Inr [if thr j \<noteq> 0 then ClosedClient (acc j) else ClientThread (acc j)]"
proof -
  have n: "nat (max_fds + 1) = Suc (nat max_fds)" using assms(2) by simp
  have "nat max_fds < length (sd ctx)" using assms(1-3) by simp
  then show ?thesis
    unfolding accept_round_def n
    using accept_loop_one [where i = 0 and j = j and todo = "Suc (nat max_fds)" and fds = "sd ctx" and ready = ready
        and thr = thr and acc = acc and log = "[]"] assms(4-7)
    by (simp add: less_Suc_eq_le del: accept_loop.simps)
qed

definition sample_context :: "int list \<Rightarrow> server_context" where
  "sample_context fds = \<lparr>sd = fds @ replicate (MAX_SD_LEN - length fds) (- 1), sd_len = length fds, ctx_id = 0, conf = default_config\<rparr>"

theorem server_accepts_ready_client_witness:
  "accept_round (sample_context [3, 4]) 4 [4] (\<lambda>_. 7) (\<lambda>_. 0) = Inr [ClientThread 7]"
proof -
  have "sd (sample_context [3, 4]) ! k \<noteq> 4" if "k \<le> nat 4" "k \<noteq> 1" for k
    using that by (simp add: sample_context_def MAX_SD_LEN_def nth_Cons')
  then show ?thesis
    using server_accepts_ready_client [of "sample_context [3, 4]" 4 1 "[4]" "\<lambda>_. 7" "\<lambda>_. 0"]
    by (simp add: sample_context_def MAX_SD_LEN_def)
qed

text \<open>
  When two listening sockets become ready in the same round (IPv4 and IPv6, say), the server writes the
  second client into the structure it already handed to the first client's thread.
\<close>

theorem server_two_ready_clients:
  assumes "length (sd ctx) = MAX_SD_LEN" "i < j" "j \<le> nat max_fds" "nat max_fds < MAX_SD_LEN" "0 \<le> max_fds"
    and "sd ctx ! i \<noteq> - 1" "sd ctx ! i \<in> set ready" "sd ctx ! j \<noteq> - 1" "sd ctx ! j \<in> set ready"
  shows "accept_round ctx max_fds ready acc thr = Inl UseAfterFree"
proof -
  have lost: "accept_loop (sd ctx) ready acc thr k todo False log = Inl UseAfterFree"
    if "k \<le> j" "j < k + todo" "k + todo \<le> MAX_SD_LEN" for k todo log
    using that
  proof (induction todo arbitrary: k)
    case (Suc todo)
    then show ?case using assms(1,8,9) by (cases "k = j") auto
  qed simp
  have "accept_loop (sd ctx) ready acc thr k todo True log = Inl UseAfterFree"
    if "k \<le> i" "j < k + todo" "k + todo \<le> MAX_SD_LEN" for k todo log
    using that
  proof (induction todo arbitrary: k)
    case (Suc todo)
    show ?case
    proof (cases "sd ctx ! k \<noteq> - 1 \<and> sd ctx ! k \<in> set ready")
      case True
      then show ?thesis using lost [of "Suc k" todo] Suc.prems assms(1,2) by simp
    next
      case False
      then have "k < i" using Suc.prems(1) assms(6,7) by (cases "k = i") auto
      then show ?thesis using Suc.IH [of "Suc k"] Suc.prems False assms(1) by auto
    qed
  qed (use assms(2) in simp)
  moreover have "nat (max_fds + 1) = Suc (nat max_fds)" using assms(5) by simp
  ultimately show ?thesis
    unfolding accept_round_def using assms(2-4) by (simp del: accept_loop.simps)
qed

theorem server_two_ready_clients_witness:
  "accept_round (sample_context [3, 4]) 4 [3, 4] (\<lambda>_. 7) (\<lambda>_. 0) = Inl UseAfterFree"
  by (rule server_two_ready_clients [of _ 0 1]) (simp_all add: sample_context_def MAX_SD_LEN_def)

end
