(* ===== verification/Streamer_Main.thy ===== *)
theory Streamer_Main
  imports Http_Server
begin

text \<open>
  The main program of the camera streamer, \<^verbatim>\<open>src/mjpg-streamer/mjpg_streamer.c\<close>, and \<^verbatim>\<open>daemon_mode\<close> of
  \<^verbatim>\<open>src/mjpg-streamer/utils.c\<close>: parsing the command line, loading and starting the plugins, shutting
  down on a signal.  The dynamic linker and the functions of the plugins are arguments.
\<close>

subsection \<open>split_parameters\<close>

text \<open>The successive tokens \<^verbatim>\<open>strtok_r(arg, " ", &saveptr)\<close> delivers.\<close>

function tokens :: "string \<Rightarrow> string list" where
  "tokens s =
     (let t = dropWhile (\<lambda>c. c = CHR '' '') s
      in if t = [] then [] else takeWhile (\<lambda>c. c \<noteq> CHR '' '') t # tokens (dropWhile (\<lambda>c. c \<noteq> CHR '' '') t))"
  by pat_completeness auto
termination
proof (relation "measure length", goal_cases)
  case (2 s t)
  have "length (dropWhile (\<lambda>c. c \<noteq> CHR '' '') t) < length t"
  proof (cases t)
    case (Cons c cs)
    then have "c \<noteq> CHR '' ''" using 2 hd_dropWhile [of "\<lambda>c. c = CHR '' ''" s] by auto
    then show ?thesis using Cons length_dropWhile_le [of "\<lambda>c. c \<noteq> CHR '' ''" cs] by simp
  qed (use 2 in simp)
  then show ?case using 2 length_dropWhile_le [of "\<lambda>c. c = CHR '' ''" s] by simp
qed simp

declare tokens.simps [simp del]

text \<open>The loop over the tokens behind the first one; \<open>None\<close> is the return value 0.\<close>

fun split_loop :: "string list \<Rightarrow> nat \<Rightarrow> string option list \<Rightarrow> crash + (nat option \<times> string option list)" where
  "split_loop [] count args = Inr (Some count, args)"
| "split_loop (t # ts) count args =
     (if length args \<le> count then Inl OutOfBounds
      else
        let args = args[count := Some t];
            count = Suc count
        in if count \<ge> MAX_PLUGIN_ARGUMENTS then Inr (None, args) else split_loop ts count args)"

text \<open>Result: the returned value, \<^verbatim>\<open>*argc\<close> (kept when 0 is returned) and \<^verbatim>\<open>argv\<close>.\<close>

definition split_parameters ::
  "string option \<Rightarrow> int \<Rightarrow> string option list \<Rightarrow> crash + (int \<times> int \<times> string option list)"
where
  "split_parameters parameter_string argc args =
     (let args = args[0 := None]
      in case parameter_string of
           None \<Rightarrow> Inr (1, 1, args)
         | Some arg \<Rightarrow>
             if arg = [] \<or> strchr arg (CHR '' '') = None then Inr (1, 1, args)
             else case tokens arg of
                    [] \<Rightarrow> Inr (1, 1, args)
                  | t # ts \<Rightarrow>
                      if length args \<le> 1 then Inl OutOfBounds
                      else case split_loop ts 2 (args[1 := Some t]) of
                             Inl e \<Rightarrow> Inl e
                           | Inr (Some count, args) \<Rightarrow> Inr (1, int count, args)
                           | Inr (None, args) \<Rightarrow> Inr (0, argc, args))"

subsection \<open>Command line\<close>

record command_line =
  inputs :: "string list"
  outputs :: "string list"
  daemon :: bool

datatype main_stop = MainExit int | MainCrash crash

text \<open>Options by their position in \<^verbatim>\<open>long_options\<close>; the arrays \<^verbatim>\<open>input\<close> and \<^verbatim>\<open>output\<close> have ten places.\<close>

fun main_options :: "getopt_result list \<Rightarrow> command_line \<Rightarrow> main_stop + command_line" where
  "main_options [] cl = Inr cl"
| "main_options (Unrecognized # opts) cl = Inl (MainExit 0)"
| "main_options (Opt option_index optarg # opts) cl =
     (if option_index = 0 \<or> option_index = 1 then Inl (MainExit 0)
      else if option_index = 2 \<or> option_index = 3 then
        if MAX_INPUT_PLUGINS \<le> length (inputs cl) then Inl (MainCrash OutOfBounds)
        else main_options opts (cl\<lparr>inputs := inputs cl @ [optarg]\<rparr>)
      else if option_index = 4 \<or> option_index = 5 then
        if MAX_OUTPUT_PLUGINS \<le> length (outputs cl) then Inl (MainCrash OutOfBounds)
        else main_options opts (cl\<lparr>outputs := outputs cl @ [optarg]\<rparr>)
      else if option_index = 6 \<or> option_index = 7 then Inl (MainExit 0)
      else if option_index = 8 \<or> option_index = 9 then main_options opts (cl\<lparr>daemon := True\<rparr>)
      else Inl (MainExit 0))"

subsection \<open>daemon_mode\<close>

datatype daemon_op = Umask nat | Chdir string | CloseFd nat | OpenDevNull | Dup nat

text \<open>\<open>Inl\<close> is \<^verbatim>\<open>exit\<close>: of the parents and after an error.\<close>

definition daemon_mode :: "int \<Rightarrow> int \<Rightarrow> int \<Rightarrow> int \<Rightarrow> int + daemon_op list" where
  "daemon_mode fork1 setsid fork2 chdir =
     (if fork1 < 0 then Inl 1
      else if fork1 > 0 then Inl 0
      else if setsid < 0 then Inl 1
      else if fork2 < 0 then Inl 1
      else if fork2 > 0 then Inl 0
      else if chdir \<noteq> 0 then Inl 0
      else Inr [Umask 0, Chdir ''/'', CloseFd 0, CloseFd 1, CloseFd 2, OpenDevNull, Dup 0, Dup 0])"

subsection \<open>Loading and starting plugins\<close>

datatype plugin_op =
    InitSync nat | InitIn nat | InitOut nat | RunIn nat | RunOut nat
  | StopIn nat | StopOut int | DestroySync nat | CloseIn nat | CloseOut nat

record plugin_env =
  dlopen :: "string \<Rightarrow> bool"
  dlsym :: "string \<Rightarrow> string \<Rightarrow> bool"
  mutex_init :: "nat \<Rightarrow> int"
  cond_init :: "nat \<Rightarrow> int"
  p_init_in :: "nat \<Rightarrow> globals \<Rightarrow> int \<times> globals"
  p_init_out :: "nat \<Rightarrow> globals \<Rightarrow> int \<times> globals"
  p_run_in :: "nat \<Rightarrow> globals \<Rightarrow> int \<times> globals"
  p_run_out :: "int \<Rightarrow> globals \<Rightarrow> int \<times> globals"

text \<open>
  \<^verbatim>\<open>strndup(input[i], strchr(input[i], ' ') - input[i])\<close>.  Without a space the difference to the null
  pointer is some huge number and the whole string is copied; with a space in front it is 0, and
  the whole string is copied too.
\<close>

definition plugin_name :: "string \<Rightarrow> string" where
  "plugin_name s =
     (case strchr s (CHR '' '') of
        None \<Rightarrow> s
      | Some r \<Rightarrow> let tmp = length s - length r in if tmp > 0 then take tmp s else s)"

definition load_param :: "nat \<Rightarrow> string \<Rightarrow> plugin_parameter \<Rightarrow> crash + plugin_parameter" where
  "load_param i s p =
     (let ps = strchr s (CHR '' '')
      in sbind (split_parameters ps (pargc p) (pargv p)) (\<lambda>(ret, n, args).
         Inr (p\<lparr>parameters := ps, pargc := n, pargv := args, pid := int i\<rparr>)))"

type_synonym started = "globals \<times> plugin_op list"

fun load_inputs :: "plugin_env \<Rightarrow> string list \<Rightarrow> nat \<Rightarrow> started \<Rightarrow> main_stop + started" where
  "load_inputs env [] i st = Inr st"
| "load_inputs env (s # ss) i (g, log) =
     (if mutex_init env i \<noteq> 0 then Inl (MainExit 1)
      else if cond_init env i \<noteq> 0 then Inl (MainExit 1)
      else if length (gin g) \<le> i then Inl (MainCrash OutOfBounds)
      else
        let name = plugin_name s
        in if \<not> dlopen env name then Inl (MainExit 1)
           else if \<not> dlsym env name ''input_init'' then Inl (MainExit 1)
           else if \<not> dlsym env name ''input_stop'' then Inl (MainExit 1)
           else if \<not> dlsym env name ''input_run'' then Inl (MainExit 1)
           else case load_param i s (in_param (gin g ! i)) of
                  Inl e \<Rightarrow> Inl (MainCrash e)
                | Inr p \<Rightarrow>
                    let inp = (gin g ! i)\<lparr>in_buf := None, in_size := 0, in_plugin_name := Some name, in_handle := True,
                                in_cmd := dlsym env name ''input_cmd'', in_param := p\<rparr>;
                        g = g\<lparr>gin := (gin g)[i := inp]\<rparr>
                    in case p_init_in env i g of
                         (ret, g) \<Rightarrow>
                           if ret \<noteq> 0 then Inl (MainExit 0)
                           else load_inputs env ss (Suc i) (g, log @ [InitSync i, InitIn i]))"

fun load_outputs :: "plugin_env \<Rightarrow> string list \<Rightarrow> nat \<Rightarrow> started \<Rightarrow> main_stop + started" where
  "load_outputs env [] i st = Inr st"
| "load_outputs env (s # ss) i (g, log) =
     (if length (gout g) \<le> i then Inl (MainCrash OutOfBounds)
      else
        let name = plugin_name s
        in if \<not> dlopen env name then Inl (MainExit 1)
           else if \<not> dlsym env name ''output_init'' then Inl (MainExit 1)
           else if \<not> dlsym env name ''output_stop'' then Inl (MainExit 1)
           else if \<not> dlsym env name ''output_run'' then Inl (MainExit 1)
           else case load_param i s (out_param (gout g ! i)) of
                  Inl e \<Rightarrow> Inl (MainCrash e)
                | Inr p \<Rightarrow>
                    let out = (gout g ! i)\<lparr>out_plugin_name := Some name, out_handle := True,
                                out_cmd := dlsym env name ''output_cmd'', out_param := p\<rparr>;
                        g = g\<lparr>gout := (gout g)[i := out]\<rparr>
                    in case p_init_out env i g of
                         (ret, g) \<Rightarrow>
                           if ret \<noteq> 0 then Inl (MainExit 0)
                           else load_outputs env ss (Suc i) (g, log @ [InitOut i]))"

fun run_inputs :: "plugin_env \<Rightarrow> nat \<Rightarrow> nat \<Rightarrow> started \<Rightarrow> main_stop + started" where
  "run_inputs env i 0 st = Inr st"
| "run_inputs env i (Suc todo) (g, log) =
     (case p_run_in env i g of
        (ret, g) \<Rightarrow> if ret \<noteq> 0 then Inl (MainExit 1) else run_inputs env (Suc i) todo (g, log @ [RunIn i]))"

fun run_outputs :: "plugin_env \<Rightarrow> nat \<Rightarrow> nat \<Rightarrow> started \<Rightarrow> started" where
  "run_outputs env i 0 st = st"
| "run_outputs env i (Suc todo) (g, log) =
     (case p_run_out env (pid (out_param (gout g ! i))) g of
        (ret, g) \<Rightarrow> run_outputs env (Suc i) todo (g, log @ [RunOut i]))"

definition default_output :: string where
  "default_output = ''output_http.so --port 8080''"

text \<open>
  \<^verbatim>\<open>main\<close> up to \<^verbatim>\<open>pause\<close>: \<open>opts\<close> are the options of the command line, \<open>background\<close> what the system
  calls of \<^verbatim>\<open>daemon_mode\<close> return, \<open>sigint\<close> whether the signal handler could be registered.
\<close>

definition main ::
  "plugin_env \<Rightarrow> getopt_result list \<Rightarrow> int \<times> int \<times> int \<times> int \<Rightarrow> bool \<Rightarrow> globals \<Rightarrow> main_stop + started"
where
  "main env opts background sigint g =
     sbind (main_options opts \<lparr>inputs = [], outputs = [], daemon = False\<rparr>) (\<lambda>cl.
     sbind (if daemon cl
            then (case background of (f1, ss, f2, cd) \<Rightarrow> map_sum MainExit (\<lambda>_. ()) (daemon_mode f1 ss f2 cd))
            else Inr ()) (\<lambda>_.
     if \<not> sigint then Inl (MainExit 1)
     else
       let outs = (if outputs cl = [] then [default_output] else outputs cl);
           g = g\<lparr>incnt := int (length (inputs cl)), outcnt := int (length outs)\<rparr>
       in sbind (load_inputs env (inputs cl) 0 (g, [])) (\<lambda>st.
          sbind (load_outputs env outs 0 st) (\<lambda>st.
          sbind (run_inputs env 0 (length (inputs cl)) st) (\<lambda>st.
          Inr (run_outputs env 0 (length outs) st))))))"

subsection \<open>signal_handler\<close>

definition signal_handler :: "globals \<Rightarrow> globals \<times> plugin_op list" where
  "signal_handler g =
     (g\<lparr>gstop := True\<rparr>,
      map StopIn [0..<nat (incnt g)] @
      concat (map (\<lambda>i. [StopOut (pid (out_param (gout g ! i))), DestroySync i]) [0..<nat (outcnt g)]) @
      map CloseIn [0..<nat (incnt g)] @
      map CloseOut [0..<nat (outcnt g)])"

subsection \<open>Arguments of a plugin\<close>

definition word_ok :: "string \<Rightarrow> bool" where
  "word_ok w \<longleftrightarrow> w \<noteq> [] \<and> CHR '' '' \<notin> set w"

definition spaced :: "string list \<Rightarrow> string" where
  "spaced ws = concat (map ((#) (CHR '' '')) ws)"

lemma tokens_spaced: "list_all word_ok ws \<Longrightarrow> tokens (spaced ws) = ws"
proof (induction ws)
  case Nil
  then show ?case by (simp add: spaced_def tokens.simps)
next
  case (Cons w ws)
  then have w: "w \<noteq> []" "CHR '' '' \<notin> set w" by (simp_all add: word_ok_def)
  then obtain c cs where "w = c # cs" "c \<noteq> CHR '' ''" by (cases w) auto
  then have "dropWhile (\<lambda>c. c = CHR '' '') (spaced (w # ws)) = w @ spaced ws" by (simp add: spaced_def)
  moreover have "takeWhile (\<lambda>c. c \<noteq> CHR '' '') (w @ spaced ws) = w" "dropWhile (\<lambda>c. c \<noteq> CHR '' '') (w @ spaced ws) = spaced ws"
    using w(2) by (cases ws; auto simp: takeWhile_append dropWhile_append spaced_def)+
  ultimately show ?case
    using Cons w by (subst tokens.simps) (simp add: Let_def)
qed

lemma split_loop_fill:
  assumes "length args = MAX_PLUGIN_ARGUMENTS" "count + length ts < MAX_PLUGIN_ARGUMENTS"
  shows "split_loop ts count args = Inr (Some (count + length ts), take count args @ map Some ts @ drop (count + length ts) args)"
  using assms
proof (induction ts arbitrary: count args)
  case (Cons t ts)
  have "take (Suc count) (args[count := Some t]) = take count args @ [Some t]"
    using Cons.prems by (simp add: take_Suc_conv_app_nth)
  with Cons show ?case by (simp add: Let_def)
qed simp

lemma split_loop_full:
  assumes "length args = MAX_PLUGIN_ARGUMENTS" "count < MAX_PLUGIN_ARGUMENTS" "MAX_PLUGIN_ARGUMENTS \<le> count + length ts"
  shows "\<exists>args'. split_loop ts count args = Inr (None, args')"
  using assms
proof (induction ts arbitrary: count args)
  case (Cons t ts)
  then show ?case by (cases "Suc count < MAX_PLUGIN_ARGUMENTS") (auto simp: Let_def)
qed simp

lemma plugin_name_spaced:
  assumes "word_ok name"
  shows "plugin_name (name @ spaced ws) = name"
    "strchr (name @ spaced ws) (CHR '' '') = (if ws = [] then None else Some (spaced ws))"
proof -
  have "strchr (n @ r) (CHR '' '') = strchr r (CHR '' '')" if "CHR '' '' \<notin> set n" for n r
    using that by (induction n) auto
  then show *: "strchr (name @ spaced ws) (CHR '' '') = (if ws = [] then None else Some (spaced ws))"
    using assms by (cases ws) (auto simp: spaced_def word_ok_def strchr_None_iff)
  show "plugin_name (name @ spaced ws) = name"
    unfolding plugin_name_def * using assms by (auto simp: Let_def word_ok_def spaced_def)
qed

lemma split_parameters_spaced:
  assumes "length args = MAX_PLUGIN_ARGUMENTS" "list_all word_ok ws" "ws \<noteq> []"
  shows "length ws + 1 < MAX_PLUGIN_ARGUMENTS \<Longrightarrow> split_parameters (Some (spaced ws)) n args =
      Inr (1, 1 + int (length ws), None # map Some ws @ drop (1 + length ws) args)"
    "MAX_PLUGIN_ARGUMENTS \<le> length ws + 1 \<Longrightarrow> \<exists>args'. split_parameters (Some (spaced ws)) n args = Inr (0, n, args')"
proof -
  obtain w ws' where ws: "ws = w # ws'" using assms(3) by (cases ws) auto
  have t: "tokens (spaced ws) = w # ws'" using tokens_spaced [OF assms(2)] ws by simp
  have s: "spaced ws \<noteq> []" "strchr (spaced ws) (CHR '' '') \<noteq> None" using ws by (simp_all add: spaced_def)
  let ?a = "args[0 := None, 1 := Some w]"
  have a: "length ?a = MAX_PLUGIN_ARGUMENTS" using assms(1) by simp
  have run: "split_parameters (Some (spaced ws)) n args =
      (case split_loop ws' 2 ?a of Inl e \<Rightarrow> Inl e | Inr (Some count, args) \<Rightarrow> Inr (1, int count, args)
       | Inr (None, args) \<Rightarrow> Inr (0, n, args))"
    using s t assms(1) by (auto simp: split_parameters_def Let_def MAX_PLUGIN_ARGUMENTS_def)
  have "take 2 ?a = [None, Some w]"
    using assms(1) by (cases args; cases "tl args") (auto simp: MAX_PLUGIN_ARGUMENTS_def numeral_2_eq_2)
  then show "split_parameters (Some (spaced ws)) n args =
      Inr (1, 1 + int (length ws), None # map Some ws @ drop (1 + length ws) args)" if "length ws + 1 < MAX_PLUGIN_ARGUMENTS"
    using split_loop_fill [OF a, of 2 ws'] that ws unfolding run by (simp add: drop_update_cancel)
  show "\<exists>args'. split_parameters (Some (spaced ws)) n args = Inr (0, n, args')" if "MAX_PLUGIN_ARGUMENTS \<le> length ws + 1"
    using split_loop_full [OF a, of 2 ws'] that ws unfolding run by (auto simp: MAX_PLUGIN_ARGUMENTS_def)
qed

text \<open>
  A plugin argument of the command line, the name of a shared object and up to 30 words, is split into
  exactly those words: the object is opened under its name and gets the words as its arguments 1 to
  n.  With 31 words or more it gets none of them, since the argument count is left at what it was.
\<close>

theorem plugin_arguments:
  assumes "word_ok name" "list_all word_ok ws" "ws \<noteq> []" "length (pargv p) = MAX_PLUGIN_ARGUMENTS"
  shows "plugin_name (name @ spaced ws) = name \<and>
    (if length ws \<le> 30
     then load_param i (name @ spaced ws) p = Inr (p\<lparr>parameters := Some (spaced ws), pargc := 1 + int (length ws),
            pargv := None # map Some ws @ drop (1 + length ws) (pargv p), pid := int i\<rparr>)
     else \<exists>args. load_param i (name @ spaced ws) p = Inr (p\<lparr>parameters := Some (spaced ws), pargv := args, pid := int i\<rparr>))"
proof (cases "length ws \<le> 30")
  case True
  then show ?thesis
    using plugin_name_spaced [OF assms(1), of ws] split_parameters_spaced(1) [OF assms(4,2,3), of "pargc p"] assms(3)
    by (simp add: load_param_def Let_def MAX_PLUGIN_ARGUMENTS_def)
next
  case False
  then obtain args where "split_parameters (Some (spaced ws)) (pargc p) (pargv p) = Inr (0, pargc p, args)"
    using split_parameters_spaced(2) [OF assms(4,2,3), of "pargc p"] by (auto simp: MAX_PLUGIN_ARGUMENTS_def)
  then have "load_param i (name @ spaced ws) p = Inr (p\<lparr>parameters := Some (spaced ws), pargv := args, pid := int i\<rparr>)"
    using plugin_name_spaced(2) [OF assms(1), of ws] assms(3) by (simp add: load_param_def Let_def)
  then show ?thesis using plugin_name_spaced(1) [OF assms(1), of ws] False by auto
qed

theorem plugin_arguments_witness:
  "plugin_name ''input_uvc.so -r 320x240'' = ''input_uvc.so'' \<and>
   load_param 0 ''input_uvc.so -r 320x240'' \<lparr>pid = 0, parameters = None, pargc = 0, pargv = replicate 32 None\<rparr> =
     Inr \<lparr>pid = 0, parameters = Some '' -r 320x240'', pargc = 3, pargv = [None, Some ''-r'', Some ''320x240''] @ replicate 29 None\<rparr>"
  using plugin_arguments [of "''input_uvc.so''" "[''-r'', ''320x240'']"
      "\<lparr>pid = 0, parameters = None, pargc = 0, pargv = replicate 32 None\<rparr>" 0]
  by (simp add: word_ok_def spaced_def MAX_PLUGIN_ARGUMENTS_def)

subsection \<open>Order of start and stop\<close>

definition args_ok :: "globals \<Rightarrow> bool" where
  "args_ok g \<longleftrightarrow> length (gin g) = MAX_INPUT_PLUGINS \<and> length (gout g) = MAX_OUTPUT_PLUGINS \<and>
     list_all (\<lambda>p. length (pargv (in_param p)) = MAX_PLUGIN_ARGUMENTS) (gin g) \<and>
     list_all (\<lambda>p. length (pargv (out_param p)) = MAX_PLUGIN_ARGUMENTS) (gout g)"

text \<open>Every plugin is found, and its functions succeed and leave the tables of plugins in place.\<close>

definition env_good :: "plugin_env \<Rightarrow> bool" where
  "env_good env \<longleftrightarrow> (\<forall>s. dlopen env s) \<and> (\<forall>s f. dlsym env s f) \<and> (\<forall>i. mutex_init env i = 0 \<and> cond_init env i = 0) \<and>
     (\<forall>i g. fst (p_init_in env i g) = 0 \<and> (args_ok g \<longrightarrow> args_ok (snd (p_init_in env i g)))) \<and>
     (\<forall>i g. fst (p_init_out env i g) = 0 \<and> (args_ok g \<longrightarrow> args_ok (snd (p_init_out env i g)))) \<and>
     (\<forall>i g. fst (p_run_in env i g) = 0 \<and> (args_ok g \<longrightarrow> args_ok (snd (p_run_in env i g)))) \<and>
     (\<forall>i g. args_ok g \<longrightarrow> args_ok (snd (p_run_out env i g)))"

lemma env_good_init_in: "env_good env \<Longrightarrow> args_ok g \<Longrightarrow> \<exists>g'. p_init_in env i g = (0, g') \<and> args_ok g'"
  by (metis env_good_def prod.collapse)

lemma env_good_init_out: "env_good env \<Longrightarrow> args_ok g \<Longrightarrow> \<exists>g'. p_init_out env i g = (0, g') \<and> args_ok g'"
  by (metis env_good_def prod.collapse)

lemma env_good_run_in: "env_good env \<Longrightarrow> \<exists>g'. p_run_in env i g = (0, g')"
  by (metis env_good_def prod.collapse)

lemma split_loop_total:
  "\<lbrakk>length args = MAX_PLUGIN_ARGUMENTS; count < MAX_PLUGIN_ARGUMENTS\<rbrakk> \<Longrightarrow>
    \<exists>c args'. split_loop ts count args = Inr (c, args') \<and> length args' = MAX_PLUGIN_ARGUMENTS"
  by (induction ts arbitrary: count args) (auto simp: Let_def)

lemma split_parameters_total:
  assumes "length args = MAX_PLUGIN_ARGUMENTS"
  shows "\<exists>r n args'. split_parameters ps argc args = Inr (r, n, args') \<and> length args' = MAX_PLUGIN_ARGUMENTS"
proof (cases "\<exists>arg t ts. ps = Some arg \<and> arg \<noteq> [] \<and> strchr arg (CHR '' '') \<noteq> None \<and> tokens arg = t # ts")
  case True
  then obtain arg t ts where ps: "ps = Some arg" "arg \<noteq> []" "strchr arg (CHR '' '') \<noteq> None" "tokens arg = t # ts" by blast
  obtain c args' where "split_loop ts 2 (args[0 := None, 1 := Some t]) = Inr (c, args')" "length args' = MAX_PLUGIN_ARGUMENTS"
    using split_loop_total [of "args[0 := None, 1 := Some t]" 2 ts] assms by (auto simp: MAX_PLUGIN_ARGUMENTS_def)
  then show ?thesis
    using ps assms by (cases c) (auto simp: split_parameters_def Let_def MAX_PLUGIN_ARGUMENTS_def)
next
  case False
  then show ?thesis
    using assms by (cases ps; cases "tokens (the ps)") (auto simp: split_parameters_def Let_def)
qed

lemma load_param_total:
  "length (pargv p) = MAX_PLUGIN_ARGUMENTS \<Longrightarrow>
    \<exists>p'. load_param i s p = Inr p' \<and> length (pargv p') = MAX_PLUGIN_ARGUMENTS"
  using split_parameters_total [of "pargv p" "strchr s (CHR '' '')" "pargc p"]
  by (auto simp: load_param_def Let_def)

lemma load_inputs_order:
  assumes "env_good env" "args_ok g" "i + length ss \<le> MAX_INPUT_PLUGINS"
  shows "\<exists>g'. load_inputs env ss i (g, log) =
    Inr (g', log @ concat (map (\<lambda>k. [InitSync k, InitIn k]) [i..<i + length ss])) \<and> args_ok g'"
  using assms(2,3)
proof (induction ss arbitrary: i g log)
  case (Cons s ss)
  have i: "i < length (gin g)" using Cons.prems by (simp add: args_ok_def)
  then have "length (pargv (in_param (gin g ! i))) = MAX_PLUGIN_ARGUMENTS"
    using Cons.prems(1) by (simp add: args_ok_def list_all_length)
  then obtain p where p: "load_param i s (in_param (gin g ! i)) = Inr p" "length (pargv p) = MAX_PLUGIN_ARGUMENTS"
    using load_param_total by blast
  define g1 where "g1 = g\<lparr>gin := (gin g)[i := (gin g ! i)\<lparr>in_buf := None, in_size := 0, in_plugin_name := Some (plugin_name s),
      in_handle := True, in_cmd := True, in_param := p\<rparr>]\<rparr>"
  have "args_ok g1"
    using Cons.prems(1) p(2) by (auto simp: args_ok_def g1_def)
  then obtain g2 where g2: "p_init_in env i g1 = (0, g2)" "args_ok g2"
    using env_good_init_in [OF assms(1)] by blast
  obtain g' where "load_inputs env ss (Suc i) (g2, log @ [InitSync i, InitIn i]) =
      Inr (g', (log @ [InitSync i, InitIn i]) @ concat (map (\<lambda>k. [InitSync k, InitIn k]) [Suc i..<Suc i + length ss]))" "args_ok g'"
    using Cons.IH [of g2 "Suc i" "log @ [InitSync i, InitIn i]"] g2(2) Cons.prems(2) by auto
  moreover have "[i..<i + length (s # ss)] = i # [Suc i..<Suc i + length ss]"
    by (simp add: upt_conv_Cons del: upt_Suc)
  ultimately show ?case
    using i p(1) g2(1) assms(1) by (simp add: env_good_def Let_def flip: g1_def)
qed simp

lemma load_outputs_order:
  assumes "env_good env" "args_ok g" "i + length ss \<le> MAX_OUTPUT_PLUGINS"
  shows "\<exists>g'. load_outputs env ss i (g, log) = Inr (g', log @ map InitOut [i..<i + length ss]) \<and> args_ok g'"
  using assms(2,3)
proof (induction ss arbitrary: i g log)
  case (Cons s ss)
  have i: "i < length (gout g)" using Cons.prems by (simp add: args_ok_def)
  then have "length (pargv (out_param (gout g ! i))) = MAX_PLUGIN_ARGUMENTS"
    using Cons.prems(1) by (simp add: args_ok_def list_all_length)
  then obtain p where p: "load_param i s (out_param (gout g ! i)) = Inr p" "length (pargv p) = MAX_PLUGIN_ARGUMENTS"
    using load_param_total by blast
  define g1 where "g1 = g\<lparr>gout := (gout g)[i := (gout g ! i)\<lparr>out_plugin_name := Some (plugin_name s),
      out_handle := True, out_cmd := True, out_param := p\<rparr>]\<rparr>"
  have "args_ok g1"
    using Cons.prems(1) p(2) by (auto simp: args_ok_def g1_def)
  then obtain g2 where g2: "p_init_out env i g1 = (0, g2)" "args_ok g2"
    using env_good_init_out [OF assms(1)] by blast
  obtain g' where "load_outputs env ss (Suc i) (g2, log @ [InitOut i]) =
      Inr (g', (log @ [InitOut i]) @ map InitOut [Suc i..<Suc i + length ss])" "args_ok g'"
    using Cons.IH [of g2 "Suc i" "log @ [InitOut i]"] g2(2) Cons.prems(2) by auto
  moreover have "[i..<i + length (s # ss)] = i # [Suc i..<Suc i + length ss]"
    by (simp add: upt_conv_Cons del: upt_Suc)
  ultimately show ?case
    using i p(1) g2(1) assms(1) by (simp add: env_good_def Let_def flip: g1_def)
qed simp

lemma run_inputs_order:
  assumes "env_good env"
  shows "\<exists>g'. run_inputs env i n (g, log) = Inr (g', log @ map RunIn [i..<i + n])"
proof (induction n arbitrary: i g log)
  case (Suc n)
  obtain g2 where "p_run_in env i g = (0, g2)"
    using env_good_run_in [OF assms] by blast
  then show ?case using Suc [of "Suc i" g2 "log @ [RunIn i]"] by (auto simp: upt_conv_Cons)
qed simp

lemma run_outputs_order: "\<exists>g'. run_outputs env i n (g, log) = (g', log @ map RunOut [i..<i + n])"
proof (induction n arbitrary: i g log)
  case (Suc n)
  then show ?case
    using Suc [of "Suc i" "snd (p_run_out env (pid (out_param (gout g ! i))) g)" "log @ [RunOut i]"]
    by (auto simp: upt_conv_Cons split: prod.split)
qed simp

lemma main_options_in:
  "length (inputs cl) + length ins \<le> MAX_INPUT_PLUGINS \<Longrightarrow>
    main_options (map (Opt 2) ins @ opts) cl = main_options opts (cl\<lparr>inputs := inputs cl @ ins\<rparr>)"
  by (induction ins arbitrary: cl) auto

lemma main_options_out:
  "length (outputs cl) + length outs \<le> MAX_OUTPUT_PLUGINS \<Longrightarrow>
    main_options (map (Opt 4) outs) cl = Inr (cl\<lparr>outputs := outputs cl @ outs\<rparr>)"
  by (induction outs arbitrary: cl) auto

text \<open>
  C26. When every plugin named on the command line can be loaded, the program initialises the inputs in order,
  each behind its mutex and condition variable, then the outputs, and only then starts the
  inputs and at last the outputs; without an output option the HTTP server is the only output.
\<close>

theorem main_starts_in_order:
  assumes "env_good env" "args_ok g" "length ins \<le> MAX_INPUT_PLUGINS" "length outs \<le> MAX_OUTPUT_PLUGINS"
    and "m = (if outs = [] then 1 else length outs)"
  shows "\<exists>g'. main env (map (Opt 2) ins @ map (Opt 4) outs) background True g =
    Inr (g', concat (map (\<lambda>k. [InitSync k, InitIn k]) [0..<length ins]) @ map InitOut [0..<m] @
             map RunIn [0..<length ins] @ map RunOut [0..<m])"
proof -
  let ?outs = "if outs = [] then [default_output] else outs"
  have m: "length ?outs = m" "length ?outs \<le> MAX_OUTPUT_PLUGINS"
    using assms(4,5) by (auto simp: MAX_OUTPUT_PLUGINS_def)
  have opts: "main_options (map (Opt 2) ins @ map (Opt 4) outs) \<lparr>inputs = [], outputs = [], daemon = False\<rparr> =
      Inr \<lparr>inputs = ins, outputs = outs, daemon = False\<rparr>"
    using assms(3,4) by (simp add: main_options_in main_options_out)
  let ?g = "g\<lparr>incnt := int (length ins), outcnt := int (length ?outs)\<rparr>"
  have "args_ok ?g" using assms(2) by (simp add: args_ok_def)
  then obtain g1 where g1: "load_inputs env ins 0 (?g, []) = Inr (g1, concat (map (\<lambda>k. [InitSync k, InitIn k]) [0..<length ins]))" "args_ok g1"
    using load_inputs_order [OF assms(1), of ?g 0 ins "[]"] assms(3) by auto
  obtain g2 where g2: "load_outputs env ?outs 0 (g1, concat (map (\<lambda>k. [InitSync k, InitIn k]) [0..<length ins])) =
      Inr (g2, concat (map (\<lambda>k. [InitSync k, InitIn k]) [0..<length ins]) @ map InitOut [0..<m])"
    using load_outputs_order [OF assms(1) g1(2), of 0 ?outs] m by auto
  obtain g3 where g3: "run_inputs env 0 (length ins) (g2, concat (map (\<lambda>k. [InitSync k, InitIn k]) [0..<length ins]) @ map InitOut [0..<m]) =
      Inr (g3, (concat (map (\<lambda>k. [InitSync k, InitIn k]) [0..<length ins]) @ map InitOut [0..<m]) @ map RunIn [0..<length ins])"
    using run_inputs_order [OF assms(1), of 0 "length ins" g2, unfolded add_0] by blast
  obtain g4 where "run_outputs env 0 m (g3, (concat (map (\<lambda>k. [InitSync k, InitIn k]) [0..<length ins]) @ map InitOut [0..<m]) @ map RunIn [0..<length ins]) =
      (g4, ((concat (map (\<lambda>k. [InitSync k, InitIn k]) [0..<length ins]) @ map InitOut [0..<m]) @ map RunIn [0..<length ins]) @ map RunOut [0..<m])"
    using run_outputs_order [of env 0 m g3, unfolded add_0] by blast
  then show ?thesis
    unfolding main_def opts Let_def sbind_simps command_line.simps if_False not_True_eq_False
    using g1(1) g2 g3 m(1) by (simp split del: if_split)
qed

definition sample_plugins :: plugin_env where
  "sample_plugins = \<lparr>dlopen = (\<lambda>_. True), dlsym = (\<lambda>_ _. True), mutex_init = (\<lambda>_. 0), cond_init = (\<lambda>_. 0),
     p_init_in = (\<lambda>i g. (0, g)), p_init_out = (\<lambda>i g. (0, g)), p_run_in = (\<lambda>i g. (0, g)), p_run_out = (\<lambda>i g. (0, g))\<rparr>"

definition blank_globals :: globals where
  "blank_globals = \<lparr>gstop = False,
     gin = replicate 10 ((sample_input [])\<lparr>in_param := \<lparr>pid = 0, parameters = None, pargc = 0, pargv = replicate 32 None\<rparr>\<rparr>), incnt = 0,
     gout = replicate 10 \<lparr>out_plugin_name = None, out_handle = False,
       out_param = \<lparr>pid = 0, parameters = None, pargc = 0, pargv = replicate 32 None\<rparr>,
       out_parameters = None, out_parametercount = 0, out_cmd = False\<rparr>, outcnt = 0\<rparr>"

theorem main_starts_in_order_witness:
  "\<exists>g'. main sample_plugins (map (Opt 2) [''input_uvc.so''] @ map (Opt 4) []) (0, 0, 0, 0) True blank_globals =
    Inr (g', concat (map (\<lambda>k. [InitSync k, InitIn k]) [0..<length [''input_uvc.so'']]) @ map InitOut [0..<1] @
             map RunIn [0..<length [''input_uvc.so'']] @ map RunOut [0..<1])"
  by (rule main_starts_in_order)
     (simp_all add: env_good_def sample_plugins_def args_ok_def blank_globals_def MAX_INPUT_PLUGINS_def MAX_OUTPUT_PLUGINS_def
        MAX_PLUGIN_ARGUMENTS_def list_all_iff)

text \<open>
  On a signal every input and every output is told to stop and has its shared object closed, but the
  condition variables and mutexes that are destroyed are those of the inputs numbered below the
  number of outputs: with more inputs than outputs some are kept, with fewer some are destroyed that
  were never made.
\<close>

theorem signal_handler_cleanup:
  "gstop (fst (signal_handler g)) \<and>
   {i. StopIn i \<in> set (snd (signal_handler g))} = {i. int i < incnt g} \<and>
   {i. CloseIn i \<in> set (snd (signal_handler g))} = {i. int i < incnt g} \<and>
   {i. CloseOut i \<in> set (snd (signal_handler g))} = {i. int i < outcnt g} \<and>
   {i. DestroySync i \<in> set (snd (signal_handler g))} = {i. int i < outcnt g}"
  by (auto simp: signal_handler_def)

end
