(* ===== verification/Output_File.thy ===== *)
theory Output_File
  imports Http_Server "HOL-Library.List_Lexorder" "HOL-Library.Char_ord"
begin

text \<open>
  \<^verbatim>\<open>src/mjpg-streamer/plugins/output_file/output_file.c\<close>: a thread that saves every fresh frame under a name
  made of the time and a counter, and deletes the oldest pictures of the folder.  The file system is a
  list of paths with their contents; what \<^verbatim>\<open>open\<close>, \<^verbatim>\<open>write\<close>, \<^verbatim>\<open>unlink\<close>, \<^verbatim>\<open>scandir\<close> and \<^verbatim>\<open>realloc\<close> answer is an
  argument, and so is the local time.
\<close>

subsection \<open>Names of pictures\<close>

record tm =
  tm_year :: nat
  tm_mon :: nat
  tm_mday :: nat
  tm_hour :: nat
  tm_min :: nat
  tm_sec :: nat

text \<open>A number with leading zeros up to a width, as \<^verbatim>\<open>%09llu\<close> prints it.\<close>

definition pad :: "nat \<Rightarrow> nat \<Rightarrow> string" where
  "pad wid n = replicate (wid - length (show_nat n)) (CHR ''0'') @ show_nat n"

text \<open>\<^verbatim>\<open>strftime\<close> with \<^verbatim>\<open>%Y_%m_%d_%H_%M_%S_picture_\<close>, then the counter.\<close>

definition picture_name :: "tm \<Rightarrow> nat \<Rightarrow> string" where
  "picture_name t counter =
     show_nat (tm_year t) @ ''_'' @ pad 2 (tm_mon t) @ ''_'' @ pad 2 (tm_mday t) @ ''_'' @ pad 2 (tm_hour t) @ ''_'' @
     pad 2 (tm_min t) @ ''_'' @ pad 2 (tm_sec t) @ ''_picture_'' @ pad 9 counter @ ''.jpg''"

text \<open>\<^verbatim>\<open>%d\<close> and, with a limit on the characters, \<^verbatim>\<open>%09llu\<close> of \<^verbatim>\<open>sscanf\<close>: the rest of the string, if there is a number.\<close>

definition scan_number :: "nat option \<Rightarrow> string \<Rightarrow> string option" where
  "scan_number limit s =
     (let t = dropWhile is_space s;
          (front, back) = (case limit of None \<Rightarrow> (t, []) | Some k \<Rightarrow> (take k t, drop k t));
          u = (if front \<noteq> [] \<and> (hd front = CHR ''-'' \<or> hd front = CHR ''+'') then tl front else front)
      in if takeWhile is_digit u = [] then None else Some (dropWhile is_digit u @ back))"

definition scan_literal :: "string \<Rightarrow> string \<Rightarrow> string option" where
  "scan_literal lit s = (if prefix lit s then Some (drop (length lit) s) else None)"

definition scan_field :: "nat option \<Rightarrow> string \<Rightarrow> string \<Rightarrow> string option" where
  "scan_field limit lit s = Option.bind (scan_literal lit s) (scan_number limit)"

text \<open>
  \<^verbatim>\<open>sscanf\<close> returns 7 when all seven numbers were found; what follows the last one is not compared with
  \<^verbatim>\<open>.jpg\<close>.
\<close>

definition check_for_filename :: "string \<Rightarrow> bool" where
  "check_for_filename d_name \<longleftrightarrow>
     Option.bind (scan_number None d_name) (\<lambda>s.
     Option.bind (scan_field None ''_'' s) (\<lambda>s.
     Option.bind (scan_field None ''_'' s) (\<lambda>s.
     Option.bind (scan_field None ''_'' s) (\<lambda>s.
     Option.bind (scan_field None ''_'' s) (\<lambda>s.
     Option.bind (scan_field None ''_'' s) (\<lambda>s.
     scan_field (Some 9) ''_picture_'' s)))))) \<noteq> None"

subsection \<open>The ring buffer\<close>

type_synonym files = "(string \<times> byte list) list"

definition entries :: "string \<Rightarrow> files \<Rightarrow> string list" where
  "entries folder fs =
     map (\<lambda>p. drop (length folder + 1) p)
       (filter (\<lambda>p. prefix (folder @ ''/'') p \<and> CHR ''/'' \<notin> set (drop (length folder + 1) p)) (map fst fs))"

text \<open>\<^verbatim>\<open>scandir\<close> with \<^verbatim>\<open>alphasort\<close>.\<close>

definition pictures :: "string \<Rightarrow> files \<Rightarrow> string list" where
  "pictures folder fs = sort (filter check_for_filename (entries folder fs))"

definition unlink_file :: "(string \<Rightarrow> bool) \<Rightarrow> string \<Rightarrow> files \<Rightarrow> files" where
  "unlink_file unlink_ok p fs = (if unlink_ok p then filter (\<lambda>(q, _). q \<noteq> p) fs else fs)"

definition maintain_ringbuffer :: "bool \<Rightarrow> (string \<Rightarrow> bool) \<Rightarrow> string \<Rightarrow> int \<Rightarrow> files \<Rightarrow> files" where
  "maintain_ringbuffer scan_ok unlink_ok folder n fs =
     (if n < 0 then fs
      else if \<not> scan_ok then fs
      else
        let namelist = pictures folder fs
        in fold (\<lambda>d. unlink_file unlink_ok (take 65535 (folder @ ''/'' @ d)))
             (take (nat (int (length namelist) - n)) namelist) fs)"

subsection \<open>The worker\<close>

record file_output =
  fdelay :: int
  ringbuffer_size :: int
  ringbuffer_exceed :: int
  max_frame_size :: int
  folder :: string
  fframe :: "byte list option"
  fcommand :: "string option"
  input_number :: int
  fcounter :: nat

definition file_output0 :: file_output where
  "file_output0 = \<lparr>fdelay = 0, ringbuffer_size = - 1, ringbuffer_exceed = 0, max_frame_size = 0, folder = ''/tmp'', fframe = None,
     fcommand = None, input_number = 0, fcounter = 0\<rparr>"

text \<open>The answers of the system in one turn.\<close>

record file_env =
  realloc_ok :: bool
  localtime :: "tm option"
  open_ok :: bool
  write_ret :: int
  fscan_ok :: bool
  funlink_ok :: "string \<Rightarrow> bool"

text \<open>How a turn ends; a command is the line handed to \<^verbatim>\<open>system\<close>.\<close>

datatype worker_event = WorkerEnds | WorkerSaved string "string option"

definition grow_frame :: "bool \<Rightarrow> int \<Rightarrow> byte list option \<times> int \<Rightarrow> bool \<times> byte list option \<times> int" where
  "grow_frame mem frame_size = (\<lambda>(frm, max_size).
     if frame_size > max_size then
       if \<not> mem then (False, frm, frame_size + 65536)
       else (True, Some (overwrite (case frm of None \<Rightarrow> [] | Some f \<Rightarrow> f) (replicate (nat (frame_size + 65536)) 0)), frame_size + 65536)
     else (True, frm, max_size))"

definition save_path :: "string \<Rightarrow> tm \<Rightarrow> nat \<Rightarrow> string" where
  "save_path dir t counter = take 1023 (dir @ ''/'' @ picture_name t counter)"

definition command_line_of :: "string option \<Rightarrow> string \<Rightarrow> string option" where
  "command_line_of cmd path = map_option (\<lambda>c. take 1023 (c @ '' \"'' @ path @ ''\"'')) cmd"

text \<open>The counter is compared with \<^verbatim>\<open>ringbuffer_exceed + 1\<close> after it was incremented.\<close>

definition maintain :: "file_env \<Rightarrow> file_output \<Rightarrow> files \<Rightarrow> files" where
  "maintain env st fs =
     (if ringbuffer_exceed st \<le> 0 \<or> fcounter st = 1 \<or> int (fcounter st) mod (ringbuffer_exceed st + 1) = 0
      then maintain_ringbuffer (fscan_ok env) (funlink_ok env) (folder st) (ringbuffer_size st) fs
      else fs)"

definition save_file :: "string \<Rightarrow> byte list \<Rightarrow> files \<Rightarrow> files" where
  "save_file path content fs = (path, content) # filter (\<lambda>(q, _). q \<noteq> path) fs"

definition worker_turn ::
  "file_env \<Rightarrow> input_plugin \<Rightarrow> file_output \<times> files \<Rightarrow> crash + (worker_event \<times> file_output \<times> files)"
where
  "worker_turn env inp = (\<lambda>(st, fs).
     case grow_frame (realloc_ok env) (in_size inp) (fframe st, max_frame_size st) of (mem, frm, max_size) \<Rightarrow>
       let st = st\<lparr>fframe := frm, max_frame_size := max_size\<rparr>
       in if \<not> mem then Inr (WorkerEnds, st, fs)
       else sbind (frame_of inp) (\<lambda>picture.
         let st = st\<lparr>fframe := map_option (overwrite picture) (fframe st)\<rparr>
         in case localtime env of
              None \<Rightarrow> Inr (WorkerEnds, st, fs)
            | Some now \<Rightarrow>
                let path = save_path (folder st) now (fcounter st);
                    st = st\<lparr>fcounter := Suc (fcounter st)\<rparr>
                in if \<not> open_ok env then Inr (WorkerEnds, st, fs)
                   else if write_ret env < 0 then Inr (WorkerEnds, st, save_file path [] fs)
                   else
                     let fs = save_file path (take (nat (write_ret env)) picture) fs
                     in Inr (WorkerSaved path (command_line_of (fcommand st) path), st, maintain env st fs)))"

definition file_cleanup :: "bool \<Rightarrow> file_output \<Rightarrow> bool \<times> file_output" where
  "file_cleanup first_run st = (if \<not> first_run then (False, st) else (False, st\<lparr>fframe := None\<rparr>))"

text \<open>
  The loop: one element per signal of a fresh frame, \<^verbatim>\<open>pglobal->stop\<close> at the end of the list.  The
  cleanup handler runs there, and not when a turn returns.
\<close>

fun worker_loop ::
  "(file_env \<times> input_plugin) list \<Rightarrow> file_output \<times> files \<Rightarrow> crash + (worker_event list \<times> file_output \<times> files)"
where
  "worker_loop [] (st, fs) = Inr ([], snd (file_cleanup True st), fs)"
| "worker_loop ((env, inp) # turns) (st, fs) =
     sbind (worker_turn env inp (st, fs)) (\<lambda>(event, s).
       case event of
         WorkerEnds \<Rightarrow> Inr ([event], s)
       | WorkerSaved _ _ \<Rightarrow> sbind (worker_loop turns s) (\<lambda>(events, s). Inr (event # events, s)))"

definition file_worker_thread ::
  "(file_env \<times> input_plugin) list \<Rightarrow> file_output \<times> files \<Rightarrow> crash + (worker_event list \<times> file_output \<times> files)"
where
  "file_worker_thread turns = (\<lambda>(st, fs). worker_loop turns (st\<lparr>fcounter := 0\<rparr>, fs))"

subsection \<open>The plugin interface\<close>

text \<open>
  The options.  An empty argument of \<^verbatim>\<open>-f\<close> reads in front of the string; numbers 12 and 13 are \<^verbatim>\<open>m\<close> and
  \<^verbatim>\<open>mjpeg\<close>, and those of \<^verbatim>\<open>i\<close> and \<^verbatim>\<open>input\<close>, 14 and 15, are ignored.
\<close>

fun file_options :: "getopt_result list \<Rightarrow> file_output \<Rightarrow> crash + file_output option" where
  "file_options [] st = Inr (Some st)"
| "file_options (Unrecognized # opts) st = Inr None"
| "file_options (Opt option_index optarg # opts) st =
     (if option_index = 0 \<or> option_index = 1 then Inr None
      else if option_index = 2 \<or> option_index = 3 then
        if optarg = [] then Inl OutOfBounds
        else file_options opts (st\<lparr>folder := (if last optarg = CHR ''/'' then butlast optarg else optarg)\<rparr>)
      else if option_index = 4 \<or> option_index = 5 then file_options opts (st\<lparr>fdelay := atoi optarg\<rparr>)
      else if option_index = 6 \<or> option_index = 7 then file_options opts (st\<lparr>ringbuffer_size := atoi optarg\<rparr>)
      else if option_index = 8 \<or> option_index = 9 then file_options opts (st\<lparr>ringbuffer_exceed := atoi optarg\<rparr>)
      else if option_index = 10 \<or> option_index = 11 then file_options opts (st\<lparr>fcommand := Some optarg\<rparr>)
      else if option_index = 12 \<or> option_index = 13 then file_options opts (st\<lparr>input_number := atoi optarg\<rparr>)
      else file_options opts st)"

definition file_init :: "getopt_result list \<Rightarrow> globals \<Rightarrow> file_output \<Rightarrow> crash + (int \<times> file_output)" where
  "file_init opts g st =
     sbind (file_options opts (st\<lparr>fdelay := 0\<rparr>)) (\<lambda>r.
       case r of
         None \<Rightarrow> Inr (1, st)
       | Some st \<Rightarrow>
           if \<not> input_number st < incnt g then Inr (1, st)
           else sbind (at (gin g) (input_number st)) (\<lambda>_. Inr (0, st)))"

text \<open>Starting and cancelling the worker, whose existence is the flag.\<close>

definition file_run :: "bool \<Rightarrow> int \<times> bool" where
  "file_run created = (0, created)"

definition file_stop :: "bool \<Rightarrow> int \<times> bool" where
  "file_stop running = (0, False)"

definition file_output_cmd :: "int \<Rightarrow> cint \<Rightarrow> cint \<Rightarrow> int \<Rightarrow> int" where
  "file_output_cmd plugin control_id grp v = 0"

subsection \<open>Names sort by time\<close>

lemma append_less_append:
  "length a = length b \<Longrightarrow> (a @ r < b @ s) \<longleftrightarrow> a < b \<or> a = b \<and> r < (s :: 'a :: linorder list)"
  by (induction a b rule: list_induct2) auto

lemma digits_val_Cons: "digits_val (c # cs) = digit_val c * 10 ^ length cs + digits_val cs"
proof (induction cs rule: rev_induct)
  case Nil
  then show ?case by (simp add: digits_val_def)
next
  case (snoc x xs)
  have "digits_val (c # xs @ [x]) = 10 * digits_val (c # xs) + digit_val x"
    using digits_val_snoc [of "c # xs" x] by simp
  then show ?case by (simp add: snoc digits_val_snoc algebra_simps)
qed

lemma digit_val_range: "is_digit c \<Longrightarrow> 0 \<le> digit_val c \<and> digit_val c \<le> 9"
  by (auto simp: is_digit_def digit_val_def)

lemma digits_val_range: "list_all is_digit cs \<Longrightarrow> 0 \<le> digits_val cs \<and> digits_val cs < 10 ^ length cs"
proof (induction cs)
  case (Cons c cs)
  then have "0 \<le> digit_val c" "digit_val c \<le> 9" "0 \<le> digits_val cs" "digits_val cs < 10 ^ length cs"
    using digit_val_range by auto
  moreover have "digit_val c * 10 ^ length cs \<le> 9 * 10 ^ length cs"
    using calculation(2) by (simp add: mult_right_mono)
  with calculation(4) have "digit_val c * 10 ^ length cs + digits_val cs < 10 * 10 ^ length cs"
    by linarith
  ultimately show ?case by (simp add: digits_val_Cons)
qed (simp add: digits_val_def)

lemma digit_less: "is_digit c \<Longrightarrow> is_digit d \<Longrightarrow> c < d \<longleftrightarrow> digit_val c < digit_val d"
  by (auto simp: is_digit_def digit_val_def less_char_def)

lemma digit_eq: "is_digit c \<Longrightarrow> is_digit d \<Longrightarrow> c = d \<longleftrightarrow> digit_val c = digit_val d"
  by (auto simp: is_digit_def digit_val_def)

lemma digits_less:
  "length a = length b \<Longrightarrow> list_all is_digit a \<Longrightarrow> list_all is_digit b \<Longrightarrow>
    (a < b \<longleftrightarrow> digits_val a < digits_val b) \<and> (a = b \<longleftrightarrow> digits_val a = digits_val b)"
proof (induction a b rule: list_induct2)
  case (Cons c cs d ds)
  define P :: int where "P = 10 ^ length ds"
  define x y where "x = digits_val cs" and "y = digits_val ds"
  have "0 \<le> x" "x < P" "0 \<le> y" "y < P"
    using digits_val_range [of cs] digits_val_range [of ds] Cons by (simp_all add: P_def x_def y_def)
  moreover have "digit_val c < digit_val d \<Longrightarrow> digit_val c * P + P \<le> digit_val d * P"
    "digit_val d < digit_val c \<Longrightarrow> digit_val d * P + P \<le> digit_val c * P"
    using mult_right_mono [of "digit_val c + 1" "digit_val d" P] mult_right_mono [of "digit_val d + 1" "digit_val c" P] \<open>0 \<le> x\<close> \<open>x < P\<close>
    by (simp_all add: distrib_right)
  ultimately have "(digit_val c * P + x < digit_val d * P + y \<longleftrightarrow> digit_val c < digit_val d \<or> digit_val c = digit_val d \<and> x < y) \<and>
      (digit_val c * P + x = digit_val d * P + y \<longleftrightarrow> digit_val c = digit_val d \<and> x = y)"
    by (cases "digit_val c" "digit_val d" rule: linorder_cases) auto
  moreover have "c < d \<longleftrightarrow> digit_val c < digit_val d" "c = d \<longleftrightarrow> digit_val c = digit_val d"
    using Cons.prems digit_less digit_eq by auto
  ultimately show ?case
    using Cons by (simp add: digits_val_Cons P_def x_def y_def)
qed simp

lemma pad_facts:
  assumes "n < 10 ^ Suc k"
  shows "length (pad (Suc k) n) = Suc k" "list_all is_digit (pad (Suc k) n)" "digits_val (pad (Suc k) n) = int n"
proof -
  have zeros: "digits_val (replicate j (CHR ''0'') @ s) = digits_val s" for j s
  proof (induction j)
    case (Suc j)
    have "digit_val (CHR ''0'') = 0" by (simp add: digit_val_def)
    with Suc show ?case by (simp add: digits_val_Cons)
  qed simp
  show "digits_val (pad (Suc k) n) = int n" by (simp add: pad_def zeros digits_val_show_nat)
  show "list_all is_digit (pad (Suc k) n)"
    using show_nat_digits by (auto simp: pad_def list_all_iff is_digit_def)
  show "length (pad (Suc k) n) = Suc k" using length_show_nat_bound [OF assms] by (simp add: pad_def)
qed

lemma pad_less:
  assumes "0 < wid" "n < 10 ^ wid" "m < 10 ^ wid"
  shows "pad wid n @ r < pad wid m @ s \<longleftrightarrow> n < m \<or> n = m \<and> r < s"
proof -
  obtain k where wid: "wid = Suc k" using assms(1) gr0_implies_Suc by blast
  note a = pad_facts [OF assms(2) [unfolded wid]] and b = pad_facts [OF assms(3) [unfolded wid]]
  have "(pad wid n < pad wid m \<longleftrightarrow> n < m) \<and> (pad wid n = pad wid m \<longleftrightarrow> n = m)"
    using digits_less [of "pad wid n" "pad wid m"] a b unfolding wid by simp
  then show ?thesis using append_less_append [of "pad wid n" "pad wid m" r s] a(1) b(1) unfolding wid by simp
qed

definition tm_ok :: "tm \<Rightarrow> bool" where
  "tm_ok t \<longleftrightarrow> 1000 \<le> tm_year t \<and> tm_year t < 10000 \<and> tm_mon t < 100 \<and> tm_mday t < 100 \<and> tm_hour t < 100 \<and>
     tm_min t < 100 \<and> tm_sec t < 100"

definition time_key :: "tm \<Rightarrow> nat \<Rightarrow> nat list" where
  "time_key t c = [tm_year t, tm_mon t, tm_mday t, tm_hour t, tm_min t, tm_sec t, c]"

lemma show_nat_year: "1000 \<le> y \<Longrightarrow> y < 10000 \<Longrightarrow> show_nat y = pad 4 y"
proof -
  assume y: "1000 \<le> y" "y < 10000"
  have "digits_val (show_nat y) < 10 ^ length (show_nat y)"
    using digits_val_range [of "show_nat y"] show_nat_digits by (auto simp: list_all_iff)
  then have less: "int y < 10 ^ length (show_nat y)" by (simp add: digits_val_show_nat)
  have "\<not> length (show_nat y) \<le> 3"
  proof
    assume "length (show_nat y) \<le> 3"
    then have "(10::int) ^ length (show_nat y) \<le> 10 ^ 3" by (rule power_increasing) simp
    also have "\<dots> = 1000" by simp
    finally show False using less y(1) by linarith
  qed
  moreover have "length (show_nat y) \<le> 4" using length_show_nat_bound [of y 3] y(2) by simp
  ultimately show ?thesis by (simp add: pad_def)
qed

lemma pad_less_2: "n < 100 \<Longrightarrow> m < 100 \<Longrightarrow> pad 2 n @ r < pad 2 m @ s \<longleftrightarrow> n < m \<or> n = m \<and> r < s"
  using pad_less [of 2 n m r s] by simp

lemma pad_less_4: "n < 10000 \<Longrightarrow> m < 10000 \<Longrightarrow> pad 4 n @ r < pad 4 m @ s \<longleftrightarrow> n < m \<or> n = m \<and> r < s"
  using pad_less [of 4 n m r s] by simp

lemma pad_less_9:
  "n < 1000000000 \<Longrightarrow> m < 1000000000 \<Longrightarrow> pad 9 n @ r < pad 9 m @ s \<longleftrightarrow> n < m \<or> n = m \<and> r < s"
  using pad_less [of 9 n m r s] by simp

lemma picture_name_less:
  assumes "tm_ok t" "tm_ok t'" "c < 1000000000" "c' < 1000000000"
  shows "picture_name t c < picture_name t' c' \<longleftrightarrow> time_key t c < time_key t' c'"
  using assms unfolding tm_ok_def picture_name_def time_key_def
  by (simp add: show_nat_year pad_less_2 pad_less_4 pad_less_9)

subsection \<open>The names are recognised\<close>

lemma list_all_pad: "list_all is_digit (pad wid n)"
  using show_nat_digits by (auto simp: pad_def list_all_iff is_digit_def)

lemma list_all_show_nat: "list_all is_digit (show_nat n)"
  using show_nat_digits by (simp add: list_all_iff)

lemma pad_ne [simp]: "pad wid n \<noteq> []"
  by (simp add: pad_def)

lemma scan_number_digits:
  assumes "list_all is_digit ds" "ds \<noteq> []" "r = [] \<or> \<not> is_digit (hd r)"
  shows "scan_number None (ds @ r) = Some r"
proof -
  obtain d ds' where ds: "ds = d # ds'" using assms(2) by (cases ds) auto
  have "dropWhile is_digit r = r" using assms(3) by (cases r) auto
  then show ?thesis
    using assms(1) is_digit_not_sign [of d]
    by (auto simp: scan_number_def ds list_all_iff dropWhile_append2)
qed

lemma scan_number_limit:
  assumes "list_all is_digit ds" "ds \<noteq> []" "0 < k"
  shows "scan_number (Some k) (ds @ r) \<noteq> None"
proof -
  obtain d ds' where ds: "ds = d # ds'" using assms(2) by (cases ds) auto
  obtain j where k: "k = Suc j" using assms(3) gr0_implies_Suc by blast
  show ?thesis using assms(1) is_digit_not_sign [of d] by (simp add: scan_number_def ds k)
qed

lemma scan_field_append: "scan_field limit lit (lit @ s) = scan_number limit s"
  by (simp add: scan_field_def scan_literal_def)

lemma underscore_stops: "\<not> is_digit (CHR ''_'')"
  by (simp add: is_digit_def)

lemma check_for_picture_name: "check_for_filename (picture_name t counter)"
proof -
  have step: "scan_number None (pad wid n @ CHR ''_'' # r) = Some (CHR ''_'' # r)"
    "scan_number None (show_nat n @ CHR ''_'' # r) = Some (CHR ''_'' # r)" for wid n r
    by (rule scan_number_digits; simp add: list_all_pad list_all_show_nat underscore_stops)+
  have lit: "scan_field None ''_'' (CHR ''_'' # r) = scan_number None r" for r
    using scan_field_append [of None "''_''" r] by simp
  show ?thesis
    using scan_field_append [of "Some 9" "''_picture_''" "pad 9 counter @ ''.jpg''"]
      scan_number_limit [OF list_all_pad [of 9 counter] pad_ne, of 9 "''.jpg''"]
    by (simp add: check_for_filename_def picture_name_def step lit)
qed

lemma slash_notin_picture_name: "CHR ''/'' \<notin> set (picture_name t counter)"
proof -
  have "CHR ''/'' \<notin> set (pad wid n)" for wid n
    using list_all_pad [of wid n] by (auto simp: list_all_iff is_digit_def)
  moreover have "CHR ''/'' \<notin> set (show_nat n)" for n
    using show_nat_digits [of "CHR ''/''" n] by (auto simp: is_digit_def)
  ultimately show ?thesis by (simp add: picture_name_def)
qed

subsection \<open>The ring buffer keeps the most recent pictures\<close>

text \<open>What the folder is for: its pictures in the order of their names, with their contents.\<close>

definition path_of :: "string \<Rightarrow> string \<Rightarrow> string" where
  "path_of dir d = dir @ ''/'' @ d"

definition saved :: "string \<Rightarrow> files \<Rightarrow> (string \<times> byte list option) list" where
  "saved dir fs = map (\<lambda>d. (d, map_of fs (path_of dir d))) (pictures dir fs)"

text \<open>The abstract ring buffer: the last elements of a list.\<close>

definition ring :: "nat \<Rightarrow> 'a list \<Rightarrow> 'a list" where
  "ring n xs = drop (length xs - n) xs"

lemma ring_snoc: "ring n xs @ [y] = ring (Suc n) (xs @ [y])"
  by (simp add: ring_def)

lemma ring_ring:
  assumes "n \<le> m"
  shows "ring n (ring m xs) = ring n xs"
proof -
  have "length xs - (length xs - m) - n + (length xs - m) = length xs - n" using assms by simp
  then show ?thesis unfolding ring_def length_drop drop_drop by simp
qed

lemma map_ring: "map f (ring n xs) = ring n (map f xs)"
  by (simp add: ring_def drop_map)

lemma inj_path_of [simp]: "path_of dir d = path_of dir d' \<longleftrightarrow> d = d'"
  by (simp add: path_of_def)

lemma entries_Cons_path: "CHR ''/'' \<notin> set d \<Longrightarrow> entries dir ((path_of dir d, c) # fs) = d # entries dir fs"
  by (simp add: entries_def path_of_def)

lemma in_entries: "d \<in> set (entries dir fs) \<longleftrightarrow> CHR ''/'' \<notin> set d \<and> path_of dir d \<in> fst ` set fs"
proof -
  have "prefix (dir @ ''/'') p \<Longrightarrow> p = path_of dir (drop (length dir + 1) p)" for p
    by (auto simp: prefix_def path_of_def)
  moreover have "prefix (dir @ ''/'') (path_of dir d)" "drop (length dir + 1) (path_of dir d) = d"
    by (simp_all add: path_of_def)
  ultimately show ?thesis unfolding entries_def by (auto simp: image_iff) (metis fst_conv)+
qed

lemma distinct_entries: "distinct (map fst fs) \<Longrightarrow> distinct (entries dir fs)"
proof -
  assume "distinct (map fst fs)"
  moreover have "inj_on (drop (length dir + 1)) {p. prefix (dir @ ''/'') p}"
    by (auto simp: inj_on_def prefix_def)
  ultimately show ?thesis
    unfolding entries_def by (subst distinct_map) (auto intro: inj_on_subset)
qed

lemma distinct_pictures: "distinct (map fst fs) \<Longrightarrow> distinct (pictures dir fs)"
  by (simp add: pictures_def distinct_entries)

lemma entries_filter:
  "entries dir (filter (\<lambda>(q, _). q \<notin> path_of dir ` D) fs) = filter (\<lambda>d. d \<notin> D) (entries dir fs)"
proof (induction fs)
  case (Cons f fs)
  obtain p c where f: "f = (p, c)" by fastforce
  show ?case
  proof (cases "prefix (dir @ ''/'') p")
    case True
    then obtain d where p: "p = path_of dir d" by (auto simp: prefix_def path_of_def)
    have "drop (length dir + 1) p = d" by (simp add: p path_of_def)
    with Cons show ?thesis by (auto simp: f p entries_def)
  next
    case False
    with Cons show ?thesis by (simp add: f entries_def)
  qed
qed (simp add: entries_def)

lemma pictures_filter:
  "pictures dir (filter (\<lambda>(q, _). q \<notin> path_of dir ` D) fs) = filter (\<lambda>d. d \<notin> D) (pictures dir fs)"
  by (simp add: pictures_def entries_filter filter_sort conj_commute)

lemma unlink_all:
  "(\<And>d. d \<in> set ds \<Longrightarrow> g d = path_of dir d \<and> ok (path_of dir d)) \<Longrightarrow>
   fold (\<lambda>d. unlink_file ok (g d)) ds fs = filter (\<lambda>(q, _). q \<notin> path_of dir ` set ds) fs"
proof (induction ds arbitrary: fs)
  case (Cons d ds)
  then show ?case by (simp add: unlink_file_def case_prod_unfold conj_commute)
qed (simp add: case_prod_unfold)

lemma map_of_filter_key: "map_of (filter (\<lambda>(q, _). P q) fs) p = (if P p then map_of fs p else None)"
  by (induction fs) auto

lemma filter_notin_take: "distinct xs \<Longrightarrow> filter (\<lambda>x. x \<notin> set (take k xs)) xs = drop k xs"
proof -
  assume "distinct xs"
  then have "set (take k xs) \<inter> set (drop k xs) = {}" by (rule set_take_disj_set_drop_if_distinct) simp
  then have "filter (\<lambda>x. x \<notin> set (take k xs)) (take k xs @ drop k xs) = drop k xs"
    unfolding filter_append by (auto simp: filter_empty_conv filter_id_conv)
  then show ?thesis by simp
qed

text \<open>What one run of the maintenance does when every call succeeds.\<close>

lemma maintain_ringbuffer_ring:
  assumes "distinct (map fst fs)" "\<And>d. d \<in> set (pictures dir fs) \<Longrightarrow> length (path_of dir d) < 65536" "0 \<le> n"
  defines "fs' \<equiv> maintain_ringbuffer True (\<lambda>_. True) dir n fs"
  shows "saved dir fs' = ring (nat n) (saved dir fs)"
    "\<And>p. p \<notin> path_of dir ` set (pictures dir fs) \<Longrightarrow> map_of fs' p = map_of fs p"
    "distinct (map fst fs')"
proof -
  define k where "k = nat (int (length (pictures dir fs)) - n)"
  have k: "k = length (pictures dir fs) - nat n" using assms(3) by (simp add: k_def)
  define D where "D = set (take k (pictures dir fs))"
  have D: "D \<subseteq> set (pictures dir fs)" unfolding D_def by (rule set_take_subset)
  have fs': "fs' = filter (\<lambda>(q, _). q \<notin> path_of dir ` D) fs"
    unfolding fs'_def maintain_ringbuffer_def D_def using assms(3) D
    by (simp add: Let_def flip: k_def) (rule unlink_all, auto simp: path_of_def D_def dest!: assms(2))
  have "pictures dir fs' = ring (nat n) (pictures dir fs)"
    unfolding fs' pictures_filter D_def using filter_notin_take [OF distinct_pictures [OF assms(1)]] by (simp add: ring_def k)
  moreover have "map_of fs' (path_of dir d) = map_of fs (path_of dir d)" if "d \<in> set (pictures dir fs')" for d
    using that unfolding fs' pictures_filter by (auto simp: map_of_filter_key)
  ultimately show "saved dir fs' = ring (nat n) (saved dir fs)"
    by (auto simp: saved_def simp flip: map_ring)
  show "map_of fs' p = map_of fs p" if "p \<notin> path_of dir ` set (pictures dir fs)" for p
    using that D unfolding fs' map_of_filter_key by auto
  show "distinct (map fst fs')" unfolding fs' using assms(1) by (rule distinct_map_filter)
qed

text \<open>A picture whose name is behind all others is appended.\<close>

lemma map_fst_saved: "map fst (saved dir fs) = pictures dir fs"
  by (simp add: saved_def comp_def)

lemma insort_behind: "\<forall>d \<in> set xs. d < x \<Longrightarrow> insort x xs = xs @ [x :: 'a :: linorder]"
  by (induction xs) auto

lemma save_file_appends:
  fixes content :: "byte list"
  assumes "distinct (map fst fs)" "check_for_filename d" "CHR ''/'' \<notin> set d" "\<forall>d' \<in> set (pictures dir fs). d' < d"
  defines "fs' \<equiv> save_file (path_of dir d) content fs"
  shows "saved dir fs' = saved dir fs @ [(d, Some content)]"
    "\<And>p. p \<noteq> path_of dir d \<Longrightarrow> map_of fs' p = map_of fs p"
    "distinct (map fst fs')"
proof -
  have "d \<notin> set (pictures dir fs)" using assms(4) by blast
  then have new: "path_of dir d \<notin> fst ` set fs"
    using assms(2,3) in_entries [of d dir fs] by (simp add: pictures_def)
  then have fs': "fs' = (path_of dir d, content) # fs"
    unfolding fs'_def save_file_def by (force simp: filter_id_conv)
  have "pictures dir fs' = pictures dir fs @ [d]"
    using assms(2,4) entries_Cons_path [OF assms(3), of dir content fs] insort_behind [of "pictures dir fs" d]
    by (simp add: fs' pictures_def)
  moreover have "map_of fs' (path_of dir d') = map_of fs (path_of dir d')" if "d' \<in> set (pictures dir fs)" for d'
    using that assms(4) by (auto simp: fs')
  ultimately show "saved dir fs' = saved dir fs @ [(d, Some content)]"
    by (auto simp: saved_def fs')
  show "map_of fs' p = map_of fs p" if "p \<noteq> path_of dir d" for p using that by (simp add: fs')
  show "distinct (map fst fs')" using assms(1) new by (simp add: fs')
qed

lemma length_pad: "0 < wid \<Longrightarrow> n < 10 ^ wid \<Longrightarrow> length (pad wid n) = wid"
  using pad_facts(1) [of n "wid - 1"] by simp

lemma length_picture_name: "tm_ok t \<Longrightarrow> c < 1000000000 \<Longrightarrow> length (picture_name t c) = 41"
  using length_pad [of 4 "tm_year t"] length_pad [of 9 c]
  by (simp add: picture_name_def tm_ok_def show_nat_year length_pad)

subsection \<open>The worker refines the abstract ring buffer\<close>

text \<open>A turn in which nothing fails, at a time and with a picture.\<close>

definition turn_ok :: "file_env \<times> input_plugin \<Rightarrow> tm \<times> byte list \<Rightarrow> bool" where
  "turn_ok = (\<lambda>(env, inp) (t, picture).
     realloc_ok env \<and> localtime env = Some t \<and> tm_ok t \<and> open_ok env \<and> write_ret env = int (length picture) \<and>
     fscan_ok env \<and> funlink_ok env = (\<lambda>_. True) \<and> frame_of inp = Inr picture)"

definition worker_inv ::
  "string \<Rightarrow> int \<Rightarrow> int \<Rightarrow> files \<Rightarrow> nat \<Rightarrow> (string \<times> byte list option) list \<Rightarrow> file_output \<times> files \<Rightarrow> bool"
where
  "worker_inv dir n e fs0 c shots = (\<lambda>(st, fs).
     folder st = dir \<and> ringbuffer_size st = n \<and> ringbuffer_exceed st = e \<and> fcounter st = c \<and> distinct (map fst fs) \<and>
     (\<exists>j. saved dir fs = ring (nat n + j) shots \<and> (c = 0 \<or> j \<le> c mod (nat e + 1))) \<and>
     (\<forall>p. p \<notin> path_of dir ` fst ` set shots \<longrightarrow> map_of fs p = map_of fs0 p))"

lemma set_ring: "set (ring n xs) \<subseteq> set xs"
  by (simp add: ring_def set_drop_subset)

lemma pictures_ring: "saved dir fs = ring n xs \<Longrightarrow> set (pictures dir fs) \<subseteq> fst ` set xs"
  using set_ring [of n xs] map_fst_saved [of dir fs] by (metis image_mono list.set_map)

lemma maintain_due:
  "maintain env st fs =
     (if fcounter st = 1 \<or> fcounter st mod (nat (ringbuffer_exceed st) + 1) = 0
      then maintain_ringbuffer (fscan_ok env) (funlink_ok env) (folder st) (ringbuffer_size st) fs else fs)"
proof (cases "ringbuffer_exceed st \<le> 0")
  case False
  then have "int (fcounter st) mod (ringbuffer_exceed st + 1) = int (fcounter st mod (nat (ringbuffer_exceed st) + 1))"
    by (simp add: zmod_int add.commute)
  with False show ?thesis by (simp add: maintain_def)
qed (simp add: maintain_def)

lemma mod_Suc_due: "Suc c mod (E + 1) = 0 \<or> Suc c mod (E + 1) = Suc (c mod (E + 1))"
  by (simp add: mod_Suc)

lemma worker_turn_saves:
  assumes "turn_ok (env, inp) (t, picture)" "length (folder st) + length (picture_name t (fcounter st)) < 1023"
  defines "path \<equiv> path_of (folder st) (picture_name t (fcounter st))"
  shows "\<exists>st'. worker_turn env inp (st, fs) =
      Inr (WorkerSaved path (command_line_of (fcommand st) path), st', maintain env st' (save_file path picture fs)) \<and>
      folder st' = folder st \<and> ringbuffer_size st' = ringbuffer_size st \<and>
      ringbuffer_exceed st' = ringbuffer_exceed st \<and> fcounter st' = Suc (fcounter st)"
proof -
  have "save_path (folder st) t (fcounter st) = path"
    using assms(2) by (simp add: save_path_def path_def path_of_def)
  then show ?thesis
    using assms(1) unfolding turn_ok_def worker_turn_def grow_frame_def by (simp add: Let_def)
qed

lemma worker_turn_step:
  assumes inv: "worker_inv dir n e fs0 c shots (st, fs)" and turn: "turn_ok (env, inp) (t, picture)"
    and bounds: "0 \<le> n" "length dir \<le> 900" "c < 1000000000"
    and order: "\<forall>(d, _) \<in> set shots. d < picture_name t c \<and> length d \<le> 255"
  shows "\<exists>st' fs'. worker_turn env inp (st, fs) =
      Inr (WorkerSaved (path_of dir (picture_name t c)) (command_line_of (fcommand st) (path_of dir (picture_name t c))), st', fs') \<and>
      worker_inv dir n e fs0 (Suc c) (shots @ [(picture_name t c, Some picture)]) (st', fs')"
proof -
  let ?d = "picture_name t c"
  let ?fs = "save_file (path_of dir ?d) picture fs"
  let ?shots = "shots @ [(?d, Some picture)]"
  obtain j where j: "saved dir fs = ring (nat n + j) shots" "c = 0 \<or> j \<le> c mod (nat e + 1)"
    and st: "folder st = dir" "ringbuffer_size st = n" "ringbuffer_exceed st = e" "fcounter st = c" and dist: "distinct (map fst fs)"
    and old: "\<And>p. p \<notin> path_of dir ` fst ` set shots \<Longrightarrow> map_of fs p = map_of fs0 p"
    using inv by (auto simp: worker_inv_def)
  have env: "realloc_ok env" "localtime env = Some t" "tm_ok t" "open_ok env" "write_ret env = int (length picture)"
    "fscan_ok env" "funlink_ok env = (\<lambda>_. True)" "frame_of inp = Inr picture"
    using turn by (simp_all add: turn_ok_def)
  have len: "length ?d = 41" using length_picture_name env(3) bounds(3) by blast
  have "set (pictures dir fs) \<subseteq> fst ` set shots" using pictures_ring [OF j(1)] .
  then have behind: "\<forall>d' \<in> set (pictures dir fs). d' < ?d" using order by fastforce
  note save = save_file_appends [OF dist check_for_picture_name slash_notin_picture_name behind, where content = picture]
  have sv: "saved dir ?fs = ring (Suc (nat n + j)) ?shots" using save(1) j(1) by (simp add: ring_snoc)
  have pics: "set (pictures dir ?fs) \<subseteq> fst ` set ?shots" using pictures_ring [OF sv] .
  have short: "length (path_of dir d) < 65536" if "d \<in> set (pictures dir ?fs)" for d
    using that pics order len bounds(2) by (fastforce simp: path_of_def)
  obtain st' where st': "folder st' = dir" "ringbuffer_size st' = n" "ringbuffer_exceed st' = e" "fcounter st' = Suc c"
    and turn_eq: "worker_turn env inp (st, fs) =
      Inr (WorkerSaved (path_of dir ?d) (command_line_of (fcommand st) (path_of dir ?d)), st', maintain env st' ?fs)"
    using worker_turn_saves [OF turn, of st fs] st len bounds by auto
  have "worker_inv dir n e fs0 (Suc c) ?shots (st', maintain env st' ?fs)"
  proof (cases "Suc c = 1 \<or> Suc c mod (nat e + 1) = 0")
    case True
    note ring = maintain_ringbuffer_ring [OF save(3) short bounds(1)]
    have "maintain env st' ?fs = maintain_ringbuffer True (\<lambda>_. True) dir n ?fs"
      using True by (simp add: maintain_due st' env)
    moreover have "map_of (maintain_ringbuffer True (\<lambda>_. True) dir n ?fs) p = map_of fs0 p"
      if "p \<notin> path_of dir ` fst ` set ?shots" for p
    proof -
      have "p \<notin> path_of dir ` set (pictures dir ?fs)" using that pics by blast
      with that show ?thesis using ring(2) [of p] save(2) [of p] old [of p] by simp
    qed
    ultimately show ?thesis
      using ring(1,3) st' sv by (auto simp: worker_inv_def ring_ring intro!: exI [of _ 0])
  next
    case False
    then have "maintain env st' ?fs = ?fs" by (simp add: maintain_due st')
    moreover have "Suc j \<le> Suc c mod (nat e + 1)" using False j(2) mod_Suc_due [of c "nat e"] by auto
    moreover have "map_of ?fs p = map_of fs0 p" if "p \<notin> path_of dir ` fst ` set ?shots" for p
      using that save(2) [of p] old [of p] by auto
    ultimately show ?thesis
      using st' sv save(3) by (auto simp: worker_inv_def intro!: exI [of _ "Suc j"])
  qed
  with turn_eq show ?thesis by blast
qed

lemma time_key_less: "time_key t 0 \<le> time_key t' 0 \<Longrightarrow> c < c' \<Longrightarrow> time_key t c < time_key t' c'"
  by (auto simp: time_key_def)

text \<open>The pictures of a run, numbered from a counter.\<close>

fun shot_names :: "nat \<Rightarrow> (tm \<times> byte list) list \<Rightarrow> (string \<times> byte list option) list" where
  "shot_names c [] = []"
| "shot_names c ((t, picture) # plan) = (picture_name t c, Some picture) # shot_names (Suc c) plan"

text \<open>The clock does not run backwards, and no picture has a later name than those to come.\<close>

definition clock_ok :: "(tm \<times> byte list) list \<Rightarrow> bool" where
  "clock_ok plan \<longleftrightarrow> sorted_wrt (\<lambda>(t, _) (t', _). time_key t 0 \<le> time_key t' 0) plan"

definition older :: "nat \<Rightarrow> (tm \<times> byte list) list \<Rightarrow> (string \<times> byte list option) list \<Rightarrow> bool" where
  "older c plan shots \<longleftrightarrow> (\<forall>(d, _) \<in> set shots. length d \<le> 255 \<and> (\<forall>(t, _) \<in> set plan. d < picture_name t c))"

lemma older_step:
  assumes "older c ((t, picture) # plan) shots" "clock_ok ((t, picture) # plan)" "Suc c < 1000000000"
    "tm_ok t" "\<forall>(t', _) \<in> set plan. tm_ok t'"
  shows "older (Suc c) plan (shots @ [(picture_name t c, Some picture)])"
proof -
  have later: "picture_name t c < picture_name t' (Suc c)" "picture_name t' c < picture_name t' (Suc c)"
    if "(t', pic) \<in> set plan" for t' pic
  proof -
    have "tm_ok t'" "time_key t 0 \<le> time_key t' 0" using that assms(2,5) by (auto simp: clock_ok_def)
    then show "picture_name t c < picture_name t' (Suc c)" "picture_name t' c < picture_name t' (Suc c)"
      using assms(3,4) by (simp_all add: picture_name_less time_key_less)
  qed
  have "length (picture_name t c) \<le> 255" using length_picture_name [OF assms(4)] assms(3) by simp
  moreover have "d < picture_name t' (Suc c)" if "(d, x) \<in> set shots" "(t', pic) \<in> set plan" for d x t' pic
    using that assms(1) later(2) [OF that(2)] by (fastforce simp: older_def intro: less_trans)
  moreover have "length d \<le> 255" if "(d, x) \<in> set shots" for d x using that assms(1) by (fastforce simp: older_def)
  ultimately show ?thesis using later(1) by (auto simp: older_def)
qed

lemma worker_inv_cleanup: "worker_inv dir n e fs0 c shots (st, fs) \<Longrightarrow> worker_inv dir n e fs0 c shots (snd (file_cleanup True st), fs)"
  by (auto simp: worker_inv_def file_cleanup_def)

lemma turns_times: "list_all2 turn_ok turns plan \<Longrightarrow> \<forall>(t, _) \<in> set plan. tm_ok t"
  by (induction rule: list_all2_induct) (auto simp: turn_ok_def)

lemma worker_loop_inv:
  assumes "list_all2 turn_ok turns plan" "worker_inv dir n e fs0 c shots (st, fs)" "0 \<le> n" "length dir \<le> 900"
    "c + length plan < 1000000000" "clock_ok plan" "older c plan shots"
  shows "\<exists>events s'. worker_loop turns (st, fs) = Inr (events, s') \<and>
    worker_inv dir n e fs0 (c + length plan) (shots @ shot_names c plan) s'"
  using assms
proof (induction turns plan arbitrary: c shots st fs rule: list_all2_induct)
  case Nil
  then show ?case by (simp add: worker_inv_cleanup)
next
  case (Cons turn turns shot plan)
  obtain env inp t picture where eqs: "turn = (env, inp)" "shot = (t, picture)" by fastforce
  have order: "\<forall>(d, _) \<in> set shots. d < picture_name t c \<and> length d \<le> 255"
    using Cons.prems by (fastforce simp: older_def eqs)
  have times: "tm_ok t" "\<forall>(t', _) \<in> set plan. tm_ok t'"
    using Cons.hyps turns_times [OF Cons.hyps(2)] by (auto simp: eqs turn_ok_def)
  obtain st' fs' p cmd where turn_eq: "worker_turn env inp (st, fs) = Inr (WorkerSaved p cmd, st', fs')"
    and inv: "worker_inv dir n e fs0 (Suc c) (shots @ [(picture_name t c, Some picture)]) (st', fs')"
    using worker_turn_step [OF Cons.prems(1) Cons.hyps(1) [unfolded eqs] Cons.prems(2,3) _ order] Cons.prems(4) by auto
  have "older (Suc c) plan (shots @ [(picture_name t c, Some picture)])"
    using older_step [of c t picture plan shots] Cons.prems times by (simp add: eqs)
  moreover have "clock_ok plan" using Cons.prems(5) by (simp add: clock_ok_def)
  ultimately show ?case
    using Cons.IH [OF inv] Cons.prems turn_eq by (auto simp: eqs)
qed

lemma file_worker_inv:
  assumes "list_all2 turn_ok turns plan" "length plan < 1000000000" "clock_ok plan"
    "older 0 plan (saved (folder st) fs)" "distinct (map fst fs)" "0 \<le> ringbuffer_size st" "length (folder st) \<le> 900"
  shows "\<exists>events st' fs'. file_worker_thread turns (st, fs) = Inr (events, st', fs') \<and>
    worker_inv (folder st) (ringbuffer_size st) (ringbuffer_exceed st) fs (length plan)
      (saved (folder st) fs @ shot_names 0 plan) (st', fs')"
proof -
  have "worker_inv (folder st) (ringbuffer_size st) (ringbuffer_exceed st) fs 0 (saved (folder st) fs) (st\<lparr>fcounter := 0\<rparr>, fs)"
    using assms(5) by (auto simp: worker_inv_def ring_def intro!: exI [of _ "length (saved (folder st) fs)"])
  from worker_loop_inv [OF assms(1) this assms(6,7)] assms(2-4) show ?thesis
    by (auto simp: file_worker_thread_def)
qed

lemma worker_inv_ring:
  assumes "worker_inv dir n e fs0 c shots (st, fs)" "c \<noteq> 0"
  shows "\<exists>m. nat n \<le> m \<and> m \<le> nat n + nat e \<and> saved dir fs = ring m shots"
proof -
  obtain j where "saved dir fs = ring (nat n + j) shots" "j \<le> c mod (nat e + 1)"
    using assms by (auto simp: worker_inv_def)
  moreover from this(2) have "j \<le> nat e" using mod_less_divisor [of "nat e + 1" c] by linarith
  ultimately show ?thesis by (intro exI [of _ "nat n + j"]) simp
qed

text \<open>
  C38.  The worker thread of the file output is a ring buffer: after any number of frames the
  pictures of the folder are the most recent ones, in the order they were taken and with the bytes of
  their frames, at least the size given by \<^verbatim>\<open>-s\<close> and at most \<^verbatim>\<open>-e\<close> more of them, and no file other than the
  pictures has changed.  It holds when the calls to the system succeed, the clock does not run backwards, the names already in
  the folder are older and the folder's name fits the buffers.
\<close>

theorem file_worker_ring_buffer:
  assumes "list_all2 turn_ok turns plan" "plan \<noteq> []" "length plan < 1000000000" "clock_ok plan"
    "older 0 plan (saved (folder st) fs)" "distinct (map fst fs)" "0 \<le> ringbuffer_size st" "length (folder st) \<le> 900"
  shows "\<exists>events st' fs' m. file_worker_thread turns (st, fs) = Inr (events, st', fs') \<and>
    nat (ringbuffer_size st) \<le> m \<and> m \<le> nat (ringbuffer_size st) + nat (ringbuffer_exceed st) \<and>
    saved (folder st) fs' = ring m (saved (folder st) fs @ shot_names 0 plan) \<and>
    (\<forall>p. p \<notin> path_of (folder st) ` fst ` set (saved (folder st) fs @ shot_names 0 plan) \<longrightarrow> map_of fs' p = map_of fs p)"
proof -
  obtain events st' fs' where run: "file_worker_thread turns (st, fs) = Inr (events, st', fs')"
    and inv: "worker_inv (folder st) (ringbuffer_size st) (ringbuffer_exceed st) fs (length plan)
      (saved (folder st) fs @ shot_names 0 plan) (st', fs')"
    using file_worker_inv [OF assms(1,3-8)] by blast
  moreover have "map_of fs' p = map_of fs p" if "p \<notin> path_of (folder st) ` fst ` set (saved (folder st) fs @ shot_names 0 plan)" for p
    using inv that by (simp add: worker_inv_def)
  ultimately show ?thesis using worker_inv_ring [OF inv] assms(2) by (metis length_0_conv)
qed

text \<open>
  With \<^verbatim>\<open>-s 0\<close> the plugin announces \<^verbatim>\<open>no ringbuffer\<close>, and deletes every picture.
\<close>

lemma ringbuffer_zero_deletes:
  assumes "distinct (map fst fs)" "\<And>d. d \<in> set (pictures dir fs) \<Longrightarrow> length (path_of dir d) < 65536"
  shows "pictures dir (maintain_ringbuffer True (\<lambda>_. True) dir 0 fs) = []"
  using maintain_ringbuffer_ring(1) [OF assms, where n = 0] map_fst_saved [of dir "maintain_ringbuffer True (\<lambda>_. True) dir 0 fs"]
  by (simp add: ring_def)

text \<open>The input cannot be chosen with \<^verbatim>\<open>-i\<close>, and \<^verbatim>\<open>-m\<close> chooses it.\<close>

lemma file_options_input:
  "file_options [Opt 14 num] st = Inr (Some st)" "file_options [Opt 15 num] st = Inr (Some st)"
  "file_options [Opt 12 num] st = Inr (Some (st\<lparr>input_number := atoi num\<rparr>))"
  by simp_all

definition noon :: "nat \<Rightarrow> tm" where
  "noon sec = \<lparr>tm_year = 2015, tm_mon = 6, tm_mday = 1, tm_hour = 12, tm_min = 0, tm_sec = sec\<rparr>"

definition noon_env :: "nat \<Rightarrow> int \<Rightarrow> file_env" where
  "noon_env sec n = \<lparr>realloc_ok = True, localtime = Some (noon sec), open_ok = True, write_ret = n, fscan_ok = True,
     funlink_ok = (\<lambda>_. True)\<rparr>"

theorem file_worker_ring_buffer_witness:
  "\<exists>events st' fs'.
     file_worker_thread [(noon_env 7 2, sample_input [255, 216]), (noon_env 9 3, sample_input [1, 2, 3])]
       (file_output0\<lparr>ringbuffer_size := 1\<rparr>, [(''/tmp/notes'', [5])]) = Inr (events, st', fs') \<and>
     saved ''/tmp'' fs' = [(picture_name (noon 9) 1, Some [1, 2, 3])] \<and> map_of fs' ''/tmp/notes'' = Some [5]"
proof -
  let ?st = "file_output0\<lparr>ringbuffer_size := 1\<rparr>" and ?fs = "[(''/tmp/notes'', [5])]"
  let ?turns = "[(noon_env 7 2, sample_input [255, 216]), (noon_env 9 3, sample_input [1, 2, 3])]"
  let ?plan = "[(noon 7, [255, 216]), (noon 9, [1, 2, 3])]"
  have empty: "saved ''/tmp'' ?fs = []"
    by (simp add: saved_def pictures_def entries_def check_for_filename_def scan_number_def is_space_def is_digit_def)
  have "list_all2 turn_ok ?turns ?plan"
    by (simp add: turn_ok_def noon_env_def noon_def tm_ok_def frame_of_def sample_input_def)
  moreover have "clock_ok ?plan" by (simp add: clock_ok_def noon_def time_key_def)
  ultimately show ?thesis
    using file_worker_ring_buffer [of ?turns ?plan ?st ?fs]
    by (auto simp: empty file_output0_def older_def ring_def path_of_def picture_name_def)
qed

end
