(* ===== verification/Output_Udp.thy ===== *)
theory Output_Udp
  imports Output_File
begin

text \<open>
  \<^verbatim>\<open>src/mjpg-streamer/plugins/output_udp/output_udp.c\<close>: a thread that waits for a datagram, takes the next frame
  and saves it in the file that the datagram names.  Files, memory and the system's answers are those of
  \<^verbatim>\<open>Output_File\<close>; a datagram is a string of at most 1024 characters.
\<close>

subsection \<open>State and options\<close>

record udp_output =
  udelay :: int
  umax_frame_size :: int
  ufolder :: string
  uframe :: "byte list option"
  ucommand :: "string option"
  uinput_number :: int
  uport :: int

definition udp_output0 :: udp_output where
  "udp_output0 = \<lparr>udelay = 0, umax_frame_size = 0, ufolder = ''/tmp'', uframe = None, ucommand = None, uinput_number = 0, uport = 0\<rparr>"

fun udp_options :: "getopt_result list \<Rightarrow> udp_output \<Rightarrow> crash + udp_output option" where
  "udp_options [] st = Inr (Some st)"
| "udp_options (Unrecognized # opts) st = Inr None"
| "udp_options (Opt option_index optarg # opts) st =
     (if option_index = 0 \<or> option_index = 1 then Inr None
      else if option_index = 2 \<or> option_index = 3 then
        if optarg = [] then Inl OutOfBounds
        else udp_options opts (st\<lparr>ufolder := (if last optarg = CHR ''/'' then butlast optarg else optarg)\<rparr>)
      else if option_index = 4 \<or> option_index = 5 then udp_options opts (st\<lparr>udelay := atoi optarg\<rparr>)
      else if option_index = 6 \<or> option_index = 7 then udp_options opts (st\<lparr>ucommand := Some optarg\<rparr>)
      else if option_index = 8 \<or> option_index = 9 then udp_options opts (st\<lparr>uport := atoi optarg\<rparr>)
      else if option_index = 10 \<or> option_index = 11 then udp_options opts (st\<lparr>uinput_number := atoi optarg\<rparr>)
      else udp_options opts st)"

definition udp_init :: "getopt_result list \<Rightarrow> globals \<Rightarrow> udp_output \<Rightarrow> crash + (int \<times> udp_output)" where
  "udp_init opts g st =
     sbind (udp_options opts (st\<lparr>udelay := 0\<rparr>)) (\<lambda>r.
       case r of
         None \<Rightarrow> Inr (1, st)
       | Some st \<Rightarrow>
           if \<not> uinput_number st < incnt g then Inr (1, st)
           else sbind (at (gin g) (uinput_number st)) (\<lambda>_. Inr (0, st)))"

definition udp_run :: "bool \<Rightarrow> int \<times> bool" where
  "udp_run created = (0, created)"

definition udp_stop :: "bool \<Rightarrow> int \<times> bool" where
  "udp_stop running = (0, False)"

subsection \<open>The worker\<close>

text \<open>
  \<^verbatim>\<open>udpbuffer\<close> is cleared before each datagram, so \<^verbatim>\<open>strlen\<close> stays inside it unless all its 1024
  characters were received and none is zero.
\<close>

definition UDPBUFFER :: nat where "UDPBUFFER = 1024"

definition request_name :: "string \<Rightarrow> crash + string" where
  "request_name msg = (if NUL \<notin> set msg \<and> UDPBUFFER \<le> length msg then Inl OutOfBounds else Inr (takeWhile (\<lambda>c. c \<noteq> NUL) msg))"

text \<open>
  How a turn ends: the worker returns, or it answers with the datagram and hands a line to
  \<^verbatim>\<open>system\<close>.  A datagram that could not be received (\<open>None\<close>) leaves the buffer empty.
\<close>

datatype udp_event = UdpEnds | UdpServed "string option" "string option"

record udp_env =
  urealloc_ok :: bool
  uopen_ok :: bool
  uwrite_ret :: int

definition udp_turn ::
  "udp_env \<Rightarrow> string option \<Rightarrow> input_plugin \<Rightarrow> udp_output \<times> files \<Rightarrow> crash + (udp_event \<times> udp_output \<times> files)"
where
  "udp_turn env msg inp = (\<lambda>(st, fs).
     case grow_frame (urealloc_ok env) (in_size inp) (uframe st, umax_frame_size st) of (mem, frm, max_size) \<Rightarrow>
       let st = st\<lparr>uframe := frm, umax_frame_size := max_size\<rparr>
       in if \<not> mem then Inr (UdpEnds, st, fs)
          else sbind (frame_of inp) (\<lambda>picture.
            let st = st\<lparr>uframe := map_option (overwrite picture) (uframe st)\<rparr>
            in sbind (request_name (case msg of None \<Rightarrow> [] | Some m \<Rightarrow> m)) (\<lambda>name.
                 if name \<noteq> [] \<and> \<not> uopen_ok env then Inr (UdpEnds, st, fs)
                 else if name \<noteq> [] \<and> uwrite_ret env < 0 then Inr (UdpEnds, st, save_file name [] fs)
                 else
                   let fs = (if name \<noteq> [] then save_file name (take (nat (uwrite_ret env)) picture) fs else fs)
                   in Inr (UdpServed msg (command_line_of (ucommand st) name), st, fs))))"

definition udp_cleanup :: "bool \<Rightarrow> udp_output \<Rightarrow> bool \<times> udp_output" where
  "udp_cleanup first_run st = (if \<not> first_run then (False, st) else (False, st\<lparr>uframe := None\<rparr>))"

text \<open>One element per datagram, \<^verbatim>\<open>pglobal->stop\<close> at the end of the list.\<close>

fun udp_loop ::
  "(udp_env \<times> string option \<times> input_plugin) list \<Rightarrow> udp_output \<times> files \<Rightarrow> crash + (udp_event list \<times> udp_output \<times> files)"
where
  "udp_loop [] (st, fs) = Inr ([], snd (udp_cleanup True st), fs)"
| "udp_loop ((env, msg, inp) # turns) (st, fs) =
     sbind (udp_turn env msg inp (st, fs)) (\<lambda>(event, s).
       case event of
         UdpEnds \<Rightarrow> Inr ([event], s)
       | UdpServed _ _ \<Rightarrow> sbind (udp_loop turns s) (\<lambda>(events, s). Inr (event # events, s)))"

definition udp_worker_thread ::
  "(udp_env \<times> string option \<times> input_plugin) list \<Rightarrow> udp_output \<times> files \<Rightarrow> crash + (udp_event list \<times> udp_output \<times> files)"
where
  "udp_worker_thread turns = (\<lambda>(st, fs).
     if uport st \<le> 0 then Inr ([UdpEnds], st, fs) else udp_loop turns (st, fs))"

subsection \<open>What a datagram does\<close>

definition udp_ok :: "udp_env \<Rightarrow> byte list \<Rightarrow> bool" where
  "udp_ok env picture \<longleftrightarrow> urealloc_ok env \<and> uopen_ok env \<and> uwrite_ret env = int (length picture)"

lemma request_name_short: "length msg < UDPBUFFER \<Longrightarrow> NUL \<notin> set msg \<Longrightarrow> request_name msg = Inr msg"
  by (auto simp: request_name_def takeWhile_eq_all_conv)

lemma map_of_save_file: "map_of (save_file p c fs) q = (if q = p then Some c else map_of fs q)"
  by (simp add: save_file_def map_of_filter_key [where P = "\<lambda>q. q \<noteq> p"])

lemma udp_turn_serves:
  assumes "udp_ok env picture" "frame_of inp = Inr picture" "msg \<noteq> []" "NUL \<notin> set msg" "length msg < UDPBUFFER"
  shows "\<exists>st'. udp_turn env (Some msg) inp (st, fs) =
      Inr (UdpServed (Some msg) (command_line_of (ucommand st) msg), st', save_file msg picture fs) \<and>
    ufolder st' = ufolder st \<and> ucommand st' = ucommand st"
  using assms unfolding udp_turn_def udp_ok_def grow_frame_def by (simp add: Let_def request_name_short)

text \<open>A datagram that fills the buffer makes the worker read behind it.\<close>

lemma udp_full_datagram_overruns:
  assumes "frame_of inp = Inr picture" "urealloc_ok env" "length msg = UDPBUFFER" "NUL \<notin> set msg"
  shows "udp_turn env (Some msg) inp (st, fs) = Inl OutOfBounds"
  using assms by (auto simp: udp_turn_def grow_frame_def Let_def request_name_def)

text \<open>A name that cannot be opened ends the worker.\<close>

lemma udp_unwritable_name_ends:
  assumes "frame_of inp = Inr picture" "urealloc_ok env" "\<not> uopen_ok env" "msg \<noteq> []" "NUL \<notin> set msg" "length msg < UDPBUFFER"
    "0 < uport st"
  shows "\<exists>st'. udp_worker_thread ((env, Some msg, inp) # turns) (st, fs) = Inr ([UdpEnds], st', fs)"
  using assms by (simp add: udp_worker_thread_def udp_turn_def grow_frame_def Let_def request_name_short)

text \<open>The requests of a run and the files they leave, as the specification: later requests overwrite earlier ones.\<close>

fun udp_requests :: "(string \<times> byte list) list \<Rightarrow> (string \<Rightarrow> byte list option) \<Rightarrow> string \<Rightarrow> byte list option" where
  "udp_requests [] m = m"
| "udp_requests ((name, picture) # reqs) m = udp_requests reqs (m(name \<mapsto> picture))"

definition request_ok :: "udp_env \<times> string option \<times> input_plugin \<Rightarrow> string \<times> byte list \<Rightarrow> bool" where
  "request_ok = (\<lambda>(env, msg, inp) (name, picture).
     msg = Some name \<and> name \<noteq> [] \<and> NUL \<notin> set name \<and> length name < UDPBUFFER \<and> frame_of inp = Inr picture \<and> udp_ok env picture)"

lemma udp_loop_requests:
  assumes "list_all2 request_ok turns reqs"
  shows "\<exists>st' fs'. udp_loop turns (st, fs) =
      Inr (map (\<lambda>(name, _). UdpServed (Some name) (command_line_of (ucommand st) name)) reqs, st', fs') \<and>
    map_of fs' = udp_requests reqs (map_of fs)"
  using assms
proof (induction turns reqs arbitrary: st fs rule: list_all2_induct)
  case (Cons turn turns req reqs)
  obtain env inp name picture where eqs: "turn = (env, Some name, inp)" "req = (name, picture)"
    and ok: "udp_ok env picture" "frame_of inp = Inr picture" "name \<noteq> []" "NUL \<notin> set name" "length name < UDPBUFFER"
    using Cons.hyps(1) by (cases turn; cases req) (auto simp: request_ok_def)
  obtain st1 where st1: "udp_turn env (Some name) inp (st, fs) =
      Inr (UdpServed (Some name) (command_line_of (ucommand st) name), st1, save_file name picture fs)" "ucommand st1 = ucommand st"
    using udp_turn_serves [OF ok, of st fs] by blast
  have "map_of (save_file name picture fs) = (map_of fs)(name \<mapsto> picture)"
    by (rule ext) (simp add: map_of_save_file)
  then show ?case using Cons.IH [of st1 "save_file name picture fs"] st1 by (auto simp: eqs fun_upd_def)
qed simp

text \<open>
  C39.  Whoever can send a datagram to the port decides which file is written: after a run the file
  system is the old one with every requested name, as it was sent, bound to the frame published
  after it, and each request is answered with its own name.  The folder given by \<^verbatim>\<open>-f\<close> has no influence.
\<close>

theorem udp_writes_requested_names:
  assumes "list_all2 request_ok turns reqs" "0 < uport st"
  shows "\<exists>st' fs'. udp_worker_thread turns (st, fs) =
      Inr (map (\<lambda>(name, _). UdpServed (Some name) (command_line_of (ucommand st) name)) reqs, st', fs') \<and>
    map_of fs' = udp_requests reqs (map_of fs)"
  using udp_loop_requests [OF assms(1), of st fs] assms(2) by (simp add: udp_worker_thread_def)

definition udp_env0 :: udp_env where
  "udp_env0 = \<lparr>urealloc_ok = True, uopen_ok = True, uwrite_ret = 2\<rparr>"

theorem udp_writes_requested_names_witness:
  "\<exists>st' fs'. udp_worker_thread [(udp_env0, Some ''/etc/passwd'', sample_input [255, 216])]
      (udp_output0\<lparr>uport := 5000, ufolder := ''/home/pictures''\<rparr>, [(''/etc/passwd'', [1])]) =
      Inr ([UdpServed (Some ''/etc/passwd'') None], st', fs') \<and>
    map_of fs' ''/etc/passwd'' = Some [255, 216]"
proof -
  have "list_all2 request_ok [(udp_env0, Some ''/etc/passwd'', sample_input [255, 216])] [(''/etc/passwd'', [255, 216])]"
    by (simp add: request_ok_def udp_env0_def udp_ok_def sample_input_def frame_of_def UDPBUFFER_def NUL_def)
  from udp_writes_requested_names [OF this, of "udp_output0\<lparr>uport := 5000, ufolder := ''/home/pictures''\<rparr>" "[(''/etc/passwd'', [1])]"]
  show ?thesis by (auto simp: udp_output0_def command_line_of_def)
qed

end
