(* ===== verification/Frame_Flow.thy ===== *)
theory Frame_Flow
  imports Output_Udp Http_Safety
begin

text \<open>
  The interface between the input plugins and the outputs: the record \<^verbatim>\<open>pglobal->in[i]\<close>, of which an
  input publishes \<^verbatim>\<open>buf\<close> and \<^verbatim>\<open>size\<close> and every output copies \<^verbatim>\<open>size\<close> bytes of \<^verbatim>\<open>buf\<close>.  An input keeps the
  contract when the record it leaves shows the picture it meant to publish; what the outputs make of
  it is proved from that alone.
\<close>

lemma frame_of_shown:
  assumes "frame_of inp = Inr pic" "pic \<noteq> []"
  shows "in_size inp = int (length pic)" "frame inp = pic" "\<exists>b. in_buf inp = Some b \<and> in_size inp \<le> int (length b)"
  using assms by (auto simp: frame_of_def frame_def split: if_splits option.splits)

locale frame_publisher =
  fixes publishes :: "input_plugin \<Rightarrow> byte list \<Rightarrow> input_plugin \<Rightarrow> bool"
  assumes shown: "publishes inp pic inp' \<Longrightarrow> frame_of inp' = Inr pic"
begin

text \<open>The HTTP output answers a snapshot with the picture.\<close>

lemma snapshot_of_published:
  assumes "publishes inp pic inp'" "pic \<noteq> []" "int (length pic) \<le> LONG_MAX" "timeval_ok (in_timestamp inp')"
  shows "send_snapshot all_written True inp' fd =
    Inr (fd\<lparr>written := written fd @ [bytes_of (snapshot_header (in_timestamp inp')), pic], wcount := wcount fd + 2\<rparr>)"
proof -
  note pic = frame_of_shown [OF shown [OF assms(1)] assms(2)]
  have "input_ready inp'" using pic assms(3,4) by (simp add: input_ready_def)
  from snapshot_all [OF this] pic(2) show ?thesis by simp
qed

text \<open>The file output saves it.\<close>

lemma file_of_published:
  assumes "publishes inp pic inp'" "realloc_ok env" "localtime env = Some t" "open_ok env" "write_ret env = int (length pic)"
    "length (folder st) \<le> 900" "length (picture_name t (fcounter st)) \<le> 100" "ringbuffer_size st < 0"
  defines "path \<equiv> path_of (folder st) (picture_name t (fcounter st))"
  shows "\<exists>st'. worker_turn env inp' (st, fs) = Inr (WorkerSaved path (command_line_of (fcommand st) path), st', save_file path pic fs)"
proof -
  have "save_path (folder st) t (fcounter st) = path"
    using assms(6,7) by (simp add: save_path_def path_def path_of_def)
  then show ?thesis
    using assms(2-5,8) shown [OF assms(1)]
    by (simp add: worker_turn_def grow_frame_def Let_def maintain_def maintain_ringbuffer_def)
qed

text \<open>The UDP output saves it under the requested name.\<close>

lemma udp_file_of_published:
  assumes "publishes inp pic inp'" "udp_ok env pic" "msg \<noteq> []" "NUL \<notin> set msg" "length msg < UDPBUFFER"
  shows "\<exists>st'. udp_turn env (Some msg) inp' (st, fs) =
    Inr (UdpServed (Some msg) (command_line_of (ucommand st) msg), st', save_file msg pic fs)"
  using udp_turn_serves [OF assms(2) shown [OF assms(1)] assms(3-5)] by blast

end

end
