(* ===== verification/Input_File.thy ===== *)
theory Input_File
  imports Frame_Flow
begin

text \<open>
  \<^verbatim>\<open>src/mjpg-streamer/plugins/input_file/input_file.c\<close>: an input that watches a folder through \<^verbatim>\<open>inotify\<close> and publishes each file
  that was written there.  Files are those of \<^verbatim>\<open>Output_File\<close>; the events that a \<^verbatim>\<open>read\<close> of the watch returns, and what
  the other calls answer, are arguments.
\<close>

subsection \<open>State and options\<close>

record file_input =
  idelay :: int
  ifolder :: "string option"
  ifilename :: "string option"
  rm :: bool
  iplugin_number :: nat

definition file_input0 :: file_input where
  "file_input0 = \<lparr>idelay = 0, ifolder = None, ifilename = None, rm = False, iplugin_number = 0\<rparr>"

fun watch_options :: "getopt_result list \<Rightarrow> file_input \<Rightarrow> crash + file_input option" where
  "watch_options [] st = Inr (Some st)"
| "watch_options (Unrecognized # opts) st = Inr None"
| "watch_options (Opt option_index optarg # opts) st =
     (if option_index = 0 \<or> option_index = 1 then Inr None
      else if option_index = 2 \<or> option_index = 3 then watch_options opts (st\<lparr>idelay := atoi optarg\<rparr>)
      else if option_index = 4 \<or> option_index = 5 then
        if optarg = [] then Inl OutOfBounds
        else watch_options opts (st\<lparr>ifolder := Some (if last optarg \<noteq> CHR ''/'' then optarg @ ''/'' else optarg)\<rparr>)
      else if option_index = 6 \<or> option_index = 7 then watch_options opts (st\<lparr>rm := True\<rparr>)
      else if option_index = 8 \<or> option_index = 9 then watch_options opts (st\<lparr>ifilename := Some optarg\<rparr>)
      else Inr None)"

definition watch_init :: "getopt_result list \<Rightarrow> nat \<Rightarrow> file_input \<Rightarrow> crash + (int \<times> file_input)" where
  "watch_init opts i st =
     sbind (watch_options opts (st\<lparr>iplugin_number := i\<rparr>)) (\<lambda>r.
       case r of
         None \<Rightarrow> Inr (1, st\<lparr>iplugin_number := i\<rparr>)
       | Some st \<Rightarrow> Inr (if ifolder st = None then 1 else 0, st))"

text \<open>\<open>None\<close> is \<^verbatim>\<open>exit\<close>; the watch descriptor is the answer of \<^verbatim>\<open>inotify_add_watch\<close>.\<close>

definition watch_run :: "int \<Rightarrow> int \<Rightarrow> bool \<Rightarrow> bool \<Rightarrow> nat \<Rightarrow> globals \<Rightarrow> (int \<times> globals) option" where
  "watch_run init_fd wd malloc_ok created i g =
     (let g = upd_in i (\<lambda>p. p\<lparr>in_buf := None\<rparr>) g
      in if init_fd = - 1 then Some (1, g)
         else if wd = - 1 then Some (1, g)
         else if \<not> malloc_ok then Some (1, g)
         else if \<not> created then None
         else Some (0, g))"

definition watch_stop :: "bool \<Rightarrow> int \<times> bool" where
  "watch_stop running = (0, False)"

subsection \<open>The worker\<close>

definition IN_UNMOUNT :: cint where "IN_UNMOUNT = 0x2000"
definition IN_Q_OVERFLOW :: cint where "IN_Q_OVERFLOW = 0x4000"
definition IN_IGNORED :: cint where "IN_IGNORED = 0x8000"

record inotify_event =
  ev_wd :: int
  ev_mask :: cint
  ev_name :: string

record watch_env =
  iopen_ok :: bool
  fstat_ok :: bool
  imalloc_ok :: bool
  read_ret :: int
  iunlink_ok :: "string \<Rightarrow> bool"

text \<open>The shared record, whether the thread holds its lock, and the files.\<close>

record watch_state =
  w_in :: input_plugin
  w_locked :: bool
  w_files :: files

datatype watch_event = WatchEnds | WatchSkipped | WatchPublished

text \<open>
  The part from \<^verbatim>\<open>open\<close> to the signal.  When memory for the frame runs out the loop is left with the
  lock held, a null buffer and the old size.
\<close>

definition load_file :: "watch_env \<Rightarrow> string \<Rightarrow> watch_state \<Rightarrow> watch_event \<times> watch_state" where
  "load_file env path s =
     (case map_of (w_files s) path of
        None \<Rightarrow> (WatchEnds, s)
      | Some content \<Rightarrow>
          if \<not> iopen_ok env then (WatchEnds, s)
          else if \<not> fstat_ok env then (WatchEnds, s)
          else if \<not> imalloc_ok env then (WatchEnds, s\<lparr>w_in := (w_in s)\<lparr>in_buf := None\<rparr>, w_locked := True\<rparr>)
          else if read_ret env = - 1 then (WatchEnds, s\<lparr>w_in := (w_in s)\<lparr>in_buf := None, in_size := 0\<rparr>\<rparr>)
          else (WatchPublished, s\<lparr>w_in := (w_in s)\<lparr>
            in_buf := Some (overwrite (take (nat (read_ret env)) content) (replicate (length content + 65536) 0)),
            in_size := read_ret env\<rparr>\<rparr>))"

text \<open>One turn.  Of the events that a \<^verbatim>\<open>read\<close> returned only the first is looked at; \<open>None\<close> is a failed \<^verbatim>\<open>read\<close>.\<close>

definition watch_turn ::
  "file_input \<Rightarrow> int \<Rightarrow> watch_env \<Rightarrow> inotify_event list option \<Rightarrow> watch_state \<Rightarrow> crash + (watch_event \<times> watch_state)"
where
  "watch_turn st wd env events s =
     (case events of
        None \<Rightarrow> Inr (WatchEnds, s)
      | Some [] \<Rightarrow> Inl OutOfBounds
      | Some (ev # _) \<Rightarrow>
          if wd \<noteq> ev_wd ev then Inr (WatchSkipped, s)
          else if ev_mask ev AND (IN_IGNORED OR IN_Q_OVERFLOW OR IN_UNMOUNT) \<noteq> 0 then Inr (WatchEnds, s)
          else case ifolder st of
                 None \<Rightarrow> Inl NullDereference
               | Some dir \<Rightarrow>
                   let path = take 65535 (dir @ ev_name ev)
                   in if ifilename st \<noteq> None \<and> ifilename st \<noteq> Some (ev_name ev) then Inr (WatchSkipped, s)
                      else case load_file env path s of (event, s) \<Rightarrow>
                        if event = WatchPublished \<and> rm st
                        then Inr (event, s\<lparr>w_files := unlink_file (iunlink_ok env) path (w_files s)\<rparr>)
                        else Inr (event, s))"

text \<open>What the cleanup handler frees is gone.\<close>

definition watch_cleanup :: "bool \<Rightarrow> watch_state \<Rightarrow> bool \<times> watch_state" where
  "watch_cleanup first_run s = (if \<not> first_run then (False, s) else (False, s\<lparr>w_in := (w_in s)\<lparr>in_buf := None\<rparr>\<rparr>))"

text \<open>The loop, with the records it signalled; \<^verbatim>\<open>pglobal->stop\<close> is at the end of the list.\<close>

fun watch_loop ::
  "file_input \<Rightarrow> int \<Rightarrow> (watch_env \<times> inotify_event list option) list \<Rightarrow> watch_state \<Rightarrow> crash + (input_plugin list \<times> watch_state)"
where
  "watch_loop st wd [] s = Inr ([], snd (watch_cleanup True s))"
| "watch_loop st wd ((env, events) # reads) s =
     sbind (watch_turn st wd env events s) (\<lambda>(event, s).
       case event of
         WatchEnds \<Rightarrow> Inr ([], snd (watch_cleanup True s))
       | WatchSkipped \<Rightarrow> watch_loop st wd reads s
       | WatchPublished \<Rightarrow> sbind (watch_loop st wd reads s) (\<lambda>(ps, s'). Inr (w_in s # ps, s')))"

subsection \<open>The contract of an input\<close>

text \<open>The answers with which a turn succeeds: every call does, and the \<^verbatim>\<open>read\<close> returns the whole file.\<close>

definition watch_ok :: "watch_env \<Rightarrow> byte list \<Rightarrow> bool" where
  "watch_ok env content \<longleftrightarrow> iopen_ok env \<and> fstat_ok env \<and> imalloc_ok env \<and> read_ret env = int (length content)"

definition watch_publishes :: "input_plugin \<Rightarrow> byte list \<Rightarrow> input_plugin \<Rightarrow> bool" where
  "watch_publishes p pic p' \<longleftrightarrow>
     (\<exists>env s path. watch_ok env pic \<and> w_in s = p \<and> map_of (w_files s) path = Some pic \<and> w_in (snd (load_file env path s)) = p')"

lemma frame_of_loaded:
  "frame_of (p\<lparr>in_buf := Some (overwrite pic (replicate (length pic + 65536) 0)), in_size := int (length pic)\<rparr>) = Inr pic"
  unfolding frame_of_def by (simp add: overwrite_def)

interpretation wf: frame_publisher watch_publishes
  by unfold_locales (auto simp: watch_publishes_def watch_ok_def load_file_def frame_of_loaded)

subsection \<open>Which files are published\<close>

definition written_event :: "int \<Rightarrow> string \<Rightarrow> inotify_event \<Rightarrow> bool" where
  "written_event wd d ev \<longleftrightarrow> ev_wd ev = wd \<and> ev_mask ev AND (IN_IGNORED OR IN_Q_OVERFLOW OR IN_UNMOUNT) = 0 \<and> ev_name ev = d"

lemma watch_turn_publishes:
  assumes "ifolder st = Some (dir @ ''/'')" "ifilename st = None" "\<not> rm st" "written_event wd d ev" "watch_ok env pic"
    "map_of (w_files s) (path_of dir d) = Some pic" "length (path_of dir d) < 65536"
  shows "\<exists>s'. watch_turn st wd env (Some (ev # evs)) s = Inr (WatchPublished, s') \<and> w_files s' = w_files s \<and>
    watch_publishes (w_in s) pic (w_in s')"
proof -
  have path: "take 65535 ((dir @ ''/'') @ d) = path_of dir d" using assms(7) by (simp add: path_of_def)
  define s' where "s' = snd (load_file env (path_of dir d) s)"
  have "load_file env (path_of dir d) s = (WatchPublished, s')" "w_files s' = w_files s"
    using assms(5,6) by (simp_all add: s'_def load_file_def watch_ok_def)
  moreover have "watch_publishes (w_in s) pic (w_in s')" using assms(5,6) by (auto simp: watch_publishes_def s'_def)
  ultimately show ?thesis using assms(1-4) path by (simp add: watch_turn_def written_event_def Let_def)
qed

text \<open>Two files written before the thread reads the watch: the second one is never shown.\<close>

lemma batched_events_lost:
  "watch_turn st wd env (Some (ev # evs)) s = watch_turn st wd env (Some [ev]) s"
  by (simp add: watch_turn_def)

text \<open>
  The notice that events were lost has the watch descriptor -1, so it is skipped as foreign before its
  mask is looked at.
\<close>

lemma overflow_notice_skipped:
  "ev_wd ev = - 1 \<Longrightarrow> wd \<noteq> - 1 \<Longrightarrow> watch_turn st wd env (Some (ev # evs)) s = Inr (WatchSkipped, s)"
  by (simp add: watch_turn_def)

text \<open>Without memory for the frame the thread ends and keeps the lock.\<close>

lemma no_memory_keeps_lock:
  assumes "ifolder st = Some dir" "ifilename st = None" "written_event wd d ev" "iopen_ok env" "fstat_ok env" "\<not> imalloc_ok env"
    "map_of (w_files s) (take 65535 (dir @ d)) = Some content"
  shows "\<exists>s'. watch_loop st wd ((env, Some (ev # evs)) # reads) s = Inr ([], s') \<and> w_locked s' \<and> in_size (w_in s') = in_size (w_in s)"
  using assms by (simp add: watch_turn_def written_event_def load_file_def watch_cleanup_def Let_def)

text \<open>A sequence of files that were written and are read one by one.\<close>

definition told :: "int \<Rightarrow> watch_env \<times> inotify_event list option \<Rightarrow> string \<times> byte list \<Rightarrow> bool" where
  "told wd = (\<lambda>(env, events) (d, pic).
     watch_ok env pic \<and> (case events of Some (ev # _) \<Rightarrow> written_event wd d ev | _ \<Rightarrow> False))"

definition on_disk :: "string \<Rightarrow> files \<Rightarrow> string \<times> byte list \<Rightarrow> bool" where
  "on_disk dir fs = (\<lambda>(d, pic). map_of fs (path_of dir d) = Some pic \<and> length (path_of dir d) < 65536)"

lemma watch_loop_shows:
  assumes "list_all2 (told wd) reads shots" "list_all (on_disk dir (w_files s)) shots" "ifolder st = Some (dir @ ''/'')" "ifilename st = None" "\<not> rm st"
  shows "\<exists>ps s'. watch_loop st wd reads s = Inr (ps, s') \<and> map frame_of ps = map (\<lambda>(_, pic). Inr pic) shots"
  using assms
proof (induction reads shots arbitrary: s rule: list_all2_induct)
  case (Cons r reads shot shots)
  obtain env ev evs d pic where eqs: "r = (env, Some (ev # evs))" "shot = (d, pic)"
    and ok: "map_of (w_files s) (path_of dir d) = Some pic" "length (path_of dir d) < 65536" "watch_ok env pic" "written_event wd d ev"
    using Cons.hyps(1) Cons.prems(1) by (cases r; cases shot) (auto simp: told_def on_disk_def split: option.splits list.splits)
  obtain s1 where s1: "watch_turn st wd env (Some (ev # evs)) s = Inr (WatchPublished, s1)" "w_files s1 = w_files s"
    "watch_publishes (w_in s) pic (w_in s1)"
    using watch_turn_publishes [OF Cons.prems(2-4) ok(4,3,1,2)] by blast
  from Cons.IH [of s1] s1 Cons.prems wf.shown [OF s1(3)] show ?case by (auto simp: eqs)
qed simp

end
