(* ===== verification/Input_Testpicture.thy ===== *)
theory Input_Testpicture
  imports Frame_Flow
begin

text \<open>
  \<^verbatim>\<open>src/mjpg-streamer/plugins/input_testpicture/input_testpicture.c\<close>: an input that publishes two built-in pictures in turn.
  The arrays of \<^verbatim>\<open>testpictures.h\<close> are the function \<open>pic_data\<close>, an argument, from the position in \<^verbatim>\<open>picture_lookup\<close> and in
  \<^verbatim>\<open>sequence\<close>.
\<close>

type_synonym pic_data = "nat \<Rightarrow> nat \<Rightarrow> byte list"

definition test_resolutions :: "string list" where
  "test_resolutions = [''960x720'', ''640x480'', ''320x240'', ''160x120'']"

text \<open>\<open>plugin_number\<close> is the static variable of that name, which no code sets.\<close>

record test_input =
  tdelay :: int
  pics :: nat
  tplugin_number :: nat

definition test_input0 :: test_input where
  "test_input0 = \<lparr>tdelay = 1000, pics = 0, tplugin_number = 0\<rparr>"

text \<open>The first entry of the table with the name, if there is one.\<close>

fun find_resolution :: "string \<Rightarrow> nat \<Rightarrow> string list \<Rightarrow> nat \<Rightarrow> nat" where
  "find_resolution optarg i [] cur = cur"
| "find_resolution optarg i (r # rs) cur = (if r = optarg then i else find_resolution optarg (Suc i) rs cur)"

fun test_options :: "getopt_result list \<Rightarrow> test_input \<Rightarrow> test_input option" where
  "test_options [] st = Some st"
| "test_options (Unrecognized # opts) st = None"
| "test_options (Opt option_index optarg # opts) st =
     (if option_index = 0 \<or> option_index = 1 then None
      else if option_index = 2 \<or> option_index = 3 then test_options opts (st\<lparr>tdelay := atoi optarg\<rparr>)
      else if option_index = 4 \<or> option_index = 5 then test_options opts (st\<lparr>pics := find_resolution optarg 0 test_resolutions (pics st)\<rparr>)
      else None)"

definition test_init :: "getopt_result list \<Rightarrow> nat \<Rightarrow> test_input \<Rightarrow> int \<times> test_input" where
  "test_init opts plugin_no st =
     (case test_options opts (st\<lparr>pics := 1\<rparr>) of None \<Rightarrow> (1, st\<lparr>pics := 1\<rparr>) | Some st \<Rightarrow> (0, st))"

text \<open>The shared buffer is allocated for the plugin's own number; \<open>None\<close> is \<^verbatim>\<open>exit\<close>.\<close>

definition test_run :: "bool \<Rightarrow> bool \<Rightarrow> byte list \<Rightarrow> nat \<Rightarrow> globals \<Rightarrow> globals option" where
  "test_run malloc_ok created memory i g =
     (if \<not> malloc_ok then None else if \<not> created then None
      else Some (upd_in i (\<lambda>p. p\<lparr>in_buf := Some (take (256 * 1024) (memory @ replicate (256 * 1024) 0))\<rparr>) g))"

definition test_publish :: "byte list \<Rightarrow> input_plugin \<Rightarrow> crash + input_plugin" where
  "test_publish data p =
     (case in_buf p of
        None \<Rightarrow> Inl NullDereference
      | Some buf \<Rightarrow>
          if length data \<le> length buf then Inr (p\<lparr>in_size := int (length data), in_buf := Some (overwrite data buf)\<rparr>)
          else Inl BufferOverflow)"

text \<open>One turn of the worker: the number of the picture advances before it is shown.\<close>

definition test_turn :: "pic_data \<Rightarrow> test_input \<Rightarrow> nat \<times> globals \<Rightarrow> crash + (nat \<times> globals)" where
  "test_turn pic_data st = (\<lambda>(i, g).
     let i = (i + 1) mod 2
     in sbind (at (gin g) (int (tplugin_number st))) (\<lambda>p.
          sbind (test_publish (pic_data (pics st) i) p) (\<lambda>p. Inr (i, upd_in (tplugin_number st) (\<lambda>_. p) g))))"

text \<open>The loop, for a number of turns until \<^verbatim>\<open>pglobal->stop\<close>, with the records it published.\<close>

fun test_worker :: "pic_data \<Rightarrow> test_input \<Rightarrow> nat \<Rightarrow> nat \<times> globals \<Rightarrow> crash + (input_plugin list \<times> nat \<times> globals)" where
  "test_worker pic_data st 0 s = Inr ([], s)"
| "test_worker pic_data st (Suc k) s =
     sbind (test_turn pic_data st s) (\<lambda>(i, g).
       sbind (test_worker pic_data st k (i, g)) (\<lambda>(ps, s). Inr (gin g ! tplugin_number st # ps, s)))"

definition test_cleanup :: "bool \<Rightarrow> test_input \<Rightarrow> globals \<Rightarrow> bool \<times> globals" where
  "test_cleanup first_run st g =
     (if \<not> first_run then (False, g) else (False, upd_in (tplugin_number st) (\<lambda>p. p\<lparr>in_buf := None\<rparr>) g))"

definition test_stop :: "bool \<Rightarrow> int \<times> bool" where
  "test_stop running = (0, False)"

subsection \<open>The contract of an input\<close>

definition test_publishes :: "input_plugin \<Rightarrow> byte list \<Rightarrow> input_plugin \<Rightarrow> bool" where
  "test_publishes p pic p' \<longleftrightarrow> test_publish pic p = Inr p'"

interpretation tp: frame_publisher test_publishes
  by unfold_locales (auto simp: test_publishes_def test_publish_def frame_of_def split: option.splits if_splits)

subsection \<open>The animation\<close>

definition test_ok :: "pic_data \<Rightarrow> test_input \<Rightarrow> globals \<Rightarrow> bool" where
  "test_ok pic_data st g \<longleftrightarrow>
     tplugin_number st < length (gin g) \<and>
     (case in_buf (gin g ! tplugin_number st) of
        None \<Rightarrow> False
      | Some buf \<Rightarrow> length (pic_data (pics st) 0) \<le> length buf \<and> length (pic_data (pics st) 1) \<le> length buf)"

lemma test_turn_publishes:
  assumes "test_ok pic_data st g"
  shows "\<exists>g'. test_turn pic_data st (i, g) = Inr (Suc i mod 2, g') \<and> test_ok pic_data st g' \<and>
    test_publishes (gin g ! tplugin_number st) (pic_data (pics st) (Suc i mod 2)) (gin g' ! tplugin_number st)"
proof -
  have "Suc i mod 2 = 0 \<or> Suc i mod 2 = 1" by linarith
  then show ?thesis
    using assms
    by (auto simp: test_ok_def test_turn_def test_publish_def test_publishes_def upd_in_def Let_def split: option.splits)
qed

lemma test_worker_shows:
  assumes "test_ok pic_data st g" "i < 2"
  shows "\<exists>ps g'. test_worker pic_data st k (i, g) = Inr (ps, (i + k) mod 2, g') \<and>
    map frame_of ps = map (\<lambda>j. Inr (pic_data (pics st) (Suc (i + j) mod 2))) [0..<k]"
  using assms
proof (induction k arbitrary: i g)
  case (Suc k)
  obtain g1 where g1: "test_turn pic_data st (i, g) = Inr (Suc i mod 2, g1)" "test_ok pic_data st g1"
    "test_publishes (gin g ! tplugin_number st) (pic_data (pics st) (Suc i mod 2)) (gin g1 ! tplugin_number st)"
    using test_turn_publishes [OF Suc.prems(1)] by blast
  define i1 where "i1 = Suc i mod 2"
  have "(i1 + x) mod 2 = (Suc i + x) mod 2" for x unfolding i1_def by (rule mod_add_left_eq)
  from this [of k] this [of "Suc j" for j]
  have pos: "(i1 + k) mod 2 = (i + Suc k) mod 2" "Suc (i1 + j) mod 2 = Suc (i + Suc j) mod 2" for j
    by (simp_all only: add_Suc add_Suc_right)
  have split: "[0..<Suc k] = 0 # map Suc [0..<k]" by (simp add: upt_conv_Cons map_Suc_upt del: upt_Suc)
  have "i1 < 2" by (simp add: i1_def)
  from Suc.IH [OF g1(2) this, unfolded pos] obtain ps g' where
    "test_worker pic_data st k (i1, g1) = Inr (ps, (i + Suc k) mod 2, g')"
    "map frame_of ps = map (\<lambda>j. Inr (pic_data (pics st) (Suc (i + Suc j) mod 2))) [0..<k]" by blast
  with g1(1) tp.shown [OF g1(3)] show ?case
    by (simp only: split test_worker.simps sbind_simps prod.case flip: i1_def) (simp add: comp_def i1_def)
qed simp

text \<open>The pictures fit the buffer, as those of \<^verbatim>\<open>testpictures.h\<close> do: the largest has 41180 bytes.\<close>

definition pictures_fit :: "pic_data \<Rightarrow> bool" where
  "pictures_fit pic_data \<longleftrightarrow> (\<forall>r < 4. \<forall>i < 2. length (pic_data r i) \<le> 256 * 1024)"

lemma find_resolution_range: "cur < i + length rs \<Longrightarrow> find_resolution optarg i rs cur < i + length rs"
  by (induction rs arbitrary: i) (auto, metis add_Suc_right add_Suc)

lemma test_options_keep:
  "test_options opts st = Some st' \<Longrightarrow> pics st < 4 \<Longrightarrow> tplugin_number st' = tplugin_number st \<and> pics st' < 4"
proof (induction opts st rule: test_options.induct)
  case (3 option_index optarg opts st)
  have "find_resolution optarg 0 test_resolutions (pics st) < 4" if "pics st < 4"
    using that find_resolution_range [of "pics st" 0 test_resolutions optarg] by (simp add: test_resolutions_def)
  with 3 show ?case by (auto split: if_splits)
qed auto

text \<open>
  The resolution a user asked for: the last one of the options \<^verbatim>\<open>-r\<close> and \<^verbatim>\<open>--resolution\<close> that the plugin has pictures
  of, or else 640x480.
\<close>

definition requested_resolutions :: "getopt_result list \<Rightarrow> string list" where
  "requested_resolutions opts =
     concat (map (\<lambda>opt. case opt of Unrecognized \<Rightarrow> []
                         | Opt option_index optarg \<Rightarrow> if option_index \<in> {4, 5} then [optarg] else []) opts)"

definition chosen_resolution :: "getopt_result list \<Rightarrow> string" where
  "chosen_resolution opts =
     last (''640x480'' # filter (\<lambda>r. r \<in> set test_resolutions) (requested_resolutions opts))"

lemma find_resolution_nth:
  "find_resolution optarg i rs cur = (if optarg \<in> set rs then find_resolution optarg i rs 0 else cur)"
  "optarg \<in> set rs \<Longrightarrow> i \<le> find_resolution optarg i rs cur \<and> find_resolution optarg i rs cur < i + length rs \<and>
     rs ! (find_resolution optarg i rs cur - i) = optarg"
proof -
  show "find_resolution optarg i rs cur = (if optarg \<in> set rs then find_resolution optarg i rs 0 else cur)"
    by (induction rs arbitrary: i) auto
  show "optarg \<in> set rs \<Longrightarrow> i \<le> find_resolution optarg i rs cur \<and> find_resolution optarg i rs cur < i + length rs \<and>
     rs ! (find_resolution optarg i rs cur - i) = optarg"
  proof (induction rs arbitrary: i)
    case (Cons r rs)
    show ?case
    proof (cases "r = optarg")
      case False
      with Cons.prems Cons.IH [of "Suc i"] show ?thesis by (auto simp: nth_Cons' Suc_le_eq)
    qed simp
  qed simp
qed

lemma find_resolution_chosen:
  "test_resolutions ! find_resolution optarg 0 test_resolutions cur =
     (if optarg \<in> set test_resolutions then optarg else test_resolutions ! cur)"
  using find_resolution_nth(1) [of optarg 0 test_resolutions cur] find_resolution_nth(2) [of optarg test_resolutions 0 0]
  by simp

lemma test_options_chosen:
  "test_options opts st = Some st' \<Longrightarrow>
     test_resolutions ! pics st' =
       last (test_resolutions ! pics st # filter (\<lambda>r. r \<in> set test_resolutions) (requested_resolutions opts))"
  by (induction opts st rule: test_options.induct)
     (auto simp: requested_resolutions_def find_resolution_chosen split: if_splits)

text \<open>
  C40.  Started as the first input, the test picture plugin shows the two pictures of the chosen
  resolution (the last known one it was asked for, or 640x480) in turn, beginning with the second,
  for as long as it runs, and stays inside the buffer it allocated.
\<close>

theorem test_plugin_animation:
  assumes "test_init opts 0 test_input0 = (0, st)" "test_run True True memory 0 g = Some g'" "gin g \<noteq> []" "pictures_fit pic_data"
  shows "\<exists>ps g''. test_worker pic_data st k (0, g') = Inr (ps, k mod 2, g'') \<and>
    pics st < 4 \<and> test_resolutions ! pics st = chosen_resolution opts \<and>
    map frame_of ps = map (\<lambda>j. Inr (pic_data (pics st) (Suc j mod 2))) [0..<k]"
proof -
  have st: "tplugin_number st = 0" "pics st < 4"
    using assms(1) test_options_keep [of opts "test_input0\<lparr>pics := 1\<rparr>" st]
    by (auto simp: test_init_def test_input0_def split: option.splits)
  have "test_resolutions ! pics st = chosen_resolution opts"
    using assms(1) test_options_chosen [of opts "test_input0\<lparr>pics := 1\<rparr>" st]
    by (auto simp: test_init_def chosen_resolution_def test_resolutions_def split: option.splits)
  moreover have "length (take (256 * 1024) (memory @ replicate (256 * 1024) 0)) = 256 * 1024"
    by (simp only: length_take length_append length_replicate)
  then have "test_ok pic_data st g'"
    using assms(2-4) st by (auto simp: test_run_def test_ok_def pictures_fit_def upd_in_def)
  ultimately show ?thesis using test_worker_shows [of pic_data st g' 0 k] st by simp
qed

definition sample_pictures :: pic_data where
  "sample_pictures r i = [255, 216, of_nat r, of_nat i]"

theorem test_plugin_animation_witness:
  "\<exists>ps g''. test_worker sample_pictures \<lparr>tdelay = 50, pics = 2, tplugin_number = 0\<rparr> 3
      (0, the (test_run True True [] 0 (sample_globals []))) = Inr (ps, 1, g'') \<and>
    chosen_resolution [Opt 2 ''50'', Opt 5 ''320x240''] = ''320x240'' \<and>
    map frame_of ps = [Inr [255, 216, 2, 1], Inr [255, 216, 2, 0], Inr [255, 216, 2, 1]]"
proof -
  let ?st = "\<lparr>tdelay = 50, pics = 2, tplugin_number = 0\<rparr> :: test_input"
  have "test_init [Opt 2 ''50'', Opt 5 ''320x240''] 0 test_input0 = (0, ?st)"
    by (simp add: test_init_def test_input0_def test_resolutions_def) code_simp
  moreover have "test_run True True [] 0 (sample_globals []) = Some (the (test_run True True [] 0 (sample_globals [])))"
    by (simp add: test_run_def)
  moreover have "gin (sample_globals []) \<noteq> []" by (simp add: sample_globals_def)
  moreover have "pictures_fit sample_pictures" by (simp add: pictures_fit_def sample_pictures_def)
  ultimately have "\<exists>ps g''. test_worker sample_pictures ?st 3 (0, the (test_run True True [] 0 (sample_globals []))) =
      Inr (ps, 3 mod 2, g'') \<and> pics ?st < 4 \<and>
    test_resolutions ! pics ?st = chosen_resolution [Opt 2 ''50'', Opt 5 ''320x240''] \<and>
    map frame_of ps = map (\<lambda>j. Inr (sample_pictures (pics ?st) (Suc j mod 2))) [0..<3]"
    by (rule test_plugin_animation)
  moreover have "[0..<3] = [0, 1, 2]" by (simp add: upt_rec)
  moreover have "test_resolutions ! pics ?st = ''320x240''" by (simp add: test_resolutions_def)
  ultimately show ?thesis
    by (simp add: sample_pictures_def eq_commute [of "''320x240''"] del: test_worker.simps)
qed

text \<open>
  Started as the second input, the plugin still writes to the record of the first, although it
  allocated the buffer of its own.
\<close>

lemma test_plugin_second_input:
  assumes "test_init opts 1 test_input0 = (0, st)" "test_run True True memory 1 g = Some g'" "gin g \<noteq> []" "in_buf (gin g ! 0) = None"
  shows "test_turn pic_data st (0, g') = Inl NullDereference"
proof -
  have "tplugin_number st = 0"
    using assms(1) test_options_keep [of opts "test_input0\<lparr>pics := 1\<rparr>" st]
    by (auto simp: test_init_def test_input0_def split: option.splits)
  moreover have "gin g' ! 0 = gin g ! 0" "length (gin g') = length (gin g)"
    using assms(2) by (auto simp: test_run_def upd_in_def)
  ultimately show ?thesis using assms(3,4) by (simp add: test_turn_def test_publish_def)
qed

end
