(* ===== verification/Uvc_Os.thy ===== *)
theory Uvc_Os
  imports Streamer_Types
begin

text \<open>
  What the camera plugin (\<^verbatim>\<open>src/mjpg-streamer/plugins/input_uvc\<close>) asks of the system: \<^verbatim>\<open>open\<close>,
  \<^verbatim>\<open>close\<close>, \<^verbatim>\<open>mmap\<close>, \<^verbatim>\<open>munmap\<close>, the allocator and the \<^verbatim>\<open>ioctl\<close> requests of the video driver.  The
  system is an argument of the operations: a function \<open>io\<close> from its own state and a call to an
  answer and its next state.  The model keeps the calls with their answers in order, so that
  theorems can speak about the requests a driver sees, whatever it answers.  \<^verbatim>\<open>xioctl\<close> of
  \<^verbatim>\<open>v4l2uvc.c\<close> is the loop around a single request.
\<close>

subsection \<open>Calls and answers\<close>

text \<open>The entries of the tables of \<^verbatim>\<open>dynctrl.c\<close> that are handed to the driver.\<close>

record uvc_xu_control_info =
  xi_entity :: "byte list"
  xi_index :: byte
  xi_selector :: byte
  xi_size :: short
  xi_flags :: cint

record uvc_xu_control_mapping =
  xm_id :: cint
  xm_name :: string
  xm_entity :: "byte list"
  xm_selector :: byte
  xm_size :: byte
  xm_offset :: byte
  xm_v4l2_type :: nat
  xm_data_type :: nat

datatype sys_call =
    Open_Video string | Close_Video int
  | Mmap nat | Munmap nat | Alloc
  | VIDIOC_QUERYCAP
  | VIDIOC_S_FMT cint cint cint
  | VIDIOC_G_FMT
  | VIDIOC_S_PARM int
  | VIDIOC_REQBUFS nat
  | VIDIOC_QUERYBUF nat
  | VIDIOC_QBUF nat
  | VIDIOC_DQBUF
  | VIDIOC_STREAMON
  | VIDIOC_STREAMOFF
  | VIDIOC_ENUM_FMT nat
  | VIDIOC_ENUM_FRAMESIZES nat cint
  | VIDIOC_QUERYCTRL cint
  | VIDIOC_QUERYMENU cint int
  | VIDIOC_G_CTRL cint
  | VIDIOC_S_CTRL cint int
  | VIDIOC_G_EXT_CTRLS cint
  | VIDIOC_S_EXT_CTRLS cint int
  | VIDIOC_G_JPEGCOMP
  | VIDIOC_S_JPEGCOMP int
  | UVCIOC_CTRL_ADD uvc_xu_control_info
  | UVCIOC_CTRL_MAP uvc_xu_control_mapping

text \<open>
  The fields of the argument structures that the sources read back.  \<open>d_mem\<close> is the content of
  the mapped memory of the buffer that \<^verbatim>\<open>VIDIOC_DQBUF\<close> hands over; \<open>d_control\<close> and \<open>d_menu\<close> are
  what freshly allocated memory happens to hold.
\<close>

record sys_data =
  d_capabilities :: cint
  d_width :: cint
  d_height :: cint
  d_pixelformat :: cint
  d_index :: nat
  d_bytesused :: cint
  d_length :: cint
  d_timestamp :: timeval
  d_mem :: "byte list"
  d_queryctrl :: v4l2_queryctrl
  d_value :: int
  d_value64 :: int
  d_name :: string
  d_quality :: int
  d_control :: control
  d_menu :: "nat \<Rightarrow> string"

record reply =
  ret :: int
  errno :: nat
  rdata :: sys_data

type_synonym 'd sys = "'d \<Rightarrow> sys_call \<Rightarrow> reply \<times> 'd"

record 'd world =
  drv :: 'd
  trace :: "(sys_call \<times> reply) list"

definition call :: "'d sys \<Rightarrow> sys_call \<Rightarrow> 'd world \<Rightarrow> reply \<times> 'd world" where
  "call io c w = (case io (drv w) c of (r, d) \<Rightarrow> (r, w\<lparr>drv := d, trace := trace w @ [(c, r)]\<rparr>))"

subsection \<open>xioctl\<close>

definition EINTR :: nat where "EINTR = 4"
definition EAGAIN :: nat where "EAGAIN = 11"
definition EEXIST :: nat where "EEXIST = 17"
definition EINVAL :: nat where "EINVAL = 22"
definition ETIMEDOUT :: nat where "ETIMEDOUT = 110"

lemmas errno_defs = EINTR_def EAGAIN_def EEXIST_def EINVAL_def ETIMEDOUT_def

definition IOCTL_RETRY :: nat where "IOCTL_RETRY = 4"

definition retry_errno :: "nat \<Rightarrow> bool" where
  "retry_errno e \<longleftrightarrow> e = EINTR \<or> e = EAGAIN \<or> e = ETIMEDOUT"

fun xioctl_loop :: "'d sys \<Rightarrow> sys_call \<Rightarrow> nat \<Rightarrow> 'd world \<Rightarrow> reply \<times> 'd world" where
  "xioctl_loop io c tries w =
     (case call io c w of (r, w) \<Rightarrow>
        if ret r \<noteq> 0 then
          (case tries of 0 \<Rightarrow> (r, w) | Suc n \<Rightarrow> if retry_errno (errno r) then xioctl_loop io c n w else (r, w))
        else (r, w))"

declare xioctl_loop.simps [simp del]

definition xioctl :: "'d sys \<Rightarrow> sys_call \<Rightarrow> 'd world \<Rightarrow> reply \<times> 'd world" where
  "xioctl io c w = xioctl_loop io c IOCTL_RETRY w"

subsection \<open>Sequences of calls\<close>

lemma trace_call: "call io c w = (r, w') \<Longrightarrow> trace w' = trace w @ [(c, r)]"
  by (auto simp: call_def split: prod.splits)

text \<open>The answers \<open>rs\<close> of the repeated attempts that a loop with \<open>n\<close> retries makes before its last one.\<close>

definition retried :: "nat \<Rightarrow> reply \<Rightarrow> reply list \<Rightarrow> bool" where
  "retried n r rs \<longleftrightarrow> length rs \<le> n \<and> (\<forall>x\<in>set rs. ret x \<noteq> 0 \<and> retry_errno (errno x)) \<and> (ret r \<noteq> 0 \<and> retry_errno (errno r) \<longrightarrow> length rs = n)"

lemma trace_xioctl_loop:
  "xioctl_loop io c tries w = (r, w') \<Longrightarrow> \<exists>rs. trace w' = trace w @ map (Pair c) (rs @ [r]) \<and> retried tries r rs"
proof (induction tries arbitrary: w)
  case 0
  then show ?case
    by (auto simp: xioctl_loop.simps [of _ _ 0] retried_def split: prod.splits if_splits dest!: trace_call intro!: exI [of _ "[]"])
next
  case (Suc n)
  obtain r1 w1 where one: "call io c w = (r1, w1)" by fastforce
  show ?case
  proof (cases "ret r1 \<noteq> 0 \<and> retry_errno (errno r1)")
    case True
    with Suc.prems one have "xioctl_loop io c n w1 = (r, w')" by (simp add: xioctl_loop.simps [of _ _ "Suc n"])
    then obtain rs where "trace w' = trace w1 @ map (Pair c) (rs @ [r])" "retried n r rs"
      using Suc.IH by blast
    with one True show ?thesis by (intro exI [of _ "r1 # rs"]) (auto simp: retried_def dest: trace_call)
  next
    case False
    with Suc.prems one have "r = r1 \<and> w' = w1" by (auto simp: xioctl_loop.simps [of _ _ "Suc n"] split: if_splits)
    with one False show ?thesis by (auto simp: retried_def dest: trace_call intro!: exI [of _ "[]"])
  qed
qed

lemma trace_xioctl:
  "xioctl io c w = (r, w') \<Longrightarrow> \<exists>rs. trace w' = trace w @ map (Pair c) (rs @ [r]) \<and> retried IOCTL_RETRY r rs"
  unfolding xioctl_def by (rule trace_xioctl_loop)

text \<open>
  \<^verbatim>\<open>xioctl\<close> ends with every driver: it repeats the same request at most four times, only after failures
  that are worth repeating, returns the answer to the last attempt, and gives up on such a failure only
  after the fifth attempt.
\<close>

theorem xioctl_bounded:
  "xioctl io c w = (r, w') \<Longrightarrow>
    \<exists>rs. trace w' = trace w @ map (Pair c) (rs @ [r]) \<and> length rs \<le> 4 \<and>
      (\<forall>x\<in>set rs. ret x \<noteq> 0 \<and> retry_errno (errno x)) \<and> (ret r \<noteq> 0 \<and> retry_errno (errno r) \<longrightarrow> length rs = 4)"
  by (drule trace_xioctl) (simp add: retried_def IOCTL_RETRY_def)

definition zero_queryctrl :: v4l2_queryctrl where
  "zero_queryctrl = \<lparr>qc_id = 0, qc_type = 0, qc_name = [], qc_minimum = 0, qc_maximum = 0, qc_step = 0, qc_default_value = 0, qc_flags = 0\<rparr>"

definition zero_control :: control where
  "zero_control = \<lparr>ctrl = zero_queryctrl, cvalue = 0, menuitems = None, class_id = 0, cgroup = 0\<rparr>"

definition no_data :: sys_data where
  "no_data = \<lparr>d_capabilities = 0, d_width = 0, d_height = 0, d_pixelformat = 0, d_index = 0, d_bytesused = 0, d_length = 0,
     d_timestamp = \<lparr>tv_sec = 0, tv_usec = 0\<rparr>, d_mem = [], d_queryctrl = zero_queryctrl, d_value = 0, d_value64 = 0, d_name = [],
     d_quality = 0, d_control = zero_control, d_menu = (\<lambda>_. [])\<rparr>"

definition ok_with :: "sys_data \<Rightarrow> reply" where "ok_with x = \<lparr>ret = 0, errno = 0, rdata = x\<rparr>"
definition fails_with :: "nat \<Rightarrow> reply" where "fails_with e = \<lparr>ret = - 1, errno = e, rdata = no_data\<rparr>"

lemma reply_simps [simp]:
  "ret (ok_with x) = 0" "rdata (ok_with x) = x" "ret (fails_with e) = - 1" "errno (fails_with e) = e"
  by (simp_all add: ok_with_def fails_with_def)

text \<open>A driver that is interrupted twice and then answers.\<close>

definition interrupted_driver :: "nat sys" where
  "interrupted_driver n c = (if n < 2 then fails_with EINTR else ok_with no_data, Suc n)"

theorem xioctl_bounded_witness:
  "xioctl interrupted_driver VIDIOC_STREAMON \<lparr>drv = 0, trace = []\<rparr> =
      (ok_with no_data, \<lparr>drv = 3, trace = map (Pair VIDIOC_STREAMON) [fails_with EINTR, fails_with EINTR, ok_with no_data]\<rparr>) \<and>
    (\<exists>rs. map (Pair VIDIOC_STREAMON) [fails_with EINTR, fails_with EINTR, ok_with no_data] =
      map (Pair VIDIOC_STREAMON) (rs @ [ok_with no_data]) \<and> length rs \<le> 4)"
proof -
  have run: "xioctl interrupted_driver VIDIOC_STREAMON \<lparr>drv = 0, trace = []\<rparr> =
      (ok_with no_data, \<lparr>drv = 3, trace = map (Pair VIDIOC_STREAMON) [fails_with EINTR, fails_with EINTR, ok_with no_data]\<rparr>)"
    by (simp add: xioctl_def IOCTL_RETRY_def xioctl_loop.simps call_def interrupted_driver_def retry_errno_def eval_nat_numeral)
  from xioctl_bounded [OF run] have "\<exists>rs. map (Pair VIDIOC_STREAMON) [fails_with EINTR, fails_with EINTR, ok_with no_data] =
      map (Pair VIDIOC_STREAMON) (rs @ [ok_with no_data]) \<and> length rs \<le> 4"
    unfolding world.simps append_Nil by blast
  with run show ?thesis by blast
qed

text \<open>A request whose answer is not a reason to retry is made once.\<close>

lemma xioctl_call:
  "ret (fst (io (drv w) c)) = 0 \<or> \<not> retry_errno (errno (fst (io (drv w) c))) \<Longrightarrow> xioctl io c w = call io c w"
  by (auto simp: xioctl_def xioctl_loop.simps [of _ _ IOCTL_RETRY] call_def split: nat.splits prod.splits)

end
