(* ===== verification/Uvc_Device.thy ===== *)
theory Uvc_Device
  imports Uvc_Os
begin

text \<open>
  The capture device of \<^verbatim>\<open>src/mjpg-streamer/plugins/input_uvc/v4l2uvc.c\<close>: opening it and mapping its
  buffers (\<^verbatim>\<open>init_v4l2\<close>), switching the stream on and off, taking a frame (\<^verbatim>\<open>uvcGrab\<close>), changing the
  resolution and closing.  An operation works on \<^verbatim>\<open>struct vdIn\<close> and the world of the system calls
  and returns the C result; a memory error is \<open>Inl\<close>.  The fields of \<^verbatim>\<open>struct vdIn\<close> that no function
  of the plugin reads (the counters of the raw capture) are left out.
\<close>

subsection \<open>State\<close>

definition NB_BUFFER :: nat where "NB_BUFFER = 4"

datatype streaming_state = STREAMING_OFF | STREAMING_ON | STREAMING_PAUSED

record v4l2_buffer =
  b_index :: nat
  b_bytesused :: cint
  b_length :: cint
  b_timestamp :: timeval

record vdIn =
  vd_fd :: int
  videodevice :: "string option"
  status :: "string option"
  pictName :: "string option"
  capabilities :: cint
  vbuf :: v4l2_buffer
  vmem :: "bool list"
  tmpbuffer :: "byte list option"
  framebuffer :: "byte list option"
  streamingState :: streaming_state
  grabmethod :: int
  vd_width :: cint
  vd_height :: cint
  vd_fps :: int
  formatIn :: cint
  framesizeIn :: cint
  signalquit :: bool
  toggleAvi :: bool
  getPict :: bool
  tmpbytesused :: cint
  tmptimestamp :: timeval

definition zero_time :: timeval where "zero_time = \<lparr>tv_sec = 0, tv_usec = 0\<rparr>"

definition zero_buffer :: v4l2_buffer where
  "zero_buffer = \<lparr>b_index = 0, b_bytesused = 0, b_length = 0, b_timestamp = zero_time\<rparr>"

text \<open>What the \<^verbatim>\<open>memset\<close> of \<^verbatim>\<open>input_init\<close> leaves.\<close>

definition zero_vdIn :: vdIn where
  "zero_vdIn = \<lparr>vd_fd = 0, videodevice = None, status = None, pictName = None, capabilities = 0, vbuf = zero_buffer,
     vmem = replicate NB_BUFFER False, tmpbuffer = None, framebuffer = None, streamingState = STREAMING_OFF,
     grabmethod = 0, vd_width = 0, vd_height = 0, vd_fps = 0, formatIn = 0, framesizeIn = 0, signalquit = False,
     toggleAvi = False, getPict = False, tmpbytesused = 0, tmptimestamp = zero_time\<rparr>"

definition V4L2_PIX_FMT_MJPEG :: cint where "V4L2_PIX_FMT_MJPEG = 0x47504a4d"
definition V4L2_PIX_FMT_YUYV :: cint where "V4L2_PIX_FMT_YUYV = 0x56595559"
definition V4L2_CAP_VIDEO_CAPTURE :: cint where "V4L2_CAP_VIDEO_CAPTURE = 0x1"
definition V4L2_CAP_READWRITE :: cint where "V4L2_CAP_READWRITE = 0x01000000"
definition V4L2_CAP_STREAMING :: cint where "V4L2_CAP_STREAMING = 0x04000000"

lemma fmt_neq [simp]: "V4L2_PIX_FMT_MJPEG \<noteq> V4L2_PIX_FMT_YUYV" "V4L2_PIX_FMT_YUYV \<noteq> V4L2_PIX_FMT_MJPEG"
  by (simp_all add: V4L2_PIX_FMT_MJPEG_def V4L2_PIX_FMT_YUYV_def)

subsection \<open>init_v4l2\<close>

text \<open>Steps in a row, with \<^verbatim>\<open>goto fatal\<close> (result -1) at the first that fails.\<close>

fun stages :: "('s \<Rightarrow> crash + (int \<times> 's)) list \<Rightarrow> 's \<Rightarrow> crash + (int \<times> 's)" where
  "stages [] s = Inr (0, s)"
| "stages (f # fs) s = sbind (f s) (\<lambda>(r, s). if r < 0 then Inr (- 1, s) else stages fs s)"

type_synonym 'd step = "vdIn \<times> 'd world \<Rightarrow> crash + (int \<times> vdIn \<times> 'd world)"

text \<open>Opening a null path fails.\<close>

definition open_device :: "'d sys \<Rightarrow> 'd step" where
  "open_device io = (\<lambda>(vd, w).
     case videodevice vd of
       None \<Rightarrow> Inr (- 1, vd\<lparr>vd_fd := - 1\<rparr>, w)
     | Some dev \<Rightarrow>
         (case call io (Open_Video dev) w of (r, w) \<Rightarrow>
            Inr (if ret r = - 1 then - 1 else 0, vd\<lparr>vd_fd := ret r\<rparr>, w)))"

definition query_capabilities :: "'d sys \<Rightarrow> 'd step" where
  "query_capabilities io = (\<lambda>(vd, w).
     case xioctl io VIDIOC_QUERYCAP w of (r, w) \<Rightarrow>
       let vd = vd\<lparr>capabilities := (if ret r < 0 then 0 else d_capabilities (rdata r))\<rparr>
       in if ret r < 0 then Inr (- 1, vd, w)
          else if capabilities vd AND V4L2_CAP_VIDEO_CAPTURE = 0 then Inr (- 1, vd, w)
          else if grabmethod vd \<noteq> 0 then
            Inr (if capabilities vd AND V4L2_CAP_STREAMING = 0 then - 1 else 0, vd, w)
          else
            Inr (if capabilities vd AND V4L2_CAP_READWRITE = 0 then - 1 else 0, vd, w))"

definition set_format :: "'d sys \<Rightarrow> 'd step" where
  "set_format io = (\<lambda>(vd, w).
     case xioctl io (VIDIOC_S_FMT (vd_width vd) (vd_height vd) (formatIn vd)) w of (r, w) \<Rightarrow>
       if ret r < 0 then Inr (- 1, vd, w)
       else
         let pix = rdata r
         in if d_width pix \<noteq> vd_width vd \<or> d_height pix \<noteq> vd_height vd then
              let vd = vd\<lparr>vd_width := d_width pix, vd_height := d_height pix\<rparr>
              in if formatIn vd \<noteq> d_pixelformat pix then
                   Inr (if formatIn vd = V4L2_PIX_FMT_MJPEG \<or> formatIn vd = V4L2_PIX_FMT_YUYV then - 1 else 0, vd, w)
                 else Inr (0, vd\<lparr>formatIn := d_pixelformat pix\<rparr>, w)
            else Inr (0, vd, w))"

text \<open>The result of \<^verbatim>\<open>VIDIOC_S_PARM\<close> is not looked at.\<close>

definition set_fps :: "'d sys \<Rightarrow> 'd step" where
  "set_fps io = (\<lambda>(vd, w).
     case call io Alloc w of (m, w) \<Rightarrow>
       if ret m \<noteq> 0 then Inl NullDereference
       else case xioctl io (VIDIOC_S_PARM (vd_fps vd)) w of (r, w) \<Rightarrow> Inr (0, vd, w))"

definition request_buffers :: "'d sys \<Rightarrow> 'd step" where
  "request_buffers io = (\<lambda>(vd, w).
     case xioctl io (VIDIOC_REQBUFS NB_BUFFER) w of (r, w) \<Rightarrow> Inr (ret r, vd, w))"

definition map_buffer :: "'d sys \<Rightarrow> nat \<Rightarrow> 'd step" where
  "map_buffer io i = (\<lambda>(vd, w).
     case xioctl io (VIDIOC_QUERYBUF i) w of (r, w) \<Rightarrow>
       let vd = vd\<lparr>vbuf := zero_buffer\<lparr>b_index := i, b_length := (if ret r < 0 then 0 else d_length (rdata r))\<rparr>\<rparr>
       in if ret r < 0 then Inr (- 1, vd, w)
          else case call io (Mmap i) w of (m, w) \<Rightarrow>
            if ret m < 0 then Inr (- 1, vd\<lparr>vmem := (vmem vd)[i := False]\<rparr>, w)
            else Inr (0, vd\<lparr>vmem := (vmem vd)[i := True]\<rparr>, w))"

definition queue_buffer :: "'d sys \<Rightarrow> nat \<Rightarrow> 'd step" where
  "queue_buffer io i = (\<lambda>(vd, w).
     case xioctl io (VIDIOC_QBUF i) w of (r, w) \<Rightarrow>
       Inr (ret r, vd\<lparr>vbuf := zero_buffer\<lparr>b_index := i, b_length := (if ret r < 0 then 0 else d_length (rdata r))\<rparr>\<rparr>, w))"

definition init_v4l2 :: "'d sys \<Rightarrow> 'd step" where
  "init_v4l2 io = stages
     ([open_device io, query_capabilities io, set_format io, set_fps io, request_buffers io]
      @ map (map_buffer io) [0..<NB_BUFFER] @ map (queue_buffer io) [0..<NB_BUFFER])"

subsection \<open>The stream\<close>

definition video_enable :: "'d sys \<Rightarrow> vdIn \<times> 'd world \<Rightarrow> int \<times> vdIn \<times> 'd world" where
  "video_enable io = (\<lambda>(vd, w).
     case xioctl io VIDIOC_STREAMON w of (r, w) \<Rightarrow>
       if ret r < 0 then (ret r, vd, w) else (0, vd\<lparr>streamingState := STREAMING_ON\<rparr>, w))"

definition video_disable :: "'d sys \<Rightarrow> streaming_state \<Rightarrow> vdIn \<times> 'd world \<Rightarrow> int \<times> vdIn \<times> 'd world" where
  "video_disable io disabledState = (\<lambda>(vd, w).
     case xioctl io VIDIOC_STREAMOFF w of (r, w) \<Rightarrow>
       if ret r \<noteq> 0 then (ret r, vd, w) else (0, vd\<lparr>streamingState := disabledState\<rparr>, w))"

definition HEADERFRAME1 :: cint where "HEADERFRAME1 = 0xaf"

text \<open>\<^verbatim>\<open>memcpy(dst, vd->mem[vd->buf.index], n)\<close> out of the mapped memory with content \<open>m\<close>.\<close>

definition copy_frame :: "byte list option \<Rightarrow> vdIn \<Rightarrow> byte list \<Rightarrow> cint \<Rightarrow> crash + byte list" where
  "copy_frame dst vd m n =
     sbind (at (vmem vd) (int (b_index (vbuf vd)))) (\<lambda>mapped.
       if \<not> mapped then Inl UseAfterFree
       else if length m < unat n then Inl OutOfBounds
       else case dst of
              None \<Rightarrow> Inl NullDereference
            | Some d \<Rightarrow> if length d < unat n then Inl BufferOverflow else Inr (overwrite (take (unat n) m) d))"

text \<open>The \<^verbatim>\<open>switch(vd->formatIn)\<close>; the flag tells whether the buffer goes back into the queue.\<close>

datatype grabbed = Ignored | Copied | BadFormat

definition store_frame :: "vdIn \<Rightarrow> byte list \<Rightarrow> crash + (grabbed \<times> vdIn)" where
  "store_frame vd m =
     (let used = b_bytesused (vbuf vd)
      in if formatIn vd = V4L2_PIX_FMT_MJPEG then
           if used \<le> HEADERFRAME1 then Inr (Ignored, vd)
           else sbind (copy_frame (tmpbuffer vd) vd m used) (\<lambda>t.
             Inr (Copied, vd\<lparr>tmpbuffer := Some t, tmpbytesused := used, tmptimestamp := b_timestamp (vbuf vd)\<rparr>))
         else if formatIn vd = V4L2_PIX_FMT_YUYV then
           sbind (copy_frame (framebuffer vd) vd m (if used > framesizeIn vd then framesizeIn vd else used)) (\<lambda>f.
             Inr (Copied, vd\<lparr>framebuffer := Some f\<rparr>))
         else Inr (BadFormat, vd))"

definition grab_error :: "vdIn \<times> 'd world \<Rightarrow> crash + (int \<times> vdIn \<times> 'd world)" where
  "grab_error = (\<lambda>(vd, w). Inr (- 1, vd\<lparr>signalquit := False\<rparr>, w))"

definition uvcGrab :: "'d sys \<Rightarrow> 'd step" where
  "uvcGrab io = (\<lambda>(vd, w).
     case (if streamingState vd = STREAMING_OFF then video_enable io (vd, w) else (0, vd, w)) of (e, vd, w) \<Rightarrow>
       if e \<noteq> 0 then grab_error (vd, w)
       else case xioctl io VIDIOC_DQBUF w of (r, w) \<Rightarrow>
         if ret r < 0 then grab_error (vd\<lparr>vbuf := zero_buffer\<rparr>, w)
         else
           let b = rdata r;
               vd = vd\<lparr>vbuf := \<lparr>b_index = d_index b, b_bytesused = d_bytesused b, b_length = d_length b, b_timestamp = d_timestamp b\<rparr>\<rparr>
           in sbind (store_frame vd (d_mem b)) (\<lambda>(g, vd).
                case g of
                  Ignored \<Rightarrow> Inr (0, vd, w)
                | BadFormat \<Rightarrow> grab_error (vd, w)
                | Copied \<Rightarrow>
                    (case xioctl io (VIDIOC_QBUF (b_index (vbuf vd))) w of (q, w) \<Rightarrow>
                       if ret q < 0 then grab_error (vd, w) else Inr (0, vd, w))))"

subsection \<open>Changing the resolution, closing\<close>

fun unmap_buffers :: "'d sys \<Rightarrow> nat list \<Rightarrow> vdIn \<times> 'd world \<Rightarrow> vdIn \<times> 'd world" where
  "unmap_buffers io [] s = s"
| "unmap_buffers io (i # is) (vd, w) =
     unmap_buffers io is (vd\<lparr>vmem := (vmem vd)[i := False]\<rparr>, snd (call io (Munmap i) w))"

definition setResolution :: "'d sys \<Rightarrow> cint \<Rightarrow> cint \<Rightarrow> 'd step" where
  "setResolution io wid hei = (\<lambda>(vd, w).
     case video_disable io STREAMING_PAUSED (vd\<lparr>streamingState := STREAMING_PAUSED\<rparr>, w) of (e, vd, w) \<Rightarrow>
       if e = 0 then
         (case unmap_buffers io [0..<NB_BUFFER] (vd, w) of (vd, w) \<Rightarrow>
          case call io (Close_Video (vd_fd vd)) w of (_, w) \<Rightarrow>
            sbind (init_v4l2 io (vd\<lparr>vd_width := wid, vd_height := hei\<rparr>, w)) (\<lambda>(r, vd, w).
              if r < 0 then Inr (- 1, vd, w) else Inr (0, snd (video_enable io (vd, w)))))
       else Inr (- 1, vd, w))"

definition close_v4l2 :: "'d sys \<Rightarrow> vdIn \<times> 'd world \<Rightarrow> int \<times> vdIn \<times> 'd world" where
  "close_v4l2 io = (\<lambda>(vd, w).
     case (if streamingState vd = STREAMING_ON then snd (video_disable io STREAMING_OFF (vd, w)) else (vd, w)) of (vd, w) \<Rightarrow>
       (0, vd\<lparr>tmpbuffer := None, framebuffer := None, videodevice := None, status := None, pictName := None\<rparr>, w))"

end
