(* ===== verification/Uvc_Queue.thy ===== *)
theory Uvc_Queue
  imports Uvc_Device
begin

text \<open>
  What the operations of \<^verbatim>\<open>v4l2uvc.c\<close> promise about the four capture buffers.  A buffer is either
  with the driver (queued) or with the program (dequeued); \<open>queue_of\<close> reads off the calls made so
  far which buffers the driver holds.  The contract every operation on the open device keeps is
  the locale \<open>camera_op\<close>.
\<close>

subsection \<open>The contract of a device operation\<close>

definition same_buffers :: "vdIn \<Rightarrow> vdIn \<Rightarrow> bool" where
  "same_buffers vd vd' \<longleftrightarrow>
     map_option length (tmpbuffer vd') = map_option length (tmpbuffer vd) \<and>
     map_option length (framebuffer vd') = map_option length (framebuffer vd) \<and>
     framesizeIn vd' = framesizeIn vd \<and> length (vmem vd') = length (vmem vd)"

lemma same_buffers_refl [simp]: "same_buffers vd vd"
  by (simp add: same_buffers_def)

lemma same_buffers_trans: "same_buffers a b \<Longrightarrow> same_buffers b c \<Longrightarrow> same_buffers a c"
  by (simp add: same_buffers_def)

definition extends :: "'d world \<Rightarrow> 'd world \<Rightarrow> bool" where
  "extends w w' \<longleftrightarrow> (\<exists>es. trace w' = trace w @ es)"

lemma extends_refl [simp]: "extends w w"
  by (simp add: extends_def)

lemma extends_trans [trans]: "extends a b \<Longrightarrow> extends b c \<Longrightarrow> extends a c"
  by (auto simp: extends_def)

lemma extends_call: "call io c w = (r, w') \<Longrightarrow> extends w w'"
  by (auto simp: extends_def dest: trace_call)

lemma extends_xioctl: "xioctl io c w = (r, w') \<Longrightarrow> extends w w'"
  by (auto simp: extends_def dest: trace_xioctl)

lemmas extends_intros = extends_call extends_xioctl

locale camera_op =
  fixes f :: "'d step"
  assumes grows: "f (vd, w) = Inr (r, vd', w') \<Longrightarrow> extends w w'"
    and keeps: "f (vd, w) = Inr (r, vd', w') \<Longrightarrow> same_buffers vd vd'"

lemma camera_op_stages: "(\<forall>f\<in>set fs. camera_op f) \<Longrightarrow> camera_op (stages fs)"
proof (induction fs)
  case Nil
  show ?case by unfold_locales auto
next
  case (Cons f fs)
  then have f: "camera_op f" and fs: "camera_op (stages fs)" by auto
  show ?case
  proof
    fix vd w r vd' w' assume "stages (f # fs) (vd, w) = Inr (r, vd', w')"
    then obtain r1 vd1 w1 where one: "f (vd, w) = Inr (r1, vd1, w1)"
      and more: "vd' = vd1 \<and> w' = w1 \<or> stages fs (vd1, w1) = Inr (r, vd', w')"
      by (auto simp: sbind_Inr split: if_splits)
    from camera_op.grows [OF f one] more show "extends w w'"
      by (auto dest: camera_op.grows [OF fs] intro: extends_trans)
    from camera_op.keeps [OF f one] more show "same_buffers vd vd'"
      by (auto dest: camera_op.keeps [OF fs] intro: same_buffers_trans)
  qed
qed

named_theorems device_defs \<open>the steps of init_v4l2\<close>

declare open_device_def [device_defs] query_capabilities_def [device_defs] set_format_def [device_defs]
  set_fps_def [device_defs] request_buffers_def [device_defs] map_buffer_def [device_defs] queue_buffer_def [device_defs]

lemma camera_op_steps:
  "camera_op (open_device io)" "camera_op (query_capabilities io)" "camera_op (set_format io)"
  "camera_op (set_fps io)" "camera_op (request_buffers io)" "camera_op (map_buffer io i)" "camera_op (queue_buffer io i)"
  by (unfold_locales;
      auto simp: device_defs same_buffers_def Let_def split: prod.splits if_splits option.splits
        dest!: extends_call extends_xioctl intro: extends_trans)+

interpretation init: camera_op "init_v4l2 io" for io
  unfolding init_v4l2_def by (intro camera_op_stages) (auto simp: camera_op_steps)

lemma video_enable_op: "video_enable io (vd, w) = (r, vd', w') \<Longrightarrow> extends w w' \<and> same_buffers vd vd'"
  by (auto simp: video_enable_def same_buffers_def split: prod.splits if_splits dest: extends_xioctl)

lemma video_disable_op: "video_disable io st (vd, w) = (r, vd', w') \<Longrightarrow> extends w w' \<and> same_buffers vd vd'"
  by (auto simp: video_disable_def same_buffers_def split: prod.splits if_splits dest: extends_xioctl)

lemma copy_frame_length: "copy_frame dst vd m n = Inr d \<Longrightarrow> map_option length dst = Some (length d)"
  by (auto simp: copy_frame_def sbind_Inr split: if_splits option.splits)

lemma store_frame_keeps: "store_frame vd m = Inr (g, vd') \<Longrightarrow> same_buffers vd vd' \<and> vbuf vd' = vbuf vd"
  by (auto simp: store_frame_def Let_def sbind_Inr same_buffers_def split: if_splits dest!: copy_frame_length)

text \<open>Everything \<^verbatim>\<open>uvcGrab\<close> did when it returns.\<close>

lemma uvcGrab_cases:
  assumes "uvcGrab io (vd, w) = Inr (r, vd', w')"
  obtains (error) "r = - 1" "same_buffers vd vd'" "extends w w'"
  | (frame) vd1 w1 x w2 vd2 g q where
      "(if streamingState vd = STREAMING_OFF then video_enable io (vd, w) else (0, vd, w)) = (0, vd1, w1)"
      "xioctl io VIDIOC_DQBUF w1 = (x, w2)" "0 \<le> ret x"
      "vd2 = vd1\<lparr>vbuf := \<lparr>b_index = d_index (rdata x), b_bytesused = d_bytesused (rdata x),
        b_length = d_length (rdata x), b_timestamp = d_timestamp (rdata x)\<rparr>\<rparr>"
      "store_frame vd2 (d_mem (rdata x)) = Inr (g, vd')"
      "r = 0" "g = Ignored \<and> w' = w2 \<or> g = Copied \<and> xioctl io (VIDIOC_QBUF (d_index (rdata x))) w2 = (q, w') \<and> 0 \<le> ret q"
proof -
  obtain e vd1 w1 where on: "(if streamingState vd = STREAMING_OFF then video_enable io (vd, w) else (0, vd, w)) = (e, vd1, w1)"
    by (metis prod_cases3)
  obtain x w2 where dq: "xioctl io VIDIOC_DQBUF w1 = (x, w2)" by fastforce
  let ?vd2 = "vd1\<lparr>vbuf := \<lparr>b_index = d_index (rdata x), b_bytesused = d_bytesused (rdata x),
        b_length = d_length (rdata x), b_timestamp = d_timestamp (rdata x)\<rparr>\<rparr>"
  have on_op: "extends w w1" "same_buffers vd vd1"
    using on video_enable_op [of io vd w] by (auto split: if_splits)
  have dq_op: "extends w w2" using on_op(1) extends_xioctl [OF dq] by (rule extends_trans)
  note run = assms [unfolded uvcGrab_def prod.case on dq]
  show thesis
  proof (cases "e = 0 \<and> 0 \<le> ret x")
    case False
    then show thesis
      using run on_op dq_op dq by (intro error) (auto simp: grab_error_def same_buffers_def split: if_splits)
  next
    case True
    then obtain g vd3 where st: "store_frame ?vd2 (d_mem (rdata x)) = Inr (g, vd3)"
      using run dq by (auto simp: sbind_Inr Let_def)
    have on0: "(if streamingState vd = STREAMING_OFF then video_enable io (vd, w) else (0, vd, w)) = (0, vd1, w1)"
      using on True by simp
    have same: "same_buffers vd vd3" "vbuf vd3 = vbuf ?vd2"
      using store_frame_keeps [OF st] on_op(2) by (auto simp: same_buffers_def)
    obtain q w3 where qb: "xioctl io (VIDIOC_QBUF (d_index (rdata x))) w2 = (q, w3)" by fastforce
    note run = run [unfolded Let_def]
    show thesis
    proof (cases g)
      case Ignored
      with True st run dq have "vd3 = vd'" "r = 0" "w' = w2" by auto
      then show thesis using frame [OF on0 dq _ refl] True st Ignored by blast
    next
      case BadFormat
      then show thesis using True st run dq same dq_op by (intro error) (auto simp: grab_error_def same_buffers_def)
    next
      case Copied
      show thesis
      proof (cases "ret q < 0")
        case False
        with True st run dq qb same Copied have "vd3 = vd'" "r = 0" "w' = w3" by auto
        then show thesis using frame [OF on0 dq _ refl] True st Copied qb False by auto
      next
        case neg: True
        then show thesis
          using True st run dq qb same Copied extends_trans [OF dq_op extends_xioctl [OF qb]]
          by (intro error) (auto simp: grab_error_def same_buffers_def)
      qed
    qed
  qed
qed

interpretation grab: camera_op "uvcGrab io" for io
proof
  fix vd w r vd' w' assume run: "uvcGrab io (vd, w) = Inr (r, vd', w')"
  have on: "extends w w1 \<and> same_buffers vd vd1"
    if "(if streamingState vd = STREAMING_OFF then video_enable io (vd, w) else (0, vd, w)) = (0, vd1, w1)" for vd1 w1
    using that video_enable_op [of io vd w] by (auto split: if_splits)
  from run show "extends w w'"
    by (cases rule: uvcGrab_cases) (auto dest!: on extends_xioctl intro: extends_trans)
  from run show "same_buffers vd vd'"
    by (cases rule: uvcGrab_cases) (auto dest!: on store_frame_keeps simp: same_buffers_def)
qed

lemma unmap_buffers_op: "unmap_buffers io is (vd, w) = (vd', w') \<Longrightarrow> extends w w' \<and> same_buffers vd vd'"
proof (induction "is" arbitrary: vd w)
  case (Cons i "is")
  then show ?case
    using Cons.IH [of "vd\<lparr>vmem := (vmem vd)[i := False]\<rparr>" "snd (call io (Munmap i) w)"]
      extends_call [of io "Munmap i" w] by (auto simp: same_buffers_def intro: extends_trans) (metis extends_trans prod.collapse)
qed simp

interpretation resize: camera_op "setResolution io wid hei" for io wid hei
proof
  fix vd w r vd' w' assume run: "setResolution io wid hei (vd, w) = Inr (r, vd', w')"
  obtain e vd1 w1 where off: "video_disable io STREAMING_PAUSED (vd\<lparr>streamingState := STREAMING_PAUSED\<rparr>, w) = (e, vd1, w1)"
    by (metis prod_cases3)
  obtain vd2 w2 where um: "unmap_buffers io [0..<NB_BUFFER] (vd1, w1) = (vd2, w2)" by fastforce
  obtain c w3 where cl: "call io (Close_Video (vd_fd vd2)) w2 = (c, w3)" by fastforce
  have "same_buffers vd vd1 \<and> extends w w1" using video_disable_op [OF off] by (simp add: same_buffers_def)
  note first = this
  have second: "same_buffers vd vd2 \<and> extends w w3"
    using first unmap_buffers_op [OF um] extends_call [OF cl] by (meson same_buffers_trans extends_trans)
  have third: "same_buffers vd2 vd' \<and> extends w3 w'" if zero: "e = 0"
  proof -
    obtain r4 vd4 w4 where i: "init_v4l2 io (vd2\<lparr>vd_width := wid, vd_height := hei\<rparr>, w3) = Inr (r4, vd4, w4)"
      and after: "r4 < 0 \<and> vd' = vd4 \<and> w' = w4 \<or> \<not> r4 < 0 \<and> (vd', w') = snd (video_enable io (vd4, w4))"
      using run zero unfolding setResolution_def prod.case off um cl
      by (auto simp: um cl sbind_Inr split: if_splits)
    have "same_buffers vd2 vd4" "extends w3 w4"
      using init.grows [OF i] init.keeps [OF i] by (auto simp: same_buffers_def)
    moreover have "same_buffers vd4 vd' \<and> extends w4 w'"
      using after video_enable_op [of io vd4 w4] by (metis same_buffers_refl extends_refl prod.collapse)
    ultimately show ?thesis by (meson same_buffers_trans extends_trans)
  qed
  have fourth: "vd' = vd1 \<and> w' = w1" if "e \<noteq> 0"
    using run that unfolding setResolution_def prod.case off by auto
  show "extends w w'"
    using first second third fourth extends_trans [of w w3 w'] by (cases "e = 0") auto
  show "same_buffers vd vd'"
    using first second third fourth same_buffers_trans [of vd vd2 vd'] by (cases "e = 0") auto
qed

subsection \<open>Which buffers the driver holds\<close>

text \<open>Every request but \<^verbatim>\<open>open\<close> answers 0 or -1.\<close>

definition plain_results :: "'d sys \<Rightarrow> bool" where
  "plain_results io \<longleftrightarrow> (\<forall>d c. (\<forall>p. c \<noteq> Open_Video p) \<longrightarrow> ret (fst (io d c)) \<in> {0, - 1})"

fun queue_step :: "sys_call \<times> reply \<Rightarrow> nat list \<Rightarrow> nat list" where
  "queue_step (c, r) q =
     (if ret r \<noteq> 0 then q
      else case c of
             VIDIOC_QBUF i \<Rightarrow> q @ [i]
           | VIDIOC_DQBUF \<Rightarrow> remove1 (d_index (rdata r)) q
           | VIDIOC_STREAMOFF \<Rightarrow> []
           | VIDIOC_REQBUFS n \<Rightarrow> []
           | _ \<Rightarrow> q)"

definition queue_of :: "(sys_call \<times> reply) list \<Rightarrow> nat list" where
  "queue_of tr = fold queue_step tr []"

text \<open>A driver hands out only buffers it holds.\<close>

fun orderly_from :: "nat list \<Rightarrow> (sys_call \<times> reply) list \<Rightarrow> bool" where
  "orderly_from q [] = True"
| "orderly_from q ((c, r) # es) =
     ((c = VIDIOC_DQBUF \<and> ret r = 0 \<longrightarrow> d_index (rdata r) \<in> set q) \<and> orderly_from (queue_step (c, r) q) es)"

definition orderly :: "(sys_call \<times> reply) list \<Rightarrow> bool" where
  "orderly tr = orderly_from [] tr"

lemma queue_of_snoc [simp]: "queue_of (tr @ [e]) = queue_step e (queue_of tr)"
  by (simp add: queue_of_def)

lemma orderly_from_append: "orderly_from q (a @ b) \<longleftrightarrow> orderly_from q a \<and> orderly_from (fold queue_step a q) b"
  by (induction q a rule: orderly_from.induct) auto

lemma orderly_append: "orderly (a @ b) \<longleftrightarrow> orderly a \<and> orderly_from (queue_of a) b"
  by (simp add: orderly_def queue_of_def orderly_from_append)

lemma orderly_extends: "extends w w' \<Longrightarrow> orderly (trace w') \<Longrightarrow> orderly (trace w)"
  by (auto simp: extends_def orderly_append)

lemma failed_requests_queue:
  "\<forall>x\<in>set rs. ret x \<noteq> 0 \<Longrightarrow> fold queue_step (map (Pair c) rs) q = q"
  by (induction rs) auto

lemma queue_of_xioctl: "xioctl io c w = (r, w') \<Longrightarrow> queue_of (trace w') = queue_step (c, r) (queue_of (trace w))"
  by (drule trace_xioctl) (auto simp: queue_of_def retried_def failed_requests_queue)

lemma queue_of_call: "call io c w = (r, w') \<Longrightarrow> queue_of (trace w') = queue_step (c, r) (queue_of (trace w))"
  by (drule trace_call) simp

lemma dequeued_held:
  "xioctl io VIDIOC_DQBUF w = (r, w') \<Longrightarrow> ret r = 0 \<Longrightarrow> orderly (trace w') \<Longrightarrow> d_index (rdata r) \<in> set (queue_of (trace w))"
  by (drule trace_xioctl) (auto simp: orderly_append orderly_from_append retried_def failed_requests_queue)

lemma ret_xioctl_loop: "plain_results io \<Longrightarrow> (\<forall>p. c \<noteq> Open_Video p) \<Longrightarrow> ret (fst (xioctl_loop io c n w)) \<in> {0, - 1}"
proof (induction n arbitrary: w)
  case 0
  then show ?case by (auto simp: xioctl_loop.simps [of _ _ 0] call_def plain_results_def split: prod.splits) (metis fst_conv insert_iff singletonD)+
next
  case (Suc n)
  obtain r d where "io (drv w) c = (r, d)" by fastforce
  moreover have "ret r \<in> {0, - 1}" using Suc.prems calculation unfolding plain_results_def by (metis fst_conv)
  ultimately show ?case using Suc by (auto simp: xioctl_loop.simps [of _ _ "Suc n"] call_def)
qed

lemma ret_xioctl: "plain_results io \<Longrightarrow> (\<forall>p. c \<noteq> Open_Video p) \<Longrightarrow> xioctl io c w = (r, w') \<Longrightarrow> 0 \<le> ret r \<longleftrightarrow> ret r = 0"
  using ret_xioctl_loop [of io c IOCTL_RETRY w] by (auto simp: xioctl_def)

lemma xioctl_ok_queue:
  assumes "xioctl io c w = (r, w')" "0 \<le> ret r" "plain_results io" "\<forall>p. c \<noteq> Open_Video p"
  shows "ret r = 0 \<and> queue_of (trace w') = queue_step (c, r) (queue_of (trace w))"
  using ret_xioctl [OF assms(3,4,1)] queue_of_xioctl [OF assms(1)] assms(2) by simp

subsection \<open>Buffers after opening the device\<close>

lemma stages_ok:
  "stages (f # fs) s = Inr (0, s') \<longleftrightarrow> (\<exists>r s1. f s = Inr (r, s1) \<and> 0 \<le> r \<and> stages fs s1 = Inr (0, s'))"
  by (cases "f s") (auto split: if_splits)

lemma stages_append_ok:
  "stages (fs @ gs) s = Inr (0, s') \<longleftrightarrow> (\<exists>s1. stages fs s = Inr (0, s1) \<and> stages gs s1 = Inr (0, s'))"
  by (induction fs arbitrary: s) (auto simp: stages_ok simp del: stages.simps(2))

lemma request_buffers_queue:
  "plain_results io \<Longrightarrow> request_buffers io (vd, w) = Inr (r, vd', w') \<Longrightarrow> 0 \<le> r \<Longrightarrow> queue_of (trace w') = [] \<and> vd' = vd"
  by (auto simp: request_buffers_def split: prod.splits dest: xioctl_ok_queue)

lemma map_buffer_queue:
  "map_buffer io i (vd, w) = Inr (r, vd', w') \<Longrightarrow> 0 \<le> r \<Longrightarrow>
    queue_of (trace w') = queue_of (trace w) \<and> vmem vd' = (vmem vd)[i := True]"
  by (auto simp: map_buffer_def Let_def split: prod.splits if_splits dest!: queue_of_xioctl queue_of_call)

lemma queue_buffer_queue:
  "plain_results io \<Longrightarrow> queue_buffer io i (vd, w) = Inr (r, vd', w') \<Longrightarrow> 0 \<le> r \<Longrightarrow>
    queue_of (trace w') = queue_of (trace w) @ [i] \<and> vmem vd' = vmem vd"
  by (auto simp: queue_buffer_def split: prod.splits dest: xioctl_ok_queue)

lemma map_buffers_queue:
  "stages (map (map_buffer io) is) (vd, w) = Inr (0, vd', w') \<Longrightarrow>
    queue_of (trace w') = queue_of (trace w) \<and> vmem vd' = fold (\<lambda>i m. m[i := True]) is (vmem vd)"
proof (induction "is" arbitrary: vd w)
  case (Cons i "is")
  then obtain r vd1 w1 where "map_buffer io i (vd, w) = Inr (r, vd1, w1)" "0 \<le> r"
    "stages (map (map_buffer io) is) (vd1, w1) = Inr (0, vd', w')"
    by (auto simp: stages_ok simp del: stages.simps(2))
  with Cons.IH [of vd1 w1] map_buffer_queue [of io i vd w] show ?case by simp
qed simp

lemma queue_buffers_queue:
  assumes "plain_results io"
  shows "stages (map (queue_buffer io) is) (vd, w) = Inr (0, vd', w') \<Longrightarrow>
    queue_of (trace w') = queue_of (trace w) @ is \<and> vmem vd' = vmem vd"
proof (induction "is" arbitrary: vd w)
  case (Cons i "is")
  then obtain r vd1 w1 where "queue_buffer io i (vd, w) = Inr (r, vd1, w1)" "0 \<le> r"
    "stages (map (queue_buffer io) is) (vd1, w1) = Inr (0, vd', w')"
    by (auto simp: stages_ok simp del: stages.simps(2))
  with Cons.IH [of vd1 w1] queue_buffer_queue [OF assms, of i vd w] show ?case by simp
qed simp

text \<open>All four buffers are mapped and with the driver.\<close>

lemma init_v4l2_queue:
  assumes "plain_results io" "length (vmem vd) = NB_BUFFER" "init_v4l2 io (vd, w) = Inr (0, vd', w')"
  shows "queue_of (trace w') = [0, 1, 2, 3]" "vmem vd' = replicate NB_BUFFER True"
proof -
  let ?front = "[open_device io, query_capabilities io, set_format io, set_fps io]"
  have split: "[open_device io, query_capabilities io, set_format io, set_fps io, request_buffers io] = ?front @ [request_buffers io]"
    by simp
  obtain vd1 w1 vd2 w2 vd3 w3 where front: "stages ?front (vd, w) = Inr (0, vd1, w1)"
    and req: "stages [request_buffers io] (vd1, w1) = Inr (0, vd2, w2)"
    and maps: "stages (map (map_buffer io) [0..<NB_BUFFER]) (vd2, w2) = Inr (0, vd3, w3)"
    and queues: "stages (map (queue_buffer io) [0..<NB_BUFFER]) (vd3, w3) = Inr (0, vd', w')"
    using assms(3) unfolding init_v4l2_def split append_assoc stages_append_ok by auto
  have "length (vmem vd1) = NB_BUFFER"
    using camera_op.keeps [OF camera_op_stages front] assms(2) by (auto simp: camera_op_steps same_buffers_def)
  moreover have "queue_of (trace w2) = [] \<and> vd2 = vd1"
    using req request_buffers_queue [OF assms(1)] by (auto simp: stages_ok simp del: stages.simps(2))
  moreover have nb: "[0..<NB_BUFFER] = [0, 1, 2, 3]" by (simp add: NB_BUFFER_def upt_rec)
  moreover have "xs[0 := True, 1 := True, 2 := True, 3 := True] = replicate NB_BUFFER True" if "length xs = NB_BUFFER" for xs :: "bool list"
    using that by (auto simp: NB_BUFFER_def list_eq_iff_nth_eq nth_list_update less_Suc_eq numeral_eq_Suc)
  ultimately show "queue_of (trace w') = [0, 1, 2, 3]" "vmem vd' = replicate NB_BUFFER True"
    using map_buffers_queue [OF maps] queue_buffers_queue [OF assms(1) queues] by simp_all
qed

subsection \<open>Buffers while frames are taken\<close>

definition ignored_frame :: "vdIn \<Rightarrow> bool" where
  "ignored_frame vd \<longleftrightarrow> formatIn vd = V4L2_PIX_FMT_MJPEG \<and> b_bytesused (vbuf vd) \<le> HEADERFRAME1"

lemma store_frame_ignored:
  "store_frame vd m = Inr (g, vd') \<Longrightarrow> (g = Ignored \<longleftrightarrow> ignored_frame vd) \<and> ignored_frame vd' = ignored_frame vd"
  by (auto simp: store_frame_def Let_def ignored_frame_def sbind_Inr split: if_splits)

lemma uvcGrab_queue:
  assumes "plain_results io" "uvcGrab io (vd, w) = Inr (0, vd', w')" "orderly (trace w')"
  shows "b_index (vbuf vd') \<in> set (queue_of (trace w))"
    "queue_of (trace w') =
      remove1 (b_index (vbuf vd')) (queue_of (trace w)) @ (if ignored_frame vd' then [] else [b_index (vbuf vd')])"
proof -
  from assms(2) obtain vd1 w1 x w2 vd2 g q where
    on: "(if streamingState vd = STREAMING_OFF then video_enable io (vd, w) else (0, vd, w)) = (0, vd1, w1)"
    and dq: "xioctl io VIDIOC_DQBUF w1 = (x, w2)" "0 \<le> ret x"
    and vd2: "vbuf vd2 = \<lparr>b_index = d_index (rdata x), b_bytesused = d_bytesused (rdata x),
        b_length = d_length (rdata x), b_timestamp = d_timestamp (rdata x)\<rparr>"
    and st: "store_frame vd2 (d_mem (rdata x)) = Inr (g, vd')"
    and qb: "g = Ignored \<and> w' = w2 \<or> g = Copied \<and> xioctl io (VIDIOC_QBUF (d_index (rdata x))) w2 = (q, w') \<and> 0 \<le> ret q"
  proof (cases rule: uvcGrab_cases)
    case error
    then show thesis by simp
  next
    case (frame vd1 w1 x w2 vd2 g q)
    show thesis by (rule that [OF frame(1-3) _ frame(5,7)]) (simp add: frame(4))
  qed
  have same: "queue_of (trace w1) = queue_of (trace w)"
    using on by (auto simp: video_enable_def split: if_splits prod.splits dest!: queue_of_xioctl)
  have idx: "b_index (vbuf vd') = d_index (rdata x)" using store_frame_keeps [OF st] vd2 by simp
  have zero: "ret x = 0" using ret_xioctl [OF assms(1) _ dq(1)] dq(2) by simp
  have "extends w2 w'" using qb extends_xioctl by auto
  then have "orderly (trace w2)" using assms(3) by (rule orderly_extends)
  with dequeued_held [OF dq(1) zero] show "b_index (vbuf vd') \<in> set (queue_of (trace w))" by (simp add: same idx)
  have "queue_of (trace w2) = remove1 (d_index (rdata x)) (queue_of (trace w))"
    using queue_of_xioctl [OF dq(1)] zero same by simp
  moreover have "g = Ignored \<longleftrightarrow> ignored_frame vd'" using store_frame_ignored [OF st] by simp
  moreover have "queue_of (trace w') = queue_of (trace w2) @ (if g = Ignored then [] else [d_index (rdata x)])"
    using qb xioctl_ok_queue [OF _ _ assms(1)] by auto
  ultimately show "queue_of (trace w') =
      remove1 (b_index (vbuf vd')) (queue_of (trace w)) @ (if ignored_frame vd' then [] else [b_index (vbuf vd')])"
    by (simp add: idx)
qed

text \<open>A number of frames taken one after the other, and how many of them were ignored as empty.\<close>

inductive grab_run :: "'d sys \<Rightarrow> vdIn \<times> 'd world \<Rightarrow> nat \<Rightarrow> vdIn \<times> 'd world \<Rightarrow> bool" for io s where
  start: "grab_run io s 0 s"
| taken: "grab_run io s k s1 \<Longrightarrow> uvcGrab io s1 = Inr (0, s2) \<Longrightarrow> \<not> ignored_frame (fst s2) \<Longrightarrow> grab_run io s k s2"
| empty: "grab_run io s k s1 \<Longrightarrow> uvcGrab io s1 = Inr (0, s2) \<Longrightarrow> ignored_frame (fst s2) \<Longrightarrow> grab_run io s (Suc k) s2"

inductive_cases grab_run_emptyE: "grab_run io s (Suc k) s2"

lemma length_remove1_Suc: "x \<in> set q \<Longrightarrow> Suc (length (remove1 x q)) = length q"
  by (induction q) auto

lemma grab_run_queue:
  assumes "grab_run io s k s'" "plain_results io" "distinct (queue_of (trace (snd s)))" "orderly (trace (snd s'))"
  shows "distinct (queue_of (trace (snd s'))) \<and> set (queue_of (trace (snd s'))) \<subseteq> set (queue_of (trace (snd s))) \<and>
    length (queue_of (trace (snd s'))) + k = length (queue_of (trace (snd s)))"
  using assms
proof (induction rule: grab_run.induct)
  case (taken k s1 s2)
  obtain vd1 w1 vd2 w2 where [simp]: "s1 = (vd1, w1)" "s2 = (vd2, w2)" by fastforce
  have g: "uvcGrab io (vd1, w1) = Inr (0, vd2, w2)" using taken.hyps(2) by simp
  have "orderly (trace w1)" using orderly_extends [OF grab.grows [OF g]] taken.prems(3) by simp
  with taken uvcGrab_queue [OF taken.prems(1) g] show ?case
    by (auto dest: notin_set_remove1 simp: length_remove1_Suc [symmetric] simp del: length_remove1)
next
  case (empty k s1 s2)
  obtain vd1 w1 vd2 w2 where [simp]: "s1 = (vd1, w1)" "s2 = (vd2, w2)" by fastforce
  have g: "uvcGrab io (vd1, w1) = Inr (0, vd2, w2)" using empty.hyps(2) by simp
  have "orderly (trace w1)" using orderly_extends [OF grab.grows [OF g]] empty.prems(3) by simp
  with empty uvcGrab_queue [OF empty.prems(1) g] show ?case
    by (auto dest: notin_set_remove1 simp: length_remove1_Suc [symmetric] simp del: length_remove1)
qed auto

text \<open>
  C28. An ignored frame costs a buffer.  After the device is opened the driver holds all four buffers.
  A frame that is copied gives its buffer back; a frame that is ignored as empty keeps it.  After
  \<open>k\<close> ignored frames the driver holds four minus \<open>k\<close> buffers, so at most four empty frames can ever be
  taken, and after the fourth the driver has no buffer left to fill.
\<close>

theorem ignored_frames_lose_buffers:
  assumes "plain_results io" "length (vmem vd) = NB_BUFFER" "init_v4l2 io (vd, w) = Inr (0, s0)"
    and "grab_run io s0 k s" "orderly (trace (snd s))"
  shows "distinct (queue_of (trace (snd s))) \<and> set (queue_of (trace (snd s))) \<subseteq> {0, 1, 2, 3} \<and>
    length (queue_of (trace (snd s))) + k = 4"
proof -
  have "init_v4l2 io (vd, w) = Inr (0, fst s0, snd s0)" using assms(3) by simp
  then have "queue_of (trace (snd s0)) = [0, 1, 2, 3]" by (rule init_v4l2_queue(1) [OF assms(1,2)])
  with grab_run_queue [OF assms(4,1) _ assms(5)] show ?thesis by auto
qed

text \<open>
  A camera for concrete runs: its state is the queue of buffers and the frames to come; it grants
  every size, lists one format with two sizes, and answers the requests about buffers as the V4L2 interface describes them.
\<close>

definition camera :: "(nat list \<times> byte list list) sys" where
  "camera = (\<lambda>(q, fs) c.
     case c of
       Open_Video p \<Rightarrow> (\<lparr>ret = 3, errno = 0, rdata = no_data\<rparr>, q, fs)
     | VIDIOC_QUERYCAP \<Rightarrow> (ok_with (no_data\<lparr>d_capabilities := 0x04000001\<rparr>), q, fs)
     | VIDIOC_S_FMT wi he p \<Rightarrow> (ok_with (no_data\<lparr>d_width := wi, d_height := he, d_pixelformat := p\<rparr>), q, fs)
     | VIDIOC_ENUM_FMT i \<Rightarrow>
         (if i = 0 then ok_with (no_data\<lparr>d_pixelformat := V4L2_PIX_FMT_MJPEG\<rparr>) else fails_with EINVAL, q, fs)
     | VIDIOC_ENUM_FRAMESIZES j p \<Rightarrow>
         (if j = 0 then ok_with (no_data\<lparr>d_width := 640, d_height := 480\<rparr>)
          else if j = 1 then ok_with (no_data\<lparr>d_width := 320, d_height := 240\<rparr>)
          else fails_with EINVAL, q, fs)
     | VIDIOC_REQBUFS n \<Rightarrow> (ok_with no_data, [], fs)
     | VIDIOC_STREAMOFF \<Rightarrow> (ok_with no_data, [], fs)
     | VIDIOC_QBUF i \<Rightarrow> (ok_with no_data, q @ [i], fs)
     | VIDIOC_DQBUF \<Rightarrow>
         (case (q, fs) of
            (i # q, f # fs) \<Rightarrow>
              (ok_with (no_data\<lparr>d_index := i, d_bytesused := of_nat (length f), d_mem := f\<rparr>), q, fs)
          | _ \<Rightarrow> (fails_with EINVAL, q, fs))
     | _ \<Rightarrow> (ok_with no_data, q, fs))"

lemma camera_results: "plain_results camera"
  by (auto simp: plain_results_def camera_def split: sys_call.splits list.splits)

lemma camera_call [simp]: "xioctl camera c w = call camera c w"
  by (rule xioctl_call) (auto simp: camera_def retry_errno_def errno_defs split: prod.splits sys_call.splits list.splits)

definition fresh_camera :: "byte list list \<Rightarrow> (nat list \<times> byte list list) world" where
  "fresh_camera fs = \<lparr>drv = ([], fs), trace = []\<rparr>"

definition sample_vd :: vdIn where
  "sample_vd = zero_vdIn\<lparr>videodevice := Some ''/dev/video0'', grabmethod := 1, vd_width := 16, vd_height := 16, vd_fps := 5,
     formatIn := V4L2_PIX_FMT_MJPEG, framesizeIn := 512, tmpbuffer := Some (replicate 512 0)\<rparr>"

lemma camera_simps:
  "camera (q, fs) (Open_Video p) = (\<lparr>ret = 3, errno = 0, rdata = no_data\<rparr>, q, fs)"
  "camera (q, fs) (Close_Video fd) = (ok_with no_data, q, fs)"
  "camera (q, fs) (Mmap i) = (ok_with no_data, q, fs)"
  "camera (q, fs) (Munmap i) = (ok_with no_data, q, fs)"
  "camera (q, fs) Alloc = (ok_with no_data, q, fs)"
  "camera (q, fs) VIDIOC_QUERYCAP = (ok_with (no_data\<lparr>d_capabilities := 0x04000001\<rparr>), q, fs)"
  "camera (q, fs) (VIDIOC_S_FMT wi he px) = (ok_with (no_data\<lparr>d_width := wi, d_height := he, d_pixelformat := px\<rparr>), q, fs)"
  "camera (q, fs) (VIDIOC_S_PARM rate) = (ok_with no_data, q, fs)"
  "camera (q, fs) (VIDIOC_REQBUFS n) = (ok_with no_data, [], fs)"
  "camera (q, fs) (VIDIOC_QUERYBUF i) = (ok_with no_data, q, fs)"
  "camera (q, fs) (VIDIOC_QBUF i) = (ok_with no_data, q @ [i], fs)"
  "camera (i # q, f # fs) VIDIOC_DQBUF =
    (ok_with (no_data\<lparr>d_index := i, d_bytesused := of_nat (length f), d_mem := f\<rparr>), q, fs)"
  "camera (q, fs) (VIDIOC_S_CTRL cid v) = (ok_with no_data, q, fs)"
  "camera (q, fs) VIDIOC_STREAMON = (ok_with no_data, q, fs)"
  "camera (q, fs) VIDIOC_STREAMOFF = (ok_with no_data, [], fs)"
  by (simp_all add: camera_def)

lemmas camera_run_simps = camera_simps call_def fresh_camera_def sample_vd_def zero_vdIn_def zero_buffer_def
  no_data_def NB_BUFFER_def device_defs Let_def

lemma numeral_upt: "[0..<4::nat] = [0, 1, 2, 3]"
  by (simp add: upt_rec)

lemma camera_init:
  assumes "drv w = (q, fs)" "videodevice vd = Some dev" "grabmethod vd = 1"
  shows "\<exists>s. init_v4l2 camera (vd, w) = Inr (0, s) \<and> drv (snd s) = ([0, 1, 2, 3], fs) \<and>
    formatIn (fst s) = formatIn vd \<and> streamingState (fst s) = streamingState vd \<and> orderly (trace (snd s)) = orderly (trace w)"
  using assms by (simp add: init_v4l2_def camera_run_simps numeral_upt V4L2_CAP_VIDEO_CAPTURE_def V4L2_CAP_STREAMING_def orderly_append)

theorem ignored_frames_lose_buffers_witness:
  "\<exists>s0 s. init_v4l2 camera (sample_vd, fresh_camera [[]]) = Inr (0, s0) \<and> grab_run camera s0 1 s \<and>
    distinct (queue_of (trace (snd s))) \<and> set (queue_of (trace (snd s))) \<subseteq> {0, 1, 2, 3} \<and>
    length (queue_of (trace (snd s))) + 1 = 4"
proof -
  obtain s0 where s0: "init_v4l2 camera (sample_vd, fresh_camera [[]]) = Inr (0, s0)" "drv (snd s0) = ([0, 1, 2, 3], [[]])"
    "orderly (trace (snd s0))" "formatIn (fst s0) = V4L2_PIX_FMT_MJPEG" "streamingState (fst s0) = STREAMING_OFF"
    using camera_init [of "fresh_camera [[]]" "[]" "[[]]" sample_vd]
    by (auto simp: fresh_camera_def sample_vd_def zero_vdIn_def orderly_def)
  have vm: "length (vmem sample_vd) = NB_BUFFER" by (simp add: sample_vd_def zero_vdIn_def)
  have "init_v4l2 camera (sample_vd, fresh_camera [[]]) = Inr (0, fst s0, snd s0)" using s0(1) by simp
  note q0 = init_v4l2_queue(1) [OF camera_results vm this]
  have "\<exists>s. uvcGrab camera (fst s0, snd s0) = Inr (0, s) \<and> ignored_frame (fst s) \<and> orderly (trace (snd s))"
    using s0(2-5) q0 by (cases "snd s0")
      (simp add: uvcGrab_def video_enable_def call_def camera_simps store_frame_def ignored_frame_def no_data_def HEADERFRAME1_def
        sample_vd_def zero_vdIn_def Let_def orderly_append)
  then obtain s where s: "uvcGrab camera s0 = Inr (0, s)" "ignored_frame (fst s)" "orderly (trace (snd s))" by auto
  then have "grab_run camera s0 1 s" using grab_run.empty [OF grab_run.start] by simp
  with ignored_frames_lose_buffers [OF camera_results vm s0(1) this s(3)] s0(1) show ?thesis by blast
qed

subsection \<open>Changing the resolution\<close>

lemma steps_state:
  "open_device io (vd, w) = Inr (r, vd', w') \<Longrightarrow> streamingState vd' = streamingState vd \<and> formatIn vd' = formatIn vd"
  "query_capabilities io (vd, w) = Inr (r, vd', w') \<Longrightarrow> streamingState vd' = streamingState vd \<and> formatIn vd' = formatIn vd"
  "set_format io (vd, w) = Inr (r, vd', w') \<Longrightarrow> streamingState vd' = streamingState vd \<and> formatIn vd' = formatIn vd"
  "set_fps io (vd, w) = Inr (r, vd', w') \<Longrightarrow> streamingState vd' = streamingState vd \<and> formatIn vd' = formatIn vd"
  "request_buffers io (vd, w) = Inr (r, vd', w') \<Longrightarrow> streamingState vd' = streamingState vd \<and> formatIn vd' = formatIn vd"
  "map_buffer io i (vd, w) = Inr (r, vd', w') \<Longrightarrow> streamingState vd' = streamingState vd \<and> formatIn vd' = formatIn vd"
  "queue_buffer io i (vd, w) = Inr (r, vd', w') \<Longrightarrow> streamingState vd' = streamingState vd \<and> formatIn vd' = formatIn vd"
  by (auto simp: device_defs Let_def split: prod.splits if_splits option.splits)

lemma init_v4l2_state:
  assumes "init_v4l2 io (vd, w) = Inr (r, vd', w')"
  shows "streamingState vd' = streamingState vd \<and> formatIn vd' = formatIn vd \<and> (r = 0 \<or> r = - 1)"
proof -
  have "streamingState vd' = streamingState vd \<and> formatIn vd' = formatIn vd \<and> (r = 0 \<or> r = - 1)"
    if "\<forall>f\<in>set fs. \<forall>vd w r vd' w'. f (vd, w) = Inr (r, vd', w') \<longrightarrow> streamingState vd' = streamingState vd \<and> formatIn vd' = formatIn vd"
      "stages fs (vd, w) = Inr (r, vd', w')" for fs r vd' w' and vd :: vdIn and w :: "'a world"
    using that
  proof (induction fs arbitrary: vd w)
    case (Cons f fs)
    then obtain r1 vd1 w1 where "f (vd, w) = Inr (r1, vd1, w1)"
      "vd' = vd1 \<and> r = - 1 \<or> stages fs (vd1, w1) = Inr (r, vd', w')"
      by (auto simp: sbind_Inr split: if_splits)
    with Cons show ?case by (metis list.set_intros)
  qed simp
  from this [OF _ assms [unfolded init_v4l2_def]] show ?thesis
    by (auto dest: steps_state)
qed

lemma unmap_buffers_state: "streamingState (fst (unmap_buffers io is s)) = streamingState (fst s)"
  by (induction io "is" s rule: unmap_buffers.induct) auto

lemma setResolution_state:
  assumes "setResolution io wid hei (vd, w) = Inr (r, vd', w')"
  shows "streamingState vd' = STREAMING_ON \<and> r = 0 \<or> streamingState vd' = STREAMING_PAUSED"
proof -
  obtain e vd1 w1 where off: "video_disable io STREAMING_PAUSED (vd\<lparr>streamingState := STREAMING_PAUSED\<rparr>, w) = (e, vd1, w1)"
    by (metis prod_cases3)
  obtain vd2 w2 where um: "unmap_buffers io [0..<NB_BUFFER] (vd1, w1) = (vd2, w2)" by fastforce
  obtain c w3 where cl: "call io (Close_Video (vd_fd vd2)) w2 = (c, w3)" by fastforce
  have one: "streamingState vd1 = STREAMING_PAUSED"
    using off by (auto simp: video_disable_def split: prod.splits if_splits)
  then have two: "streamingState vd2 = STREAMING_PAUSED"
    using um unmap_buffers_state [of io "[0..<NB_BUFFER]" "(vd1, w1)"] by simp
  show ?thesis
  proof (cases "e = 0")
    case True
    then obtain r4 vd4 w4 where i: "init_v4l2 io (vd2\<lparr>vd_width := wid, vd_height := hei\<rparr>, w3) = Inr (r4, vd4, w4)"
      and after: "r4 < 0 \<and> vd' = vd4 \<or> r = 0 \<and> (vd', w') = snd (video_enable io (vd4, w4))"
      using assms unfolding setResolution_def prod.case off um cl
      by (auto simp: um cl sbind_Inr split: if_splits)
    have "streamingState vd4 = STREAMING_PAUSED" using init_v4l2_state [OF i] two by simp
    with after show ?thesis by (auto simp: video_enable_def split: prod.splits if_splits)
  next
    case False
    then show ?thesis using assms one unfolding setResolution_def prod.case off by auto
  qed
qed

end
