(* ===== verification/Uvc_Formats.thy ===== *)
theory Uvc_Formats
  imports Uvc_Queue Http_Json
begin

text \<open>
  \<^verbatim>\<open>init_videoIn\<close> of \<^verbatim>\<open>src/mjpg-streamer/plugins/input_uvc/v4l2uvc.c\<close>: opening the device, listing its
  formats and frame sizes into the plugin's shared record and allocating the frame buffers.  The
  two enumeration loops end when the driver refuses an index; a driver that never does keeps
  them running, which is the value \<open>None\<close>.
\<close>

subsection \<open>The code\<close>

text \<open>\<^verbatim>\<open>currentResolution\<close> is a \<^verbatim>\<open>char\<close>, which is unsigned on the target.\<close>

definition to_char :: "int \<Rightarrow> int" where
  "to_char i = i mod 256"

partial_function (option) enum_sizes ::
  "'d sys \<Rightarrow> cint \<Rightarrow> nat \<Rightarrow> input_resolution list \<Rightarrow> 'd world \<Rightarrow> (bool \<times> input_resolution list \<times> 'd world) option"
where
  "enum_sizes io pix j acc w =
     (case xioctl io (VIDIOC_ENUM_FRAMESIZES j pix) w of (r, w) \<Rightarrow>
        if ret r = 0 then
          (case call io Alloc w of (m, w) \<Rightarrow>
             if ret m \<noteq> 0 then Some (False, acc, w)
             else enum_sizes io pix (Suc j)
               (acc @ [\<lparr>width = unat (d_width (rdata r)), height = unat (d_height (rdata r))\<rparr>]) w)
        else Some (True, acc, w))"

definition new_format :: "nat \<Rightarrow> cint \<Rightarrow> cint \<Rightarrow> input_resolution list \<Rightarrow> input_format" where
  "new_format i pix format sizes =
     \<lparr>fmt_index = i, pixelformat = pix, supportedResolutions = sizes,
      currentResolution = to_char (if pix = format then int (length sizes) - 1 else - 1)\<rparr>"

text \<open>
  The outer loop; \<open>fs\<close> are the formats stored so far, \<open>n\<close> is \<^verbatim>\<open>formatCount\<close> and \<open>cur\<close> is \<^verbatim>\<open>currentFormat\<close>.
  The flag is false when memory ran out, where the function returns at once.
\<close>

partial_function (option) enum_formats ::
  "'d sys \<Rightarrow> cint \<Rightarrow> input_format list \<Rightarrow> nat \<Rightarrow> int \<Rightarrow> 'd world \<Rightarrow>
    (bool \<times> input_format list \<times> nat \<times> int \<times> 'd world) option"
where
  "enum_formats io format fs n cur w =
     (case xioctl io (VIDIOC_ENUM_FMT n) w of (r, w) \<Rightarrow>
        if ret r < 0 then Some (True, fs, n, cur, w)
        else (case call io Alloc w of (m, w) \<Rightarrow>
          if ret m \<noteq> 0 then Some (False, [], n, cur, w)
          else
            let pix = d_pixelformat (rdata r);
                cur = (if pix = format then int n else cur)
            in Option.bind (enum_sizes io pix 0 [] w) (\<lambda>(ok, sizes, w).
                 if ok then enum_formats io format (fs @ [new_format n pix format sizes]) (Suc n) cur w
                 else Some (False, fs @ [(new_format n pix format sizes)\<lparr>supportedResolutions := []\<rparr>], n, cur, w))))"

text \<open>\<^verbatim>\<open>calloc(1, n)\<close> for a frame buffer.\<close>

definition calloc_bytes :: "'d sys \<Rightarrow> cint \<Rightarrow> 'd world \<Rightarrow> byte list option \<times> 'd world" where
  "calloc_bytes io n w =
     (case call io Alloc w of (m, w) \<Rightarrow> (if ret m \<noteq> 0 then None else Some (replicate (unat n) 0), w))"

definition frame_size :: "cint \<Rightarrow> cint \<Rightarrow> cint" where
  "frame_size wid hei = push_bit 1 (wid * hei)"

definition alloc_buffers :: "'d sys \<Rightarrow> vdIn \<times> 'd world \<Rightarrow> int \<times> vdIn \<times> 'd world" where
  "alloc_buffers io = (\<lambda>(vd, w).
     let vd = vd\<lparr>framesizeIn := frame_size (vd_width vd) (vd_height vd)\<rparr>
     in if formatIn vd = V4L2_PIX_FMT_MJPEG then
          (case calloc_bytes io (framesizeIn vd) w of (t, w) \<Rightarrow>
             if t = None then (- 1, vd\<lparr>tmpbuffer := None\<rparr>, w)
             else case calloc_bytes io (vd_width vd * (vd_height vd + 8) * 2) w of (f, w) \<Rightarrow>
               (if f = None then - 1 else 0, vd\<lparr>tmpbuffer := t, framebuffer := f\<rparr>, w))
        else if formatIn vd = V4L2_PIX_FMT_YUYV then
          (case calloc_bytes io (framesizeIn vd) w of (f, w) \<Rightarrow>
             (if f = None then - 1 else 0, vd\<lparr>framebuffer := f\<rparr>, w))
        else (- 1, vd, w))"

text \<open>The label \<^verbatim>\<open>error\<close>: the freed pointers are not used again.\<close>

definition init_error :: "'d sys \<Rightarrow> nat \<Rightarrow> vdIn \<times> globals \<times> 'd world \<Rightarrow> int \<times> vdIn \<times> globals \<times> 'd world" where
  "init_error io i = (\<lambda>(vd, g, w).
     (- 1, vd\<lparr>videodevice := None, status := None, pictName := None\<rparr>, upd_in i (\<lambda>p. p\<lparr>in_parameters := None\<rparr>) g,
      snd (call io (Close_Video (vd_fd vd)) w)))"

text \<open>\<^verbatim>\<open>snprintf(vd->videodevice, 12, "%s", device)\<close>.\<close>

definition device_name :: "string \<Rightarrow> string" where
  "device_name device = take 11 device"

definition prepare_vdIn :: "string \<Rightarrow> cint \<Rightarrow> cint \<Rightarrow> int \<Rightarrow> cint \<Rightarrow> int \<Rightarrow> vdIn \<Rightarrow> vdIn" where
  "prepare_vdIn device wid hei fps format grab vd =
     vd\<lparr>videodevice := Some (device_name device), status := Some [], pictName := Some [],
        toggleAvi := False, getPict := False, signalquit := True, vd_width := wid, vd_height := hei,
        vd_fps := fps, formatIn := format, grabmethod := (if grab < 0 \<or> grab > 1 then 1 else grab)\<rparr>"

definition init_videoIn ::
  "'d sys \<Rightarrow> vdIn \<Rightarrow> string option \<Rightarrow> cint \<Rightarrow> cint \<Rightarrow> int \<Rightarrow> cint \<Rightarrow> int \<Rightarrow> globals \<Rightarrow> nat \<Rightarrow> 'd world \<Rightarrow>
    (crash + (int \<times> vdIn \<times> globals \<times> 'd world)) option"
where
  "init_videoIn io vd device wid hei fps format grab g i w =
     (case device of
        None \<Rightarrow> Some (Inr (- 1, vd, g, w))
      | Some dev \<Rightarrow>
          if wid = 0 \<or> hei = 0 then Some (Inr (- 1, vd, g, w))
          else
            case call io Alloc w of (m, w) \<Rightarrow>
            case call io Alloc w of (_, w) \<Rightarrow>
            case call io Alloc w of (_, w) \<Rightarrow>
            if ret m \<noteq> 0 then Some (Inl NullDereference)
            else
              case init_v4l2 io (prepare_vdIn dev wid hei fps format grab vd, w) of
                Inl e \<Rightarrow> Some (Inl e)
              | Inr (r, vd, w) \<Rightarrow>
                  if r < 0 then Some (Inr (init_error io i (vd, g, w)))
                  else
                    case xioctl io VIDIOC_G_FMT w of (_, w) \<Rightarrow>
                    Option.bind (enum_formats io format [] 0 (currentFormat (gin g ! i)) w) (\<lambda>(ok, fs, n, cur, w).
                      let g = upd_in i (\<lambda>p. p\<lparr>in_formats := fs, formatCount := int n, currentFormat := cur\<rparr>) g
                      in if \<not> ok then Some (Inr (- 1, vd, g, w))
                         else
                           (case alloc_buffers io (vd, w) of (r, vd, w) \<Rightarrow>
                              Some (Inr (if r < 0 then init_error io i (vd, g, w) else (0, vd, g, w))))))"

subsection \<open>The lists of formats and sizes\<close>

text \<open>
  A driver that offers the formats of a table, each with its frame sizes, and refuses the first
  index behind each list with \<^verbatim>\<open>EINVAL\<close>, as the V4L2 interface describes the two enumerations; the
  allocator has memory.
\<close>

type_synonym format_table = "(cint \<times> (cint \<times> cint) list) list"

definition answers_index :: "nat \<Rightarrow> nat \<Rightarrow> reply \<Rightarrow> bool" where
  "answers_index i n r \<longleftrightarrow> (if i < n then ret r = 0 else ret r = - 1 \<and> errno r = EINVAL)"

definition has_memory :: "'d sys \<Rightarrow> bool" where
  "has_memory io \<longleftrightarrow> (\<forall>d. ret (fst (io d Alloc)) = 0)"

definition offers :: "'d sys \<Rightarrow> format_table \<Rightarrow> bool" where
  "offers io tbl \<longleftrightarrow>
     (\<forall>d i. answers_index i (length tbl) (fst (io d (VIDIOC_ENUM_FMT i))) \<and>
       (i < length tbl \<longrightarrow> d_pixelformat (rdata (fst (io d (VIDIOC_ENUM_FMT i)))) = fst (tbl ! i))) \<and>
     (\<forall>d j pix ss. (pix, ss) \<in> set tbl \<longrightarrow>
       answers_index j (length ss) (fst (io d (VIDIOC_ENUM_FRAMESIZES j pix))) \<and>
       (j < length ss \<longrightarrow> d_width (rdata (fst (io d (VIDIOC_ENUM_FRAMESIZES j pix)))) = fst (ss ! j) \<and>
          d_height (rdata (fst (io d (VIDIOC_ENUM_FRAMESIZES j pix)))) = snd (ss ! j))) \<and>
     has_memory io"

definition resolution :: "cint \<times> cint \<Rightarrow> input_resolution" where
  "resolution = (\<lambda>(x, y). \<lparr>width = unat x, height = unat y\<rparr>)"

lemma xioctl_index:
  assumes "\<forall>d. answers_index i n (fst (io d c))"
  shows "\<exists>d' w'. xioctl io c w = (fst (io d' c), w') \<and> answers_index i n (fst (io d' c))"
proof -
  have "ret (fst (io d c)) = 0 \<or> \<not> retry_errno (errno (fst (io d c)))" for d
    using spec [OF assms, of d] by (auto simp: answers_index_def retry_errno_def errno_defs split: if_splits)
  then have "xioctl io c w = call io c w" by (intro xioctl_call) simp
  then show ?thesis using assms by (auto simp: call_def split: prod.splits) (metis fst_conv)
qed

lemma alloc_ok: "offers io tbl \<Longrightarrow> \<exists>m w'. call io Alloc w = (m, w') \<and> ret m = 0"
  unfolding offers_def has_memory_def call_def by (metis (mono_tags, lifting) case_prod_unfold)

lemma enum_sizes_run:
  assumes "offers io tbl" "(pix, ss) \<in> set tbl" "j \<le> length ss"
  shows "\<exists>w'. enum_sizes io pix j acc w = Some (True, acc @ map resolution (drop j ss), w')"
  using assms(3)
proof (induction "length ss - j" arbitrary: j acc w)
  case (0 j)
  have "\<forall>d. answers_index j (length ss) (fst (io d (VIDIOC_ENUM_FRAMESIZES j pix)))"
    using assms(1,2) by (simp add: offers_def)
  from xioctl_index [of j "length ss" io "VIDIOC_ENUM_FRAMESIZES j pix" w, OF this] 0 show ?case
    by (subst enum_sizes.simps) (auto simp: answers_index_def)
next
  case (Suc k j)
  then have lt: "j < length ss" by simp
  have "\<forall>d. answers_index j (length ss) (fst (io d (VIDIOC_ENUM_FRAMESIZES j pix)))"
    using assms(1,2) by (simp add: offers_def)
  from xioctl_index [of j "length ss" io "VIDIOC_ENUM_FRAMESIZES j pix" w, OF this] obtain d w1 where
    q: "xioctl io (VIDIOC_ENUM_FRAMESIZES j pix) w = (fst (io d (VIDIOC_ENUM_FRAMESIZES j pix)), w1)"
    "ret (fst (io d (VIDIOC_ENUM_FRAMESIZES j pix))) = 0" using lt by (auto simp: answers_index_def)
  have wh: "d_width (rdata (fst (io d (VIDIOC_ENUM_FRAMESIZES j pix)))) = fst (ss ! j)"
    "d_height (rdata (fst (io d (VIDIOC_ENUM_FRAMESIZES j pix)))) = snd (ss ! j)"
    using assms(1,2) lt by (simp_all add: offers_def)
  obtain m w2 where al: "call io Alloc w1 = (m, w2)" "ret m = 0" using alloc_ok [OF assms(1)] by blast
  have drop: "drop j ss = ss ! j # drop (Suc j) ss" using lt by (simp add: Cons_nth_drop_Suc)
  have k: "k = length ss - Suc j" using Suc.hyps(2) by simp
  obtain w3 where "enum_sizes io pix (Suc j) (acc @ [resolution (ss ! j)]) w2 =
      Some (True, (acc @ [resolution (ss ! j)]) @ map resolution (drop (Suc j) ss), w3)"
    using Suc.hyps(1) [of "Suc j" "acc @ [resolution (ss ! j)]" w2] k lt by auto
  then show ?case
    by (subst enum_sizes.simps) (simp add: q al wh drop resolution_def split_beta)
qed

definition listed :: "format_table \<Rightarrow> cint \<Rightarrow> nat \<Rightarrow> input_format list" where
  "listed tbl format n = map (\<lambda>i. new_format i (fst (tbl ! i)) format (map resolution (snd (tbl ! i)))) [0..<n]"

fun last_match :: "format_table \<Rightarrow> cint \<Rightarrow> nat \<Rightarrow> int \<Rightarrow> int" where
  "last_match [] format n cur = cur"
| "last_match ((pix, ss) # tbl) format n cur = last_match tbl format (Suc n) (if pix = format then int n else cur)"

lemma enum_formats_run:
  assumes "offers io tbl" "n \<le> length tbl"
  shows "\<exists>w'. enum_formats io format (listed tbl format n) n cur w =
    Some (True, listed tbl format (length tbl), length tbl, last_match (drop n tbl) format n cur, w')"
  using assms(2)
proof (induction "length tbl - n" arbitrary: n cur w)
  case (0 n)
  have "\<forall>d. answers_index n (length tbl) (fst (io d (VIDIOC_ENUM_FMT n)))" using assms(1) by (simp add: offers_def)
  from xioctl_index [of n "length tbl" io "VIDIOC_ENUM_FMT n" w, OF this] 0 show ?case
    by (subst enum_formats.simps) (auto simp: answers_index_def)
next
  case (Suc k n)
  then have lt: "n < length tbl" by simp
  have "\<forall>d. answers_index n (length tbl) (fst (io d (VIDIOC_ENUM_FMT n)))" using assms(1) by (simp add: offers_def)
  from xioctl_index [of n "length tbl" io "VIDIOC_ENUM_FMT n" w, OF this] obtain d w1 where
    q: "xioctl io (VIDIOC_ENUM_FMT n) w = (fst (io d (VIDIOC_ENUM_FMT n)), w1)" "ret (fst (io d (VIDIOC_ENUM_FMT n))) = 0"
    using lt by (auto simp: answers_index_def)
  obtain pix ss where entry: "tbl ! n = (pix, ss)" by fastforce
  then have mem: "(pix, ss) \<in> set tbl" using nth_mem [OF lt] by simp
  have pix: "d_pixelformat (rdata (fst (io d (VIDIOC_ENUM_FMT n)))) = pix" using assms(1) lt entry by (simp add: offers_def)
  obtain m w2 where al: "call io Alloc w1 = (m, w2)" "ret m = 0" using alloc_ok [OF assms(1)] by blast
  obtain w3 where sz: "enum_sizes io pix 0 [] w2 = Some (True, map resolution ss, w3)"
    using enum_sizes_run [OF assms(1) mem, of 0 "[]" w2] by auto
  have more: "listed tbl format n @ [new_format n pix format (map resolution ss)] = listed tbl format (Suc n)"
    by (simp add: listed_def entry)
  have drop: "drop n tbl = (pix, ss) # drop (Suc n) tbl" using lt entry by (metis Cons_nth_drop_Suc)
  have k: "k = length tbl - Suc n" using Suc.hyps(2) by simp
  show ?case
    using Suc.hyps(1) [of "Suc n" "if pix = format then int n else cur" w3] k lt
    by (subst enum_formats.simps) (simp add: q al pix sz more drop)
qed

subsection \<open>The buffers\<close>

lemma alloc_buffers_ok:
  assumes "offers io tbl" "formatIn vd = V4L2_PIX_FMT_MJPEG \<or> formatIn vd = V4L2_PIX_FMT_YUYV"
  shows "\<exists>vd' w'. alloc_buffers io (vd, w) = (0, vd', w') \<and>
    framesizeIn vd' = frame_size (vd_width vd) (vd_height vd) \<and> formatIn vd' = formatIn vd \<and>
    (formatIn vd = V4L2_PIX_FMT_MJPEG \<longrightarrow> tmpbuffer vd' = Some (replicate (unat (framesizeIn vd')) 0)) \<and>
    (formatIn vd = V4L2_PIX_FMT_YUYV \<longrightarrow> framebuffer vd' = Some (replicate (unat (framesizeIn vd')) 0))"
proof -
  obtain m w1 where a: "call io Alloc w = (m, w1)" "ret m = 0" using alloc_ok [OF assms(1)] by blast
  obtain m' w2 where b: "call io Alloc w1 = (m', w2)" "ret m' = 0" using alloc_ok [OF assms(1)] by blast
  show ?thesis
    using assms(2) a b by (auto simp: alloc_buffers_def calloc_bytes_def Let_def)
qed

lemma frame_size_exact: "2 * unat wid * unat hei < 2 ^ 32 \<Longrightarrow> unat (frame_size wid hei) = 2 * unat wid * unat hei"
  unfolding frame_size_def push_bit_eq_mult
  by (simp add: unat_mult_lem [THEN iffD1] unat_word_ariths mult.commute mult.left_commute)

definition no_crash :: "('s \<Rightarrow> crash + 'a) \<Rightarrow> bool" where
  "no_crash f \<longleftrightarrow> (\<forall>s. \<exists>x. f s = Inr x)"

lemma steps_no_crash:
  assumes "has_memory io"
  shows "no_crash (open_device io)" "no_crash (query_capabilities io)" "no_crash (set_format io)"
    "no_crash (set_fps io)" "no_crash (request_buffers io)" "no_crash (map_buffer io i)" "no_crash (queue_buffer io i)"
  using assms by (auto simp: no_crash_def has_memory_def device_defs Let_def call_def split: prod.splits option.splits) (metis fst_conv)

lemma stages_no_crash: "(\<forall>f\<in>set fs. no_crash f) \<Longrightarrow> no_crash (stages fs)"
proof (induction fs)
  case (Cons f fs)
  then have "no_crash f" "no_crash (stages fs)" by simp_all
  then have f: "\<exists>r s1. f s = Inr (r, s1)" and fs: "\<exists>x. stages fs s = Inr x" for s
    unfolding no_crash_def by (metis surj_pair)+
  show ?case unfolding no_crash_def
  proof
    fix s
    obtain r s1 where "f s = Inr (r, s1)" using f by blast
    then show "\<exists>x. stages (f # fs) s = Inr x" using fs by simp
  qed
qed (simp add: no_crash_def)

lemma init_v4l2_returns:
  assumes "has_memory io"
  shows "\<exists>r vd' w'. init_v4l2 io (vd, w) = Inr (r, vd', w')"
proof -
  have "no_crash (init_v4l2 io)"
    unfolding init_v4l2_def by (rule stages_no_crash) (auto intro: steps_no_crash [OF assms])
  then show ?thesis by (simp add: no_crash_def)
qed

text \<open>
  C31. With a driver that offers finitely many formats and sizes, opening the camera returns, with the
  result of preparing the device.  When that succeeds, the shared record lists every format with all
  its sizes in the driver's order, and the frame buffer for the chosen format has two bytes per pixel
  of the size the driver granted (computed in 32 bits).
\<close>

theorem init_videoIn_lists_formats:
  assumes "offers io tbl" "format = V4L2_PIX_FMT_MJPEG \<or> format = V4L2_PIX_FMT_YUYV" "wid \<noteq> 0" "hei \<noteq> 0" "i < length (gin g)"
    and "w3 = snd (call io Alloc (snd (call io Alloc (snd (call io Alloc w)))))"
  shows "\<exists>r vd1 w1. init_v4l2 io (prepare_vdIn dev wid hei fps format grab vd, w3) = Inr (r, vd1, w1) \<and>
    (if r < 0 then
       init_videoIn io vd (Some dev) wid hei fps format grab g i w = Some (Inr (init_error io i (vd1, g, w1)))
     else \<exists>vd2 w2.
       init_videoIn io vd (Some dev) wid hei fps format grab g i w =
         Some (Inr (0, vd2, upd_in i (\<lambda>p. p\<lparr>in_formats := listed tbl format (length tbl), formatCount := int (length tbl),
           currentFormat := last_match tbl format 0 (currentFormat (gin g ! i))\<rparr>) g, w2)) \<and>
       framesizeIn vd2 = frame_size (vd_width vd1) (vd_height vd1) \<and>
       (if format = V4L2_PIX_FMT_MJPEG then tmpbuffer vd2 else framebuffer vd2) = Some (replicate (unat (framesizeIn vd2)) 0))"
proof -
  have al: "has_memory io" using assms(1) by (simp add: offers_def)
  let ?vd = "prepare_vdIn dev wid hei fps format grab vd"
  obtain m wa where a: "call io Alloc w = (m, wa)" "ret m = 0" using alloc_ok [OF assms(1)] by blast
  obtain mb wb mc wc where b: "call io Alloc wa = (mb, wb)" "call io Alloc wb = (mc, wc)" by fastforce
  have w3: "w3 = wc" using assms(6) by (simp add: a b)
  obtain r vd1 w1 where i4: "init_v4l2 io (?vd, w3) = Inr (r, vd1, w1)" using init_v4l2_returns [OF al] by blast
  obtain q wf where gf: "xioctl io VIDIOC_G_FMT w1 = (q, wf)" by fastforce
  obtain we where en: "enum_formats io format [] 0 (currentFormat (gin g ! i)) wf =
      Some (True, listed tbl format (length tbl), length tbl, last_match tbl format 0 (currentFormat (gin g ! i)), we)"
    using enum_formats_run [OF assms(1), of 0 format] by (fastforce simp: listed_def)
  have fmt: "formatIn vd1 = format" using init_v4l2_state [OF i4] by (simp add: prepare_vdIn_def)
  obtain vd2 w2 where ab: "alloc_buffers io (vd1, we) = (0, vd2, w2)" "framesizeIn vd2 = frame_size (vd_width vd1) (vd_height vd1)"
    "(if format = V4L2_PIX_FMT_MJPEG then tmpbuffer vd2 else framebuffer vd2) = Some (replicate (unat (framesizeIn vd2)) 0)"
    using alloc_buffers_ok [OF assms(1), of vd1 we] assms(2) fmt by auto
  note run = init_videoIn_def a b i4 [unfolded w3] gf en ab(1) assms(3,4)
  show ?thesis
  proof (cases "r < 0")
    case True
    then show ?thesis using i4 by (intro exI [of _ r] exI [of _ vd1] exI [of _ w1]) (simp add: run)
  next
    case False
    then show ?thesis using i4 ab(2,3) by (intro exI [of _ r] exI [of _ vd1] exI [of _ w1]) (simp add: run)
  qed
qed

definition camera_formats :: format_table where
  "camera_formats = [(V4L2_PIX_FMT_MJPEG, [(640, 480), (320, 240)])]"

lemma camera_offers: "offers camera camera_formats"
  by (auto simp: offers_def camera_formats_def answers_index_def has_memory_def camera_def no_data_def less_2_cases_iff
      split: prod.splits)

theorem init_videoIn_lists_formats_witness:
  "\<exists>vd2 g2 w2. init_videoIn camera zero_vdIn (Some ''/dev/video0'') 640 480 5 V4L2_PIX_FMT_MJPEG 1 (sample_globals []) 0 (fresh_camera []) =
      Some (Inr (0, vd2, g2, w2)) \<and>
    map supportedResolutions (in_formats (gin g2 ! 0)) = [[\<lparr>width = 640, height = 480\<rparr>, \<lparr>width = 320, height = 240\<rparr>]]"
proof -
  let ?w3 = "snd (call camera Alloc (snd (call camera Alloc (snd (call camera Alloc (fresh_camera []))))))"
  let ?vd = "prepare_vdIn ''/dev/video0'' 640 480 5 V4L2_PIX_FMT_MJPEG 1 zero_vdIn"
  have "drv ?w3 = ([], [])" by (simp add: call_def camera_simps fresh_camera_def)
  then have "\<exists>s. init_v4l2 camera (?vd, ?w3) = Inr (0, s)"
    using camera_init [of ?w3 "[]" "[]" ?vd] by (auto simp: prepare_vdIn_def)
  moreover have "0 < length (gin (sample_globals []))" by (simp add: sample_globals_def MAX_INPUT_PLUGINS_def)
  ultimately show ?thesis
    using init_videoIn_lists_formats [OF camera_offers, where format = V4L2_PIX_FMT_MJPEG and wid = 640 and hei = 480 and i = 0
      and g = "sample_globals []" and w = "fresh_camera []" and dev = "''/dev/video0''" and fps = 5 and grab = 1 and vd = zero_vdIn,
      OF _ _ _ _ refl]
    by (auto simp: upd_in_def listed_def camera_formats_def new_format_def resolution_def)
qed

end
