(* ===== verification/Uvc_Controls.thy ===== *)
theory Uvc_Controls
  imports Uvc_Formats Http_Command
begin

text \<open>
  The camera's controls in \<^verbatim>\<open>src/mjpg-streamer/plugins/input_uvc/v4l2uvc.c\<close>: \<^verbatim>\<open>control_readed\<close> and
  \<^verbatim>\<open>enumerateControls\<close> fill the table of controls of the shared record, \<^verbatim>\<open>v4l2SetControl\<close> changes one;
  \<^verbatim>\<open>v4l2GetControl\<close> and \<^verbatim>\<open>v4l2ResetControl\<close> ask the driver directly.  \<^verbatim>\<open>V4L2_CTRL_TYPE_STRING\<close> is an
  enumerator and not a macro, so the parts under its \<^verbatim>\<open>#ifdef\<close> are not compiled;
  \<^verbatim>\<open>V4L2_CTRL_FLAG_NEXT_CTRL\<close> is a macro and the parts under its \<^verbatim>\<open>#ifdef\<close> are.
\<close>

definition IN_CMD_V4L2 :: int where "IN_CMD_V4L2 = 1"
definition IN_CMD_RESOLUTION :: int where "IN_CMD_RESOLUTION = 2"
definition IN_CMD_JPEG_QUALITY :: int where "IN_CMD_JPEG_QUALITY = 3"

definition V4L2_CTRL_CLASS_USER :: cint where "V4L2_CTRL_CLASS_USER = 0x00980000"
definition V4L2_CTRL_FLAG_DISABLED :: cint where "V4L2_CTRL_FLAG_DISABLED = 0x1"
definition V4L2_CTRL_FLAG_NEXT_CTRL :: cint where "V4L2_CTRL_FLAG_NEXT_CTRL = 0x80000000"
definition V4L2_CTRL_TYPE_INTEGER64 :: nat where "V4L2_CTRL_TYPE_INTEGER64 = 5"
definition V4L2_CID_BASE :: cint where "V4L2_CID_BASE = 0x00980900"
definition V4L2_CID_PRIVATE_BASE :: cint where "V4L2_CID_PRIVATE_BASE = 0x08000000"

subsection \<open>Asking and setting a control\<close>

definition isv4l2Control :: "'d sys \<Rightarrow> cint \<Rightarrow> 'd world \<Rightarrow> int \<times> v4l2_queryctrl \<times> 'd world" where
  "isv4l2Control io cid w =
     (case xioctl io (VIDIOC_QUERYCTRL cid) w of (r, w) \<Rightarrow>
        let q = d_queryctrl (rdata r)
        in if ret r < 0 then (- 1, q, w)
           else if qc_flags q AND V4L2_CTRL_FLAG_DISABLED \<noteq> 0 then (- 1, q, w)
           else if qc_type q AND V4L2_CTRL_TYPE_BOOLEAN \<noteq> 0 then (1, q, w)
           else if qc_type q AND V4L2_CTRL_TYPE_INTEGER \<noteq> 0 then (0, q, w)
           else (- 1, q, w))"

definition v4l2GetControl :: "'d sys \<Rightarrow> cint \<Rightarrow> 'd world \<Rightarrow> int \<times> 'd world" where
  "v4l2GetControl io cid w =
     (case isv4l2Control io cid w of (e, q, w) \<Rightarrow>
        if e < 0 then (- 1, w)
        else case xioctl io (VIDIOC_G_CTRL cid) w of (r, w) \<Rightarrow>
          (if ret r < 0 then - 1 else d_value (rdata r), w))"

definition v4l2ResetControl :: "'d sys \<Rightarrow> cint \<Rightarrow> 'd world \<Rightarrow> int \<times> 'd world" where
  "v4l2ResetControl io cid w =
     (case isv4l2Control io cid w of (e, q, w) \<Rightarrow>
        if e < 0 then (- 1, w)
        else case xioctl io (VIDIOC_S_CTRL cid (qc_default_value q)) w of (r, w) \<Rightarrow>
          (if ret r < 0 then - 1 else 0, w))"

text \<open>The first of \<open>todo\<close> entries from \<open>k\<close> on that satisfies a condition.\<close>

fun find_param :: "control list option \<Rightarrow> (control \<Rightarrow> bool) \<Rightarrow> nat \<Rightarrow> nat \<Rightarrow> crash + nat option" where
  "find_param ps P k 0 = Inr None"
| "find_param None P k (Suc todo) = Inl NullDereference"
| "find_param (Some ps) P k (Suc todo) =
     sbind (at ps (int k)) (\<lambda>c. if P c then Inr (Some k) else find_param (Some ps) P (Suc k) todo)"

definition upd_param :: "nat \<Rightarrow> (control \<Rightarrow> control) \<Rightarrow> input_plugin \<Rightarrow> input_plugin" where
  "upd_param k f p = p\<lparr>in_parameters := map_option (\<lambda>ps. ps[k := f (ps ! k)]) (in_parameters p)\<rparr>"

definition v4l2SetControl :: "'d sys \<Rightarrow> cint \<Rightarrow> int \<Rightarrow> nat \<Rightarrow> globals \<Rightarrow> 'd world \<Rightarrow> crash + (int \<times> globals \<times> 'd world)" where
  "v4l2SetControl io cid v i g w =
     (let p = gin g ! i
      in sbind (find_param (in_parameters p) (\<lambda>c. qc_id (ctrl c) = cid) 0 (nat (parametercount p))) (\<lambda>found.
           case found of
             None \<Rightarrow> Inr (- 1, g, w)
           | Some k \<Rightarrow>
               let c = the (in_parameters p) ! k
               in if class_id c = V4L2_CTRL_CLASS_USER then
                    if qc_minimum (ctrl c) \<le> v \<and> v \<le> qc_maximum (ctrl c) then
                      (case xioctl io (VIDIOC_S_CTRL cid v) w of (r, w) \<Rightarrow>
                         if ret r < 0 then Inr (- 1, g, w)
                         else Inr (0, upd_in i (upd_param k (\<lambda>c. c\<lparr>cvalue := v\<rparr>)) g, w))
                    else Inr (0, g, w)
                  else
                    (case xioctl io (VIDIOC_S_EXT_CTRLS (qc_id (ctrl c)) v) w of (r, w) \<Rightarrow>
                       Inr (if ret r \<noteq> 0 then - 1 else 0, g, w))))"

subsection \<open>Reading a control into the table\<close>

text \<open>The entries \<open>is\<close> of a menu are stored at their own index.\<close>

fun read_menu :: "'d sys \<Rightarrow> cint \<Rightarrow> int list \<Rightarrow> string list option \<Rightarrow> 'd world \<Rightarrow> crash + (string list option \<times> 'd world)" where
  "read_menu io cid [] items w = Inr (items, w)"
| "read_menu io cid (k # ks) items w =
     (case xioctl io (VIDIOC_QUERYMENU cid k) w of (r, w) \<Rightarrow>
        if ret r = 0 then
          (case items of
             None \<Rightarrow> Inl NullDereference
           | Some ns \<Rightarrow>
               if 0 \<le> k \<and> k < int (length ns) then read_menu io cid ks (Some (ns[nat k := d_name (rdata r)])) w
               else Inl BufferOverflow)
        else read_menu io cid ks items w)"

definition menu_of :: "'d sys \<Rightarrow> v4l2_queryctrl \<Rightarrow> 'd world \<Rightarrow> crash + (string list option \<times> 'd world)" where
  "menu_of io c w =
     (if qc_type c = V4L2_CTRL_TYPE_MENU then
        (case call io Alloc w of (m, w) \<Rightarrow>
           read_menu io (qc_id c) [qc_minimum c..qc_maximum c]
             (if ret m \<noteq> 0 then None else Some (map (d_menu (rdata m)) [0..<nat (qc_maximum c + 1)])) w)
      else Inr (None, w))"

definition class_of :: "cint \<Rightarrow> cint" where
  "class_of cid = cid AND 0xFFFF0000"

definition read_value :: "'d sys \<Rightarrow> v4l2_queryctrl \<Rightarrow> 'd world \<Rightarrow> int \<times> 'd world" where
  "read_value io c w =
     (if class_of (qc_id c) = V4L2_CTRL_CLASS_USER then
        (case xioctl io (VIDIOC_G_CTRL (qc_id c)) w of (r, w) \<Rightarrow> (if ret r = 0 then d_value (rdata r) else 0, w))
      else
        (case xioctl io (VIDIOC_G_EXT_CTRLS (qc_id c)) w of (r, w) \<Rightarrow>
           (if ret r \<noteq> 0 then 0
            else if qc_type c = V4L2_CTRL_TYPE_INTEGER64 then sint (word_of_int (d_value64 (rdata r)) :: cint)
            else d_value (rdata r), w)))"

text \<open>A new last entry; \<^verbatim>\<open>parametercount\<close> counts the entries in use.\<close>

definition append_param :: "control \<Rightarrow> input_plugin \<Rightarrow> input_plugin" where
  "append_param c p =
     p\<lparr>in_parameters := Some ((case in_parameters p of None \<Rightarrow> [] | Some ps \<Rightarrow> take (nat (parametercount p)) ps) @ [c]),
       parametercount := parametercount p + 1\<rparr>"

definition control_readed :: "'d sys \<Rightarrow> v4l2_queryctrl \<Rightarrow> globals \<Rightarrow> nat \<Rightarrow> 'd world \<Rightarrow> crash + (globals \<times> 'd world)" where
  "control_readed io c g i w =
     (case call io Alloc w of (m, w) \<Rightarrow>
        if ret m \<noteq> 0 then Inr (upd_in i (\<lambda>p. p\<lparr>in_parameters := None\<rparr>) g, w)
        else sbind (menu_of io c w) (\<lambda>(items, w).
          case read_value io c w of (v, w) \<Rightarrow>
            Inr (upd_in i (append_param \<lparr>ctrl = c, cvalue = v, menuitems = items, class_id = class_of (qc_id c), cgroup = IN_CMD_V4L2\<rparr>) g, w)))"

subsection \<open>Listing all controls\<close>

partial_function (option) next_controls ::
  "'d sys \<Rightarrow> nat \<Rightarrow> v4l2_queryctrl \<Rightarrow> globals \<Rightarrow> 'd world \<Rightarrow> (crash + (globals \<times> 'd world)) option"
where
  "next_controls io i c g w =
     (case control_readed io c g i w of
        Inl e \<Rightarrow> Some (Inl e)
      | Inr (g, w) \<Rightarrow>
          (case call io (VIDIOC_QUERYCTRL (qc_id c OR V4L2_CTRL_FLAG_NEXT_CTRL)) w of (r, w) \<Rightarrow>
             if ret r = 0 then next_controls io i (d_queryctrl (rdata r)) g w else Some (Inr (g, w))))"

fun standard_controls :: "'d sys \<Rightarrow> nat \<Rightarrow> cint list \<Rightarrow> globals \<Rightarrow> 'd world \<Rightarrow> crash + (globals \<times> 'd world)" where
  "standard_controls io i [] g w = Inr (g, w)"
| "standard_controls io i (cid # cids) g w =
     (case call io (VIDIOC_QUERYCTRL cid) w of (r, w) \<Rightarrow>
        if ret r = 0 then sbind (control_readed io (d_queryctrl (rdata r)) g i w) (\<lambda>(g, w). standard_controls io i cids g w)
        else standard_controls io i cids g w)"

partial_function (option) private_controls ::
  "'d sys \<Rightarrow> nat \<Rightarrow> cint \<Rightarrow> globals \<Rightarrow> 'd world \<Rightarrow> (crash + (globals \<times> 'd world)) option"
where
  "private_controls io i cid g w =
     (case call io (VIDIOC_QUERYCTRL cid) w of (r, w) \<Rightarrow>
        if ret r = 0 then
          (case control_readed io (d_queryctrl (rdata r)) g i w of
             Inl e \<Rightarrow> Some (Inl e)
           | Inr (g, w) \<Rightarrow> private_controls io i (cid + 1) g w)
        else Some (Inr (g, w)))"

definition jpeg_ctrl :: v4l2_queryctrl where
  "jpeg_ctrl = \<lparr>qc_id = 1, qc_type = V4L2_CTRL_TYPE_INTEGER, qc_name = ''JPEG quality'', qc_minimum = 0, qc_maximum = 100,
     qc_step = 1, qc_default_value = 50, qc_flags = 0\<rparr>"

text \<open>
  The entry for the JPEG quality.  \<^verbatim>\<open>xioctl\<close> returns 0 or -1 and never \<^verbatim>\<open>EINVAL\<close>.  The fields \<^verbatim>\<open>menuitems\<close>
  and \<^verbatim>\<open>class_id\<close> of the entry are not set: they are zero in a new table and whatever the memory holds
  in an enlarged one.
\<close>

definition jpeg_quality_control :: "'d sys \<Rightarrow> globals \<Rightarrow> nat \<Rightarrow> 'd world \<Rightarrow> globals \<times> 'd world" where
  "jpeg_quality_control io g i w =
     (case xioctl io VIDIOC_G_JPEGCOMP w of (r, w) \<Rightarrow>
        if ret r \<noteq> int EINVAL then
          let q = (if ret r < 0 then 0 else d_quality (rdata r));
              fresh = in_parameters (gin g ! i) = None;
              g = upd_in i (\<lambda>p. p\<lparr>jpegquality := q\<rparr>) g
          in (case call io Alloc w of (m, w) \<Rightarrow>
                if ret m \<noteq> 0 then (upd_in i (\<lambda>p. p\<lparr>in_parameters := None\<rparr>) g, w)
                else
                  (upd_in i (append_param ((if fresh then zero_control else d_control (rdata m))
                     \<lparr>ctrl := jpeg_ctrl, cgroup := IN_CMD_JPEG_QUALITY, cvalue := q\<rparr>)) g, w))
        else (upd_in i (\<lambda>p. p\<lparr>jpegquality := - 1\<rparr>) g, w))"

text \<open>The number of standard controls depends on the kernel's header.\<close>

definition enumerateControls ::
  "'d sys \<Rightarrow> nat \<Rightarrow> globals \<Rightarrow> nat \<Rightarrow> 'd world \<Rightarrow> (crash + (globals \<times> 'd world)) option"
where
  "enumerateControls io standard g i w =
     (let g = upd_in i (\<lambda>p. p\<lparr>parametercount := 0, in_parameters := None\<rparr>) g
      in case call io (VIDIOC_QUERYCTRL V4L2_CTRL_FLAG_NEXT_CTRL) w of (r, w) \<Rightarrow>
           Option.bind
             (if ret r = 0 then next_controls io i (d_queryctrl (rdata r)) g w
              else
                case standard_controls io i (map (\<lambda>k. V4L2_CID_BASE + of_nat k) [0..<standard]) g w of
                  Inl e \<Rightarrow> Some (Inl e)
                | Inr (g, w) \<Rightarrow> private_controls io i V4L2_CID_PRIVATE_BASE g w)
             (\<lambda>res. Some (map_sum id (\<lambda>(g, w). jpeg_quality_control io g i w) res)))"

subsection \<open>What setting a control sends to the driver\<close>

text \<open>
  The request that a value for a control calls for, by a table of controls: it goes to the first control with
  the number, for a user control only a value within its limits.
\<close>

definition control_request :: "control list \<Rightarrow> cint \<Rightarrow> int \<Rightarrow> sys_call option" where
  "control_request ps cid v =
     (case find (\<lambda>c. qc_id (ctrl c) = cid) ps of
        None \<Rightarrow> None
      | Some c \<Rightarrow>
          if class_id c \<noteq> V4L2_CTRL_CLASS_USER then Some (VIDIOC_S_EXT_CTRLS cid v)
          else if qc_minimum (ctrl c) \<le> v \<and> v \<le> qc_maximum (ctrl c) then Some (VIDIOC_S_CTRL cid v)
          else None)"

text \<open>What a command does not change in the table.\<close>

definition descriptions :: "control list \<Rightarrow> (v4l2_queryctrl \<times> cint) list" where
  "descriptions ps = map (\<lambda>c. (ctrl c, class_id c)) ps"

lemma find_descriptions:
  "descriptions ps = descriptions qs \<Longrightarrow>
     map_option (\<lambda>c. (ctrl c, class_id c)) (find (\<lambda>c. qc_id (ctrl c) = cid) ps) =
     map_option (\<lambda>c. (ctrl c, class_id c)) (find (\<lambda>c. qc_id (ctrl c) = cid) qs)"
proof (induction ps arbitrary: qs)
  case (Cons p ps)
  then show ?case by (cases qs) (auto simp: descriptions_def)
qed (simp add: descriptions_def)

lemma control_request_cong:
  assumes "descriptions ps = descriptions qs"
  shows "control_request ps cid v = control_request qs cid v"
  using find_descriptions [OF assms, of cid]
  by (cases "find (\<lambda>c. qc_id (ctrl c) = cid) ps"; cases "find (\<lambda>c. qc_id (ctrl c) = cid) qs")
     (auto simp: control_request_def)

lemma descriptions_upd [simp]: "descriptions (ps[k := (ps ! k)\<lparr>cvalue := v\<rparr>]) = descriptions ps"
  by (cases "k < length ps") (simp_all add: descriptions_def list_eq_iff_nth_eq nth_list_update)

lemma find_param_find:
  "k + n = length l \<Longrightarrow> \<exists>found. find_param (Some l) P k n = Inr found \<and>
     (case found of None \<Rightarrow> find P (drop k l) = None | Some j \<Rightarrow> j < length l \<and> P (l ! j) \<and> find P (drop k l) = Some (l ! j))"
proof (induction n arbitrary: k)
  case (Suc n)
  then have "drop k l = l ! k # drop (Suc k) l" by (simp add: Cons_nth_drop_Suc)
  then show ?case using Suc.IH [of "Suc k"] Suc.prems by (auto simp: at_def split: option.splits)
qed simp

text \<open>The table of controls of an input, with as many entries as are in use.\<close>

definition has_table :: "nat \<Rightarrow> globals \<Rightarrow> control list \<Rightarrow> bool" where
  "has_table i g ps \<longleftrightarrow> i < length (gin g) \<and> in_parameters (gin g ! i) = Some ps \<and> parametercount (gin g ! i) = int (length ps)"

lemma has_table_upd:
  "has_table i g ps \<Longrightarrow> has_table i (upd_in i (upd_param k (\<lambda>c. c\<lparr>cvalue := v\<rparr>)) g) (ps[k := (ps ! k)\<lparr>cvalue := v\<rparr>])"
  by (simp add: has_table_def upd_param_def)

lemma calls_xioctl:
  assumes "xioctl io c w = (r, w')"
  shows "\<exists>k\<in>{1..5}. map fst (trace w') = map fst (trace w) @ replicate k c"
proof -
  obtain rs where rs: "trace w' = trace w @ map (Pair c) (rs @ [r])" "length rs \<le> 4"
    using trace_xioctl [OF assms] by (auto simp: retried_def IOCTL_RETRY_def)
  have "map fst (map (Pair c) (rs @ [r])) = replicate (Suc (length rs)) c"
    unfolding map_map comp_def fst_conv map_replicate_const by simp
  then show ?thesis using rs by (intro bexI [of _ "Suc (length rs)"]) auto
qed

lemma v4l2SetControl_request:
  assumes "has_table i g ps"
  shows "\<exists>r g' w' ps' k. v4l2SetControl io cid v i g w = Inr (r, g', w') \<and> k \<in> {1..5} \<and>
    map fst (trace w') = map fst (trace w) @ (case control_request ps cid v of None \<Rightarrow> [] | Some c \<Rightarrow> replicate k c) \<and>
    has_table i g' ps' \<and> descriptions ps' = descriptions ps \<and> (r = 0 \<longrightarrow> ps' \<noteq> [])"
proof -
  obtain found where f: "find_param (Some ps) (\<lambda>c. qc_id (ctrl c) = cid) 0 (length ps) = Inr found"
    "case found of None \<Rightarrow> find (\<lambda>c. qc_id (ctrl c) = cid) ps = None
     | Some j \<Rightarrow> j < length ps \<and> qc_id (ctrl (ps ! j)) = cid \<and> find (\<lambda>c. qc_id (ctrl c) = cid) ps = Some (ps ! j)"
    using find_param_find [of 0 "length ps" ps "\<lambda>c. qc_id (ctrl c) = cid", unfolded drop_0] by auto
  have p: "in_parameters (gin g ! i) = Some ps" "parametercount (gin g ! i) = int (length ps)"
    using assms by (simp_all add: has_table_def)
  have one: "(1 :: nat) \<in> {1..5}" by simp
  show ?thesis
  proof (cases found)
    case None
    with f p assms one show ?thesis
      by (intro exI [of _ "- 1"] exI [of _ g] exI [of _ w] exI [of _ ps] exI [of _ 1])
         (simp add: v4l2SetControl_def control_request_def)
  next
    case (Some j)
    with f(2) have j: "j < length ps" "qc_id (ctrl (ps ! j)) = cid" "find (\<lambda>c. qc_id (ctrl c) = cid) ps = Some (ps ! j)" by auto
    have ne: "ps \<noteq> []" using j(1) by auto
    note run = v4l2SetControl_def [of io cid v i g w, unfolded Let_def p nat_int f(1) Some sbind_simps option.case option.sel]
    show ?thesis
    proof (cases "control_request ps cid v")
      case None
      with j assms one ne run show ?thesis
        by (intro exI [of _ 0] exI [of _ g] exI [of _ w] exI [of _ ps] exI [of _ 1])
           (auto simp: control_request_def split: if_splits)
    next
      case (Some c)
      obtain r w' where x: "xioctl io c w = (r, w')" by fastforce
      obtain k where k: "k \<in> {1..5}" "map fst (trace w') = map fst (trace w) @ replicate k c"
        using calls_xioctl [OF x] by blast
      define g' where "g' = (if class_id (ps ! j) = V4L2_CTRL_CLASS_USER \<and> \<not> ret r < 0
        then upd_in i (upd_param j (\<lambda>c. c\<lparr>cvalue := v\<rparr>)) g else g)"
      have "\<exists>s. v4l2SetControl io cid v i g w = Inr (s, g', w')"
        using Some j x run by (auto simp: control_request_def g'_def split: if_splits)
      moreover have "\<exists>ps'. has_table i g' ps' \<and> descriptions ps' = descriptions ps \<and> ps' \<noteq> []"
        using assms has_table_upd [OF assms, of j v] ne descriptions_upd [of ps j v]
        by (cases "class_id (ps ! j) = V4L2_CTRL_CLASS_USER \<and> \<not> ret r < 0") (auto simp: g'_def)
      ultimately show ?thesis using k Some by fastforce
    qed
  qed
qed

text \<open>Brightness, from 0 to 255, at 128.\<close>

definition brightness :: control where
  "brightness = \<lparr>ctrl = \<lparr>qc_id = 0x980900, qc_type = V4L2_CTRL_TYPE_INTEGER, qc_name = ''Brightness'', qc_minimum = 0, qc_maximum = 255,
     qc_step = 1, qc_default_value = 128, qc_flags = 0\<rparr>, cvalue = 128, menuitems = None, class_id = 0x980000, cgroup = 1\<rparr>"

lemma sample_controls:
  "in_parameters (gin (sample_globals ps) ! 0) = Some ps" "parametercount (gin (sample_globals ps) ! 0) = int (length ps)"
  "0 < length (gin (sample_globals ps))"
  by (simp_all add: sample_globals_def MAX_INPUT_PLUGINS_def)

subsection \<open>All controls are listed\<close>

text \<open>
  A driver with the controls \<open>cs\<close>: a query with the flag \<^verbatim>\<open>NEXT_CTRL\<close> gives the first control behind the
  number it carries, and fails behind the last, as the V4L2 interface describes it.
\<close>

definition lists_controls :: "'d sys \<Rightarrow> v4l2_queryctrl list \<Rightarrow> bool" where
  "lists_controls io cs \<longleftrightarrow> has_memory io \<and>
     (\<forall>d. ret (fst (io d (VIDIOC_QUERYCTRL V4L2_CTRL_FLAG_NEXT_CTRL))) = 0 \<and>
       d_queryctrl (rdata (fst (io d (VIDIOC_QUERYCTRL V4L2_CTRL_FLAG_NEXT_CTRL)))) = cs ! 0) \<and>
     (\<forall>d k. Suc k < length cs \<longrightarrow>
       ret (fst (io d (VIDIOC_QUERYCTRL (qc_id (cs ! k) OR V4L2_CTRL_FLAG_NEXT_CTRL)))) = 0 \<and>
       d_queryctrl (rdata (fst (io d (VIDIOC_QUERYCTRL (qc_id (cs ! k) OR V4L2_CTRL_FLAG_NEXT_CTRL))))) = cs ! Suc k) \<and>
     (\<forall>d. ret (fst (io d (VIDIOC_QUERYCTRL (qc_id (last cs) OR V4L2_CTRL_FLAG_NEXT_CTRL)))) = - 1)"

lemma call_fst: "\<exists>d w'. call io c w = (fst (io d c), w')"
  by (auto simp: call_def split: prod.splits) (metis fst_conv)

lemma call_memory: "has_memory io \<Longrightarrow> \<exists>m w'. call io Alloc w = (m, w') \<and> ret m = 0"
  using call_fst [of io Alloc w] by (auto simp: has_memory_def)

text \<open>
  What a driver answers for its menus and values, where it has an answer: \<open>names cid k\<close> is entry k of the menu of a
  control (menus may have holes), \<open>values cid\<close> its present value.
\<close>

definition answers_menus :: "'d sys \<Rightarrow> (cint \<Rightarrow> int \<Rightarrow> string option) \<Rightarrow> bool" where
  "answers_menus io names \<longleftrightarrow>
     (\<forall>d cid k s. names cid k = Some s \<longrightarrow>
        ret (fst (io d (VIDIOC_QUERYMENU cid k))) = 0 \<and> d_name (rdata (fst (io d (VIDIOC_QUERYMENU cid k)))) = s)"

definition answers_values :: "'d sys \<Rightarrow> (cint \<Rightarrow> int option) \<Rightarrow> bool" where
  "answers_values io values \<longleftrightarrow>
     (\<forall>d cid v. values cid = Some v \<longrightarrow>
        (if class_of cid = V4L2_CTRL_CLASS_USER
         then ret (fst (io d (VIDIOC_G_CTRL cid))) = 0 \<and> d_value (rdata (fst (io d (VIDIOC_G_CTRL cid)))) = v
         else ret (fst (io d (VIDIOC_G_EXT_CTRLS cid))) = 0 \<and> d_value (rdata (fst (io d (VIDIOC_G_EXT_CTRLS cid)))) = v))"

lemma xioctl_answered:
  assumes "\<And>d. ret (fst (io d c)) = 0 \<and> P (rdata (fst (io d c)))" "xioctl io c w = (r, w')"
  shows "ret r = 0 \<and> P (rdata r)"
proof -
  have "fst (call io c w) = fst (io (drv w) c)" by (simp add: call_def split: prod.splits)
  moreover have "xioctl io c w = call io c w" using assms(1) by (intro xioctl_call) simp
  ultimately have "r = fst (io (drv w) c)" using assms(2) by (metis fst_conv)
  with assms(1) show ?thesis by simp
qed

lemma read_menu_reads:
  assumes "answers_menus io names"
  shows "\<lbrakk>distinct ks; \<forall>k\<in>set ks. 0 \<le> k \<and> k < int (length ns)\<rbrakk> \<Longrightarrow>
    \<exists>ns' w'. read_menu io cid ks (Some ns) w = Inr (Some ns', w') \<and> length ns' = length ns \<and>
      (\<forall>k\<in>set ks. \<forall>s. names cid k = Some s \<longrightarrow> ns' ! nat k = s) \<and>
      (\<forall>j < length ns. int j \<notin> set ks \<longrightarrow> ns' ! j = ns ! j)"
proof (induction ks arbitrary: ns w)
  case (Cons k ks)
  obtain r w1 where r: "xioctl io (VIDIOC_QUERYMENU cid k) w = (r, w1)" by fastforce
  define ns1 where "ns1 = (if ret r = 0 then ns[nat k := d_name (rdata r)] else ns)"
  have k: "0 \<le> k" "nat k < length ns" "length ns1 = length ns" using Cons.prems by (auto simp: ns1_def)
  have named: "ns1 ! nat k = s" if "names cid k = Some s" for s
  proof -
    have "ret r = 0 \<and> d_name (rdata r) = s"
      using assms that by (intro xioctl_answered [OF _ r]) (simp add: answers_menus_def)
    then show ?thesis using k by (simp add: ns1_def)
  qed
  obtain ns' w' where ns': "read_menu io cid ks (Some ns1) w1 = Inr (Some ns', w')" "length ns' = length ns"
    "\<forall>k\<in>set ks. \<forall>s. names cid k = Some s \<longrightarrow> ns' ! nat k = s" "\<forall>j < length ns. int j \<notin> set ks \<longrightarrow> ns' ! j = ns1 ! j"
    using Cons.IH [of ns1 w1] Cons.prems k by auto
  have "read_menu io cid (k # ks) (Some ns) w = Inr (Some ns', w')"
    using r ns'(1) k by (auto simp: ns1_def)
  moreover have "ns' ! nat k = ns1 ! nat k" using ns'(4) k Cons.prems(1) by simp
  moreover have "ns1 ! j = ns ! j" if "int j \<noteq> k" for j using that k by (auto simp: ns1_def nth_list_update)
  ultimately show ?case using ns' named by auto
qed simp

definition menu_ok :: "(cint \<Rightarrow> int \<Rightarrow> string option) \<Rightarrow> v4l2_queryctrl \<Rightarrow> string list option \<Rightarrow> bool" where
  "menu_ok names c items \<longleftrightarrow>
     (if qc_type c = V4L2_CTRL_TYPE_MENU
      then \<exists>ns. items = Some ns \<and> length ns = nat (qc_maximum c + 1) \<and>
        (\<forall>k s. qc_minimum c \<le> k \<and> k \<le> qc_maximum c \<and> names (qc_id c) k = Some s \<longrightarrow> ns ! nat k = s)
      else items = None)"

definition entry_ok :: "(cint \<Rightarrow> int \<Rightarrow> string option) \<Rightarrow> (cint \<Rightarrow> int option) \<Rightarrow> control \<Rightarrow> bool" where
  "entry_ok names values c \<longleftrightarrow>
     menu_ok names (ctrl c) (menuitems c) \<and> class_id c = class_of (qc_id (ctrl c)) \<and> cgroup c = IN_CMD_V4L2 \<and>
     (\<forall>v. values (qc_id (ctrl c)) = Some v \<and>
        (class_id c = V4L2_CTRL_CLASS_USER \<or> qc_type (ctrl c) \<noteq> V4L2_CTRL_TYPE_INTEGER64) \<longrightarrow> cvalue c = v)"

lemma menu_of_reads:
  assumes "has_memory io" "answers_menus io names" "qc_type c = V4L2_CTRL_TYPE_MENU \<longrightarrow> 0 \<le> qc_minimum c"
  shows "\<exists>items w'. menu_of io c w = Inr (items, w') \<and> menu_ok names c items"
proof -
  obtain m w1 where m: "call io Alloc w = (m, w1)" "ret m = 0" using call_memory [OF assms(1)] by blast
  let ?ns = "map (d_menu (rdata m)) [0..<nat (qc_maximum c + 1)]"
  show ?thesis
  proof (cases "qc_type c = V4L2_CTRL_TYPE_MENU")
    case True
    have "\<forall>k\<in>set [qc_minimum c..qc_maximum c]. 0 \<le> k \<and> k < int (length ?ns)"
      using assms(3) True by auto
    from read_menu_reads [OF assms(2) distinct_upto this, of "qc_id c" w1] True show ?thesis
      by (fastforce simp: menu_of_def m menu_ok_def)
  qed (simp add: menu_of_def menu_ok_def)
qed

lemma read_value_reads:
  assumes "answers_values io values" "values (qc_id c) = Some v"
    "class_of (qc_id c) = V4L2_CTRL_CLASS_USER \<or> qc_type c \<noteq> V4L2_CTRL_TYPE_INTEGER64"
  shows "fst (read_value io c w) = v"
proof (cases "class_of (qc_id c) = V4L2_CTRL_CLASS_USER")
  case True
  obtain r w1 where r: "xioctl io (VIDIOC_G_CTRL (qc_id c)) w = (r, w1)" by fastforce
  have "ret r = 0 \<and> d_value (rdata r) = v"
    using assms True by (intro xioctl_answered [OF _ r]) (simp add: answers_values_def)
  with True r show ?thesis by (simp add: read_value_def)
next
  case False
  obtain r w1 where r: "xioctl io (VIDIOC_G_EXT_CTRLS (qc_id c)) w = (r, w1)" by fastforce
  have "ret r = 0 \<and> d_value (rdata r) = v"
    using assms False by (intro xioctl_answered [OF _ r]) (simp add: answers_values_def)
  with False r assms(3) show ?thesis by (simp add: read_value_def)
qed

lemma control_readed_appends:
  assumes "has_memory io" "answers_menus io names" "answers_values io values"
    "qc_type c = V4L2_CTRL_TYPE_MENU \<longrightarrow> 0 \<le> qc_minimum c"
  shows "\<exists>e w'. control_readed io c g i w = Inr (upd_in i (append_param e) g, w') \<and> ctrl e = c \<and> entry_ok names values e"
proof -
  obtain m w1 where a: "call io Alloc w = (m, w1)" "ret m = 0" using call_memory [OF assms(1)] by blast
  obtain items w3 where menu: "menu_of io c w1 = Inr (items, w3)" "menu_ok names c items"
    using menu_of_reads [OF assms(1,2,4)] by blast
  obtain v w4 where v: "read_value io c w3 = (v, w4)" by fastforce
  then show ?thesis
    using menu(2) read_value_reads [OF assms(3), of c _ w3]
    by (intro exI [of _ "\<lparr>ctrl = c, cvalue = v, menuitems = items, class_id = class_of (qc_id c), cgroup = IN_CMD_V4L2\<rparr>"])
       (simp add: control_readed_def a menu(1) entry_ok_def)
qed

text \<open>The table holds the entries \<open>ps\<close>.\<close>

definition table :: "input_plugin \<Rightarrow> control list \<Rightarrow> bool" where
  "table p ps \<longleftrightarrow> parametercount p = int (length ps) \<and> (in_parameters p = Some ps \<or> ps = [] \<and> in_parameters p = None)"

lemma table_append: "table p ps \<Longrightarrow> table (append_param e p) (ps @ [e])"
  by (auto simp: table_def append_param_def)

lemma next_controls_run:
  assumes "lists_controls io cs" "answers_menus io names" "answers_values io values"
    and "\<forall>c\<in>set cs. qc_type c = V4L2_CTRL_TYPE_MENU \<longrightarrow> 0 \<le> qc_minimum c" "i < length (gin g)"
    and "k < length cs" "table (gin g ! i) ps" "map ctrl ps = take k cs" "list_all (entry_ok names values) ps"
  shows "\<exists>g' w' qs. next_controls io i (cs ! k) g w = Some (Inr (g', w')) \<and>
    length (gin g') = length (gin g) \<and> table (gin g' ! i) qs \<and> map ctrl qs = cs \<and> list_all (entry_ok names values) qs"
  using assms(5-9)
proof (induction "length cs - k" arbitrary: k g w ps)
  case 0
  then show ?case by simp
next
  case (Suc n)
  have mem: "has_memory io" using assms(1) by (simp add: lists_controls_def)
  obtain e w1 where e: "control_readed io (cs ! k) g i w = Inr (upd_in i (append_param e) g, w1)" "ctrl e = cs ! k" "entry_ok names values e"
    using control_readed_appends [OF mem assms(2,3), of "cs ! k" g i w] assms(4) Suc.prems(2) by auto
  let ?g = "upd_in i (append_param e) g"
  let ?q = "VIDIOC_QUERYCTRL (qc_id (cs ! k) OR V4L2_CTRL_FLAG_NEXT_CTRL)"
  obtain d w2 where q: "call io ?q w1 = (fst (io d ?q), w2)" using call_fst [of io ?q w1] by blast
  have t: "table (gin ?g ! i) (ps @ [e])" "map ctrl (ps @ [e]) = take (Suc k) cs" "list_all (entry_ok names values) (ps @ [e])"
    using Suc.prems e by (simp_all add: table_append take_Suc_conv_app_nth)
  show ?case
  proof (cases "Suc k < length cs")
    case True
    then have a: "ret (fst (io d ?q)) = 0" "d_queryctrl (rdata (fst (io d ?q))) = cs ! Suc k"
      using assms(1) by (simp_all add: lists_controls_def)
    have n: "n = length cs - Suc k" using Suc.hyps(2) by simp
    show ?thesis
      using Suc.hyps(1) [OF n, of ?g "ps @ [e]" w2] t Suc.prems(1) True
      by (subst next_controls.simps) (simp add: e(1) q a)
  next
    case False
    then have last: "k = length cs - 1" using Suc.prems(2) by simp
    then have "cs ! k = last cs" using Suc.prems(2) by (metis last_conv_nth length_0_conv not_less_zero)
    then have "ret (fst (io d ?q)) = - 1" using assms(1) by (simp add: lists_controls_def)
    moreover have "take (Suc k) cs = cs" using False by simp
    ultimately show ?thesis
      using t by (subst next_controls.simps) (auto simp: e(1) q)
  qed
qed

text \<open>
  C32. With a driver that lists its controls one behind the other, none of whose menus starts below 0, and with memory at hand,
  \<^verbatim>\<open>enumerateControls\<close> returns, and the table holds exactly those controls in the driver's order: each with its class, with the value
  the driver gave (but for 64-bit values, which are cut), and each menu control with a menu of the right
  length that has every name the driver gave for an index, at that index; and at the end the
  plugin's own entry for the JPEG quality, whether or not the driver has it.
\<close>

theorem enumerateControls_lists:
  assumes "lists_controls io cs" "cs \<noteq> []" "answers_menus io names" "answers_values io values"
    and "\<forall>c\<in>set cs. qc_type c = V4L2_CTRL_TYPE_MENU \<longrightarrow> 0 \<le> qc_minimum c" "plain_results io" "i < length (gin g)"
  shows "\<exists>g' w' ps j. enumerateControls io n g i w = Some (Inr (g', w')) \<and>
    in_parameters (gin g' ! i) = Some (ps @ [j]) \<and> parametercount (gin g' ! i) = int (length cs) + 1 \<and>
    map ctrl ps = cs \<and> list_all (entry_ok names values) ps \<and> ctrl j = jpeg_ctrl \<and> cgroup j = IN_CMD_JPEG_QUALITY"
proof -
  let ?g = "upd_in i (\<lambda>p. p\<lparr>parametercount := 0, in_parameters := None\<rparr>) g"
  let ?q = "VIDIOC_QUERYCTRL V4L2_CTRL_FLAG_NEXT_CTRL"
  obtain d w1 where q: "call io ?q w = (fst (io d ?q), w1)" using call_fst [of io ?q w] by blast
  have first: "ret (fst (io d ?q)) = 0" "d_queryctrl (rdata (fst (io d ?q))) = cs ! 0"
    using assms(1) by (simp_all add: lists_controls_def)
  have "table (gin ?g ! i) []" using assms(7) by (simp add: table_def)
  then obtain g2 w2 ps where run: "next_controls io i (cs ! 0) ?g w1 = Some (Inr (g2, w2))"
    "length (gin g2) = length (gin g)" "table (gin g2 ! i) ps" "map ctrl ps = cs" "list_all (entry_ok names values) ps"
    using next_controls_run [OF assms(1,3-5), of i ?g 0 "[]" w1] assms(2,7) by auto
  then have ps: "in_parameters (gin g2 ! i) = Some ps" "parametercount (gin g2 ! i) = int (length cs)"
    using assms(2) by (auto simp: table_def)
  obtain r w3 where jq: "xioctl io VIDIOC_G_JPEGCOMP w2 = (r, w3)" by fastforce
  have "ret r \<noteq> int EINVAL"
    using ret_xioctl_loop [OF assms(6), of VIDIOC_G_JPEGCOMP IOCTL_RETRY w2] jq by (auto simp: xioctl_def EINVAL_def)
  moreover obtain m w4 where "call io Alloc w3 = (m, w4)" "ret m = 0"
    using call_memory assms(1) unfolding lists_controls_def by blast
  ultimately show ?thesis
    using run ps assms(7)
    by (auto simp: enumerateControls_def Let_def q first jpeg_quality_control_def jq append_param_def)
qed

definition power_line :: v4l2_queryctrl where
  "power_line = \<lparr>qc_id = 0x980918, qc_type = V4L2_CTRL_TYPE_MENU, qc_name = ''Power Line Frequency'', qc_minimum = 0, qc_maximum = 2,
     qc_step = 1, qc_default_value = 1, qc_flags = 0\<rparr>"

text \<open>A camera with two controls; the menu of the second has three names.\<close>

definition power_names :: "cint \<Rightarrow> int \<Rightarrow> string option" where
  "power_names cid k =
     (if cid = 0x980918 then if k = 0 then Some ''Disabled'' else if k = 1 then Some ''50 Hz'' else if k = 2 then Some ''60 Hz'' else None
      else None)"

definition two_values :: "cint \<Rightarrow> int option" where
  "two_values cid = (if cid = 0x980900 then Some 130 else if cid = 0x980918 then Some 1 else None)"

definition two_controls :: "unit sys" where
  "two_controls u c =
     (case c of
        VIDIOC_QUERYCTRL cid \<Rightarrow>
          if cid = V4L2_CTRL_FLAG_NEXT_CTRL then ok_with (no_data\<lparr>d_queryctrl := ctrl brightness\<rparr>)
          else if cid = 0x80980900 then ok_with (no_data\<lparr>d_queryctrl := power_line\<rparr>)
          else fails_with EINVAL
      | VIDIOC_QUERYMENU cid k \<Rightarrow>
          (case power_names cid k of None \<Rightarrow> fails_with EINVAL | Some s \<Rightarrow> ok_with (no_data\<lparr>d_name := s\<rparr>))
      | VIDIOC_G_CTRL cid \<Rightarrow>
          (case two_values cid of None \<Rightarrow> fails_with EINVAL | Some v \<Rightarrow> ok_with (no_data\<lparr>d_value := v\<rparr>))
      | _ \<Rightarrow> ok_with no_data, ())"

lemma two_controls_listed:
  "lists_controls two_controls [ctrl brightness, power_line]" "plain_results two_controls"
  "answers_menus two_controls power_names" "answers_values two_controls two_values"
  by (auto simp: lists_controls_def has_memory_def two_controls_def no_data_def V4L2_CTRL_FLAG_NEXT_CTRL_def brightness_def power_line_def
      plain_results_def answers_menus_def answers_values_def two_values_def class_of_def V4L2_CTRL_CLASS_USER_def
      split: sys_call.splits option.splits if_splits)

theorem enumerateControls_lists_witness:
  "\<exists>g' w' ps j. enumerateControls two_controls 43 (sample_globals []) 0 \<lparr>drv = (), trace = []\<rparr> = Some (Inr (g', w')) \<and>
    in_parameters (gin g' ! 0) = Some (ps @ [j]) \<and> parametercount (gin g' ! 0) = 3 \<and>
    map ctrl ps = [ctrl brightness, power_line] \<and> list_all (entry_ok power_names two_values) ps \<and>
    ctrl j = jpeg_ctrl \<and> cgroup j = IN_CMD_JPEG_QUALITY"
  using enumerateControls_lists [OF two_controls_listed(1) _ two_controls_listed(3,4) _ two_controls_listed(2) sample_controls(3) [of "[]"],
    where n = 43 and w = "\<lparr>drv = (), trace = []\<rparr>"]
  by (simp add: brightness_def power_line_def)

text \<open>What the contract says of the second entry there: its menu is complete.\<close>

lemma power_line_entry:
  assumes "entry_ok power_names two_values e" "ctrl e = power_line"
  shows "menuitems e = Some [''Disabled'', ''50 Hz'', ''60 Hz''] \<and> cvalue e = 1 \<and> class_id e = V4L2_CTRL_CLASS_USER"
proof -
  obtain ns where ns: "menuitems e = Some ns" "length ns = 3"
    and names: "\<And>k s. \<lbrakk>0 \<le> k; k \<le> 2; power_names 0x980918 k = Some s\<rbrakk> \<Longrightarrow> ns ! nat k = s"
    using assms by (auto simp: entry_ok_def menu_ok_def power_line_def)
  obtain a b c where "ns = [a, b, c]" using ns(2) by (auto simp: numeral_3_eq_3 length_Suc_conv)
  moreover have "ns ! 0 = ''Disabled''" "ns ! 1 = ''50 Hz''" "ns ! 2 = ''60 Hz''"
    using names [of 0] names [of 1] names [of 2] by (simp_all add: power_names_def)
  ultimately show ?thesis
    using ns(1) assms by (simp add: entry_ok_def power_line_def two_values_def class_of_def V4L2_CTRL_CLASS_USER_def)
qed

end
