(* ===== verification/Uvc_Dynctrl.thy ===== *)
theory Uvc_Dynctrl
  imports Uvc_Queue
begin

text \<open>
  The controls of Logitech cameras that the plugin declares to the driver
  (\<^verbatim>\<open>src/mjpg-streamer/plugins/input_uvc/dynctrl.c\<close> and \<^verbatim>\<open>dynctrl.h\<close>): the table of extension unit controls, the
  table that maps fields of them to V4L2 controls, and \<^verbatim>\<open>initDynCtrls\<close> that sends both.
\<close>

definition UVC_GUID_LOGITECH_VIDEO_PIPE :: "byte list" where
  "UVC_GUID_LOGITECH_VIDEO_PIPE =
     [0x82, 0x06, 0x61, 0x63, 0x70, 0x50, 0xab, 0x49, 0xb8, 0xcc, 0xb3, 0x85, 0x5e, 0x8d, 0x22, 0x50]"

definition UVC_GUID_LOGITECH_MOTOR_CONTROL :: "byte list" where
  "UVC_GUID_LOGITECH_MOTOR_CONTROL =
     [0x82, 0x06, 0x61, 0x63, 0x70, 0x50, 0xab, 0x49, 0xb8, 0xcc, 0xb3, 0x85, 0x5e, 0x8d, 0x22, 0x56]"

definition UVC_GUID_LOGITECH_USER_HW_CONTROL :: "byte list" where
  "UVC_GUID_LOGITECH_USER_HW_CONTROL =
     [0x82, 0x06, 0x61, 0x63, 0x70, 0x50, 0xab, 0x49, 0xb8, 0xcc, 0xb3, 0x85, 0x5e, 0x8d, 0x22, 0x1f]"

definition XU_HW_CONTROL_LED1 :: byte where "XU_HW_CONTROL_LED1 = 1"
definition XU_MOTORCONTROL_PANTILT_RELATIVE :: byte where "XU_MOTORCONTROL_PANTILT_RELATIVE = 1"
definition XU_MOTORCONTROL_PANTILT_RESET :: byte where "XU_MOTORCONTROL_PANTILT_RESET = 2"
definition XU_MOTORCONTROL_FOCUS :: byte where "XU_MOTORCONTROL_FOCUS = 3"
definition XU_COLOR_PROCESSING_DISABLE :: byte where "XU_COLOR_PROCESSING_DISABLE = 5"
definition XU_RAW_DATA_BITS_PER_PIXEL :: byte where "XU_RAW_DATA_BITS_PER_PIXEL = 8"

definition UVC_CONTROL_SET_CUR :: cint where "UVC_CONTROL_SET_CUR = push_bit 0 1"
definition UVC_CONTROL_GET_CUR :: cint where "UVC_CONTROL_GET_CUR = push_bit 1 1"
definition UVC_CONTROL_GET_MIN :: cint where "UVC_CONTROL_GET_MIN = push_bit 2 1"
definition UVC_CONTROL_GET_MAX :: cint where "UVC_CONTROL_GET_MAX = push_bit 3 1"
definition UVC_CONTROL_GET_RES :: cint where "UVC_CONTROL_GET_RES = push_bit 4 1"
definition UVC_CONTROL_GET_DEF :: cint where "UVC_CONTROL_GET_DEF = push_bit 5 1"
definition UVC_CONTROL_AUTO_UPDATE :: cint where "UVC_CONTROL_AUTO_UPDATE = push_bit 7 1"

definition UVC_CTRL_DATA_TYPE_SIGNED :: nat where "UVC_CTRL_DATA_TYPE_SIGNED = 1"
definition UVC_CTRL_DATA_TYPE_UNSIGNED :: nat where "UVC_CTRL_DATA_TYPE_UNSIGNED = 2"
definition UVC_CTRL_DATA_TYPE_BOOLEAN :: nat where "UVC_CTRL_DATA_TYPE_BOOLEAN = 3"

definition V4L2_CID_PAN_RELATIVE :: cint where "V4L2_CID_PAN_RELATIVE = 0x009a0904"
definition V4L2_CID_TILT_RELATIVE :: cint where "V4L2_CID_TILT_RELATIVE = 0x009a0905"
definition V4L2_CID_PAN_RESET :: cint where "V4L2_CID_PAN_RESET = 0x009a0906"
definition V4L2_CID_TILT_RESET :: cint where "V4L2_CID_TILT_RESET = 0x009a0907"
definition V4L2_CID_BASE_LOGITECH :: cint where "V4L2_CID_BASE_LOGITECH = 0x0A046D01"
definition V4L2_CID_PANTILT_RESET_LOGITECH :: cint where "V4L2_CID_PANTILT_RESET_LOGITECH = V4L2_CID_BASE_LOGITECH + 2"
definition V4L2_CID_FOCUS_LOGITECH :: cint where "V4L2_CID_FOCUS_LOGITECH = V4L2_CID_BASE_LOGITECH + 3"
definition V4L2_CID_LED1_MODE_LOGITECH :: cint where "V4L2_CID_LED1_MODE_LOGITECH = V4L2_CID_BASE_LOGITECH + 4"
definition V4L2_CID_LED1_FREQUENCY_LOGITECH :: cint where "V4L2_CID_LED1_FREQUENCY_LOGITECH = V4L2_CID_BASE_LOGITECH + 5"
definition V4L2_CID_DISABLE_PROCESSING_LOGITECH :: cint where "V4L2_CID_DISABLE_PROCESSING_LOGITECH = V4L2_CID_BASE_LOGITECH + 0x70"
definition V4L2_CID_RAW_BITS_PER_PIXEL_LOGITECH :: cint where "V4L2_CID_RAW_BITS_PER_PIXEL_LOGITECH = V4L2_CID_BASE_LOGITECH + 0x71"

definition xu_ctrls :: "uvc_xu_control_info list" where
  "xu_ctrls = [
     \<lparr>xi_entity = UVC_GUID_LOGITECH_MOTOR_CONTROL, xi_index = 0, xi_selector = XU_MOTORCONTROL_PANTILT_RELATIVE, xi_size = 4,
      xi_flags = UVC_CONTROL_SET_CUR OR UVC_CONTROL_GET_MIN OR UVC_CONTROL_GET_MAX OR UVC_CONTROL_GET_DEF OR UVC_CONTROL_AUTO_UPDATE\<rparr>,
     \<lparr>xi_entity = UVC_GUID_LOGITECH_MOTOR_CONTROL, xi_index = 1, xi_selector = XU_MOTORCONTROL_PANTILT_RESET, xi_size = 1,
      xi_flags = UVC_CONTROL_SET_CUR OR UVC_CONTROL_GET_MIN OR UVC_CONTROL_GET_MAX OR UVC_CONTROL_GET_RES OR UVC_CONTROL_GET_DEF OR UVC_CONTROL_AUTO_UPDATE\<rparr>,
     \<lparr>xi_entity = UVC_GUID_LOGITECH_MOTOR_CONTROL, xi_index = 2, xi_selector = XU_MOTORCONTROL_FOCUS, xi_size = 6,
      xi_flags = UVC_CONTROL_SET_CUR OR UVC_CONTROL_GET_CUR OR UVC_CONTROL_GET_MIN OR UVC_CONTROL_GET_MAX OR UVC_CONTROL_GET_DEF OR UVC_CONTROL_AUTO_UPDATE\<rparr>,
     \<lparr>xi_entity = UVC_GUID_LOGITECH_VIDEO_PIPE, xi_index = 4, xi_selector = XU_COLOR_PROCESSING_DISABLE, xi_size = 1,
      xi_flags = UVC_CONTROL_SET_CUR OR UVC_CONTROL_GET_CUR OR UVC_CONTROL_GET_MIN OR UVC_CONTROL_GET_MAX OR UVC_CONTROL_GET_RES OR UVC_CONTROL_GET_DEF OR UVC_CONTROL_AUTO_UPDATE\<rparr>,
     \<lparr>xi_entity = UVC_GUID_LOGITECH_VIDEO_PIPE, xi_index = 7, xi_selector = XU_RAW_DATA_BITS_PER_PIXEL, xi_size = 1,
      xi_flags = UVC_CONTROL_SET_CUR OR UVC_CONTROL_GET_CUR OR UVC_CONTROL_GET_MIN OR UVC_CONTROL_GET_MAX OR UVC_CONTROL_GET_RES OR UVC_CONTROL_GET_DEF OR UVC_CONTROL_AUTO_UPDATE\<rparr>,
     \<lparr>xi_entity = UVC_GUID_LOGITECH_USER_HW_CONTROL, xi_index = 0, xi_selector = XU_HW_CONTROL_LED1, xi_size = 3,
      xi_flags = UVC_CONTROL_SET_CUR OR UVC_CONTROL_GET_CUR OR UVC_CONTROL_GET_MIN OR UVC_CONTROL_GET_MAX OR UVC_CONTROL_GET_RES OR UVC_CONTROL_GET_DEF OR UVC_CONTROL_AUTO_UPDATE\<rparr>]"

definition xu_mappings :: "uvc_xu_control_mapping list" where
  "xu_mappings = [
     \<lparr>xm_id = V4L2_CID_PAN_RELATIVE, xm_name = ''Pan (relative)'',
      xm_entity = UVC_GUID_LOGITECH_MOTOR_CONTROL, xm_selector = XU_MOTORCONTROL_PANTILT_RELATIVE, xm_size = 16, xm_offset = 0,
      xm_v4l2_type = V4L2_CTRL_TYPE_INTEGER, xm_data_type = UVC_CTRL_DATA_TYPE_SIGNED\<rparr>,
     \<lparr>xm_id = V4L2_CID_TILT_RELATIVE, xm_name = ''Tilt (relative)'',
      xm_entity = UVC_GUID_LOGITECH_MOTOR_CONTROL, xm_selector = XU_MOTORCONTROL_PANTILT_RELATIVE, xm_size = 16, xm_offset = 16,
      xm_v4l2_type = V4L2_CTRL_TYPE_INTEGER, xm_data_type = UVC_CTRL_DATA_TYPE_SIGNED\<rparr>,
     \<lparr>xm_id = V4L2_CID_PAN_RESET, xm_name = ''Pan Reset'',
      xm_entity = UVC_GUID_LOGITECH_MOTOR_CONTROL, xm_selector = XU_MOTORCONTROL_PANTILT_RESET, xm_size = 1, xm_offset = 0,
      xm_v4l2_type = V4L2_CTRL_TYPE_INTEGER, xm_data_type = UVC_CTRL_DATA_TYPE_UNSIGNED\<rparr>,
     \<lparr>xm_id = V4L2_CID_TILT_RESET, xm_name = ''Tilt Reset'',
      xm_entity = UVC_GUID_LOGITECH_MOTOR_CONTROL, xm_selector = XU_MOTORCONTROL_PANTILT_RESET, xm_size = 1, xm_offset = 1,
      xm_v4l2_type = V4L2_CTRL_TYPE_INTEGER, xm_data_type = UVC_CTRL_DATA_TYPE_UNSIGNED\<rparr>,
     \<lparr>xm_id = V4L2_CID_PANTILT_RESET_LOGITECH, xm_name = ''Pan/tilt Reset'',
      xm_entity = UVC_GUID_LOGITECH_MOTOR_CONTROL, xm_selector = XU_MOTORCONTROL_PANTILT_RESET, xm_size = 8, xm_offset = 0,
      xm_v4l2_type = V4L2_CTRL_TYPE_INTEGER, xm_data_type = UVC_CTRL_DATA_TYPE_UNSIGNED\<rparr>,
     \<lparr>xm_id = V4L2_CID_FOCUS_LOGITECH, xm_name = ''Focus (absolute)'',
      xm_entity = UVC_GUID_LOGITECH_MOTOR_CONTROL, xm_selector = XU_MOTORCONTROL_FOCUS, xm_size = 8, xm_offset = 0,
      xm_v4l2_type = V4L2_CTRL_TYPE_INTEGER, xm_data_type = UVC_CTRL_DATA_TYPE_UNSIGNED\<rparr>,
     \<lparr>xm_id = V4L2_CID_LED1_MODE_LOGITECH, xm_name = ''LED1 Mode'',
      xm_entity = UVC_GUID_LOGITECH_USER_HW_CONTROL, xm_selector = XU_HW_CONTROL_LED1, xm_size = 8, xm_offset = 0,
      xm_v4l2_type = V4L2_CTRL_TYPE_INTEGER, xm_data_type = UVC_CTRL_DATA_TYPE_UNSIGNED\<rparr>,
     \<lparr>xm_id = V4L2_CID_LED1_FREQUENCY_LOGITECH, xm_name = ''LED1 Frequency'',
      xm_entity = UVC_GUID_LOGITECH_USER_HW_CONTROL, xm_selector = XU_HW_CONTROL_LED1, xm_size = 8, xm_offset = 16,
      xm_v4l2_type = V4L2_CTRL_TYPE_INTEGER, xm_data_type = UVC_CTRL_DATA_TYPE_UNSIGNED\<rparr>,
     \<lparr>xm_id = V4L2_CID_DISABLE_PROCESSING_LOGITECH, xm_name = ''Disable video processing'',
      xm_entity = UVC_GUID_LOGITECH_VIDEO_PIPE, xm_selector = XU_COLOR_PROCESSING_DISABLE, xm_size = 8, xm_offset = 0,
      xm_v4l2_type = V4L2_CTRL_TYPE_BOOLEAN, xm_data_type = UVC_CTRL_DATA_TYPE_BOOLEAN\<rparr>,
     \<lparr>xm_id = V4L2_CID_RAW_BITS_PER_PIXEL_LOGITECH, xm_name = ''Raw bits per pixel'',
      xm_entity = UVC_GUID_LOGITECH_VIDEO_PIPE, xm_selector = XU_RAW_DATA_BITS_PER_PIXEL, xm_size = 8, xm_offset = 0,
      xm_v4l2_type = V4L2_CTRL_TYPE_INTEGER, xm_data_type = UVC_CTRL_DATA_TYPE_UNSIGNED\<rparr>]"

text \<open>Failures are reported on the terminal and otherwise ignored.\<close>

definition initDynCtrls :: "'d sys \<Rightarrow> 'd world \<Rightarrow> int \<times> 'd world" where
  "initDynCtrls io w =
     (let w = fold (\<lambda>c w. snd (xioctl io (UVCIOC_CTRL_ADD c) w)) xu_ctrls w;
          w = fold (\<lambda>m w. snd (xioctl io (UVCIOC_CTRL_MAP m) w)) xu_mappings w
      in (0, w))"

subsection \<open>Properties\<close>

text \<open>A mapping takes a range of bits out of a declared control.\<close>

definition mapping_of :: "uvc_xu_control_mapping \<Rightarrow> uvc_xu_control_info \<Rightarrow> bool" where
  "mapping_of m c \<longleftrightarrow> xi_entity c = xm_entity m \<and> xi_selector c = xm_selector m \<and>
     unat (xm_offset m) + unat (xm_size m) \<le> 8 * unat (xi_size c)"

lemmas table_defs = xu_ctrls_def xu_mappings_def XU_HW_CONTROL_LED1_def XU_MOTORCONTROL_PANTILT_RELATIVE_def
  XU_MOTORCONTROL_PANTILT_RESET_def XU_MOTORCONTROL_FOCUS_def XU_COLOR_PROCESSING_DISABLE_def XU_RAW_DATA_BITS_PER_PIXEL_def
  UVC_GUID_LOGITECH_VIDEO_PIPE_def UVC_GUID_LOGITECH_MOTOR_CONTROL_def UVC_GUID_LOGITECH_USER_HW_CONTROL_def

lemmas cid_defs = V4L2_CID_PAN_RELATIVE_def V4L2_CID_TILT_RELATIVE_def V4L2_CID_PAN_RESET_def V4L2_CID_TILT_RESET_def
  V4L2_CID_BASE_LOGITECH_def V4L2_CID_PANTILT_RESET_LOGITECH_def V4L2_CID_FOCUS_LOGITECH_def V4L2_CID_LED1_MODE_LOGITECH_def
  V4L2_CID_LED1_FREQUENCY_LOGITECH_def V4L2_CID_DISABLE_PROCESSING_LOGITECH_def V4L2_CID_RAW_BITS_PER_PIXEL_LOGITECH_def

lemma mappings_fit: "list_all (\<lambda>m. list_ex (mapping_of m) xu_ctrls) xu_mappings"
  by (simp add: table_defs mapping_of_def)

lemma distinct_ids: "distinct (map xm_id xu_mappings)"
  by (simp add: table_defs cid_defs)

lemma distinct_ctrls: "distinct (map (\<lambda>c. (xi_entity c, xi_selector c)) xu_ctrls)"
  by (simp add: table_defs)

lemma remdups_adj_block: "x \<notin> set ys \<Longrightarrow> remdups_adj (replicate (Suc n) x @ ys) = x # remdups_adj ys"
proof (induction n)
  case 0
  then show ?case by (cases ys) auto
qed simp

text \<open>Requests made with \<^verbatim>\<open>xioctl\<close> one after the other: each appears in a block of its own.\<close>

lemma requests_in_blocks:
  "\<exists>es. trace (fold (\<lambda>c w. snd (xioctl io c w)) cs w) = trace w @ es \<and> set (map fst es) = set cs \<and>
    (distinct cs \<longrightarrow> remdups_adj (map fst es) = cs)"
proof (induction cs arbitrary: w)
  case (Cons c cs)
  obtain r w1 where x: "xioctl io c w = (r, w1)" by fastforce
  obtain rs where one: "trace w1 = trace w @ map (Pair c) (rs @ [r])" using trace_xioctl [OF x] by blast
  obtain es where es: "trace (fold (\<lambda>c w. snd (xioctl io c w)) cs w1) = trace w1 @ es" "set (map fst es) = set cs"
    "distinct cs \<longrightarrow> remdups_adj (map fst es) = cs" using Cons.IH [of w1] by blast
  have block: "map fst (map (Pair c) (rs @ [r])) = replicate (Suc (length rs)) c"
    by (simp add: comp_def map_replicate_const replicate_append_same)
  note split = map_append [of fst "map (Pair c) (rs @ [r])" es]
  have "remdups_adj (map fst (map (Pair c) (rs @ [r]) @ es)) = c # cs" if "distinct (c # cs)"
    using that es(2,3) remdups_adj_block [of c "map fst es" "length rs"] unfolding split block by auto
  moreover have "set (map fst (map (Pair c) (rs @ [r]) @ es)) = set (c # cs)"
    unfolding split block using es(2) by auto
  ultimately show ?case
    by (intro exI [of _ "map (Pair c) (rs @ [r]) @ es"]) (simp only: fold_simps x snd_conv es(1) one append_assoc simp_thms, blast)
qed simp

lemma fold_map_calls: "fold (\<lambda>x w. snd (xioctl io (f x) w)) xs w = fold (\<lambda>c w. snd (xioctl io c w)) (map f xs) w"
  by (induction xs arbitrary: w) auto

text \<open>
  C36. Whatever the driver answers, \<^verbatim>\<open>initDynCtrls\<close> returns 0 after asking it, repetitions of a failed request
  aside, to declare exactly the six controls and then the ten mappings, in the order of the tables.  Every
  mapping is a field within the bits of one of the six controls, no two mappings share a number and
  no two controls a selector.
\<close>

theorem initDynCtrls_declares:
  "\<exists>es w'. initDynCtrls io w = (0, w') \<and> trace w' = trace w @ es \<and>
    remdups_adj (map fst es) = map UVCIOC_CTRL_ADD xu_ctrls @ map UVCIOC_CTRL_MAP xu_mappings \<and>
    length xu_ctrls = 6 \<and> length xu_mappings = 10 \<and>
    list_all (\<lambda>m. list_ex (mapping_of m) xu_ctrls) xu_mappings \<and>
    distinct (map xm_id xu_mappings) \<and> distinct (map (\<lambda>c. (xi_entity c, xi_selector c)) xu_ctrls)"
proof -
  let ?cs = "map UVCIOC_CTRL_ADD xu_ctrls @ map UVCIOC_CTRL_MAP xu_mappings"
  have "distinct xu_ctrls" "distinct xu_mappings"
    using distinct_ids distinct_ctrls by (simp_all only: distinct_map)
  moreover have "distinct (map UVCIOC_CTRL_ADD xs @ map UVCIOC_CTRL_MAP ys)" if "distinct xs" "distinct ys" for xs ys
    using that by (auto simp: distinct_map inj_on_def)
  ultimately have "distinct ?cs" by blast
  moreover have "initDynCtrls io w = (0, fold (\<lambda>c w. snd (xioctl io c w)) ?cs w)"
    by (simp add: initDynCtrls_def fold_map_calls [of io UVCIOC_CTRL_ADD] fold_map_calls [of io UVCIOC_CTRL_MAP])
  moreover obtain es where "trace (fold (\<lambda>c w. snd (xioctl io c w)) ?cs w) = trace w @ es"
    "distinct ?cs \<longrightarrow> remdups_adj (map fst es) = ?cs" using requests_in_blocks [of io ?cs w] by blast
  moreover have "length xu_ctrls = 6" "length xu_mappings = 10" by (simp_all add: xu_ctrls_def xu_mappings_def)
  ultimately show ?thesis using mappings_fit distinct_ids distinct_ctrls by simp
qed

end
