(* ===== verification/Uvc_Jpeg.thy ===== *)
theory Uvc_Jpeg
  imports Uvc_Device
begin

text \<open>
  \<^verbatim>\<open>src/mjpg-streamer/plugins/input_uvc/jpeg_utils.c\<close>: converting a YUYV frame to RGB lines and compressing
  them with libjpeg into a memory buffer through the plugin's own destination manager.  The
  compressor is an argument: from the size, the quality and the RGB lines to what it does with the
  destination manager, which is to store bytes behind \<^verbatim>\<open>next_output_byte\<close> and to call
  \<^verbatim>\<open>empty_output_buffer\<close>.
\<close>

subsection \<open>The destination manager\<close>

definition OUTPUT_BUF_SIZE :: nat where "OUTPUT_BUF_SIZE = 4096"

record mjpg_destination_mgr =
  dbuffer :: "byte list"
  free_in_buffer :: nat
  outbuffer :: "byte list"
  outbuffer_cursor :: nat
  dwritten :: nat

definition dest_buffer :: "byte list \<Rightarrow> mjpg_destination_mgr" where
  "dest_buffer out = \<lparr>dbuffer = [], free_in_buffer = 0, outbuffer = out, outbuffer_cursor = 0, dwritten = 0\<rparr>"

text \<open>\<open>mem\<close> is what the memory of libjpeg's pool holds.\<close>

definition init_destination :: "byte list \<Rightarrow> mjpg_destination_mgr \<Rightarrow> mjpg_destination_mgr" where
  "init_destination mem d = d\<lparr>dbuffer := mem, dwritten := 0, free_in_buffer := OUTPUT_BUF_SIZE\<rparr>"

text \<open>\<^verbatim>\<open>memcpy(dest->outbuffer_cursor, dest->buffer, n)\<close> with the cursor and the count moved on.\<close>

definition flush_bytes :: "nat \<Rightarrow> mjpg_destination_mgr \<Rightarrow> crash + mjpg_destination_mgr" where
  "flush_bytes n d =
     (let c = outbuffer_cursor d
      in if c + n \<le> length (outbuffer d)
         then Inr (d\<lparr>outbuffer := take c (outbuffer d) @ take n (dbuffer d) @ drop (c + n) (outbuffer d),
                    outbuffer_cursor := c + n, dwritten := dwritten d + n\<rparr>)
         else Inl BufferOverflow)"

definition empty_output_buffer :: "mjpg_destination_mgr \<Rightarrow> crash + mjpg_destination_mgr" where
  "empty_output_buffer d = sbind (flush_bytes OUTPUT_BUF_SIZE d) (\<lambda>d. Inr (d\<lparr>free_in_buffer := OUTPUT_BUF_SIZE\<rparr>))"

definition term_destination :: "mjpg_destination_mgr \<Rightarrow> crash + mjpg_destination_mgr" where
  "term_destination d = flush_bytes (OUTPUT_BUF_SIZE - free_in_buffer d) d"

text \<open>What the compressor does with the manager.\<close>

datatype dest_event = Store "byte list" | Empty_Output_Buffer

fun dest_step :: "dest_event \<Rightarrow> mjpg_destination_mgr \<Rightarrow> crash + mjpg_destination_mgr" where
  "dest_step (Store bs) d =
     (let pos = OUTPUT_BUF_SIZE - free_in_buffer d
      in if length bs \<le> free_in_buffer d
         then Inr (d\<lparr>dbuffer := take pos (dbuffer d) @ bs @ drop (pos + length bs) (dbuffer d),
                    free_in_buffer := free_in_buffer d - length bs\<rparr>)
         else Inl BufferOverflow)"
| "dest_step Empty_Output_Buffer d = empty_output_buffer d"

fun dest_steps :: "dest_event list \<Rightarrow> mjpg_destination_mgr \<Rightarrow> crash + mjpg_destination_mgr" where
  "dest_steps [] d = Inr d"
| "dest_steps (e # es) d = sbind (dest_step e d) (dest_steps es)"

subsection \<open>Colour conversion\<close>

definition clamp :: "int \<Rightarrow> byte" where
  "clamp c = (if c > 255 then 255 else if c < 0 then 0 else word_of_int c)"

text \<open>One pixel from its luminance and the chrominance it shares with its neighbour.\<close>

definition rgb_of :: "byte \<Rightarrow> byte \<Rightarrow> byte \<Rightarrow> byte list" where
  "rgb_of yb ub vb =
     (let y = uint yb * 256; u = uint ub - 128; v = uint vb - 128;
          r = (y + 359 * v) div 256;
          g = (y - 88 * u - 183 * v) div 256;
          b = (y + 454 * u) div 256
      in [clamp r, clamp g, clamp b])"

text \<open>
  The inner loop over \<open>n\<close> pixels; \<open>z\<close> tells which pixel of the pair is next, \<open>p\<close> is the position of
  \<^verbatim>\<open>yuyv\<close> in the frame.  Both live on from line to line.
\<close>

fun convert_line :: "byte list \<Rightarrow> nat \<Rightarrow> bool \<Rightarrow> nat \<Rightarrow> crash + (byte list \<times> bool \<times> nat)" where
  "convert_line fb 0 z p = Inr ([], z, p)"
| "convert_line fb (Suc n) z p =
     sbind (at fb (int (if z then p + 2 else p))) (\<lambda>y.
     sbind (at fb (int (p + 1))) (\<lambda>u.
     sbind (at fb (int (p + 3))) (\<lambda>v.
     sbind (if z then convert_line fb n False (p + 4) else convert_line fb n True p) (\<lambda>(rest, zp).
       Inr (rgb_of y u v @ rest, zp)))))"

fun convert_lines :: "byte list \<Rightarrow> nat \<Rightarrow> nat \<Rightarrow> bool \<Rightarrow> nat \<Rightarrow> crash + byte list list" where
  "convert_lines fb wid 0 z p = Inr []"
| "convert_lines fb wid (Suc h) z p =
     sbind (convert_line fb wid z p) (\<lambda>(row, z, p).
     sbind (convert_lines fb wid h z p) (\<lambda>rows. Inr (row # rows)))"

type_synonym compressor = "nat \<Rightarrow> nat \<Rightarrow> int \<Rightarrow> byte list list \<Rightarrow> dest_event list"

definition compress_yuyv_to_jpeg ::
  "compressor \<Rightarrow> bool \<Rightarrow> byte list \<Rightarrow> vdIn \<Rightarrow> byte list \<Rightarrow> int \<Rightarrow> crash + (byte list \<times> nat)"
where
  "compress_yuyv_to_jpeg jpeg line_mem pool vd buf quality =
     (case framebuffer vd of
        None \<Rightarrow> Inl NullDereference
      | Some fb \<Rightarrow>
          if \<not> line_mem then Inl NullDereference
          else
            sbind (convert_lines fb (unat (vd_width vd)) (unat (vd_height vd)) False 0) (\<lambda>rows.
            sbind (dest_steps (jpeg (unat (vd_width vd)) (unat (vd_height vd)) quality rows)
              (init_destination pool (dest_buffer buf))) (\<lambda>d.
            sbind (term_destination d) (\<lambda>d. Inr (outbuffer d, dwritten d)))))"

subsection \<open>The destination manager collects the stored bytes\<close>

text \<open>The order in which libjpeg may use a manager: \<open>n\<close> bytes are free, and only a full buffer is emptied.\<close>

fun room_after :: "nat \<Rightarrow> dest_event \<Rightarrow> nat" where
  "room_after n (Store bs) = n - length bs"
| "room_after n Empty_Output_Buffer = OUTPUT_BUF_SIZE"

fun allowed :: "nat \<Rightarrow> dest_event \<Rightarrow> bool" where
  "allowed n (Store bs) \<longleftrightarrow> length bs \<le> n"
| "allowed n Empty_Output_Buffer \<longleftrightarrow> n = 0"

fun stored :: "dest_event \<Rightarrow> byte list" where
  "stored (Store bs) = bs"
| "stored Empty_Output_Buffer = []"

fun protocol :: "nat \<Rightarrow> dest_event list \<Rightarrow> bool" where
  "protocol n [] \<longleftrightarrow> True"
| "protocol n (e # es) \<longleftrightarrow> allowed n e \<and> protocol (room_after n e) es"

definition all_stored :: "dest_event list \<Rightarrow> byte list" where
  "all_stored es = concat (map stored es)"

text \<open>
  The contract between the compressor and a destination: a step that is allowed appends the stored
  bytes to the content, unless the content has outgrown the capacity.
\<close>

locale byte_sink =
  fixes ok :: "'s \<Rightarrow> bool"
    and room :: "'s \<Rightarrow> nat"
    and cap :: "'s \<Rightarrow> nat"
    and content :: "'s \<Rightarrow> byte list"
    and step :: "dest_event \<Rightarrow> 's \<Rightarrow> crash + 's"
    and steps :: "dest_event list \<Rightarrow> 's \<Rightarrow> crash + 's"
  assumes step_ok: "ok s \<Longrightarrow> allowed (room s) e \<Longrightarrow> step e s = Inr s' \<Longrightarrow>
      ok s' \<and> content s' = content s @ stored e \<and> room s' = room_after (room s) e \<and> cap s' = cap s"
    and step_fails: "ok s \<Longrightarrow> allowed (room s) e \<Longrightarrow> step e s = Inl x \<Longrightarrow> x = BufferOverflow \<and> cap s < length (content s)"
    and steps_Nil: "steps [] s = Inr s"
    and steps_Cons: "steps (e # es) s = sbind (step e s) (steps es)"
begin

lemma steps_collect:
  assumes "ok s" "protocol (room s) es"
  shows "case steps es s of
      Inl x \<Rightarrow> x = BufferOverflow \<and> cap s < length (content s @ all_stored es)
    | Inr s' \<Rightarrow> ok s' \<and> content s' = content s @ all_stored es \<and> cap s' = cap s"
  using assms
proof (induction es arbitrary: s)
  case (Cons e es)
  show ?case
  proof (cases "step e s")
    case (Inl x)
    then show ?thesis using step_fails [OF Cons.prems(1) _ Inl] Cons.prems(2) by (simp add: steps_Cons)
  next
    case (Inr s')
    then show ?thesis
      using step_ok [OF Cons.prems(1) _ Inr] Cons.prems(2) Cons.IH [of s']
      by (auto simp: steps_Cons all_stored_def split: sum.splits)
  qed
qed (simp add: steps_Nil all_stored_def)

end

text \<open>What is behind the cursor is still what the caller's buffer \<open>out\<close> held.\<close>

definition dest_ok :: "byte list \<Rightarrow> mjpg_destination_mgr \<Rightarrow> bool" where
  "dest_ok out d \<longleftrightarrow> length (dbuffer d) = OUTPUT_BUF_SIZE \<and> free_in_buffer d \<le> OUTPUT_BUF_SIZE \<and>
     outbuffer_cursor d = dwritten d \<and> dwritten d \<le> length (outbuffer d) \<and>
     length (outbuffer d) = length out \<and> drop (dwritten d) (outbuffer d) = drop (dwritten d) out"

definition dest_content :: "mjpg_destination_mgr \<Rightarrow> byte list" where
  "dest_content d = take (dwritten d) (outbuffer d) @ take (OUTPUT_BUF_SIZE - free_in_buffer d) (dbuffer d)"

lemma flush_bytes_ok:
  assumes "dest_ok out d" "flush_bytes (OUTPUT_BUF_SIZE - free_in_buffer d) d = Inr d'"
  shows "take (dwritten d') (outbuffer d') = dest_content d" "dwritten d' = length (dest_content d)"
    "length (outbuffer d') = length (outbuffer d)" "outbuffer_cursor d' = dwritten d'" "dbuffer d' = dbuffer d"
    "dwritten d' \<le> length (outbuffer d')" "drop (dwritten d') (outbuffer d') = drop (dwritten d') out"
proof -
  have "drop (dwritten d + k) (outbuffer d) = drop (dwritten d + k) out" for k
    using assms(1) by (metis dest_ok_def drop_drop add.commute)
  note behind = this
  show "drop (dwritten d') (outbuffer d') = drop (dwritten d') out"
    using behind [of "OUTPUT_BUF_SIZE - free_in_buffer d"] assms by (auto simp: flush_bytes_def dest_ok_def Let_def split: if_splits)
qed (use assms in \<open>auto simp: flush_bytes_def dest_ok_def dest_content_def Let_def split: if_splits\<close>)

interpretation mgr: byte_sink "dest_ok out" free_in_buffer "\<lambda>d. length (outbuffer d)" dest_content dest_step dest_steps for out
proof
  fix d e d' assume a: "dest_ok out d" "allowed (free_in_buffer d) e" "dest_step e d = Inr d'"
  show "dest_ok out d' \<and> dest_content d' = dest_content d @ stored e \<and>
      free_in_buffer d' = room_after (free_in_buffer d) e \<and> length (outbuffer d') = length (outbuffer d)"
  proof (cases e)
    case (Store bs)
    then show ?thesis using a by (auto simp: Let_def dest_ok_def dest_content_def)
  next
    case Empty_Output_Buffer
    with a obtain d1 where d1: "flush_bytes (OUTPUT_BUF_SIZE - free_in_buffer d) d = Inr d1" "d' = d1\<lparr>free_in_buffer := OUTPUT_BUF_SIZE\<rparr>"
      by (auto simp: empty_output_buffer_def sbind_Inr)
    from flush_bytes_ok [OF a(1) d1(1)] Empty_Output_Buffer a(1) show ?thesis
      by (simp add: d1(2) dest_ok_def dest_content_def)
  qed
next
  fix d e x assume "dest_ok out d" "allowed (free_in_buffer d) e" "dest_step e d = Inl x"
  then show "x = BufferOverflow \<and> length (outbuffer d) < length (dest_content d)"
    by (cases e) (auto simp: empty_output_buffer_def sbind_Inl flush_bytes_def dest_ok_def dest_content_def Let_def split: if_splits)
qed auto

subsection \<open>The conversion is pixel by pixel\<close>

text \<open>Pixel \<open>i\<close> of a frame: two pixels share four bytes.\<close>

definition rgb_at :: "byte list \<Rightarrow> nat \<Rightarrow> byte list" where
  "rgb_at fb i =
     (let p = 4 * (i div 2) in rgb_of (fb ! (if odd i then p + 2 else p)) (fb ! (p + 1)) (fb ! (p + 3)))"

definition rgb_line :: "byte list \<Rightarrow> nat \<Rightarrow> nat \<Rightarrow> byte list" where
  "rgb_line fb wid r = concat (map (rgb_at fb) [r * wid..<r * wid + wid])"

lemma at_nat: "j < length xs \<Longrightarrow> at xs (int j) = Inr (xs ! j)"
  by simp

lemma convert_line_eq:
  "4 * ((i + n + 1) div 2) \<le> length fb \<Longrightarrow>
    convert_line fb n (odd i) (4 * (i div 2)) = Inr (concat (map (rgb_at fb) [i..<i + n]), odd (i + n), 4 * ((i + n) div 2))"
proof (induction n arbitrary: i)
  case (Suc n)
  define p where "p = 4 * (i div 2)"
  have "i div 2 + 1 \<le> (i + Suc n + 1) div 2" by presburger
  then have "p + 3 < length fb" using Suc.prems by (simp add: p_def)
  then have reads: "at fb (int (if odd i then p + 2 else p)) = Inr (fb ! (if odd i then p + 2 else p))"
    "at fb (int (p + 1)) = Inr (fb ! (p + 1))" "at fb (int (p + 3)) = Inr (fb ! (p + 3))"
    by (intro at_nat, simp)+
  have "(if odd i then convert_line fb n False (p + 4) else convert_line fb n True p) =
      convert_line fb n (odd (Suc i)) (4 * (Suc i div 2))" by (auto simp: p_def add.commute)
  also have "\<dots> = Inr (concat (map (rgb_at fb) [Suc i..<Suc i + n]), odd (Suc i + n), 4 * ((Suc i + n) div 2))"
    using Suc.IH [of "Suc i"] Suc.prems by simp
  finally have rest: "(if odd i then convert_line fb n False (p + 4) else convert_line fb n True p) = \<dots>" .
  have here: "rgb_at fb i = rgb_of (fb ! (if odd i then p + 2 else p)) (fb ! (p + 1)) (fb ! (p + 3))"
    by (simp add: rgb_at_def Let_def p_def)
  have list: "[i..<i + Suc n] = i # [Suc i..<Suc i + n]" by (simp add: upt_conv_Cons)
  show ?case
    unfolding p_def [symmetric] convert_line.simps(2) reads sbind_simps rest prod.case list list.map concat.simps here
    by simp
qed simp

lemma convert_lines_eq:
  "4 * (((r + h) * wid + 1) div 2) \<le> length fb \<Longrightarrow>
    convert_lines fb wid h (odd (r * wid)) (4 * (r * wid div 2)) = Inr (map (rgb_line fb wid) [r..<r + h])"
proof (induction h arbitrary: r)
  case (Suc h)
  have "r * wid + wid \<le> (r + Suc h) * wid" by (simp add: algebra_simps)
  then have "4 * ((r * wid + wid + 1) div 2) \<le> length fb"
    using Suc.prems by (meson div_le_mono add_le_mono1 le_trans mult_le_mono2)
  from convert_line_eq [OF this] have line: "convert_line fb wid (odd (r * wid)) (4 * (r * wid div 2)) =
      Inr (rgb_line fb wid r, odd (Suc r * wid), 4 * (Suc r * wid div 2))"
    by (simp add: rgb_line_def add.commute)
  have "[r..<r + Suc h] = r # [Suc r..<Suc r + h]" by (simp add: upt_conv_Cons)
  with Suc.IH [of "Suc r"] Suc.prems line show ?case by (simp add: add.commute del: upt_Suc mult_Suc)
qed simp

text \<open>
  C34. Compressing a YUYV frame.  When the frame holds two bytes for each of an even number of pixels, the
  compressor is given line by line the pixels in order, each with its own luminance and the
  chrominance of its pair; what it then stores, in whatever pieces, is in the output buffer from
  the start, and the returned length is its length.  If it stores more than the buffer holds the
  buffer overflows: its size is not checked.
\<close>

theorem compress_yuyv_to_jpeg_collects:
  assumes "framebuffer vd = Some fb" "wid = unat (vd_width vd)" "hei = unat (vd_height vd)"
    and "even (hei * wid)" "2 * (hei * wid) \<le> length fb" "length pool = OUTPUT_BUF_SIZE"
    and "es = jpeg wid hei quality (map (rgb_line fb wid) [0..<hei])" "protocol OUTPUT_BUF_SIZE es"
  shows "compress_yuyv_to_jpeg jpeg True pool vd out quality =
    (if length (all_stored es) \<le> length out then Inr (overwrite (all_stored es) out, length (all_stored es)) else Inl BufferOverflow)"
proof -
  let ?d = "init_destination pool (dest_buffer out)"
  have "4 * ((hei * wid + 1) div 2) = 2 * (hei * wid)" using assms(4) by (auto elim: evenE)
  then have rows: "convert_lines fb wid hei False 0 = Inr (map (rgb_line fb wid) [0..<hei])"
    using convert_lines_eq [of 0 hei wid fb] assms(5) by simp
  have d: "dest_ok out ?d" "free_in_buffer ?d = OUTPUT_BUF_SIZE" "dest_content ?d = []" "outbuffer ?d = out"
    using assms(6) by (simp_all add: dest_ok_def init_destination_def dest_buffer_def dest_content_def)
  have run: "compress_yuyv_to_jpeg jpeg True pool vd out quality =
      sbind (dest_steps es ?d) (\<lambda>d. sbind (term_destination d) (\<lambda>d. Inr (outbuffer d, dwritten d)))"
    using assms(1-3,7) rows by (simp add: compress_yuyv_to_jpeg_def)
  note steps = mgr.steps_collect [OF d(1), unfolded d(2-4), OF assms(8)]
  show ?thesis
  proof (cases "dest_steps es ?d")
    case (Inl x)
    then show ?thesis using steps run by simp
  next
    case (Inr d')
    then have d': "dest_ok out d'" "dest_content d' = all_stored es" "length (outbuffer d') = length out" using steps by simp_all
    show ?thesis
    proof (cases "term_destination d'")
      case err: (Inl x)
      have "length (all_stored es) = dwritten d' + (OUTPUT_BUF_SIZE - free_in_buffer d')"
        using d'(1) by (simp add: d'(2) [symmetric] dest_content_def dest_ok_def)
      then show ?thesis using d' run Inr err
        by (auto simp: term_destination_def flush_bytes_def dest_ok_def dest_content_def Let_def split: if_splits)
    next
      case fin: (Inr d2)
      note f = flush_bytes_ok [OF d'(1) fin [unfolded term_destination_def], unfolded d'(2)]
      have "outbuffer d2 = all_stored es @ drop (length (all_stored es)) out"
        using f(1,2,7) by (metis append_take_drop_id)
      with f(2,3,6) d'(3) run Inr fin show ?thesis by (simp add: overwrite_def)
    qed
  qed
qed

text \<open>Two grey pixels, and a compressor that stores its lines as they are.\<close>

theorem compress_yuyv_to_jpeg_collects_witness:
  "compress_yuyv_to_jpeg (\<lambda>_ _ _ rows. [Store (concat rows)]) True (replicate OUTPUT_BUF_SIZE 0)
      (zero_vdIn\<lparr>vd_width := 2, vd_height := 1, framebuffer := Some [16, 128, 235, 128]\<rparr>) [0, 0, 0, 0, 0, 0, 0, 0] 80 =
    Inr ([16, 16, 16, 235, 235, 235, 0, 0], 6)"
proof -
  let ?fb = "[16, 128, 235, 128] :: byte list"
  have "rgb_at ?fb 0 = [16, 16, 16]" "rgb_at ?fb 1 = [235, 235, 235]"
    by (simp_all add: rgb_at_def rgb_of_def clamp_def Let_def)
  then have line: "rgb_line ?fb 2 0 = [16, 16, 16, 235, 235, 235]" by (simp add: rgb_line_def upt_rec)
  have room: "Suc (Suc (Suc (Suc (Suc (Suc 0))))) \<le> OUTPUT_BUF_SIZE" by (simp add: OUTPUT_BUF_SIZE_def)
  show ?thesis
    using compress_yuyv_to_jpeg_collects [of "zero_vdIn\<lparr>vd_width := 2, vd_height := 1, framebuffer := Some ?fb\<rparr>" ?fb 2 1
      "replicate OUTPUT_BUF_SIZE 0" "[Store [16, 16, 16, 235, 235, 235]]" "\<lambda>_ _ _ rows. [Store (concat rows)]" 80 "[0, 0, 0, 0, 0, 0, 0, 0]"]
    by (simp add: line all_stored_def overwrite_def room)
qed

end
