(* ===== verification/Uvc_Picture.thy ===== *)
theory Uvc_Picture
  imports Streamer_Types
begin

text \<open>
  \<^verbatim>\<open>is_huffman\<close> and \<^verbatim>\<open>memcpy_picture\<close> of \<^verbatim>\<open>src/mjpg-streamer/plugins/input_uvc/v4l2uvc.c\<close> with the
  table of \<^verbatim>\<open>huffman.h\<close>: cameras leave the Huffman tables out of their JPEG pictures, and the
  plugin puts the standard ones back in front of the frame header.  The source is a pointer
  into a buffer with \<open>buf\<close> as its content; reading behind that content and writing behind the
  end of the destination are memory errors.
\<close>

subsection \<open>The code\<close>

definition dht_data :: "byte list" where
  "dht_data = [
     0xff, 0xc4, 0x01, 0xa2, 0x00, 0x00, 0x01, 0x05, 0x01, 0x01, 0x01, 0x01, 0x01, 0x01, 0x00, 0x00, 0x00, 0x00, 0x00, 0x00,
     0x00, 0x00, 0x01, 0x02, 0x03, 0x04, 0x05, 0x06, 0x07, 0x08, 0x09, 0x0a, 0x0b, 0x01, 0x00, 0x03, 0x01, 0x01, 0x01, 0x01,
     0x01, 0x01, 0x01, 0x01, 0x01, 0x00, 0x00, 0x00, 0x00, 0x00, 0x00, 0x01, 0x02, 0x03, 0x04, 0x05, 0x06, 0x07, 0x08, 0x09,
     0x0a, 0x0b, 0x10, 0x00, 0x02, 0x01, 0x03, 0x03, 0x02, 0x04, 0x03, 0x05, 0x05, 0x04, 0x04, 0x00, 0x00, 0x01, 0x7d, 0x01,
     0x02, 0x03, 0x00, 0x04, 0x11, 0x05, 0x12, 0x21, 0x31, 0x41, 0x06, 0x13, 0x51, 0x61, 0x07, 0x22, 0x71, 0x14, 0x32, 0x81,
     0x91, 0xa1, 0x08, 0x23, 0x42, 0xb1, 0xc1, 0x15, 0x52, 0xd1, 0xf0, 0x24, 0x33, 0x62, 0x72, 0x82, 0x09, 0x0a, 0x16, 0x17,
     0x18, 0x19, 0x1a, 0x25, 0x26, 0x27, 0x28, 0x29, 0x2a, 0x34, 0x35, 0x36, 0x37, 0x38, 0x39, 0x3a, 0x43, 0x44, 0x45, 0x46,
     0x47, 0x48, 0x49, 0x4a, 0x53, 0x54, 0x55, 0x56, 0x57, 0x58, 0x59, 0x5a, 0x63, 0x64, 0x65, 0x66, 0x67, 0x68, 0x69, 0x6a,
     0x73, 0x74, 0x75, 0x76, 0x77, 0x78, 0x79, 0x7a, 0x83, 0x84, 0x85, 0x86, 0x87, 0x88, 0x89, 0x8a, 0x92, 0x93, 0x94, 0x95,
     0x96, 0x97, 0x98, 0x99, 0x9a, 0xa2, 0xa3, 0xa4, 0xa5, 0xa6, 0xa7, 0xa8, 0xa9, 0xaa, 0xb2, 0xb3, 0xb4, 0xb5, 0xb6, 0xb7,
     0xb8, 0xb9, 0xba, 0xc2, 0xc3, 0xc4, 0xc5, 0xc6, 0xc7, 0xc8, 0xc9, 0xca, 0xd2, 0xd3, 0xd4, 0xd5, 0xd6, 0xd7, 0xd8, 0xd9,
     0xda, 0xe1, 0xe2, 0xe3, 0xe4, 0xe5, 0xe6, 0xe7, 0xe8, 0xe9, 0xea, 0xf1, 0xf2, 0xf3, 0xf4, 0xf5, 0xf6, 0xf7, 0xf8, 0xf9,
     0xfa, 0x11, 0x00, 0x02, 0x01, 0x02, 0x04, 0x04, 0x03, 0x04, 0x07, 0x05, 0x04, 0x04, 0x00, 0x01, 0x02, 0x77, 0x00, 0x01,
     0x02, 0x03, 0x11, 0x04, 0x05, 0x21, 0x31, 0x06, 0x12, 0x41, 0x51, 0x07, 0x61, 0x71, 0x13, 0x22, 0x32, 0x81, 0x08, 0x14,
     0x42, 0x91, 0xa1, 0xb1, 0xc1, 0x09, 0x23, 0x33, 0x52, 0xf0, 0x15, 0x62, 0x72, 0xd1, 0x0a, 0x16, 0x24, 0x34, 0xe1, 0x25,
     0xf1, 0x17, 0x18, 0x19, 0x1a, 0x26, 0x27, 0x28, 0x29, 0x2a, 0x35, 0x36, 0x37, 0x38, 0x39, 0x3a, 0x43, 0x44, 0x45, 0x46,
     0x47, 0x48, 0x49, 0x4a, 0x53, 0x54, 0x55, 0x56, 0x57, 0x58, 0x59, 0x5a, 0x63, 0x64, 0x65, 0x66, 0x67, 0x68, 0x69, 0x6a,
     0x73, 0x74, 0x75, 0x76, 0x77, 0x78, 0x79, 0x7a, 0x82, 0x83, 0x84, 0x85, 0x86, 0x87, 0x88, 0x89, 0x8a, 0x92, 0x93, 0x94,
     0x95, 0x96, 0x97, 0x98, 0x99, 0x9a, 0xa2, 0xa3, 0xa4, 0xa5, 0xa6, 0xa7, 0xa8, 0xa9, 0xaa, 0xb2, 0xb3, 0xb4, 0xb5, 0xb6,
     0xb7, 0xb8, 0xb9, 0xba, 0xc2, 0xc3, 0xc4, 0xc5, 0xc6, 0xc7, 0xc8, 0xc9, 0xca, 0xd2, 0xd3, 0xd4, 0xd5, 0xd6, 0xd7, 0xd8,
     0xd9, 0xda, 0xe2, 0xe3, 0xe4, 0xe5, 0xe6, 0xe7, 0xe8, 0xe9, 0xea, 0xf2, 0xf3, 0xf4, 0xf5, 0xf6, 0xf7, 0xf8, 0xf9, 0xfa]"

text \<open>\<^verbatim>\<open>(p[0] << 8) | p[1]\<close> for a pointer at position \<open>i\<close> of the buffer.\<close>

definition marker_at :: "byte list \<Rightarrow> nat \<Rightarrow> crash + cint" where
  "marker_at buf i =
     (if Suc i < length buf then Inr (push_bit 8 (ucast (buf ! i)) OR ucast (buf ! Suc i)) else Inl OutOfBounds)"

definition SOS :: cint where "SOS = 0xffda"
definition DHT :: cint where "DHT = 0xffc4"
definition SOF0 :: cint where "SOF0 = 0xffc0"

text \<open>The loop of \<^verbatim>\<open>is_huffman\<close>; \<open>todo\<close> counts down where \<^verbatim>\<open>i\<close> counts up to 2049.\<close>

fun is_huffman_loop :: "byte list \<Rightarrow> nat \<Rightarrow> nat \<Rightarrow> crash + bool" where
  "is_huffman_loop buf i todo =
     sbind (marker_at buf i) (\<lambda>m.
       if m = SOS then Inr False
       else case todo of
          0 \<Rightarrow> Inr False
        | Suc n \<Rightarrow> if m = DHT then Inr True else is_huffman_loop buf (Suc i) n)"

declare is_huffman_loop.simps [simp del]

definition is_huffman :: "byte list \<Rightarrow> crash + bool" where
  "is_huffman buf = is_huffman_loop buf 0 2049"

text \<open>
  The search for the frame header: the marker is compared before the position is checked
  against \<^verbatim>\<open>ptlimit\<close>.
\<close>

fun find_sof :: "byte list \<Rightarrow> nat \<Rightarrow> nat \<Rightarrow> crash + nat" where
  "find_sof buf i left =
     sbind (marker_at buf i) (\<lambda>m.
       if m = SOF0 then Inr i
       else case left of 0 \<Rightarrow> Inr i | Suc n \<Rightarrow> find_sof buf (Suc i) n)"

declare find_sof.simps [simp del]

text \<open>\<^verbatim>\<open>memcpy(out + pos, src, n)\<close> with the new position.\<close>

definition memcpy_at :: "byte list \<Rightarrow> byte list \<times> nat \<Rightarrow> crash + (byte list \<times> nat)" where
  "memcpy_at src = (\<lambda>(out, pos).
     if pos + length src \<le> length out
     then Inr (take pos out @ src @ drop (pos + length src) out, pos + length src)
     else Inl BufferOverflow)"

text \<open>A source range \<^verbatim>\<open>buf + i .. buf + i + n\<close>.\<close>

definition range_of :: "byte list \<Rightarrow> nat \<Rightarrow> nat \<Rightarrow> crash + byte list" where
  "range_of buf i n = (if i + n \<le> length buf then Inr (take n (drop i buf)) else Inl OutOfBounds)"

definition memcpy_picture :: "byte list \<Rightarrow> byte list \<Rightarrow> nat \<Rightarrow> crash + (byte list \<times> nat)" where
  "memcpy_picture out buf psize =
     sbind (is_huffman buf) (\<lambda>h.
       if \<not> h then
         sbind (find_sof buf 0 psize) (\<lambda>sizein.
           if sizein \<ge> psize then Inr (out, 0)
           else
             sbind (range_of buf 0 sizein) (\<lambda>front.
             sbind (memcpy_at front (out, 0)) (\<lambda>op.
             sbind (memcpy_at dht_data op) (\<lambda>op.
             sbind (range_of buf sizein (psize - sizein)) (\<lambda>rest.
             memcpy_at rest op)))))
       else
         sbind (range_of buf 0 psize) (\<lambda>all. memcpy_at all (out, 0)))"

subsection \<open>A reference for the search loops\<close>

definition mark :: "byte list \<Rightarrow> nat \<Rightarrow> cint" where
  "mark buf i = push_bit 8 (ucast (buf ! i)) OR ucast (buf ! Suc i)"

lemma marker_at_ok [simp]: "Suc i < length buf \<Longrightarrow> marker_at buf i = Inr (mark buf i)"
  by (simp add: marker_at_def mark_def)

text \<open>A table among the first 2049 positions, with no start of scan in front of it.\<close>

definition has_dht :: "byte list \<Rightarrow> bool" where
  "has_dht buf \<longleftrightarrow> (\<exists>i\<in>{0..<2049}. mark buf i = DHT \<and> (\<forall>j\<in>{0..<i}. mark buf j \<noteq> SOS))"

definition add_tables :: "byte list \<Rightarrow> nat \<Rightarrow> byte list" where
  "add_tables buf n =
     (if has_dht buf then take n buf
      else case find (\<lambda>i. mark buf i = SOF0) [0..<n] of
             None \<Rightarrow> []
           | Some k \<Rightarrow> take k buf @ dht_data @ drop k (take n buf))"

lemma DHT_SOS [simp]: "DHT \<noteq> SOS" "SOS \<noteq> DHT"
  by (simp_all add: DHT_def SOS_def)

lemma first_hit_Suc:
  "(\<exists>k\<in>{i..<i + Suc n}. P k \<and> (\<forall>j\<in>{i..<k}. Q j)) \<longleftrightarrow>
    P i \<or> Q i \<and> (\<exists>k\<in>{Suc i..<Suc i + n}. P k \<and> (\<forall>j\<in>{Suc i..<k}. Q j))"
proof -
  have range: "{i..<i + Suc n} = insert i {Suc i..<Suc i + n}" by auto
  have "{i..<k} = insert i {Suc i..<k}" if "k \<in> {Suc i..<Suc i + n}" for k using that by auto
  then show ?thesis unfolding range by auto
qed

lemma is_huffman_loop_eq:
  "i + todo + 1 < length buf \<Longrightarrow>
    is_huffman_loop buf i todo = Inr (\<exists>k\<in>{i..<i + todo}. mark buf k = DHT \<and> (\<forall>j\<in>{i..<k}. mark buf j \<noteq> SOS))"
proof (induction todo arbitrary: i)
  case 0
  then show ?case by (simp add: is_huffman_loop.simps [of _ _ 0])
next
  case (Suc n)
  then show ?case
    unfolding first_hit_Suc by (simp add: is_huffman_loop.simps [of _ _ "Suc n"])
qed

lemma is_huffman_eq: "2051 \<le> length buf \<Longrightarrow> is_huffman buf = Inr (has_dht buf)"
  by (simp add: is_huffman_def has_dht_def is_huffman_loop_eq)

lemma find_sof_eq:
  "i + left + 1 < length buf \<Longrightarrow>
    find_sof buf i left =
      Inr (case find (\<lambda>k. mark buf k = SOF0) [i..<i + left] of None \<Rightarrow> i + left | Some k \<Rightarrow> k)"
proof (induction left arbitrary: i)
  case 0
  then show ?case by (simp add: find_sof.simps [of _ _ 0])
next
  case (Suc n)
  then show ?case by (simp add: find_sof.simps [of _ _ "Suc n"] upt_conv_Cons del: upt_Suc split: option.split)
qed

lemma length_dht_data [simp]: "length dht_data = 420"
  by (simp add: dht_data_def)

lemma find_upt_Some: "find P [0..<n] = Some k \<longleftrightarrow> k < n \<and> P k \<and> (\<forall>j<k. \<not> P j)"
  by (auto simp: find_Some_iff)

lemma length_add_tables: "n \<le> length buf \<Longrightarrow> length (add_tables buf n) \<le> n + 420"
  by (auto simp: add_tables_def find_upt_Some split: option.split)

lemma memcpy_at_overwrite:
  "length pre + length src \<le> length out \<Longrightarrow>
    memcpy_at src (overwrite pre out, length pre) = Inr (overwrite (pre @ src) out, length (pre @ src))"
  by (simp add: memcpy_at_def overwrite_def add.commute)

lemma memcpy_at_start: "length src \<le> length out \<Longrightarrow> memcpy_at src (out, 0) = Inr (overwrite src out, length src)"
  using memcpy_at_overwrite [of "[]" src out] by simp

lemma memcpy_picture_eq:
  assumes "2051 \<le> length buf" "n + 2 \<le> length buf" "n + 420 \<le> length out"
  shows "memcpy_picture out buf n = Inr (overwrite (add_tables buf n) out, length (add_tables buf n))"
proof (cases "has_dht buf")
  case True
  with assms show ?thesis
    by (simp add: memcpy_picture_def is_huffman_eq range_of_def add_tables_def memcpy_at_start)
next
  case no: False
  show ?thesis
  proof (cases "find (\<lambda>k. mark buf k = SOF0) [0..<n]")
    case None
    with no assms show ?thesis
      by (simp add: memcpy_picture_def is_huffman_eq find_sof_eq add_tables_def)
  next
    case (Some k)
    then have "k < n" by (simp add: find_upt_Some)
    with no Some assms show ?thesis
      using memcpy_at_overwrite [of "take k buf" dht_data out] memcpy_at_overwrite [of "take k buf @ dht_data" "take (n - k) (drop k buf)" out]
      by (simp add: memcpy_picture_def is_huffman_eq find_sof_eq add_tables_def range_of_def memcpy_at_start drop_take)
  qed
qed

text \<open>
  C27. With a source buffer of at least 2051 bytes that holds two bytes more than the picture, and a
  destination with room for the picture and the 420 bytes of the table, \<^verbatim>\<open>memcpy_picture\<close> is the
  reference: a picture that has tables is copied, one without gets the standard tables in front
  of its frame header, one without a frame header is dropped.
\<close>

theorem memcpy_picture_reference:
  assumes "2051 \<le> length buf" "n + 2 \<le> length buf" "n + 420 \<le> length out"
  shows "memcpy_picture out buf n = Inr (overwrite (add_tables buf n) out, length (add_tables buf n))"
  by (rule memcpy_picture_eq [OF assms])

text \<open>A picture without tables: start of image, a frame header, a scan.\<close>

definition bare_picture :: "byte list" where
  "bare_picture = [0xff, 0xd8, 0xff, 0xc0, 0x00, 0x02, 0xff, 0xda, 0x00, 0x02, 0xff, 0xd9]"

definition sample_buffer :: "byte list" where
  "sample_buffer = bare_picture @ replicate 2100 0"

lemma mark_sample:
  "mark sample_buffer 0 = 0xffd8" "mark sample_buffer 1 = 0xd8ff" "mark sample_buffer 2 = SOF0"
  "mark sample_buffer 3 = 0xc000" "mark sample_buffer 4 = 0x0002" "mark sample_buffer 5 = 0x02ff" "mark sample_buffer 6 = SOS"
  by (simp_all add: mark_def sample_buffer_def bare_picture_def SOF0_def SOS_def)

lemma no_dht_sample: "\<not> has_dht sample_buffer"
proof
  assume "has_dht sample_buffer"
  then obtain i where i: "mark sample_buffer i = DHT" "\<forall>j<i. mark sample_buffer j \<noteq> SOS"
    by (auto simp: has_dht_def)
  from i(2) mark_sample(7) have "i \<le> 6" by (metis leI)
  then have "i = 0 \<or> i = 1 \<or> i = 2 \<or> i = 3 \<or> i = 4 \<or> i = 5 \<or> i = 6" by linarith
  with i(1) mark_sample show False
    by (elim disjE) (simp_all only: DHT_def SOS_def SOF0_def, simp_all)
qed

lemma find_sof_sample: "find (\<lambda>i. mark sample_buffer i = SOF0) [0..<12] = Some 2"
proof -
  have "0xffd8 \<noteq> SOF0" "0xd8ff \<noteq> SOF0" by (simp_all add: SOF0_def)
  with mark_sample show ?thesis unfolding find_upt_Some by (auto simp: less_2_cases_iff)
qed

lemma add_tables_sample: "add_tables sample_buffer 12 = [0xff, 0xd8] @ dht_data @ drop 2 bare_picture"
  by (simp add: add_tables_def no_dht_sample find_sof_sample) (simp add: sample_buffer_def bare_picture_def)

theorem memcpy_picture_reference_witness:
  "memcpy_picture (replicate 500 0) sample_buffer 12 =
    Inr (overwrite ([0xff, 0xd8] @ dht_data @ drop 2 bare_picture) (replicate 500 0), 432)"
  using memcpy_picture_reference [of sample_buffer 12 "replicate 500 0"]
  by (simp add: add_tables_sample) (simp add: sample_buffer_def bare_picture_def)

subsection \<open>Tables are added once\<close>

lemma low_byte_mark: "ucast (mark buf i) = buf ! Suc i"
  unfolding mark_def by (rule bit_word_eqI) (auto simp: bit_simps dest: bit_imp_le_length)

lemma mark_cong: "a ! i = b ! i \<Longrightarrow> a ! Suc i = b ! Suc i \<Longrightarrow> mark a i = mark b i"
  by (simp add: mark_def)

lemma mark_dht: "k \<le> length buf \<Longrightarrow> mark (take k buf @ dht_data @ r) k = DHT"
  by (simp add: mark_def nth_append dht_data_def DHT_def)

lemma not_SOS_before_dht:
  assumes "k \<le> length buf" "j < k" "mark buf j \<noteq> SOS"
  shows "mark (take k buf @ dht_data @ r) j \<noteq> SOS"
proof (cases "Suc j = k")
  case True
  then have "(take k buf @ dht_data @ r) ! Suc j = 0xff" using assms(1) by (simp add: nth_append dht_data_def)
  then have "(ucast (mark (take k buf @ dht_data @ r) j) :: byte) = 0xff" by (simp add: low_byte_mark)
  then show ?thesis by (auto simp: SOS_def)
next
  case False
  then have "Suc j < k" using assms(2) by simp
  then have "mark (take k buf @ dht_data @ r) j = mark buf j" using assms(1) by (intro mark_cong) (simp_all add: nth_append)
  then show ?thesis using assms(3) by simp
qed

lemma has_dht_added:
  assumes "k \<le> length buf" "k \<le> 2048" "\<forall>j<k. mark buf j \<noteq> SOS"
  shows "has_dht (take k buf @ dht_data @ r)"
  unfolding has_dht_def using assms mark_dht [OF assms(1)] not_SOS_before_dht [OF assms(1)]
  by (intro bexI [of _ k]) auto

text \<open>
  C35. The tables go in exactly once.  When a picture without tables has its frame header at
  position \<open>k\<close>, among the first 2049 bytes and in front of the scan, the copy is the picture with
  420 bytes inserted at \<open>k\<close>: cutting them out gives the picture back, and copying the copy
  leaves it as it is.
\<close>

theorem picture_tables_once:
  assumes "2051 \<le> length buf" "n + 2 \<le> length buf" "n + 422 \<le> length out" "2051 \<le> length out" "n + 840 \<le> length out'"
    and "\<not> has_dht buf" "find (\<lambda>i. mark buf i = SOF0) [0..<n] = Some k" "k \<le> 2048" "\<forall>j<k. mark buf j \<noteq> SOS"
  shows "\<exists>pic. memcpy_picture out buf n = Inr (overwrite pic out, n + 420) \<and> length pic = n + 420 \<and>
    take k pic @ drop (k + 420) pic = take n buf \<and>
    memcpy_picture out' (overwrite pic out) (n + 420) = Inr (overwrite pic out', n + 420)"
proof -
  have "k < n" using assms(7) by (simp add: find_upt_Some)
  define pic where "pic = take k buf @ dht_data @ drop k (take n buf)"
  have len: "length pic = n + 420" using \<open>k < n\<close> assms(2) by (simp add: pic_def)
  have pic: "add_tables buf n = pic" using assms(6,7) by (simp add: add_tables_def pic_def)
  have "overwrite pic out = take k buf @ dht_data @ drop k (take n buf) @ drop (length pic) out"
    by (simp add: overwrite_def pic_def)
  then have "has_dht (overwrite pic out)"
    using has_dht_added [of k buf] \<open>k < n\<close> assms(2,8,9) by simp
  then have again: "add_tables (overwrite pic out) (n + 420) = pic" by (simp add: add_tables_def len)
  have "take k pic = take k buf" "drop (k + 420) pic = drop k (take n buf)"
    using \<open>k < n\<close> assms(2) by (simp_all add: pic_def)
  moreover have "take k buf = take k (take n buf)" using \<open>k < n\<close> by (simp add: min_def)
  ultimately have cut: "take k pic @ drop (k + 420) pic = take n buf" by (simp only: append_take_drop_id)
  show ?thesis
    using memcpy_picture_eq [of buf n out] memcpy_picture_eq [of "overwrite pic out" "n + 420" out'] assms(1-5) pic again len cut
    by (intro exI [of _ pic]) simp
qed

theorem picture_tables_once_witness:
  "\<exists>pic. memcpy_picture (replicate 2100 0) sample_buffer 12 = Inr (overwrite pic (replicate 2100 0), 432) \<and> length pic = 432 \<and>
    take 2 pic @ drop 422 pic = bare_picture \<and>
    memcpy_picture (replicate 1000 7) (overwrite pic (replicate 2100 0)) 432 = Inr (overwrite pic (replicate 1000 7), 432)"
proof -
  have "mark sample_buffer j \<noteq> SOS" if "j < 2" for j
    using mark_sample that by (auto simp: less_2_cases_iff SOS_def)
  then show ?thesis
    using picture_tables_once [of sample_buffer 12 "replicate 2100 0" "replicate 1000 7" 2]
    by (simp add: no_dht_sample find_sof_sample) (simp add: sample_buffer_def bare_picture_def)
qed

end
