(* ===== verification/Uvc_Input.thy ===== *)
theory Uvc_Input
  imports Uvc_Controls Uvc_Dynctrl Uvc_Jpeg Uvc_Picture Http_Server
begin

text \<open>
  The plugin interface and the camera thread of \<^verbatim>\<open>src/mjpg-streamer/plugins/input_uvc/input_uvc.c\<close>.  The
  record \<open>uvc\<close> holds the plugin's static variables, the array \<^verbatim>\<open>cams\<close>, the state of the camera threads
  and the world of system calls; the shared \<open>globals\<close> are passed beside it.  A turn of the loop of
  \<^verbatim>\<open>cam_thread\<close> is one operation.
\<close>

subsection \<open>State and options\<close>

definition INPUT_PLUGIN_NAME :: string where "INPUT_PLUGIN_NAME = ''UVC webcam grabber''"

definition resolutions :: "(string \<times> int \<times> int) list" where
  "resolutions = [(''QSIF'', 160, 120), (''QCIF'', 176, 144), (''CGA'', 320, 200), (''QVGA'', 320, 240), (''CIF'', 352, 288),
     (''VGA'', 640, 480), (''SVGA'', 800, 600), (''XGA'', 1024, 768), (''SXGA'', 1280, 1024)]"

datatype cam_thread_state = NotStarted | Running | Cancelled | Finished

record 'd uvc =
  videoIn :: "vdIn option list"
  threads :: "cam_thread_state list"
  pglobal_set :: bool
  gquality :: int
  minimum_size :: cint
  dynctrls :: bool
  first_run :: bool
  world :: "'d world"

definition uvc0 :: "'d world \<Rightarrow> 'd uvc" where
  "uvc0 w = \<lparr>videoIn = replicate MAX_INPUT_PLUGINS None, threads = replicate MAX_INPUT_PLUGINS NotStarted, pglobal_set = False,
     gquality = 80, minimum_size = 0, dynctrls = True, first_run = True, world = w\<rparr>"

record uvc_options =
  o_dev :: string
  o_width :: int
  o_height :: int
  o_fps :: int
  o_format :: cint
  o_quality :: int
  o_minimum :: cint
  o_dynctrls :: bool

text \<open>
  The argument of \<^verbatim>\<open>-r\<close>: a name of the table, or two numbers.  \<^verbatim>\<open>s + 1\<close> skips the character behind the
  first number, also when that is the end of the string.
\<close>

definition parse_resolution :: "string \<Rightarrow> crash + (int \<times> int)" where
  "parse_resolution optarg =
     (case map_of resolutions optarg of
        Some wh \<Rightarrow> Inr wh
      | None \<Rightarrow>
          (case strtol optarg of (wid, s) \<Rightarrow>
             if s = [] then Inl OutOfBounds else Inr (wid, fst (strtol (tl s)))))"

text \<open>\<open>None\<close> is the return value 1 after the help text.\<close>

fun input_options :: "getopt_result list \<Rightarrow> uvc_options \<Rightarrow> crash + uvc_options option" where
  "input_options [] op = Inr (Some op)"
| "input_options (Unrecognized # opts) op = Inr None"
| "input_options (Opt option_index optarg # opts) op =
     (if option_index = 0 \<or> option_index = 1 then Inr None
      else if option_index = 2 \<or> option_index = 3 then input_options opts (op\<lparr>o_dev := optarg\<rparr>)
      else if option_index = 4 \<or> option_index = 5 then
        sbind (parse_resolution optarg) (\<lambda>(wid, hei). input_options opts (op\<lparr>o_width := wid, o_height := hei\<rparr>))
      else if option_index = 6 \<or> option_index = 7 then input_options opts (op\<lparr>o_fps := atoi optarg\<rparr>)
      else if option_index = 8 \<or> option_index = 9 then input_options opts (op\<lparr>o_format := V4L2_PIX_FMT_YUYV\<rparr>)
      else if option_index = 10 \<or> option_index = 11 then
        input_options opts (op\<lparr>o_format := V4L2_PIX_FMT_YUYV, o_quality := min (max (atoi optarg) 0) 100\<rparr>)
      else if option_index = 12 \<or> option_index = 13 then
        input_options opts (op\<lparr>o_minimum := word_of_int (max (atoi optarg) 0)\<rparr>)
      else if option_index = 14 \<or> option_index = 15 then input_options opts (op\<lparr>o_dynctrls := False\<rparr>)
      else if option_index = 16 \<or> option_index = 17 then input_options opts op
      else Inr None)"

definition default_options :: "'d uvc \<Rightarrow> uvc_options" where
  "default_options u = \<lparr>o_dev = ''/dev/video0'', o_width = 640, o_height = 480, o_fps = 5, o_format = V4L2_PIX_FMT_MJPEG,
     o_quality = gquality u, o_minimum = minimum_size u, o_dynctrls = dynctrls u\<rparr>"

subsection \<open>input_init, input_run, input_stop\<close>

text \<open>How \<^verbatim>\<open>input_init\<close> ends: it returns a value or ends the process.\<close>

datatype init_result = Returned int | ExitFailure

text \<open>\<open>standard\<close> is the number of standard controls in the kernel's header.\<close>

definition input_init ::
  "'d sys \<Rightarrow> nat \<Rightarrow> bool \<Rightarrow> getopt_result list \<Rightarrow> nat \<Rightarrow> 'd uvc \<times> globals \<Rightarrow> (crash + (init_result \<times> 'd uvc \<times> globals)) option"
where
  "input_init io standard mutex_ok opts i = (\<lambda>(u, g).
     if \<not> mutex_ok then Some (Inr (ExitFailure, u, g))
     else
       let g = upd_in i (\<lambda>p. p\<lparr>in_param := (in_param p)\<lparr>pargv := (pargv (in_param p))[0 := Some INPUT_PLUGIN_NAME]\<rparr>\<rparr>) g
       in case input_options opts (default_options u) of
            Inl e \<Rightarrow> Some (Inl e)
          | Inr None \<Rightarrow> Some (Inr (Returned 1, u, g))
          | Inr (Some op) \<Rightarrow>
              let u = u\<lparr>gquality := o_quality op, minimum_size := o_minimum op, dynctrls := o_dynctrls op\<rparr>
              in case call io Alloc (world u) of (m, w) \<Rightarrow>
                 if ret m \<noteq> 0 then Some (Inr (ExitFailure, u\<lparr>world := w\<rparr>, g))
                 else
                   Option.bind (init_videoIn io zero_vdIn (Some (o_dev op)) (word_of_int (o_width op)) (word_of_int (o_height op))
                       (o_fps op) (o_format op) 1 g i w) (\<lambda>res.
                     case res of
                       Inl e \<Rightarrow> Some (Inl e)
                     | Inr (r, vd, g, w) \<Rightarrow>
                         if r < 0 then Some (Inr (ExitFailure, u\<lparr>videoIn := (videoIn u)[i := Some vd], world := w\<rparr>, g))
                         else
                           let w = (if dynctrls u then snd (initDynCtrls io w) else w)
                           in Option.bind (enumerateControls io standard g i w) (\<lambda>res.
                                Some (map_sum id (\<lambda>(g, w).
                                  (Returned 0, u\<lparr>videoIn := (videoIn u)[i := Some vd], world := w\<rparr>, g)) res))))"

text \<open>\<^verbatim>\<open>malloc(n)\<close>: the block holds what was in memory.\<close>

definition fresh_bytes :: "reply \<Rightarrow> nat \<Rightarrow> byte list" where
  "fresh_bytes m n = map (\<lambda>k. if k < length (d_mem (rdata m)) then d_mem (rdata m) ! k else 0) [0..<n]"

definition input_run :: "'d sys \<Rightarrow> nat \<Rightarrow> 'd uvc \<times> globals \<Rightarrow> crash + (init_result \<times> 'd uvc \<times> globals)" where
  "input_run io i = (\<lambda>(u, g).
     case videoIn u ! i of
       None \<Rightarrow> Inl NullDereference
     | Some vd \<Rightarrow>
         (case call io Alloc (world u) of (m, w) \<Rightarrow>
            if ret m \<noteq> 0 then Inr (ExitFailure, u\<lparr>world := w\<rparr>, upd_in i (\<lambda>p. p\<lparr>in_buf := None\<rparr>) g)
            else Inr (Returned 0, u\<lparr>world := w, threads := (threads u)[i := Running]\<rparr>,
                   upd_in i (\<lambda>p. p\<lparr>in_buf := Some (fresh_bytes m (unat (framesizeIn vd)))\<rparr>) g)))"

definition input_stop :: "nat \<Rightarrow> 'd uvc \<Rightarrow> int \<times> 'd uvc" where
  "input_stop i u = (0, u\<lparr>threads := (threads u)[i := (if threads u ! i = Running then Cancelled else threads u ! i)]\<rparr>)"

subsection \<open>The camera thread\<close>

text \<open>
  The cleanup handler.  Its static flag is shared by the threads of all cameras.  What it frees is gone:
  the camera's structure and the shared frame buffer.
\<close>

definition cam_cleanup :: "'d sys \<Rightarrow> nat \<Rightarrow> 'd uvc \<times> globals \<Rightarrow> crash + ('d uvc \<times> globals)" where
  "cam_cleanup io i = (\<lambda>(u, g).
     if \<not> first_run u then Inr (u, g)
     else
       case videoIn u ! i of
         None \<Rightarrow> Inl NullDereference
       | Some vd \<Rightarrow>
           (case close_v4l2 io (vd, world u) of (_, vd, w) \<Rightarrow>
              Inr (u\<lparr>first_run := False, videoIn := (videoIn u)[i := None], world := w\<rparr>, upd_in i (\<lambda>p. p\<lparr>in_buf := None\<rparr>) g)))"

text \<open>Copying or compressing the frame into the shared buffer, under its lock.\<close>

definition publish :: "compressor \<Rightarrow> bool \<Rightarrow> byte list \<Rightarrow> int \<Rightarrow> vdIn \<Rightarrow> input_plugin \<Rightarrow> crash + input_plugin" where
  "publish jpeg line_mem pool quality vd p =
     (case in_buf p of
        None \<Rightarrow> Inl NullDereference
      | Some buf \<Rightarrow>
          if formatIn vd = V4L2_PIX_FMT_YUYV then
            sbind (compress_yuyv_to_jpeg jpeg line_mem pool vd buf quality) (\<lambda>(buf, n).
              Inr (p\<lparr>in_buf := Some buf, in_size := int n, in_timestamp := b_timestamp (vbuf vd)\<rparr>))
          else
            (case tmpbuffer vd of
               None \<Rightarrow> Inl NullDereference
             | Some t \<Rightarrow>
                 sbind (memcpy_picture buf t (unat (tmpbytesused vd))) (\<lambda>(buf, n).
                   Inr (p\<lparr>in_buf := Some buf, in_size := int n, in_timestamp := tmptimestamp vd\<rparr>))))"

datatype cam_event = CamFinished | CamPaused | CamExit | CamDropped | CamPublished

definition cam_turn ::
  "'d sys \<Rightarrow> compressor \<Rightarrow> bool \<Rightarrow> byte list \<Rightarrow> nat \<Rightarrow> 'd uvc \<times> globals \<Rightarrow> crash + (cam_event \<times> 'd uvc \<times> globals)"
where
  "cam_turn io jpeg line_mem pool i = (\<lambda>(u, g).
     let u = u\<lparr>pglobal_set := True\<rparr>
     in if threads u ! i = Cancelled \<or> gstop g then
          sbind (cam_cleanup io i (u, g)) (\<lambda>(u, g). Inr (CamFinished, u\<lparr>threads := (threads u)[i := Finished]\<rparr>, g))
        else
          case videoIn u ! i of
            None \<Rightarrow> Inl UseAfterFree
          | Some vd \<Rightarrow>
              if streamingState vd = STREAMING_PAUSED then Inr (CamPaused, u, g)
              else
                sbind (uvcGrab io (vd, world u)) (\<lambda>(r, vd, w).
                  let u = u\<lparr>videoIn := (videoIn u)[i := Some vd], world := w\<rparr>
                  in if r < 0 then Inr (CamExit, u, g)
                     else if b_bytesused (vbuf vd) < minimum_size u then Inr (CamDropped, u, g)
                     else
                       sbind (publish jpeg line_mem pool (gquality u) vd (gin g ! i)) (\<lambda>p.
                         if vd_fps vd = 0 then Inl DivisionByZero
                         else Inr (CamPublished, u, upd_in i (\<lambda>_. p) g))))"

subsection \<open>Commands\<close>

definition generic_command :: "cint \<Rightarrow> input_plugin \<Rightarrow> crash + int" where
  "generic_command cid p =
     sbind (find_param (in_parameters p) (\<lambda>c. qc_id (ctrl c) = cid \<and> cgroup c = IN_CMD_GENERIC) 0 (nat (parametercount p)))
       (\<lambda>found. Inr (if found = None then - 1 else 0))"

text \<open>
  After a successful \<^verbatim>\<open>v4l2SetControl\<close> the value is stored in the entry with number \<^verbatim>\<open>i\<close>, which is still 0.
\<close>

definition v4l2_command :: "'d sys \<Rightarrow> cint \<Rightarrow> int \<Rightarrow> nat \<Rightarrow> 'd uvc \<times> globals \<Rightarrow> crash + (int \<times> 'd uvc \<times> globals)" where
  "v4l2_command io cid v n = (\<lambda>(u, g).
     sbind (v4l2SetControl io cid v n g (world u)) (\<lambda>(r, g, w).
       if r = 0 then
         (case in_parameters (gin g ! n) of
            None \<Rightarrow> Inl NullDereference
          | Some ps \<Rightarrow>
              if ps = [] then Inl OutOfBounds
              else Inr (r, u\<lparr>world := w\<rparr>, upd_in n (upd_param 0 (\<lambda>c. c\<lparr>cvalue := v\<rparr>)) g))
       else Inr (r, u\<lparr>world := w\<rparr>, g)))"

definition set_current_resolution :: "int \<Rightarrow> int \<Rightarrow> input_plugin \<Rightarrow> input_plugin" where
  "set_current_resolution f v p =
     p\<lparr>in_formats := (in_formats p)[nat f := (in_formats p ! nat f)\<lparr>currentResolution := to_char v\<rparr>]\<rparr>"

definition resolution_command :: "'d sys \<Rightarrow> int \<Rightarrow> nat \<Rightarrow> 'd uvc \<times> globals \<Rightarrow> crash + (int \<times> 'd uvc \<times> globals)" where
  "resolution_command io v n = (\<lambda>(u, g).
     let p = gin g ! n
     in sbind (at (in_formats p) (currentFormat p)) (\<lambda>fmt.
          if v > int (length (supportedResolutions fmt)) - 1 then Inr (- 1, u, g)
          else
            sbind (at (supportedResolutions fmt) v) (\<lambda>res.
              case videoIn u ! n of
                None \<Rightarrow> Inl NullDereference
              | Some vd \<Rightarrow>
                  sbind (setResolution io (of_nat (width res)) (of_nat (height res)) (vd, world u)) (\<lambda>(r, vd, w).
                    Inr (r, u\<lparr>videoIn := (videoIn u)[n := Some vd], world := w\<rparr>,
                         if r = 0 then upd_in n (set_current_resolution (currentFormat p) v) g else g)))))"

text \<open>\<^verbatim>\<open>ioctl\<close> returns 0 or -1, never \<^verbatim>\<open>EINVAL\<close>.\<close>

definition quality_command :: "'d sys \<Rightarrow> int \<Rightarrow> nat \<Rightarrow> 'd uvc \<times> globals \<Rightarrow> crash + (int \<times> 'd uvc \<times> globals)" where
  "quality_command io v n = (\<lambda>(u, g).
     case videoIn u ! n of
       None \<Rightarrow> Inl NullDereference
     | Some vd \<Rightarrow>
         (case call io (VIDIOC_S_JPEGCOMP v) (world u) of (r, w) \<Rightarrow>
            Inr (if ret r \<noteq> int EINVAL then 0 else - 1, u\<lparr>world := w\<rparr>, upd_in n (\<lambda>p. p\<lparr>jpegquality := v\<rparr>) g)))"

text \<open>
  The static \<^verbatim>\<open>pglobal\<close> is set by the first camera thread; using it before, or with a number outside the
  table of plugins, is an error.
\<close>

definition with_plugin :: "int \<Rightarrow> (nat \<Rightarrow> 'd uvc \<times> globals \<Rightarrow> crash + 'a) \<Rightarrow> 'd uvc \<times> globals \<Rightarrow> crash + 'a" where
  "with_plugin plugin_number f = (\<lambda>(u, g).
     if \<not> pglobal_set u then Inl NullDereference
     else sbind (at (gin g) plugin_number) (\<lambda>_. f (nat plugin_number) (u, g)))"

definition input_cmd ::
  "'d sys \<Rightarrow> int \<Rightarrow> cint \<Rightarrow> cint \<Rightarrow> int \<Rightarrow> 'd uvc \<times> globals \<Rightarrow> crash + (int \<times> 'd uvc \<times> globals)"
where
  "input_cmd io plugin_number cid grp v = (\<lambda>(u, g).
     if grp = word_of_int IN_CMD_GENERIC then
       with_plugin plugin_number (\<lambda>n (u, g). sbind (generic_command cid (gin g ! n)) (\<lambda>r. Inr (r, u, g))) (u, g)
     else if grp = word_of_int IN_CMD_V4L2 then with_plugin plugin_number (v4l2_command io cid v) (u, g)
     else if grp = word_of_int IN_CMD_RESOLUTION then with_plugin plugin_number (resolution_command io v) (u, g)
     else if grp = word_of_int IN_CMD_JPEG_QUALITY \<and> 0 \<le> v \<and> v < 101 then with_plugin plugin_number (quality_command io v) (u, g)
     else Inr (- 1, u, g))"

end
