(* ===== verification/Uvc_Safety.thy ===== *)
theory Uvc_Safety
  imports Uvc_Input
begin

text \<open>
  Properties of the camera plugin as a whole: what a turn of the camera thread publishes, what a command
  does to the table of controls, and what a change of the resolution does to the thread and its buffers.
\<close>

subsection \<open>A turn that publishes a picture\<close>

text \<open>The driver hands over the frame \<open>f\<close> in a mapped buffer and takes the buffer back.\<close>

definition delivers :: "'d sys \<Rightarrow> vdIn \<Rightarrow> 'd world \<Rightarrow> byte list \<Rightarrow> timeval \<Rightarrow> 'd world \<Rightarrow> bool" where
  "delivers io vd w f ts w' \<longleftrightarrow>
     (\<exists>x w1 q. xioctl io VIDIOC_DQBUF w = (x, w1) \<and> ret x = 0 \<and>
        d_index (rdata x) < length (vmem vd) \<and> vmem vd ! d_index (rdata x) \<and>
        f = take (unat (d_bytesused (rdata x))) (d_mem (rdata x)) \<and> unat (d_bytesused (rdata x)) \<le> length (d_mem (rdata x)) \<and>
        ts = d_timestamp (rdata x) \<and>
        xioctl io (VIDIOC_QBUF (d_index (rdata x))) w1 = (q, w') \<and> ret q = 0)"

lemma uvcGrab_delivers:
  assumes "delivers io vd w f ts w'" "streamingState vd = STREAMING_ON" "formatIn vd = V4L2_PIX_FMT_MJPEG"
    and "tmpbuffer vd = Some t" "0xaf < length f" "length f \<le> length t"
  shows "\<exists>vd'. uvcGrab io (vd, w) = Inr (0, vd', w') \<and> tmpbuffer vd' = Some (overwrite f t) \<and> unat (tmpbytesused vd') = length f \<and>
    tmptimestamp vd' = ts \<and> formatIn vd' = V4L2_PIX_FMT_MJPEG \<and> streamingState vd' = STREAMING_ON \<and> vd_fps vd' = vd_fps vd \<and>
    unat (b_bytesused (vbuf vd')) = length f"
proof -
  obtain x w1 q where dq: "xioctl io VIDIOC_DQBUF w = (x, w1)" "ret x = 0"
    and idx: "d_index (rdata x) < length (vmem vd)" "vmem vd ! d_index (rdata x)"
    and f: "f = take (unat (d_bytesused (rdata x))) (d_mem (rdata x))" "unat (d_bytesused (rdata x)) \<le> length (d_mem (rdata x))"
    and ts: "ts = d_timestamp (rdata x)" and qb: "xioctl io (VIDIOC_QBUF (d_index (rdata x))) w1 = (q, w')" "ret q = 0"
    using assms(1) unfolding delivers_def by blast
  have len: "length f = unat (d_bytesused (rdata x))" using f by simp
  have "\<not> d_bytesused (rdata x) \<le> HEADERFRAME1"
    using assms(5) unfolding len HEADERFRAME1_def word_le_nat_alt by simp
  then show ?thesis
    using assms(2-4,6) idx len f ts
    by (simp add: uvcGrab_def dq qb store_frame_def copy_frame_def Let_def)
qed

lemma cam_turn_publishes:
  assumes "videoIn u ! i = Some vd" "i < length (videoIn u)" "i < length (gin g)" "threads u ! i = Running" "\<not> gstop g"
    and "delivers io vd (world u) f ts w'" "streamingState vd = STREAMING_ON" "formatIn vd = V4L2_PIX_FMT_MJPEG" "vd_fps vd \<noteq> 0"
    and "tmpbuffer vd = Some t" "0xaf < length f" "length f + 2 \<le> length t" "2051 \<le> length t" "unat (minimum_size u) \<le> length f"
    and "in_buf (gin g ! i) = Some buf" "length f + 420 \<le> length buf"
    and "pic = add_tables (overwrite f t) (length f)"
  shows "\<exists>u' vd'. cam_turn io jpeg lm pool i (u, g) =
      Inr (CamPublished, u', upd_in i (\<lambda>p. p\<lparr>in_buf := Some (overwrite pic buf), in_size := int (length pic), in_timestamp := ts\<rparr>) g) \<and>
    world u' = w' \<and> videoIn u' ! i = Some vd' \<and> streamingState vd' = STREAMING_ON"
proof -
  have "length f \<le> length t" using assms(12) by simp
  from uvcGrab_delivers [OF assms(6-8,10,11) this] obtain vd' where
    g: "uvcGrab io (vd, world u) = Inr (0, vd', w')" "tmpbuffer vd' = Some (overwrite f t)" "unat (tmpbytesused vd') = length f"
      "tmptimestamp vd' = ts" "formatIn vd' = V4L2_PIX_FMT_MJPEG" "streamingState vd' = STREAMING_ON" "vd_fps vd' = vd_fps vd"
      "unat (b_bytesused (vbuf vd')) = length f" by blast
  have big: "\<not> b_bytesused (vbuf vd') < minimum_size u" using assms(14) g(8) by (simp add: word_less_nat_alt)
  have "length (overwrite f t) = length t" using assms(12) by simp
  then have "memcpy_picture buf (overwrite f t) (length f) = Inr (overwrite pic buf, length pic)"
    using memcpy_picture_eq [of "overwrite f t" "length f" buf] assms(12,13,16,17) by simp
  then have "publish jpeg lm pool (gquality u) vd' (gin g ! i) =
      Inr ((gin g ! i)\<lparr>in_buf := Some (overwrite pic buf), in_size := int (length pic), in_timestamp := ts\<rparr>)"
    using assms(15) g(2-5) by (simp add: publish_def)
  then show ?thesis
    using assms(1-5,7,9) g(1,6,7) big by (simp add: cam_turn_def Let_def upd_in_def)
qed

subsection \<open>A change of the resolution\<close>

fun cam_turns ::
  "'d sys \<Rightarrow> compressor \<Rightarrow> bool \<Rightarrow> byte list \<Rightarrow> nat \<Rightarrow> nat \<Rightarrow> 'd uvc \<times> globals \<Rightarrow> crash + (cam_event list \<times> 'd uvc \<times> globals)"
where
  "cam_turns io jpeg lm pool i 0 s = Inr ([], s)"
| "cam_turns io jpeg lm pool i (Suc k) s =
     sbind (cam_turn io jpeg lm pool i s) (\<lambda>(e, s). sbind (cam_turns io jpeg lm pool i k s) (\<lambda>(es, s). Inr (e # es, s)))"

lemma paused_turns:
  assumes "videoIn u ! i = Some vd" "streamingState vd = STREAMING_PAUSED" "threads u ! i = Running" "\<not> gstop g" "pglobal_set u"
  shows "cam_turns io jpeg lm pool i k (u, g) = Inr (replicate k CamPaused, u, g)"
proof -
  have "u\<lparr>pglobal_set := True\<rparr> = u" using assms(5) by simp
  then have "cam_turn io jpeg lm pool i (u, g) = Inr (CamPaused, u, g)"
    using assms(1-4) by (simp add: cam_turn_def Let_def)
  then show ?thesis by (induction k) simp_all
qed

text \<open>What a resolution command with a valid number did.\<close>

lemma resolution_command_run:
  assumes "resolution_command io v i (u, g) = Inr (r, u', g')" "videoIn u ! i = Some vd" "i < length (videoIn u)"
    and "0 \<le> v" "at (in_formats (gin g ! i)) (currentFormat (gin g ! i)) = Inr fmt" "v < int (length (supportedResolutions fmt))"
  shows "\<exists>wid hei vd' w'. setResolution io wid hei (vd, world u) = Inr (r, vd', w') \<and>
    u' = u\<lparr>videoIn := (videoIn u)[i := Some vd'], world := w'\<rparr> \<and> videoIn u' ! i = Some vd' \<and> gstop g' = gstop g"
proof -
  let ?res = "supportedResolutions fmt ! nat v"
  obtain vd' w' where set: "setResolution io (of_nat (width ?res)) (of_nat (height ?res)) (vd, world u) = Inr (r, vd', w')"
    and u': "u' = u\<lparr>videoIn := (videoIn u)[i := Some vd'], world := w'\<rparr>" and g': "gstop g' = gstop g"
    using assms by (auto simp: resolution_command_def Let_def sbind_Inr upd_in_def)
  moreover have "videoIn u' ! i = Some vd'" using u' assms(3) by simp
  ultimately show ?thesis by blast
qed

text \<open>
  C29. After a command that changes the resolution of a running camera the stream is on again with the result 0, or
  the camera stands still for good: every further turn of its thread only waits, takes no frame and changes nothing.
  The latter is the case whenever the command reports a failure, and also when it reports success but the driver did
  not restart the stream.
\<close>

theorem resolution_change_may_freeze:
  assumes "resolution_command io v i (u, g) = Inr (r, u', g')" "videoIn u ! i = Some vd" "i < length (videoIn u)"
    and "0 \<le> v" "at (in_formats (gin g ! i)) (currentFormat (gin g ! i)) = Inr fmt" "v < int (length (supportedResolutions fmt))"
    and "threads u ! i = Running" "\<not> gstop g" "pglobal_set u"
  shows "(\<exists>vd'. videoIn u' ! i = Some vd' \<and> streamingState vd' = STREAMING_ON) \<and> r = 0 \<or>
    (\<forall>k. cam_turns io jpeg lm pool i k (u', g') = Inr (replicate k CamPaused, u', g'))"
proof -
  obtain wid hei vd' w' where run: "setResolution io wid hei (vd, world u) = Inr (r, vd', w')"
    "u' = u\<lparr>videoIn := (videoIn u)[i := Some vd'], world := w'\<rparr>" "videoIn u' ! i = Some vd'" "gstop g' = gstop g"
    using resolution_command_run [OF assms(1-6)] by blast
  from setResolution_state [OF run(1)] show ?thesis
  proof
    assume "streamingState vd' = STREAMING_ON \<and> r = 0"
    then show ?thesis using run(3) by blast
  next
    assume "streamingState vd' = STREAMING_PAUSED"
    then have "cam_turns io jpeg lm pool i k (u', g') = Inr (replicate k CamPaused, u', g')" for k
      using run(2-4) assms(7-9) by (intro paused_turns) auto
    then show ?thesis by blast
  qed
qed

text \<open>
  C30. The frame buffers are allocated for the first resolution and never again.  When, after a change of the
  resolution, the camera delivers a frame larger than the buffer the program started with, the frame
  is copied over the end of that buffer.
\<close>

theorem larger_resolution_overflows:
  assumes "resolution_command io v i (u, g) = Inr (0, u', g')" "videoIn u ! i = Some vd" "i < length (videoIn u)"
    and "0 \<le> v" "at (in_formats (gin g ! i)) (currentFormat (gin g ! i)) = Inr fmt" "v < int (length (supportedResolutions fmt))"
    and "threads u ! i = Running" "\<not> gstop g" "tmpbuffer vd = Some t"
    and "videoIn u' ! i = Some vd'" "streamingState vd' = STREAMING_ON" "formatIn vd' = V4L2_PIX_FMT_MJPEG"
    and "delivers io vd' (world u') f ts w2" "length t < length f" "0xaf < length f"
  shows "cam_turn io jpeg lm pool i (u', g') = Inl BufferOverflow"
proof -
  obtain wid hei w' where run: "setResolution io wid hei (vd, world u) = Inr (0, vd', w')"
    "u' = u\<lparr>videoIn := (videoIn u)[i := Some vd'], world := w'\<rparr>" "gstop g' = gstop g"
    using resolution_command_run [OF assms(1-6)] assms(10) by force
  have "map_option length (tmpbuffer vd') = Some (length t)"
    using resize.keeps [OF run(1)] assms(9) by (simp add: same_buffers_def)
  then obtain t' where t': "tmpbuffer vd' = Some t'" "length t' = length t" by auto
  obtain x w1 q where dq: "xioctl io VIDIOC_DQBUF (world u') = (x, w1)" "ret x = 0"
    and idx: "d_index (rdata x) < length (vmem vd')" "vmem vd' ! d_index (rdata x)"
    and f: "f = take (unat (d_bytesused (rdata x))) (d_mem (rdata x))" "unat (d_bytesused (rdata x)) \<le> length (d_mem (rdata x))"
    using assms(13) unfolding delivers_def by blast
  have len: "length f = unat (d_bytesused (rdata x))" using f by simp
  have "\<not> d_bytesused (rdata x) \<le> HEADERFRAME1"
    using assms(15) unfolding len HEADERFRAME1_def word_le_nat_alt by simp
  then have "uvcGrab io (vd', world u') = Inl BufferOverflow"
    using assms(11,12,14) idx len f t' by (simp add: uvcGrab_def dq store_frame_def copy_frame_def Let_def)
  then show ?thesis
    using assms(3,7,8,11) run by (simp add: cam_turn_def Let_def)
qed

subsection \<open>A command for a control\<close>

text \<open>
  A command with a value outside the limits of a user control is answered with 0 although the driver is not
  asked, and the value is stored as that of the first control of the table, whichever control was meant.
\<close>

theorem rejected_value_hits_first_control:
  assumes "in_parameters (gin g ! n) = Some ps" "parametercount (gin g ! n) = int (length ps)" "n < length (gin g)" "pglobal_set u"
    and "k < length ps" "qc_id (ctrl (ps ! k)) = cid" "\<forall>j<k. qc_id (ctrl (ps ! j)) \<noteq> cid"
    and "class_id (ps ! k) = V4L2_CTRL_CLASS_USER" "v < qc_minimum (ctrl (ps ! k)) \<or> qc_maximum (ctrl (ps ! k)) < v"
  shows "\<exists>g'. input_cmd io (int n) cid (word_of_int IN_CMD_V4L2) v (u, g) = Inr (0, u, g') \<and>
    in_parameters (gin g' ! n) = Some (ps[0 := (ps ! 0)\<lparr>cvalue := v\<rparr>])"
proof -
  have "find_param (Some ps) (\<lambda>c. qc_id (ctrl c) = cid) j m = Inr (Some k)" if "j \<le> k" "k < j + m" for j m
    using that
  proof (induction m arbitrary: j)
    case (Suc m)
    show ?case
    proof (cases "j = k")
      case False
      then show ?thesis using Suc assms(5,7) by simp
    qed (use assms(5,6) in simp)
  qed simp
  then have "find_param (Some ps) (\<lambda>c. qc_id (ctrl c) = cid) 0 (length ps) = Inr (Some k)" using assms(5) by simp
  then have "v4l2SetControl io cid v n g (world u) = Inr (0, g, world u)"
    using assms(1,2,8,9) by (auto simp: v4l2SetControl_def Let_def)
  moreover have "ps \<noteq> []" using assms(5) by auto
  ultimately show ?thesis
    using assms(1,3,4)
    by (simp add: input_cmd_def with_plugin_def v4l2_command_def upd_param_def IN_CMD_GENERIC_def IN_CMD_V4L2_def)
qed

theorem rejected_value_hits_first_control_witness:
  "\<exists>g'. input_cmd camera 0 0x980901 (word_of_int IN_CMD_V4L2) 1000
      ((uvc0 (fresh_camera []))\<lparr>pglobal_set := True\<rparr>, sample_globals [brightness, brightness\<lparr>ctrl := (ctrl brightness)\<lparr>qc_id := 0x980901\<rparr>\<rparr>]) =
      Inr (0, (uvc0 (fresh_camera []))\<lparr>pglobal_set := True\<rparr>, g') \<and>
    in_parameters (gin g' ! 0) = Some [brightness\<lparr>cvalue := 1000\<rparr>, brightness\<lparr>ctrl := (ctrl brightness)\<lparr>qc_id := 0x980901\<rparr>\<rparr>]"
  using rejected_value_hits_first_control [of "sample_globals [brightness, brightness\<lparr>ctrl := (ctrl brightness)\<lparr>qc_id := 0x980901\<rparr>\<rparr>]" 0
      "[brightness, brightness\<lparr>ctrl := (ctrl brightness)\<lparr>qc_id := 0x980901\<rparr>\<rparr>]" "(uvc0 (fresh_camera []))\<lparr>pglobal_set := True\<rparr>" 1 "0x980901" 1000 camera]
  by (simp add: sample_controls sample_controls(3) [simplified] brightness_def V4L2_CTRL_CLASS_USER_def)

subsection \<open>Commands for controls\<close>

text \<open>Commands for the controls of one camera, as the HTTP server makes them one after the other.\<close>

fun control_commands :: "'d sys \<Rightarrow> nat \<Rightarrow> (cint \<times> int) list \<Rightarrow> 'd uvc \<times> globals \<Rightarrow> crash + ('d uvc \<times> globals)" where
  "control_commands io n [] s = Inr s"
| "control_commands io n ((cid, v) # cmds) s =
     sbind (input_cmd io (int n) cid (word_of_int IN_CMD_V4L2) v s) (\<lambda>(r, s). control_commands io n cmds s)"

lemma control_command_sent:
  assumes "has_table n g ps" "pglobal_set u"
  shows "\<exists>r u' g' ps' k. input_cmd io (int n) cid (word_of_int IN_CMD_V4L2) v (u, g) = Inr (r, u', g') \<and>
    k \<in> {1..5} \<and> has_table n g' ps' \<and> descriptions ps' = descriptions ps \<and> pglobal_set u' \<and>
    map fst (trace (world u')) = map fst (trace (world u)) @
      (case control_request ps cid v of None \<Rightarrow> [] | Some c \<Rightarrow> replicate k c)"
proof -
  obtain r g' w' ps' k where run: "v4l2SetControl io cid v n g (world u) = Inr (r, g', w')" "k \<in> {1..5}"
    "map fst (trace w') = map fst (trace (world u)) @ (case control_request ps cid v of None \<Rightarrow> [] | Some c \<Rightarrow> replicate k c)"
    "has_table n g' ps'" "descriptions ps' = descriptions ps" "r = 0 \<longrightarrow> ps' \<noteq> []"
    using v4l2SetControl_request [OF assms(1), of io cid v "world u"] by blast
  define g'' where "g'' = (if r = 0 then upd_in n (upd_param 0 (\<lambda>c. c\<lparr>cvalue := v\<rparr>)) g' else g')"
  define ps'' where "ps'' = (if r = 0 then ps'[0 := (ps' ! 0)\<lparr>cvalue := v\<rparr>] else ps')"
  have "input_cmd io (int n) cid (word_of_int IN_CMD_V4L2) v (u, g) = Inr (r, u\<lparr>world := w'\<rparr>, g'')"
    using run(1,4,6) assms
    by (auto simp: input_cmd_def with_plugin_def v4l2_command_def IN_CMD_GENERIC_def IN_CMD_V4L2_def has_table_def g''_def)
  moreover have "has_table n g'' ps''" "descriptions ps'' = descriptions ps"
    using has_table_upd [OF run(4), of 0 v] run(4,5) descriptions_upd [of ps' 0 v] by (simp_all add: g''_def ps''_def)
  ultimately show ?thesis
    using run(2,3) assms(2)
    by (intro exI [of _ r] exI [of _ "u\<lparr>world := w'\<rparr>"] exI [of _ g''] exI [of _ ps''] exI [of _ k]) simp
qed


text \<open>
  Two commands for the brightness, one of them out of its limits, and one for a control of the camera
  class, to a camera that answers at once.
\<close>

definition exposure :: control where
  "exposure = \<lparr>ctrl = \<lparr>qc_id = 0x9a0902, qc_type = V4L2_CTRL_TYPE_INTEGER, qc_name = ''Exposure'', qc_minimum = 1, qc_maximum = 5000,
     qc_step = 1, qc_default_value = 250, qc_flags = 0\<rparr>, cvalue = 250, menuitems = None, class_id = 0x9a0000, cgroup = 1\<rparr>"


subsection \<open>Concrete runs\<close>

definition running_camera :: "vdIn \<Rightarrow> 'd world \<Rightarrow> 'd uvc" where
  "running_camera vd w = (uvc0 w)\<lparr>videoIn := (videoIn (uvc0 w))[0 := Some vd], threads := (threads (uvc0 w))[0 := Running], pglobal_set := True\<rparr>"

lemma running_camera_simps [simp]:
  "videoIn (running_camera vd w) ! 0 = Some vd" "0 < length (videoIn (running_camera vd w))" "threads (running_camera vd w) ! 0 = Running"
  "pglobal_set (running_camera vd w)" "world (running_camera vd w) = w"
  by (simp_all add: running_camera_def uvc0_def MAX_INPUT_PLUGINS_def)

definition camera_globals :: globals where
  "camera_globals = upd_in 0 (\<lambda>p. p\<lparr>in_formats := listed camera_formats V4L2_PIX_FMT_MJPEG 1, formatCount := 1, currentFormat := 0\<rparr>) (sample_globals [])"

lemma camera_globals_format:
  "at (in_formats (gin camera_globals ! 0)) (currentFormat (gin camera_globals ! 0)) =
    Inr (new_format 0 V4L2_PIX_FMT_MJPEG V4L2_PIX_FMT_MJPEG [\<lparr>width = 640, height = 480\<rparr>, \<lparr>width = 320, height = 240\<rparr>])"
  "\<not> gstop camera_globals"
  by (simp_all add: camera_globals_def sample_controls(3) listed_def camera_formats_def resolution_def, simp_all add: upd_in_def sample_globals_def)

text \<open>A driver that refuses everything.\<close>

definition broken :: "unit sys" where
  "broken u c = (fails_with EINVAL, ())"

lemma broken_call [simp]: "xioctl broken c w = call broken c w"
  by (rule xioctl_call) (simp add: broken_def retry_errno_def errno_defs)

theorem resolution_change_may_freeze_witness:
  "\<exists>u'. resolution_command broken 1 0 (running_camera sample_vd \<lparr>drv = (), trace = []\<rparr>, camera_globals) = Inr (- 1, u', camera_globals) \<and>
    (\<forall>k. cam_turns broken (\<lambda>_ _ _ _. []) True [] 0 k (u', camera_globals) = Inr (replicate k CamPaused, u', camera_globals))"
proof -
  let ?u = "running_camera sample_vd \<lparr>drv = (), trace = []\<rparr>"
  have "\<exists>u'. resolution_command broken 1 0 (?u, camera_globals) = Inr (- 1, u', camera_globals)"
    by (simp add: resolution_command_def Let_def camera_globals_format new_format_def setResolution_def video_disable_def call_def broken_def)
  then obtain u' where run: "resolution_command broken 1 0 (?u, camera_globals) = Inr (- 1, u', camera_globals)" by blast
  have "(1::int) < int (length (supportedResolutions
      (new_format 0 V4L2_PIX_FMT_MJPEG V4L2_PIX_FMT_MJPEG [\<lparr>width = 640, height = 480\<rparr>, \<lparr>width = 320, height = 240\<rparr>])))"
    by (simp add: new_format_def)
  from resolution_change_may_freeze [OF run running_camera_simps(1,2) _ camera_globals_format(1) this, of "\<lambda>_ _ _ _. []" True "[]"]
  show ?thesis using run camera_globals_format(2) by auto
qed

lemma camera_resizes:
  assumes "drv w = (q, fs)" "videodevice vd = Some dev" "grabmethod vd = 1" "length (vmem vd) = NB_BUFFER"
  shows "\<exists>vd' w'. setResolution camera wid hei (vd, w) = Inr (0, vd', w') \<and> drv w' = ([0, 1, 2, 3], fs) \<and>
    streamingState vd' = STREAMING_ON \<and> formatIn vd' = formatIn vd \<and> vmem vd' = replicate NB_BUFFER True"
proof -
  let ?vd = "vd\<lparr>streamingState := STREAMING_PAUSED, vmem := (vmem vd)[0 := False, 1 := False, 2 := False, 3 := False],
    vd_width := wid, vd_height := hei\<rparr>"
  define w3 where "w3 = w\<lparr>drv := ([], fs), trace := trace w @ (VIDIOC_STREAMOFF, ok_with no_data) #
    map (\<lambda>i. (Munmap i, ok_with no_data)) [0, 1, 2, 3] @ [(Close_Video (vd_fd vd), ok_with no_data)]\<rparr>"
  have w3: "drv w3 = ([], fs)" "setResolution camera wid hei (vd, w) =
      sbind (init_v4l2 camera (?vd, w3)) (\<lambda>(r, vd, w). if r < 0 then Inr (- 1, vd, w) else Inr (0, snd (video_enable camera (vd, w))))"
    using assms(1) by (simp_all add: w3_def setResolution_def video_disable_def call_def camera_simps NB_BUFFER_def numeral_upt)
  obtain vd4 w4 where s: "init_v4l2 camera (?vd, w3) = Inr (0, vd4, w4)" "drv w4 = ([0, 1, 2, 3], fs)"
    using camera_init [OF w3(1), of ?vd dev] assms(2,3) by auto
  have "vmem vd4 = replicate NB_BUFFER True" using init_v4l2_queue(2) [OF camera_results _ s(1)] assms(4) by simp
  moreover have "formatIn vd4 = formatIn vd" using init_v4l2_state [OF s(1)] by simp
  ultimately show ?thesis
    using w3(2) s by (simp add: video_enable_def call_def camera_simps)
qed

theorem larger_resolution_overflows_witness:
  "\<exists>u' g'. resolution_command camera 0 0 (running_camera sample_vd (fresh_camera [replicate 600 0]), camera_globals) = Inr (0, u', g') \<and>
    cam_turn camera (\<lambda>_ _ _ _. []) True [] 0 (u', g') = Inl BufferOverflow"
proof -
  let ?f = "replicate 600 0 :: byte list"
  let ?u = "running_camera sample_vd (fresh_camera [?f])"
  obtain vd' w' where set: "setResolution camera 640 480 (sample_vd, fresh_camera [?f]) = Inr (0, vd', w')"
    and cam: "drv w' = ([0, 1, 2, 3], [?f])" "streamingState vd' = STREAMING_ON" "formatIn vd' = V4L2_PIX_FMT_MJPEG"
      "vmem vd' = replicate NB_BUFFER True"
    using camera_resizes [of "fresh_camera [?f]" "[]" "[?f]" sample_vd "''/dev/video0''" 640 480]
    by (auto simp: fresh_camera_def sample_vd_def zero_vdIn_def)
  define u' where "u' = ?u\<lparr>videoIn := (videoIn ?u)[0 := Some vd'], world := w'\<rparr>"
  define g' where "g' = upd_in 0 (set_current_resolution (currentFormat (gin camera_globals ! 0)) 0) camera_globals"
  have run: "resolution_command camera 0 0 (?u, camera_globals) = Inr (0, u', g')"
    using set by (simp add: resolution_command_def Let_def camera_globals_format new_format_def u'_def g'_def)
  have u': "videoIn u' ! 0 = Some vd'" "world u' = w'"
    using running_camera_simps(2) [of sample_vd "fresh_camera [?f]"] by (simp_all add: u'_def)
  have "delivers camera vd' w' ?f (d_timestamp no_data) \<lparr>drv = ([1, 2, 3, 0], []), trace = trace w' @
      [(VIDIOC_DQBUF, ok_with (no_data\<lparr>d_index := 0, d_bytesused := 600, d_mem := ?f\<rparr>)), (VIDIOC_QBUF 0, ok_with no_data)]\<rparr>"
    using cam(1,4) by (cases w') (simp add: delivers_def call_def camera_simps NB_BUFFER_def no_data_def)
  moreover have "(0::int) < int (length (supportedResolutions
      (new_format 0 V4L2_PIX_FMT_MJPEG V4L2_PIX_FMT_MJPEG [\<lparr>width = 640, height = 480\<rparr>, \<lparr>width = 320, height = 240\<rparr>])))"
    by (simp add: new_format_def)
  ultimately have "cam_turn camera (\<lambda>_ _ _ _. []) True [] 0 (u', g') = Inl BufferOverflow"
    using camera_globals_format cam u'
    by (intro larger_resolution_overflows [OF run running_camera_simps(1,2) _ camera_globals_format(1), where t = "replicate 512 0" and f = ?f])
       (simp_all add: sample_vd_def)
  with run show ?thesis by blast
qed

end
