(* ===== verification/Plugin_Flow.thy ===== *)
theory Plugin_Flow
  imports Input_File Input_Testpicture Uvc_Safety
begin

text \<open>
  Inputs and outputs together: the camera keeps the contract of an input, and the pictures that the file
  output saved are shown again by the file input.
\<close>

subsection \<open>The camera as an input\<close>

definition camera_publishes :: "input_plugin \<Rightarrow> byte list \<Rightarrow> input_plugin \<Rightarrow> bool" where
  "camera_publishes p pic p' \<longleftrightarrow>
     (\<exists>jpeg lm pool q vd t buf. formatIn vd = V4L2_PIX_FMT_MJPEG \<and> tmpbuffer vd = Some t \<and> in_buf p = Some buf \<and>
        2051 \<le> length t \<and> unat (tmpbytesused vd) + 2 \<le> length t \<and> unat (tmpbytesused vd) + 420 \<le> length buf \<and>
        pic = add_tables t (unat (tmpbytesused vd)) \<and> publish jpeg lm pool q vd p = Inr p')"

lemma formats_differ: "V4L2_PIX_FMT_MJPEG \<noteq> V4L2_PIX_FMT_YUYV"
  by (simp add: V4L2_PIX_FMT_MJPEG_def V4L2_PIX_FMT_YUYV_def)

lemma camera_publishes_eq:
  assumes "formatIn vd = V4L2_PIX_FMT_MJPEG" "tmpbuffer vd = Some t" "in_buf p = Some buf" "2051 \<le> length t"
    "unat (tmpbytesused vd) + 2 \<le> length t" "unat (tmpbytesused vd) + 420 \<le> length buf"
  defines "pic \<equiv> add_tables t (unat (tmpbytesused vd))"
  shows "publish jpeg lm pool q vd p = Inr (p\<lparr>in_buf := Some (overwrite pic buf), in_size := int (length pic), in_timestamp := tmptimestamp vd\<rparr>)"
  using memcpy_picture_eq [OF assms(4-6)] assms(1-3) formats_differ by (simp add: publish_def pic_def)

interpretation cam: frame_publisher camera_publishes
proof
  fix p pic p' assume "camera_publishes p pic p'"
  then obtain jpeg lm pool q vd t buf where
    vd: "formatIn vd = V4L2_PIX_FMT_MJPEG" "tmpbuffer vd = Some t" "in_buf p = Some buf" "2051 \<le> length t"
      "unat (tmpbytesused vd) + 2 \<le> length t" "unat (tmpbytesused vd) + 420 \<le> length buf"
    and pic: "pic = add_tables t (unat (tmpbytesused vd))" and p': "publish jpeg lm pool q vd p = Inr p'"
    by (auto simp: camera_publishes_def)
  have "length pic \<le> length buf" using length_add_tables [of "unat (tmpbytesused vd)" t] vd(5,6) by (simp add: pic)
  with p' camera_publishes_eq [OF vd] show "frame_of p' = Inr pic" by (auto simp: frame_of_def pic)
qed

text \<open>A picture of the camera that is asked for by a datagram.\<close>

lemma camera_picture_by_datagram:
  assumes "camera_publishes p pic p'" "udp_ok env pic" "msg \<noteq> []" "NUL \<notin> set msg" "length msg < UDPBUFFER"
  shows "\<exists>st'. udp_turn env (Some msg) p' (st, fs) =
    Inr (UdpServed (Some msg) (command_line_of (ucommand st) msg), st', save_file msg pic fs)"
  by (rule cam.udp_file_of_published [OF assms])

subsection \<open>Saved pictures are shown again\<close>

lemma set_ring_append: "n \<le> m \<Longrightarrow> set (ring n ys) \<subseteq> set (ring m (xs @ ys))"
proof -
  assume "n \<le> m"
  then have "length (xs @ ys) - m - length xs \<le> length ys - n" by simp
  then have "set (drop (length ys - n) ys) \<subseteq> set (drop (length (xs @ ys) - m - length xs) ys)"
    by (rule set_drop_subset_set_drop)
  then show ?thesis unfolding ring_def drop_append by auto
qed

lemma set_ring_map: "set (ring n (map f xs)) = f ` set (ring n xs)"
  unfolding ring_def length_map drop_map set_map ..

definition shot_files :: "(tm \<times> byte list) list \<Rightarrow> (string \<times> byte list) list" where
  "shot_files plan = map (\<lambda>(d, c). (d, the c)) (shot_names 0 plan)"

lemma shot_names_Some: "(d, c) \<in> set (shot_names i plan) \<Longrightarrow> \<exists>pic. c = Some pic"
  by (induction i plan rule: shot_names.induct) auto

lemma shot_names_length:
  "(d, c) \<in> set (shot_names i plan) \<Longrightarrow> \<forall>(t, _) \<in> set plan. tm_ok t \<Longrightarrow> i + length plan < 1000000000 \<Longrightarrow> length d = 41"
  by (induction i plan rule: shot_names.induct) (auto simp: length_picture_name)

lemma snd_shot_names: "map (\<lambda>(_, c). the c) (shot_names i plan) = map snd plan"
  by (induction i plan rule: shot_names.induct) auto

lemma saved_on_disk: "(d, Some pic) \<in> set (saved dir fs) \<Longrightarrow> map_of fs (path_of dir d) = Some pic"
  by (auto simp: saved_def)

lemma ring_on_disk:
  assumes "worker_inv dir n e fs0 (length plan) (old @ shot_names 0 plan) (st, fs)" "plan \<noteq> []" "length dir \<le> 900"
    "\<forall>(t, _) \<in> set plan. tm_ok t" "length plan < 1000000000"
  shows "list_all (on_disk dir fs) (ring (nat n) (shot_files plan))"
proof -
  obtain m where m: "nat n \<le> m" "saved dir fs = ring m (old @ shot_names 0 plan)"
    using worker_inv_ring [OF assms(1)] assms(2) by auto
  have "on_disk dir fs (d, pic)" if "(d, pic) \<in> set (ring (nat n) (shot_files plan))" for d pic
  proof -
    from that have "(d, pic) \<in> (\<lambda>(d, c). (d, the c)) ` set (ring (nat n) (shot_names 0 plan))"
      unfolding shot_files_def set_ring_map .
    then obtain x where x: "(d, pic) = (\<lambda>(d, c). (d, the c)) x" "x \<in> set (ring (nat n) (shot_names 0 plan))" by (rule imageE)
    then obtain c where c: "(d, c) \<in> set (ring (nat n) (shot_names 0 plan))" "pic = the c" by (cases x) simp
    have mem: "(d, c) \<in> set (shot_names 0 plan)" by (rule subsetD [OF set_ring c(1)])
    then obtain "c = Some pic" using shot_names_Some [OF mem] c(2) by auto
    moreover have "(d, c) \<in> set (saved dir fs)" unfolding m(2) by (rule subsetD [OF set_ring_append [OF m(1)] c(1)])
    moreover have "length d = 41" using shot_names_length [OF mem assms(4)] assms(5) by simp
    ultimately show ?thesis using assms(3) by (simp add: on_disk_def saved_on_disk) (simp add: path_of_def)
  qed
  then show ?thesis by (auto simp: list_all_iff)
qed

text \<open>
  C37.  The file output and the file input are inverse to each other: when the pictures that one streamer keeps
  in its ring buffer are announced in turn to another one that watches the same folder, the second
  streamer publishes exactly the frames that the first one took, in their order.
\<close>

theorem saved_pictures_shown_again:
  assumes "list_all2 turn_ok turns plan" "plan \<noteq> []" "length plan < 1000000000" "clock_ok plan"
    "older 0 plan (saved (folder st) fs)" "distinct (map fst fs)" "0 \<le> ringbuffer_size st" "length (folder st) \<le> 900"
    and "ifolder w = Some (folder st @ ''/'')" "ifilename w = None" "\<not> rm w"
    and "list_all2 (told wd) reads (ring (nat (ringbuffer_size st)) (shot_files plan))"
  shows "\<exists>events st' fs' ps s'. file_worker_thread turns (st, fs) = Inr (events, st', fs') \<and>
    watch_loop w wd reads \<lparr>w_in = p, w_locked = False, w_files = fs'\<rparr> = Inr (ps, s') \<and>
    map frame_of ps = map (\<lambda>(_, picture). Inr picture) (ring (nat (ringbuffer_size st)) plan)"
proof -
  let ?ring = "ring (nat (ringbuffer_size st))"
  obtain events st' fs' where run: "file_worker_thread turns (st, fs) = Inr (events, st', fs')"
    and inv: "worker_inv (folder st) (ringbuffer_size st) (ringbuffer_exceed st) fs (length plan)
      (saved (folder st) fs @ shot_names 0 plan) (st', fs')"
    using file_worker_inv [OF assms(1,3-8)] by blast
  have "list_all (on_disk (folder st) fs') (?ring (shot_files plan))"
    by (rule ring_on_disk [OF inv assms(2,8) turns_times [OF assms(1)] assms(3)])
  then obtain ps s' where shown: "watch_loop w wd reads \<lparr>w_in = p, w_locked = False, w_files = fs'\<rparr> = Inr (ps, s')"
    "map frame_of ps = map (\<lambda>(_, pic). Inr pic) (?ring (shot_files plan))"
    using watch_loop_shows [OF assms(12) _ assms(9-11), where s = "\<lparr>w_in = p, w_locked = False, w_files = fs'\<rparr>"] by auto
  have "map (\<lambda>(_, pic). Inr pic) (shot_files plan) = map Inr (map (\<lambda>(_, c). the c) (shot_names 0 plan))"
    by (simp add: shot_files_def case_prod_unfold)
  also have "\<dots> = map (\<lambda>(_, picture). Inr picture) plan" unfolding snd_shot_names by (simp add: case_prod_unfold)
  finally have "map frame_of ps = map (\<lambda>(_, picture). Inr picture) (?ring plan)"
    using shown(2) unfolding map_ring by metis
  with run shown(1) show ?thesis by blast
qed

definition sample_plan :: "(tm \<times> byte list) list" where
  "sample_plan = [(noon 7, [255, 216]), (noon 9, [1, 2, 3])]"

definition sample_watch_env :: "int \<Rightarrow> watch_env" where
  "sample_watch_env n = \<lparr>iopen_ok = True, fstat_ok = True, imalloc_ok = True, read_ret = n, iunlink_ok = (\<lambda>_. True)\<rparr>"

text \<open>Two frames are saved, the ring buffer keeps one, and the watcher shows that one.\<close>

theorem saved_pictures_shown_again_witness:
  "\<exists>events st' fs' ps s'.
     file_worker_thread [(noon_env 7 2, sample_input [255, 216]), (noon_env 9 3, sample_input [1, 2, 3])]
       (file_output0\<lparr>ringbuffer_size := 1\<rparr>, []) = Inr (events, st', fs') \<and>
     watch_loop (file_input0\<lparr>ifolder := Some ''/tmp/''\<rparr>) 1
       [(sample_watch_env 3, Some [\<lparr>ev_wd = 1, ev_mask = 8, ev_name = picture_name (noon 9) 1\<rparr>])]
       \<lparr>w_in = sample_input [], w_locked = False, w_files = fs'\<rparr> = Inr (ps, s') \<and>
     map frame_of ps = [Inr [1, 2, 3]]"
proof -
  let ?st = "file_output0\<lparr>ringbuffer_size := 1\<rparr>" and ?w = "file_input0\<lparr>ifolder := Some ''/tmp/''\<rparr>"
  let ?turns = "[(noon_env 7 2, sample_input [255, 216]), (noon_env 9 3, sample_input [1, 2, 3])]"
  let ?reads = "[(sample_watch_env 3, Some [\<lparr>ev_wd = 1, ev_mask = 8, ev_name = picture_name (noon 9) 1\<rparr>])]"
  have "list_all2 turn_ok ?turns sample_plan"
    by (simp add: sample_plan_def turn_ok_def noon_env_def noon_def tm_ok_def frame_of_def sample_input_def)
  moreover have "clock_ok sample_plan" by (simp add: clock_ok_def sample_plan_def noon_def time_key_def)
  moreover have "list_all2 (told 1) ?reads (ring (nat (ringbuffer_size ?st)) (shot_files sample_plan))"
    by (simp add: file_output0_def shot_files_def sample_plan_def ring_def told_def watch_ok_def sample_watch_env_def
        written_event_def IN_IGNORED_def IN_Q_OVERFLOW_def IN_UNMOUNT_def)
  moreover have "saved ''/tmp'' [] = []" by (simp add: saved_def pictures_def entries_def)
  ultimately show ?thesis
    using saved_pictures_shown_again [of ?turns sample_plan ?st "[]" ?w 1 ?reads "sample_input []"]
    by (auto simp: file_output0_def file_input0_def older_def sample_plan_def ring_def)
qed

end
