(* ===== verification/Gspca_Quant.thy ===== *)
theory Gspca_Quant
  imports Streamer_Types
begin

text \<open>
  The quantisation tables of the JPEG codec for gspca cameras,
  \<^verbatim>\<open>src/mjpg-streamer/plugins/input_gspcav1/quant.c\<close>: the tables for a quality factor, the division that gives
  their reciprocals, and the quantisation of a block in zigzag order.  Arrays of \<^verbatim>\<open>INT16\<close> are lists of integers
  with the cast written out; table entries and the division work on words.
\<close>

type_synonym block = "int list"

text \<open>The cast to \<^verbatim>\<open>INT16\<close>.\<close>

definition s16 :: "int \<Rightarrow> int" where
  "s16 x = (x + 32768) mod 65536 - 32768"

subsection \<open>The code\<close>

definition zigzag_table :: "nat list" where
  "zigzag_table = [
    0, 1, 5, 6, 14, 15, 27, 28, 2, 4, 7, 13, 16, 26, 29, 42, 3, 8, 12, 17,
    25, 30, 41, 43, 9, 11, 18, 24, 31, 40, 44, 53, 10, 19, 23, 32, 39, 45, 52,
    54, 20, 22, 33, 38, 46, 51, 55, 60, 21, 34, 37, 47, 50, 56, 59, 61, 35, 36,
    48, 49, 57, 58, 62, 63]"

definition luminance_quant_table :: "nat list" where
  "luminance_quant_table = [
    16, 11, 10, 16, 24, 40, 51, 61, 12, 12, 14, 19, 26, 58, 60, 55, 14, 13,
    16, 24, 40, 57, 69, 56, 14, 17, 22, 29, 51, 87, 80, 62, 18, 22, 37,
    56, 68, 109, 103, 77, 24, 35, 55, 64, 81, 104, 113, 92, 49, 64, 78,
    87, 103, 121, 120, 101, 72, 92, 95, 98, 112, 100, 103, 99]"

definition chrominance_quant_table :: "nat list" where
  "chrominance_quant_table = [
    17, 18, 24, 47, 99, 99, 99, 99, 18, 21, 26, 66, 99, 99, 99, 99, 24, 26,
    56, 99, 99, 99, 99, 99, 47, 66, 99, 99, 99, 99, 99, 99, 99, 99, 99,
    99, 99, 99, 99, 99, 99, 99, 99, 99, 99, 99, 99, 99, 99, 99, 99, 99,
    99, 99, 99, 99, 99, 99, 99, 99, 99, 99, 99, 99]"

text \<open>\<^verbatim>\<open>DSP_Division\<close>: sixteen steps that shift a bit of the quotient into the low end of \<^verbatim>\<open>numer\<close>.\<close>

definition dsp_step :: "cint \<Rightarrow> cint \<Rightarrow> cint" where
  "dsp_step denom numer = (if denom < numer then push_bit 1 (numer - denom) + 1 else push_bit 1 numer)"

definition DSP_Division :: "cint \<Rightarrow> cint \<Rightarrow> short" where
  "DSP_Division numer denom = ucast ((dsp_step (push_bit 15 denom) ^^ 16) numer)"

definition table_value :: "nat \<Rightarrow> cint \<Rightarrow> cint" where
  "table_value entry quality_factor =
     (let v = drop_bit 10 (of_nat entry * quality_factor + 0x200)
      in if v = 0 then 1 else if v > 255 then 255 else v)"

record quant_tables =
  Lqt :: "byte list"
  Cqt :: "byte list"
  ILqt :: "short list"
  ICqt :: "short list"

definition initialize_quantization_tables :: "cint \<Rightarrow> quant_tables \<Rightarrow> quant_tables" where
  "initialize_quantization_tables quality_factor q =
     fold (\<lambda>i q.
       let index = zigzag_table ! i;
           l = table_value (luminance_quant_table ! i) quality_factor;
           c = table_value (chrominance_quant_table ! i) quality_factor
       in q\<lparr>Lqt := (Lqt q)[index := ucast l], ILqt := (ILqt q)[i := DSP_Division 0x8000 l],
            Cqt := (Cqt q)[index := ucast c], ICqt := (ICqt q)[i := DSP_Division 0x8000 c]\<rparr>)
       [0..<64] q"

definition quantize :: "int \<Rightarrow> short \<Rightarrow> int" where
  "quantize d r = s16 (drop_bit 15 (d * uint r + 0x4000))"

text \<open>The result is stored in the global array \<^verbatim>\<open>Temp\<close>.\<close>

definition quantization :: "block \<Rightarrow> short list \<Rightarrow> block \<Rightarrow> block" where
  "quantization data quant_table Temp =
     fold (\<lambda>i Temp. Temp[zigzag_table ! i := quantize (data ! i) (quant_table ! i)]) (rev [0..<64]) Temp"

subsection \<open>Writing through a permutation\<close>

lemma s16_id: "- 32768 \<le> x \<Longrightarrow> x < 32768 \<Longrightarrow> s16 x = x"
  by (simp add: s16_def)

lemma s16_range: "- 32768 \<le> s16 x \<and> s16 x < 32768"
  unfolding s16_def using pos_mod_bound [of 65536 "x + 32768"] pos_mod_sign [of 65536 "x + 32768"] by linarith

lemma length_fold_update: "length (fold (\<lambda>i xs. xs[p i := f i]) is xs) = length xs"
  by (induction "is" arbitrary: xs) simp_all

lemma fold_update_nth:
  assumes "distinct (map p is)" "i \<in> set is" "\<forall>j \<in> set is. p j < length xs"
  shows "fold (\<lambda>i xs. xs[p i := f i]) is xs ! p i = f i"
proof -
  have other: "fold (\<lambda>i xs. xs[p i := f i]) js ys ! n = ys ! n" if "n \<notin> p ` set js" for js ys n
    using that by (induction js arbitrary: ys) auto
  show ?thesis
    using assms by (induction "is" arbitrary: xs) (auto simp: other)
qed

lemma zigzag_permutes: "distinct zigzag_table" "length zigzag_table = 64" "set zigzag_table = {..<64}"
proof -
  show "distinct zigzag_table" "length zigzag_table = 64" by (simp_all add: zigzag_table_def)
  have "set zigzag_table \<subseteq> {..<64}" by (simp add: zigzag_table_def)
  moreover have "card (set zigzag_table) = 64" by (simp add: zigzag_table_def)
  ultimately show "set zigzag_table = {..<64}" by (simp add: card_subset_eq)
qed

lemma zigzag_nth [simp]: "i < 64 \<Longrightarrow> zigzag_table ! i < 64"
  using nth_mem [of i zigzag_table] zigzag_permutes by auto

lemma map_zigzag: "map (\<lambda>i. zigzag_table ! i) [0..<64] = zigzag_table"
  using zigzag_permutes(2) by (metis map_nth)

text \<open>Each coefficient lands at its zigzag position, whatever \<^verbatim>\<open>Temp\<close> held before.\<close>

lemma quantization_nth:
  assumes "i < 64" "length Temp = 64"
  shows "quantization data tab Temp ! (zigzag_table ! i) = quantize (data ! i) (tab ! i)"
  unfolding quantization_def
  by (rule fold_update_nth) (use assms zigzag_permutes map_zigzag in \<open>auto simp: rev_map [symmetric]\<close>)

lemma length_quantization [simp]: "length (quantization data tab Temp) = length Temp"
  by (simp add: quantization_def length_fold_update)

lemma zigzag_surj: "k < 64 \<Longrightarrow> \<exists>i<64. zigzag_table ! i = k"
  using zigzag_permutes by (metis in_set_conv_nth lessThan_iff)

lemma set_quantization:
  assumes "length Temp = 64"
  shows "set (quantization data tab Temp) = {quantize (data ! i) (tab ! i) | i. i < 64}"
proof -
  have "\<exists>i<64. quantization data tab Temp ! k = quantize (data ! i) (tab ! i)" if "k < 64" for k
    using zigzag_surj [OF that] quantization_nth [OF _ assms] by metis
  moreover have "\<exists>k<64. quantization data tab Temp ! k = quantize (data ! i) (tab ! i)" if "i < 64" for i
    using that quantization_nth [OF that assms] zigzag_nth by metis
  ultimately show ?thesis using assms by (auto simp: set_conv_nth) metis+
qed

subsection \<open>The division\<close>

text \<open>
  Dividing 32768 by \<open>d\<close>: after \<open>k\<close> steps \<^verbatim>\<open>numer\<close> holds the remainder \<open>m\<close> in its upper and the quotient \<open>q\<close> in its lower
  half, with \<open>m + 2 d q = 2 ^ k\<close>.
\<close>

definition dsp_inv :: "nat \<Rightarrow> nat \<Rightarrow> nat \<Rightarrow> bool" where
  "dsp_inv d k n \<longleftrightarrow> (\<exists>m q. n = m * 2 ^ 15 + q \<and> m + 2 * d * q = 2 ^ k \<and> 0 < m \<and> m \<le> 2 * d)"

lemma dsp_invI: "\<lbrakk>n = m * 2 ^ 15 + q; m + 2 * d * q = 2 ^ k; 0 < m; m \<le> 2 * d\<rbrakk> \<Longrightarrow> dsp_inv d k n"
  unfolding dsp_inv_def by blast

lemma odd_dvd_power_two:
  assumes "Suc (2 * q) dvd 2 ^ k"
  shows "q = 0"
proof -
  have "coprime (Suc (2 * q)) (2 ^ k)" by simp
  with assms have "is_unit (Suc (2 * q))" using coprime_absorb_left by blast
  then show ?thesis by simp
qed

lemma dsp_quotient_small:
  assumes "m + 2 * d * q = 2 ^ k" "k \<le> 15" "0 < d"
  shows "q < (2::nat) ^ 15"
proof -
  have "2 * q \<le> 2 * d * q" using assms(3) by simp
  also have "\<dots> \<le> 2 ^ k" using assms(1) by linarith
  also have "\<dots> \<le> 2 ^ 15" using assms(2) by (rule power_increasing) simp
  finally show ?thesis by simp
qed

lemma dsp_compare:
  assumes "m + 2 * d * q = 2 ^ k" "k \<le> 15" "0 < d"
  shows "d * 2 ^ 15 < m * 2 ^ 15 + q \<longleftrightarrow> d < (m :: nat)"
proof
  assume less: "d * 2 ^ 15 < m * 2 ^ 15 + q"
  show "d < m"
  proof (rule ccontr)
    assume "\<not> d < m"
    moreover have "m \<noteq> d"
    proof
      assume "m = d"
      with assms(1) have "d * Suc (2 * q) = 2 ^ k" by (simp add: algebra_simps)
      then have "q = 0" using odd_dvd_power_two by (metis dvd_triv_right)
      with less \<open>m = d\<close> show False by simp
    qed
    ultimately have "(m + 1) * 2 ^ 15 \<le> d * 2 ^ 15" by (intro mult_right_mono) auto
    with less dsp_quotient_small [OF assms] show False by (simp add: algebra_simps)
  qed
next
  assume "d < m"
  then have "(d + 1) * 2 ^ 15 \<le> m * 2 ^ 15" by (intro mult_right_mono) auto
  then show "d * 2 ^ 15 < m * 2 ^ 15 + q" by (simp add: algebra_simps)
qed

lemma unat_double: "unat x < 2 ^ 31 \<Longrightarrow> unat (push_bit 1 (x :: cint)) = 2 * unat x"
  by (simp add: push_bit_eq_mult unat_word_ariths)

lemma unat_double_Suc: "unat x < 2 ^ 31 \<Longrightarrow> unat (push_bit 1 (x :: cint) + 1) = 2 * unat x + 1"
  using unat_double [of x] by (simp add: unat_word_ariths)

lemma dsp_step_inv:
  assumes "dsp_inv d k (unat numer)" "k \<le> 15" "0 < d" "d < 256"
  shows "dsp_inv d (Suc k) (unat (dsp_step (push_bit 15 (of_nat d)) numer))"
proof -
  obtain m q where n: "unat numer = m * 2 ^ 15 + q" "m + 2 * d * q = 2 ^ k" "0 < m" "m \<le> 2 * d"
    using assms(1) by (auto simp: dsp_inv_def)
  have q: "q < 2 ^ 15" by (rule dsp_quotient_small [OF n(2) assms(2,3)])
  have den: "unat (push_bit 15 (of_nat d) :: cint) = d * 2 ^ 15"
    using assms(4) by (simp add: push_bit_eq_mult unat_word_ariths unat_of_nat)
  have small: "unat numer < 2 ^ 25" using n(1,4) q assms(4) by simp
  show ?thesis
  proof (cases "d < m")
    case True
    then have gt: "d * 2 ^ 15 < unat numer" using dsp_compare [OF n(2) assms(2,3)] n(1) by simp
    then have "push_bit 15 (of_nat d) < numer" by (simp add: word_less_nat_alt den)
    moreover from this have sub: "unat (numer - push_bit 15 (of_nat d)) = unat numer - d * 2 ^ 15"
      using den unat_sub [OF order.strict_implies_order] by metis
    ultimately have "unat (dsp_step (push_bit 15 (of_nat d)) numer) = 2 * (unat numer - d * 2 ^ 15) + 1"
      using small unat_double_Suc [of "numer - push_bit 15 (of_nat d)"] by (simp add: dsp_step_def)
    also have "\<dots> = (2 * m - 2 * d) * 2 ^ 15 + (2 * q + 1)"
    proof -
      have "m * 2 ^ 15 - d * 2 ^ 15 = (m - d) * 2 ^ 15" by (simp add: diff_mult_distrib)
      moreover have "d * 2 ^ 15 \<le> m * 2 ^ 15" using True by simp
      ultimately show ?thesis using n(1) by simp
    qed
    finally show ?thesis
    proof (rule dsp_invI)
      show "2 * m - 2 * d + 2 * d * (2 * q + 1) = 2 ^ Suc k" using n(2) True by (simp add: algebra_simps)
    qed (use n(4) True in simp_all)
  next
    case False
    then have "\<not> push_bit 15 (of_nat d) < numer"
      using dsp_compare [OF n(2) assms(2,3)] n(1) den by (simp add: word_less_nat_alt)
    then have "unat (dsp_step (push_bit 15 (of_nat d)) numer) = 2 * unat numer"
      using small by (simp add: dsp_step_def push_bit_eq_mult unat_word_ariths)
    with n False show ?thesis
      by (intro dsp_invI [of _ "2 * m" "2 * q"]) (simp_all add: algebra_simps)
  qed
qed

lemma dsp_steps_inv:
  assumes "k \<le> 16" "0 < d" "d < 256"
  shows "dsp_inv d k (unat ((dsp_step (push_bit 15 (of_nat d)) ^^ k) 0x8000))"
  using assms(1)
proof (induction k)
  case 0
  show ?case by (rule dsp_invI [of _ 1 0]) (use assms in simp_all)
next
  case (Suc k)
  then show ?case using dsp_step_inv [OF _ _ assms(2,3)] by simp
qed

lemma DSP_Division_reciprocal:
  assumes "0 < d" "d < 256"
  shows "unat (DSP_Division 0x8000 (of_nat d)) = 32767 div d"
proof -
  obtain m q where n: "unat ((dsp_step (push_bit 15 (of_nat d)) ^^ 16) 0x8000) = m * 2 ^ 15 + q"
    "m + 2 * d * q = 2 ^ 16" "0 < m" "m \<le> 2 * d"
    using dsp_steps_inv [of 16 d] assms by (auto simp: dsp_inv_def)
  have "even (m + 2 * d * q)" unfolding n(2) by simp
  then have "even m" by simp
  then obtain h where h: "m = 2 * h" by blast
  with n(2) have eq: "h + d * q = 32768" by simp
  moreover have "q \<le> d * q" using assms(1) by simp
  ultimately have "q < 65536" by linarith
  moreover have "unat (DSP_Division 0x8000 (of_nat d)) = (m * 2 ^ 15 + q) mod 65536"
    using n(1) by (simp add: DSP_Division_def unsigned_ucast_eq take_bit_eq_mod)
  ultimately have "unat (DSP_Division 0x8000 (of_nat d)) = q" using h by (simp add: mult.commute)
  moreover have "32767 div d = q"
  proof (rule div_nat_eqI)
    show "d * q \<le> 32767" using eq n(3) h by linarith
    show "32767 < d * Suc q" using eq n(4) h by simp
  qed
  ultimately show ?thesis by simp
qed

subsection \<open>The tables\<close>

lemma initialize_fold:
  "fold (\<lambda>i q. q\<lparr>Lqt := (Lqt q)[z i := a i], ILqt := (ILqt q)[i := b i], Cqt := (Cqt q)[z i := c i], ICqt := (ICqt q)[i := e i]\<rparr>) is q =
   q\<lparr>Lqt := fold (\<lambda>i xs. xs[z i := a i]) is (Lqt q), Cqt := fold (\<lambda>i xs. xs[z i := c i]) is (Cqt q),
     ILqt := fold (\<lambda>i xs. xs[i := b i]) is (ILqt q), ICqt := fold (\<lambda>i xs. xs[i := e i]) is (ICqt q)\<rparr>"
  by (induction "is" arbitrary: q) simp_all

definition tables_sized :: "quant_tables \<Rightarrow> bool" where
  "tables_sized q \<longleftrightarrow> length (Lqt q) = 64 \<and> length (Cqt q) = 64 \<and> length (ILqt q) = 64 \<and> length (ICqt q) = 64"

lemma initialize_fields:
  fixes f :: cint
  defines "l i \<equiv> table_value (luminance_quant_table ! i) f" and "c i \<equiv> table_value (chrominance_quant_table ! i) f"
  shows "Lqt (initialize_quantization_tables f q) = fold (\<lambda>i xs. xs[zigzag_table ! i := ucast (l i)]) [0..<64] (Lqt q)"
    "Cqt (initialize_quantization_tables f q) = fold (\<lambda>i xs. xs[zigzag_table ! i := ucast (c i)]) [0..<64] (Cqt q)"
    "ILqt (initialize_quantization_tables f q) = fold (\<lambda>i xs. xs[i := DSP_Division 0x8000 (l i)]) [0..<64] (ILqt q)"
    "ICqt (initialize_quantization_tables f q) = fold (\<lambda>i xs. xs[i := DSP_Division 0x8000 (c i)]) [0..<64] (ICqt q)"
  unfolding initialize_quantization_tables_def Let_def initialize_fold l_def c_def
  by (simp_all del: upt_rec_numeral)

lemma fold_64:
  assumes "distinct (map p [0..<64])" "i < 64" "\<forall>j<64. p j < length xs"
  shows "fold (\<lambda>i xs. xs[p i := f i]) [0..<64] xs ! p i = f i"
  by (rule fold_update_nth) (use assms in \<open>simp_all del: upt_rec_numeral\<close>)

lemma initialize_tables_nth:
  fixes f :: cint
  assumes "tables_sized q" "i < 64"
  defines "q' \<equiv> initialize_quantization_tables f q"
  shows "Lqt q' ! (zigzag_table ! i) = ucast (table_value (luminance_quant_table ! i) f)"
    "Cqt q' ! (zigzag_table ! i) = ucast (table_value (chrominance_quant_table ! i) f)"
    "ILqt q' ! i = DSP_Division 0x8000 (table_value (luminance_quant_table ! i) f)"
    "ICqt q' ! i = DSP_Division 0x8000 (table_value (chrominance_quant_table ! i) f)"
    "tables_sized q'"
proof -
  have z: "distinct (map (\<lambda>i. zigzag_table ! i) [0..<64])" "\<forall>j<64. zigzag_table ! j < length (Lqt q)"
    "\<forall>j<64. zigzag_table ! j < length (Cqt q)"
    using zigzag_permutes(1) map_zigzag assms(1) by (simp_all add: tables_sized_def)
  have d: "distinct (map (\<lambda>i. i) [0..<64])" "\<forall>j<64. j < length (ILqt q)" "\<forall>j<64. j < length (ICqt q)"
    using assms(1) by (simp_all add: tables_sized_def)
  show "Lqt q' ! (zigzag_table ! i) = ucast (table_value (luminance_quant_table ! i) f)"
    unfolding q'_def initialize_fields by (rule fold_64 [OF z(1) assms(2) z(2)])
  show "Cqt q' ! (zigzag_table ! i) = ucast (table_value (chrominance_quant_table ! i) f)"
    unfolding q'_def initialize_fields by (rule fold_64 [OF z(1) assms(2) z(3)])
  show "ILqt q' ! i = DSP_Division 0x8000 (table_value (luminance_quant_table ! i) f)"
    unfolding q'_def initialize_fields by (rule fold_64 [where p = "\<lambda>i. i", OF d(1) assms(2) d(2)])
  show "ICqt q' ! i = DSP_Division 0x8000 (table_value (chrominance_quant_table ! i) f)"
    unfolding q'_def initialize_fields by (rule fold_64 [where p = "\<lambda>i. i", OF d(1) assms(2) d(3)])
  show "tables_sized q'"
    using assms(1) unfolding q'_def tables_sized_def initialize_fields length_fold_update .
qed

lemma clamp_byte_range:
  "0 < unat (if v = 0 then 1 else if v > 255 then 255 else v :: cint) \<and> unat (if v = 0 then 1 else if v > 255 then 255 else v) < 256"
  by (auto simp: word_less_nat_alt unat_gt_0)

lemma table_value_range: "0 < unat (table_value e f) \<and> unat (table_value e f) < 256"
  unfolding table_value_def Let_def by (rule clamp_byte_range)

lemma word_unat_eq: "of_nat (unat v) = (v :: cint)"
  by simp

lemma uint_reciprocal:
  assumes "0 < unat v" "unat v < 256"
  shows "uint (DSP_Division 0x8000 v) = 32767 div uint v"
proof -
  have "unat (DSP_Division 0x8000 v) = 32767 div unat v"
    using DSP_Division_reciprocal [OF assms] unfolding word_unat_eq .
  then show ?thesis unfolding uint_nat by (simp only: zdiv_int) simp
qed

lemma uint_table_byte: "uint (ucast (table_value e f) :: byte) = uint (table_value e f)"
proof -
  have "uint (table_value e f) < 256" using table_value_range [of e f] unfolding uint_nat by linarith
  then have "take_bit 8 (uint (table_value e f)) = uint (table_value e f)" by (simp add: take_bit_int_eq_self)
  then show ?thesis by (simp add: unsigned_ucast_eq)
qed

subsection \<open>How far quantisation is from division\<close>

lemma quantize_value:
  assumes "- 32768 \<le> d" "d < 32768" "0 \<le> uint r" "uint r \<le> 32767"
  shows "quantize d r = (d * uint r + 16384) div 32768"
proof -
  have "- 32768 * uint r \<le> d * uint r" "d * uint r \<le> 32767 * uint r"
    using mult_right_mono [OF assms(1,3)] mult_right_mono [of d 32767 "uint r"] assms(2,3) by simp_all
  then have "- 32768 * 32768 \<le> d * uint r + 16384" "d * uint r + 16384 < 32768 * 32768" using assms(3,4) by linarith+
  then have "- 32768 \<le> (d * uint r + 16384) div 32768" "(d * uint r + 16384) div 32768 < 32768" by linarith+
  then show ?thesis by (simp add: quantize_def drop_bit_eq_div s16_id)
qed

lemma quantize_error:
  assumes "- 32768 \<le> d" "d < 32768" "0 < unat v" "unat v < 256"
  shows "\<bar>32768 * (uint v * quantize d (DSP_Division 0x8000 v) - d)\<bar> \<le> uint v * (16384 + \<bar>d\<bar>)"
proof -
  define r where "r = uint (DSP_Division 0x8000 v)"
  define q where "q = uint v"
  define x where "x = quantize d (DSP_Division 0x8000 v)"
  have q: "0 < q" "q < 256" using assms(3,4) unfolding q_def uint_nat by linarith+
  have r: "r = 32767 div q" using uint_reciprocal [OF assms(3,4)] by (simp add: r_def q_def)
  then have "0 \<le> r" using q(1) by (simp add: pos_imp_zdiv_nonneg_iff)
  moreover have "r \<le> 32767" using zdiv_mono2 [of 32767 1 q] q(1) by (simp add: r)
  ultimately have r2: "0 \<le> r" "r \<le> 32767" .
  have rq: "0 \<le> 32768 - q * r" "32768 - q * r \<le> q"
    using mult_div_mod_eq [of q 32767] pos_mod_bound [of q 32767] pos_mod_sign [of q 32767] q(1) unfolding r by linarith+
  have "x = (d * r + 16384) div 32768" using quantize_value [OF assms(1,2)] r2 by (simp add: x_def r_def)
  then have x: "32768 * x \<le> d * r + 16384" "d * r - 16384 \<le> 32768 * x" by linarith+
  have xq: "q * (32768 * x) \<le> q * (d * r + 16384)" "q * (d * r - 16384) \<le> q * (32768 * x)"
    using x q(1) by (auto intro!: mult_left_mono)
  have "\<bar>d * (32768 - q * r)\<bar> \<le> \<bar>d\<bar> * q" using rq by (simp add: abs_mult mult_left_mono)
  then have "d * (32768 - q * r) \<le> \<bar>d\<bar> * q" "- (\<bar>d\<bar> * q) \<le> d * (32768 - q * r)" by linarith+
  with xq show ?thesis unfolding q_def [symmetric] x_def [symmetric] by (simp add: algebra_simps)
qed

text \<open>
  C10.  Quantisation by multiplication with the reciprocals is division by the table that is written into
  the file: for every quality factor and every coefficient, a decoder that multiplies by its table entry is within
  half a step of the coefficient, and one unit of the step for every 32768 of the coefficient's size.
\<close>

theorem quantization_error:
  assumes "tables_sized q" "q' = initialize_quantization_tables f q" "length Temp = 64" "i < 64" "data ! i = s16 d"
  shows "\<bar>32768 * (uint (Lqt q' ! (zigzag_table ! i)) * quantization data (ILqt q') Temp ! (zigzag_table ! i) - s16 d)\<bar>
      \<le> uint (Lqt q' ! (zigzag_table ! i)) * (16384 + \<bar>s16 d\<bar>) \<and>
    0 < Lqt q' ! (zigzag_table ! i)"
proof -
  let ?v = "table_value (luminance_quant_table ! i) f"
  note t = initialize_tables_nth [OF assms(1,4), of f, folded assms(2)]
  have "uint (Lqt q' ! (zigzag_table ! i)) = uint ?v" unfolding t(1) by (rule uint_table_byte)
  moreover have "quantization data (ILqt q') Temp ! (zigzag_table ! i) = quantize (s16 d) (DSP_Division 0x8000 ?v)"
    using quantization_nth [OF assms(4,3), of data "ILqt q'"] t(3) assms(5) by simp
  moreover have "0 < uint ?v" using table_value_range [of "luminance_quant_table ! i" f] unfolding uint_nat by linarith
  ultimately show ?thesis
    using quantize_error [of "s16 d" ?v] s16_range [of d] table_value_range [of "luminance_quant_table ! i" f]
    by (simp add: word_less_alt)
qed

definition zero_tables :: quant_tables where
  "zero_tables = \<lparr>Lqt = replicate 64 0, Cqt = replicate 64 0, ILqt = replicate 64 0, ICqt = replicate 64 0\<rparr>"

theorem quantization_error_witness:
  "\<bar>32768 * (uint (Lqt (initialize_quantization_tables 1024 zero_tables) ! (zigzag_table ! 0)) *
      quantization (s16 1000 # replicate 63 0) (ILqt (initialize_quantization_tables 1024 zero_tables)) (replicate 64 0) ! (zigzag_table ! 0) - s16 1000)\<bar>
    \<le> uint (Lqt (initialize_quantization_tables 1024 zero_tables) ! (zigzag_table ! 0)) * (16384 + \<bar>s16 1000\<bar>)"
proof (rule quantization_error [THEN conjunct1])
  show "tables_sized zero_tables" by (simp add: tables_sized_def zero_tables_def)
qed simp_all

end
