(* ===== verification/Gspca_Bits.thy ===== *)
theory Gspca_Bits
  imports Streamer_Types
begin

text \<open>
  The bit stream of \<^verbatim>\<open>src/mjpg-streamer/plugins/input_gspcav1/huffman.c\<close>: the block marked \<^verbatim>\<open>PUTBITS\<close>, which collects codes in a
  32-bit word and writes it out byte by byte with a zero behind each \<^verbatim>\<open>0xff\<close>, and \<^verbatim>\<open>close_bitstream\<close>.  They refine
  the appending of bits to a list.
\<close>

subsection \<open>The code\<close>

text \<open>The global variables \<^verbatim>\<open>lcode\<close> and \<^verbatim>\<open>bitindex\<close>, and the bytes in front of \<^verbatim>\<open>output_ptr\<close>.\<close>

record bit_writer =
  lcode :: cint
  bitindex :: nat
  bout :: "byte list"

definition put_byte :: "byte \<Rightarrow> byte list \<Rightarrow> byte list" where
  "put_byte b bs = (if b = 0xff then bs @ [b, 0] else bs @ [b])"

definition byte_at :: "nat \<Rightarrow> cint \<Rightarrow> byte" where
  "byte_at k l = ucast (signed_drop_bit k l)"

definition PUTBITS :: "cint \<Rightarrow> nat \<Rightarrow> bit_writer \<Rightarrow> bit_writer" where
  "PUTBITS data numbits w =
     (let bits_in_next_word = int (bitindex w + numbits) - 32
      in if bits_in_next_word < 0
         then w\<lparr>lcode := push_bit numbits (lcode w) OR data, bitindex := bitindex w + numbits\<rparr>
         else
           let l = push_bit (32 - bitindex w) (lcode w) OR drop_bit (nat bits_in_next_word) data
           in w\<lparr>bout := put_byte (byte_at 0 l) (put_byte (byte_at 8 l) (put_byte (byte_at 16 l) (put_byte (byte_at 24 l) (bout w)))),
                lcode := data, bitindex := nat bits_in_next_word\<rparr>)"

text \<open>The bytes of \<^verbatim>\<open>lcode\<close> are read from memory downwards from the fourth, on a little-endian machine.\<close>

definition close_bitstream :: "bit_writer \<Rightarrow> byte list" where
  "close_bitstream w =
     (if bitindex w > 0 then
        let l = push_bit (32 - bitindex w) (lcode w);
            count = (bitindex w + 7) div 8
        in fold (\<lambda>i. put_byte (byte_at (24 - 8 * i) l)) [0..<count] (bout w)
      else bout w) @ [0xff, 0xd9]"

subsection \<open>Bits of words\<close>

definition to_bits :: "nat \<Rightarrow> 'a::len word \<Rightarrow> bool list" where
  "to_bits n w = map (\<lambda>i. bit w (n - 1 - i)) [0..<n]"

definition bytes_bits :: "byte list \<Rightarrow> bool list" where
  "bytes_bits bs = concat (map (to_bits 8) bs)"

lemma length_to_bits [simp]: "length (to_bits n w) = n"
  by (simp add: to_bits_def)

lemma nth_to_bits: "i < n \<Longrightarrow> to_bits n w ! i = bit w (n - 1 - i)"
  by (simp add: to_bits_def)

lemma to_bits_0 [simp]: "to_bits 0 w = []"
  by (simp add: to_bits_def)

lemma to_bits_split: "to_bits (m + n) w = to_bits m (drop_bit n w) @ to_bits n w"
proof (rule nth_equalityI)
  fix i assume "i < length (to_bits (m + n) w)"
  then have i: "i < m + n" by simp
  show "to_bits (m + n) w ! i = (to_bits m (drop_bit n w) @ to_bits n w) ! i"
  proof (cases "i < m")
    case True
    then have "n + (m - 1 - i) = m + n - 1 - i" by simp
    with True i show ?thesis by (simp add: nth_append nth_to_bits bit_drop_bit_eq)
  next
    case False
    then have "n - 1 - (i - m) = m + n - 1 - i" by simp
    with False i show ?thesis by (simp add: nth_append nth_to_bits)
  qed
qed simp

text \<open>A value of at most \<open>n\<close> bits.\<close>

definition fits :: "nat \<Rightarrow> 'a::len word \<Rightarrow> bool" where
  "fits n w \<longleftrightarrow> (\<forall>k. bit w k \<longrightarrow> k < n)"

lemma fits_drop: "fits (m + n) w \<Longrightarrow> fits m (drop_bit n w)"
  by (auto simp: fits_def bit_drop_bit_eq)

lemma fits_of_nat:
  assumes "c < 2 ^ n"
  shows "fits n (of_nat c :: cint)"
proof -
  have "int c < 2 ^ n" using assms by (metis of_nat_less_iff of_nat_numeral of_nat_power)
  then have "take_bit n (int c) = int c" by (simp add: take_bit_int_eq_self)
  then have "bit (int c) k \<Longrightarrow> k < n" for k by (metis bit_take_bit_iff)
  moreover have "(of_nat c :: cint) = word_of_int (int c)" by simp
  ultimately show ?thesis by (simp only: fits_def bit_word_of_int_iff) blast
qed

lemma to_bits_push:
  fixes w d :: "'a::len word"
  assumes "fits n d" "m + n \<le> LENGTH('a)"
  shows "to_bits (m + n) (push_bit n w OR d) = to_bits m w @ to_bits n d"
proof (rule nth_equalityI)
  fix i assume "i < length (to_bits (m + n) (push_bit n w OR d))"
  then have i: "i < m + n" by simp
  show "to_bits (m + n) (push_bit n w OR d) ! i = (to_bits m w @ to_bits n d) ! i"
  proof (cases "i < m")
    case True
    then have k: "m + n - 1 - i = n + (m - 1 - i)" "n + (m - 1 - i) < LENGTH('a)" using assms(2) by simp_all
    then have "\<not> bit d (n + (m - 1 - i))" using assms(1) by (auto simp: fits_def)
    then have "bit (push_bit n w OR d) (m + n - 1 - i) = bit w (m - 1 - i)"
      unfolding k(1) using k(2) by (simp add: bit_or_iff bit_push_bit_iff)
    with True i show ?thesis by (simp add: nth_append nth_to_bits)
  next
    case False
    then have k: "n - 1 - (i - m) = m + n - 1 - i" "m + n - 1 - i < n" using i by simp_all
    then have "bit (push_bit n w OR d) (m + n - 1 - i) = bit d (m + n - 1 - i)"
      by (simp add: bit_or_iff bit_push_bit_iff)
    with False i k(1) show ?thesis by (simp add: nth_append nth_to_bits)
  qed
qed simp

lemma bit_byte_at: "k \<le> 24 \<Longrightarrow> bit (byte_at k l) j \<longleftrightarrow> j < 8 \<and> bit l (k + j)"
  by (auto simp: byte_at_def bit_simps min_def)

lemma to_bits_byte_at: "k \<le> 24 \<Longrightarrow> to_bits 8 (byte_at k l) = to_bits 8 (drop_bit k l)"
  by (auto simp: to_bits_def bit_byte_at bit_drop_bit_eq)

lemma to_bits_32: "to_bits 32 l = bytes_bits [byte_at 24 l, byte_at 16 l, byte_at 8 l, byte_at 0 l]"
proof -
  have "to_bits 32 l = to_bits 8 (drop_bit 24 l) @ to_bits 8 (drop_bit 16 l) @ to_bits 8 (drop_bit 8 l) @ to_bits 8 l"
    using to_bits_split [of 8 24 l] to_bits_split [of 8 16 l] to_bits_split [of 8 8 l] by simp
  then show ?thesis by (simp add: bytes_bits_def to_bits_byte_at)
qed

lemma bytes_bits_append [simp]: "bytes_bits (xs @ ys) = bytes_bits xs @ bytes_bits ys"
  by (simp add: bytes_bits_def)

lemma bytes_bits_Nil [simp]: "bytes_bits [] = []"
  by (simp add: bytes_bits_def)

lemma length_bytes_bits [simp]: "length (bytes_bits bs) = 8 * length bs"
  by (induction bs) (simp_all add: bytes_bits_def)

subsection \<open>Byte stuffing\<close>

definition stuff :: "byte list \<Rightarrow> byte list" where
  "stuff bs = concat (map (\<lambda>b. if b = 0xff then [b, 0] else [b]) bs)"

lemma stuff_simps [simp]: "stuff [] = []" "stuff (xs @ ys) = stuff xs @ stuff ys"
  by (simp_all add: stuff_def)

lemma put_byte_stuff: "put_byte b (base @ stuff bs) = base @ stuff (bs @ [b])"
  by (simp add: put_byte_def stuff_def)

text \<open>Taking the zeros out again, up to a marker.\<close>

fun unstuff :: "byte list \<Rightarrow> byte list" where
  "unstuff [] = []"
| "unstuff [b] = (if b = 0xff then [] else [b])"
| "unstuff (b # c # bs) = (if b = 0xff then if c = 0 then b # unstuff bs else [] else b # unstuff (c # bs))"

lemma unstuff_stuff: "m \<noteq> 0 \<Longrightarrow> unstuff (stuff bs @ [0xff, m]) = bs"
proof (induction bs)
  case (Cons b bs)
  obtain c cs where "stuff bs @ [0xff, m] = c # cs" by (cases "stuff bs") auto
  with Cons show ?case by (simp add: stuff_def)
qed (simp add: stuff_def)

subsection \<open>The writer appends bits\<close>

definition writes_bits :: "byte list \<Rightarrow> bool list \<Rightarrow> bit_writer \<Rightarrow> bool" where
  "writes_bits base bits w \<longleftrightarrow>
     bitindex w < 32 \<and> (\<exists>bs. bout w = base @ stuff bs \<and> bits = bytes_bits bs @ to_bits (bitindex w) (lcode w))"

lemma PUTBITS_appends:
  assumes "writes_bits base bits w" "fits numbits data" "numbits < 32"
  shows "writes_bits base (bits @ to_bits numbits data) (PUTBITS data numbits w)"
proof -
  obtain bs where w: "bitindex w < 32" "bout w = base @ stuff bs" "bits = bytes_bits bs @ to_bits (bitindex w) (lcode w)"
    using assms(1) by (auto simp: writes_bits_def)
  show ?thesis
  proof (cases "bitindex w + numbits < 32")
    case True
    with w to_bits_push [OF assms(2), of "bitindex w" "lcode w"] show ?thesis
      by (auto simp: writes_bits_def PUTBITS_def)
  next
    case False
    define n where "n = bitindex w + numbits - 32"
    define k where "k = 32 - bitindex w"
    have n: "nat (int (bitindex w + numbits) - 32) = n" "\<not> int (bitindex w + numbits) - 32 < 0" "n < 32"
      using False w(1) assms(3) by (simp_all add: n_def)
    have k: "numbits = k + n" "bitindex w + k = 32" using False w(1) assms(3) by (simp_all add: n_def k_def)
    define l where "l = push_bit k (lcode w) OR drop_bit n data"
    have "fits k (drop_bit n data)" using fits_drop assms(2) k(1) by blast
    then have "to_bits 32 l = to_bits (bitindex w) (lcode w) @ to_bits k (drop_bit n data)"
      using to_bits_push [of k "drop_bit n data" "bitindex w" "lcode w"] k(2) by (simp add: l_def)
    moreover have "to_bits numbits data = to_bits k (drop_bit n data) @ to_bits n data"
      unfolding k(1) by (rule to_bits_split)
    ultimately have "bits @ to_bits numbits data =
        bytes_bits (bs @ [byte_at 24 l, byte_at 16 l, byte_at 8 l, byte_at 0 l]) @ to_bits n data"
      using w(3) by (simp add: to_bits_32)
    moreover have "PUTBITS data numbits w =
        w\<lparr>bout := base @ stuff (bs @ [byte_at 24 l, byte_at 16 l, byte_at 8 l, byte_at 0 l]), lcode := data, bitindex := n\<rparr>"
      using n w(2) put_byte_stuff by (simp add: PUTBITS_def Let_def k_def [symmetric] l_def [symmetric] del: stuff_simps)
    ultimately show ?thesis using n(3) unfolding writes_bits_def
      by (intro conjI exI [of _ "bs @ [byte_at 24 l, byte_at 16 l, byte_at 8 l, byte_at 0 l]"]) simp_all
  qed
qed

subsection \<open>Closing the stream\<close>

definition four_bytes :: "cint \<Rightarrow> byte list" where
  "four_bytes l = [byte_at 24 l, byte_at 16 l, byte_at 8 l, byte_at 0 l]"

lemma fold_put_bytes:
  "count \<le> 4 \<Longrightarrow> fold (\<lambda>i. put_byte (byte_at (24 - 8 * i) l)) [0..<count] (base @ stuff bs) = base @ stuff (bs @ take count (four_bytes l))"
proof (induction count)
  case (Suc count)
  have "four_bytes l ! count = byte_at (24 - 8 * count) l"
    using Suc.prems by (auto simp: four_bytes_def less_Suc_eq numeral_eq_Suc le_Suc_eq)
  moreover have "count < length (four_bytes l)" using Suc.prems by (simp add: four_bytes_def)
  ultimately have "take (Suc count) (four_bytes l) = take count (four_bytes l) @ [byte_at (24 - 8 * count) l]"
    by (simp add: take_Suc_conv_app_nth)
  with Suc show ?case using put_byte_stuff [of _ base "bs @ take count (four_bytes l)"] by simp
qed simp

lemma bytes_bits_take: "bytes_bits (take n bs) = take (8 * n) (bytes_bits bs)"
proof (induction bs arbitrary: n)
  case (Cons b bs)
  then show ?case by (cases n) (simp_all add: bytes_bits_def)
qed simp

lemma to_bits_push_zeros:
  fixes w :: "'a::len word"
  assumes "m + n \<le> LENGTH('a)"
  shows "to_bits (m + n) (push_bit n w) = to_bits m w @ replicate n False"
proof -
  have "to_bits n (0 :: 'a word) = replicate n False" by (rule nth_equalityI) (simp_all add: nth_to_bits)
  then show ?thesis using to_bits_push [of n 0 m w] assms by (simp add: fits_def)
qed

text \<open>The bits are all in the file, padded to a byte, and the end marker follows.\<close>

lemma close_bitstream_bits:
  assumes "writes_bits base bits w"
  shows "\<exists>bs p. close_bitstream w = base @ stuff bs @ [0xff, 0xd9] \<and> p < 8 \<and> bytes_bits bs = bits @ replicate p False"
proof -
  obtain bs where w: "bitindex w < 32" "bout w = base @ stuff bs" "bits = bytes_bits bs @ to_bits (bitindex w) (lcode w)"
    using assms by (auto simp: writes_bits_def)
  show ?thesis
  proof (cases "bitindex w = 0")
    case True
    with w show ?thesis by (intro exI [of _ bs] exI [of _ 0]) (simp add: close_bitstream_def)
  next
    case False
    define l where "l = push_bit (32 - bitindex w) (lcode w)"
    define count where "count = (bitindex w + 7) div 8"
    have count: "count \<le> 4" "bitindex w \<le> 8 * count" "8 * count - bitindex w < 8" using w(1) by (auto simp: count_def)
    have "bytes_bits (take count (four_bytes l)) = take (8 * count) (to_bits (bitindex w) (lcode w) @ replicate (32 - bitindex w) False)"
      using to_bits_push_zeros [of "bitindex w" "32 - bitindex w" "lcode w"] w(1)
      by (simp add: bytes_bits_take l_def four_bytes_def flip: to_bits_32)
    also have "\<dots> = to_bits (bitindex w) (lcode w) @ replicate (8 * count - bitindex w) False"
      using count by (simp add: min_def)
    finally have "bytes_bits (bs @ take count (four_bytes l)) = bits @ replicate (8 * count - bitindex w) False"
      using w(3) by simp
    moreover have "close_bitstream w = base @ stuff (bs @ take count (four_bytes l)) @ [0xff, 0xd9]"
      using False fold_put_bytes [OF count(1), of l base bs] w(2)
      by (simp add: close_bitstream_def Let_def l_def [symmetric] count_def [symmetric])
    ultimately show ?thesis using count(3) by blast
  qed
qed

end
