(* ===== verification/Gspca_Decoder.thy ===== *)
theory Gspca_Decoder
  imports Gspca_Bits "HOL-Library.More_List"
begin

text \<open>
  The Huffman decoder of \<^verbatim>\<open>src/mjpg-streamer/plugins/input_gspcav1/utils.c\<close>: the bit reader with its 32-bit
  window, the tables that \<^verbatim>\<open>dec_makehuff\<close> builds and the decoding of the blocks of an MCU.  The local copies
  \<^verbatim>\<open>le\<close> and \<^verbatim>\<open>bi\<close> of the window are the fields \<open>left\<close> and \<open>bits\<close>.
\<close>

definition DECBITS :: nat where "DECBITS = 10"
definition M_BADHUFF :: int where "M_BADHUFF = - 1"

subsection \<open>The bit reader\<close>

text \<open>\<^verbatim>\<open>in.func\<close> is never set and stays null.  The bytes behind \<^verbatim>\<open>p\<close> are a list; reading past it is an error.\<close>

record jpeg_in =
  jp :: "byte list"
  bits :: cint
  left :: nat
  marker :: int

definition setinput :: "byte list \<Rightarrow> jpeg_in" where
  "setinput p = \<lparr>jp = p, bits = 0, left = 0, marker = 0\<rparr>"

fun fill_loop :: "nat \<Rightarrow> cint \<Rightarrow> byte list \<Rightarrow> crash + (nat \<times> cint \<times> int \<times> byte list)" where
  "fill_loop le bi p =
     (if le \<le> 24 then
        case p of
          [] \<Rightarrow> Inl OutOfBounds
        | b # p \<Rightarrow>
            if b = 0xff then
              case p of
                [] \<Rightarrow> Inl OutOfBounds
              | m # p \<Rightarrow>
                  if m \<noteq> 0 then
                    if le \<le> 16 then Inr (le + 16, push_bit 16 bi, uint m, p) else Inr (le, bi, uint m, p)
                  else fill_loop (le + 8) (push_bit 8 bi OR ucast b) p
            else fill_loop (le + 8) (push_bit 8 bi OR ucast b) p
      else Inr (le, bi, 0, p))"

declare fill_loop.simps [simp del]

definition fillbits :: "jpeg_in \<Rightarrow> crash + jpeg_in" where
  "fillbits i =
     (if marker i \<noteq> 0 then
        Inr (if left i \<le> 16 then i\<lparr>bits := push_bit 16 (bits i), left := left i + 16\<rparr> else i)
      else sbind (fill_loop (left i) (bits i) (jp i)) (\<lambda>(le, bi, m, p). Inr (i\<lparr>left := le, bits := bi, marker := m, jp := p\<rparr>)))"

definition GETBITS :: "nat \<Rightarrow> jpeg_in \<Rightarrow> crash + (cint \<times> jpeg_in)" where
  "GETBITS n i =
     sbind (if left i < n then fillbits i else Inr i) (\<lambda>i.
       let i = i\<lparr>left := left i - n\<rparr> in Inr (take_bit n (signed_drop_bit (left i) (bits i)), i))"

definition UNGETBITS :: "nat \<Rightarrow> jpeg_in \<Rightarrow> jpeg_in" where
  "UNGETBITS n i = i\<lparr>left := left i + n\<rparr>"

definition dec_readmarker :: "jpeg_in \<Rightarrow> crash + (int \<times> jpeg_in)" where
  "dec_readmarker i =
     sbind (fillbits i) (\<lambda>i. Inr (if marker i = 0 then (0, i) else (marker i, i\<lparr>left := 0, marker := 0\<rparr>)))"

subsection \<open>Tables\<close>

record dec_hufftbl =
  maxcode :: "nat list"
  valptr :: "nat list"
  vals :: "byte list"
  llvals :: "cint list"

text \<open>The value that \<^verbatim>\<open>n\<close> bits stand for: small ones are negative.\<close>

definition sign_extend :: "nat \<Rightarrow> int \<Rightarrow> int" where
  "sign_extend n x = (if n \<noteq> 0 \<and> x < 2 ^ (n - 1) then x - 2 ^ n + 1 else x)"

text \<open>An entry of \<^verbatim>\<open>llvals\<close> for symbol \<open>b\<close> with a code of \<open>i + 1\<close> bits, when \<open>d\<close> are the bits behind the code.\<close>

definition ll_entry :: "nat \<Rightarrow> byte \<Rightarrow> nat \<Rightarrow> cint" where
  "ll_entry i b d =
     (let v = unat (b AND 0x0f); run = push_bit 4 (ucast (b AND 0xf0))
      in if v + i < DECBITS
         then push_bit 16 (word_of_int (sign_extend v (int (d div 2 ^ (DECBITS - 1 - v - i))))) OR run OR of_nat (DECBITS - (i + 1 + v)) OR 128
         else push_bit 16 (of_nat v) OR run OR of_nat (DECBITS - (i + 1)))"

text \<open>Storing at an index outside of the array is an error.\<close>

definition store :: "'a list \<Rightarrow> nat \<Rightarrow> 'a \<Rightarrow> crash + 'a list" where
  "store xs i x = (if i < length xs then Inr (xs[i := x]) else Inl OutOfBounds)"

fun ll_fill :: "nat \<Rightarrow> byte \<Rightarrow> nat \<Rightarrow> nat \<Rightarrow> cint list \<Rightarrow> crash + cint list" where
  "ll_fill i b c 0 ll = Inr ll"
| "ll_fill i b c (Suc d) ll = sbind (store ll (c OR d) (ll_entry i b d)) (ll_fill i b c d)"

text \<open>The codes of one length, \<open>j\<close> of them left; \<open>(code, k)\<close> are the variables of those names.\<close>

fun make_codes ::
  "nat \<Rightarrow> nat \<Rightarrow> byte list \<Rightarrow> nat \<times> nat \<times> dec_hufftbl \<Rightarrow> crash + (byte list \<times> nat \<times> nat \<times> dec_hufftbl)"
where
  "make_codes i 0 huffvals s = Inr (huffvals, s)"
| "make_codes i (Suc j) [] s = Inl OutOfBounds"
| "make_codes i (Suc j) (b # huffvals) (code, k, hu) =
     sbind (store (vals hu) k b) (\<lambda>vs.
     sbind (if i < DECBITS
            then ll_fill i b (push_bit (DECBITS - 1 - i) code) (2 ^ (DECBITS - 1 - i)) (llvals hu)
            else Inr (llvals hu)) (\<lambda>ll.
       make_codes i j huffvals (code + 1, k + 1, hu\<lparr>vals := vs, llvals := ll\<rparr>)))"

fun make_sizes :: "nat \<Rightarrow> nat list \<Rightarrow> byte list \<Rightarrow> nat \<times> nat \<times> dec_hufftbl \<Rightarrow> crash + dec_hufftbl" where
  "make_sizes i [] huffvals (code, k, hu) = Inr hu"
| "make_sizes i (len # hufflen) huffvals (code, k, hu) =
     sbind (make_codes i len huffvals (code, k, hu\<lparr>valptr := (valptr hu)[i := k]\<rparr>)) (\<lambda>(huffvals, code, k, hu).
       make_sizes (i + 1) hufflen huffvals (push_bit 1 code, k, hu\<lparr>maxcode := (maxcode hu)[i := code]\<rparr>))"

definition dec_makehuff :: "nat list \<Rightarrow> byte list \<Rightarrow> dec_hufftbl \<Rightarrow> crash + dec_hufftbl" where
  "dec_makehuff hufflen huffvals hu =
     sbind (make_sizes 0 hufflen huffvals (0, 0, hu\<lparr>llvals := replicate (2 ^ DECBITS) 0\<rparr>)) (\<lambda>hu.
       Inr (hu\<lparr>maxcode := (maxcode hu)[16 := 0x20000]\<rparr>))"

subsection \<open>Decoding\<close>

text \<open>The loop over the codes that are longer than the table; what it returns is the length less one and the code.\<close>

partial_function (option) long_code :: "dec_hufftbl \<Rightarrow> nat \<Rightarrow> nat \<Rightarrow> jpeg_in \<Rightarrow> (crash + (nat \<times> nat \<times> jpeg_in)) option" where
  "long_code hu i c inp =
     (case GETBITS 1 inp of
        Inl e \<Rightarrow> Some (Inl e)
      | Inr (b, inp) \<Rightarrow>
          if \<not> i < length (maxcode hu) then Some (Inl OutOfBounds)
          else if 2 * c + unat b \<ge> maxcode hu ! i then long_code hu (Suc i) (2 * c + unat b) inp
          else Some (Inr (i, 2 * c + unat b, inp)))"

text \<open>The bits of a value.\<close>

definition receive :: "nat \<Rightarrow> jpeg_in \<Rightarrow> crash + (int \<times> jpeg_in)" where
  "receive n inp = sbind (GETBITS n inp) (\<lambda>(c, inp). Inr (sign_extend n (uint c), inp))"

text \<open>
  \<^verbatim>\<open>dec_rec2\<close> returns the run and the value.  With a bad code the window is not stored back: the caller
  continues with the number of bits it had.
\<close>

definition dec_rec2 :: "dec_hufftbl \<Rightarrow> nat \<Rightarrow> nat \<Rightarrow> cint \<Rightarrow> jpeg_in \<Rightarrow> (crash + (nat \<times> int \<times> jpeg_in)) option" where
  "dec_rec2 hu run c i inp =
     (if i \<noteq> 0 then
        let n = unat (signed_drop_bit 16 i); r = unat (signed_drop_bit 8 i AND 15);
            inp = UNGETBITS (unat (i AND 127)) inp
        in Some (if n = 0 then Inr (r, 0, inp) else sbind (receive n inp) (\<lambda>(v, inp). Inr (r, v, inp)))
      else
        (case long_code hu DECBITS c inp of
           None \<Rightarrow> None
         | Some (Inl e) \<Rightarrow> Some (Inl e)
         | Some (Inr (i, c, inp')) \<Rightarrow>
             if i \<ge> 16 then Some (Inr (run, 0, inp'\<lparr>left := left inp, marker := M_BADHUFF\<rparr>))
             else Some (
               sbind (at (valptr hu) (int i)) (\<lambda>p.
               sbind (at (vals hu) (int p + int c - int (maxcode hu ! (i - 1)) * 2)) (\<lambda>b.
                 let r = unat (drop_bit 4 b); n = unat (b AND 15)
                 in if n = 0 then Inr (r, 0, inp') else sbind (receive n inp') (\<lambda>(v, inp). Inr (r, v, inp)))))))"

text \<open>\<^verbatim>\<open>DEC_REC\<close>: the run and the value of the next symbol.\<close>

definition DEC_REC :: "dec_hufftbl \<Rightarrow> jpeg_in \<Rightarrow> (crash + (nat \<times> int \<times> jpeg_in)) option" where
  "DEC_REC hu inp =
     (case GETBITS DECBITS inp of
        Inl e \<Rightarrow> Some (Inl e)
      | Inr (r, inp) \<Rightarrow>
          case at (llvals hu) (uint r) of
            Inl e \<Rightarrow> Some (Inl e)
          | Inr i \<Rightarrow>
              if i AND 128 \<noteq> 0
              then Some (Inr (unat (signed_drop_bit 8 i AND 15), sint (signed_drop_bit 16 i), UNGETBITS (unat (i AND 127)) inp))
              else dec_rec2 hu (unat r) (unat r) i inp)"

text \<open>The AC coefficients of a block: \<open>i\<close> are left, and the next one goes to \<open>pos\<close>.\<close>

partial_function (option) ac_coeffs ::
  "dec_hufftbl \<Rightarrow> int \<Rightarrow> nat \<Rightarrow> int list \<Rightarrow> jpeg_in \<Rightarrow> (crash + (int \<times> nat \<times> int list \<times> jpeg_in)) option"
where
  "ac_coeffs hu i pos dct inp =
     (if i > 0 then
        case DEC_REC hu inp of
          None \<Rightarrow> None
        | Some (Inl e) \<Rightarrow> Some (Inl e)
        | Some (Inr (r, t, inp)) \<Rightarrow>
            if t = 0 \<and> r = 0 then Some (Inr (i, pos + nat i, dct, inp))
            else
              case store dct (pos + r) t of
                Inl e \<Rightarrow> Some (Inl e)
              | Inr dct \<Rightarrow> ac_coeffs hu (i - int r - 1) (pos + r + 1) dct inp
      else Some (Inr (i, pos, dct, inp)))"

record scan =
  dc :: int
  hudc :: dec_hufftbl
  huac :: dec_hufftbl
  snext :: int

text \<open>One block: the last DC value is updated, and the number of coefficients in use is the second result.\<close>

definition decode_block ::
  "scan \<Rightarrow> nat \<Rightarrow> int list \<Rightarrow> jpeg_in \<Rightarrow> (crash + (scan \<times> int \<times> nat \<times> int list \<times> jpeg_in)) option"
where
  "decode_block sc pos dct inp =
     (case DEC_REC (hudc sc) inp of
        None \<Rightarrow> None
      | Some (Inl e) \<Rightarrow> Some (Inl e)
      | Some (Inr (r, t, inp)) \<Rightarrow>
          let sc = sc\<lparr>dc := dc sc + t\<rparr>
          in case store dct pos (dc sc) of
               Inl e \<Rightarrow> Some (Inl e)
             | Inr dct \<Rightarrow>
                 (case ac_coeffs (huac sc) 63 (pos + 1) dct inp of
                    None \<Rightarrow> None
                  | Some (Inl e) \<Rightarrow> Some (Inl e)
                  | Some (Inr (i, pos, dct, inp)) \<Rightarrow> Some (Inr (sc, 64 - i, pos, dct, inp))))"

text \<open>
  The blocks of an MCU: \<open>n\<close> are left, \<open>k\<close> is the index of the scan in use, and the numbers of used coefficients are collected
  in \<open>maxs\<close>.
\<close>

fun decode_blocks ::
  "nat \<Rightarrow> nat \<Rightarrow> scan list \<Rightarrow> nat \<Rightarrow> int list \<Rightarrow> jpeg_in \<Rightarrow> int list \<Rightarrow> (crash + (scan list \<times> int list \<times> jpeg_in \<times> int list)) option"
where
  "decode_blocks 0 k scs pos dct inp maxs = Some (Inr (scs, dct, inp, maxs))"
| "decode_blocks (Suc n) k scs pos dct inp maxs =
     (if \<not> k < length scs then Some (Inl OutOfBounds)
      else
        case decode_block (scs ! k) pos dct inp of
          None \<Rightarrow> None
        | Some (Inl e) \<Rightarrow> Some (Inl e)
        | Some (Inr (sc, m, pos, dct, inp)) \<Rightarrow>
            decode_blocks n (if int n = snext sc then k + 1 else k) (scs[k := sc]) pos dct inp (maxs @ [m]))"

definition decode_mcus :: "nat \<Rightarrow> scan list \<Rightarrow> int list \<Rightarrow> jpeg_in \<Rightarrow> (crash + (scan list \<times> int list \<times> jpeg_in \<times> int list)) option" where
  "decode_mcus n scs dct inp = decode_blocks n 0 scs 0 (replicate (n * 64) 0 @ drop (n * 64) dct) inp []"

subsection \<open>The reader as a stream of bits\<close>

text \<open>What is still to be read: the window, the bytes up to a marker, and zeros without end.\<close>

definition rest_bits :: "jpeg_in \<Rightarrow> bool list" where
  "rest_bits i = (if marker i \<noteq> 0 then [] else bytes_bits (unstuff (jp i)))"

definition stream :: "jpeg_in \<Rightarrow> nat \<Rightarrow> bool" where
  "stream i = nth_default False (to_bits (left i) (bits i) @ rest_bits i)"

definition terminated :: "byte list \<Rightarrow> bool" where
  "terminated p \<longleftrightarrow> (\<exists>bs m behind. p = stuff bs @ 0xff # m # behind \<and> m \<noteq> 0)"

definition in_ok :: "jpeg_in \<Rightarrow> bool" where
  "in_ok i \<longleftrightarrow> left i \<le> 32 \<and> (marker i \<noteq> 0 \<or> terminated (jp i))"

lemma unstuff_terminated: "m \<noteq> 0 \<Longrightarrow> unstuff (stuff bs @ 0xff # m # behind) = bs"
proof (induction bs)
  case (Cons b bs)
  obtain c cs where "stuff bs @ 0xff # m # behind = c # cs" by (cases "stuff bs") auto
  with Cons show ?case by (simp add: stuff_def)
qed (simp add: stuff_def)

lemma nth_default_pad: "nth_default False (xs @ replicate n False) = nth_default False xs"
  by (rule ext) (simp add: nth_default_def nth_append)

lemma to_bits_ucast: "to_bits 8 (ucast (b :: byte) :: cint) = to_bits 8 b"
  by (rule nth_equalityI) (auto simp: nth_to_bits bit_simps)

lemma fits_ucast: "fits 8 (ucast (b :: byte) :: cint)"
  by (auto simp: fits_def bit_simps dest: bit_imp_le_length)

lemma push_byte_bits: "le \<le> 24 \<Longrightarrow> to_bits (le + 8) (push_bit 8 bi OR ucast (b :: byte) :: cint) = to_bits le bi @ to_bits 8 b"
  using to_bits_push [OF fits_ucast [of b], of le bi] by (simp add: to_bits_ucast)

lemma stuff_Cons: "stuff (b # bs) = (if b = 0xff then [b, 0] else [b]) @ stuff bs"
  by (simp add: stuff_def)

lemma fill_loop_stream:
  assumes "le \<le> 32" "m \<noteq> 0"
  shows "\<exists>le' bi' mk p'. fill_loop le bi (stuff bs @ 0xff # m # behind) = Inr (le', bi', mk, p') \<and>
    16 \<le> le' \<and> le' \<le> 32 \<and> (mk \<noteq> 0 \<or> terminated p') \<and>
    nth_default False (to_bits le' bi' @ (if mk \<noteq> 0 then [] else bytes_bits (unstuff p'))) = nth_default False (to_bits le bi @ bytes_bits bs)"
  using assms(1)
proof (induction bs arbitrary: le bi)
  case Nil
  show ?case
  proof (cases "le \<le> 24")
    case True
    have "uint m \<noteq> 0" using assms(2) by (simp add: uint_0_iff)
    moreover have "le \<le> 16 \<Longrightarrow> to_bits (le + 16) (push_bit 16 bi) = to_bits le bi @ replicate 16 False"
      using to_bits_push_zeros [of le 16 bi] by simp
    ultimately show ?thesis
      using True assms(2) by (subst fill_loop.simps) (auto simp: nth_default_pad simp del: replicate_Suc)
  next
    case False
    then show ?thesis using Nil assms(2)
      by (subst fill_loop.simps) (auto simp: terminated_def unstuff_terminated [of m "[]" behind, simplified] intro!: exI [of _ "[]"])
  qed
next
  case (Cons b bs)
  show ?case
  proof (cases "le \<le> 24")
    case True
    have "fill_loop le bi (stuff (b # bs) @ 0xff # m # behind) = fill_loop (le + 8) (push_bit 8 bi OR ucast b) (stuff bs @ 0xff # m # behind)"
      using True by (subst fill_loop.simps) (simp add: stuff_Cons)
    moreover note Cons.IH [of "le + 8" "push_bit 8 bi OR ucast b"]
    moreover have "to_bits (le + 8) (push_bit 8 bi OR ucast b) @ bytes_bits bs = to_bits le bi @ bytes_bits (b # bs)"
      using push_byte_bits [OF True] by (simp add: bytes_bits_def)
    ultimately show ?thesis using True by auto
  next
    case False
    then show ?thesis using Cons.prems assms(2) unstuff_terminated [OF assms(2), of "b # bs" behind]
      by (subst fill_loop.simps) (auto simp: terminated_def)
  qed
qed

lemma nth_default_append_shift: "nth_default x (xs @ ys) (k + length xs) = nth_default x ys k"
  by (simp add: nth_default_def nth_append)

lemma fillbits_stream:
  assumes "in_ok i"
  shows "\<exists>i1. fillbits i = Inr i1 \<and> in_ok i1 \<and> 16 \<le> left i1 \<and> stream i1 = stream i"
proof (cases "marker i = 0")
  case True
  obtain bs m behind where p: "jp i = stuff bs @ 0xff # m # behind" "m \<noteq> 0"
    using assms True by (auto simp: in_ok_def terminated_def)
  have "left i \<le> 32" using assms by (simp add: in_ok_def)
  from fill_loop_stream [OF this p(2), of "bits i" bs behind] obtain le' bi' mk p' where
    "fill_loop (left i) (bits i) (jp i) = Inr (le', bi', mk, p')" "16 \<le> le'" "le' \<le> 32" "mk \<noteq> 0 \<or> terminated p'"
    and stream: "nth_default False (to_bits le' bi' @ (if mk \<noteq> 0 then [] else bytes_bits (unstuff p'))) =
      nth_default False (to_bits (left i) (bits i) @ bytes_bits bs)"
    unfolding p(1) by blast
  moreover from stream have "stream (i\<lparr>left := le', bits := bi', marker := mk, jp := p'\<rparr>) = stream i"
    using True p by (simp add: stream_def rest_bits_def unstuff_terminated split: if_splits)
  ultimately show ?thesis using True
    by (intro exI [of _ "i\<lparr>left := le', bits := bi', marker := mk, jp := p'\<rparr>"]) (simp add: fillbits_def in_ok_def)
next
  case False
  have "left i \<le> 16 \<Longrightarrow> to_bits (left i + 16) (push_bit 16 (bits i)) = to_bits (left i) (bits i) @ replicate 16 False"
    using to_bits_push_zeros [of "left i" 16 "bits i"] by simp
  with False assms show ?thesis
    by (auto simp: fillbits_def in_ok_def stream_def rest_bits_def nth_default_pad simp del: replicate_Suc)
qed

lemma stream_left:
  assumes "m \<le> left i"
  shows "stream (i\<lparr>left := left i - m\<rparr>) = (\<lambda>k. stream i (k + m))"
proof
  fix k
  have "to_bits (left i) (bits i) = to_bits m (drop_bit (left i - m) (bits i)) @ to_bits (left i - m) (bits i)"
    using to_bits_split [of m "left i - m" "bits i"] assms by simp
  then show "stream (i\<lparr>left := left i - m\<rparr>) k = stream i (k + m)"
    using nth_default_append_shift [of False "to_bits m (drop_bit (left i - m) (bits i))" "to_bits (left i - m) (bits i) @ rest_bits i" k]
    by (simp add: stream_def rest_bits_def)
qed

text \<open>The first bits of a stream.\<close>

definition starts :: "(nat \<Rightarrow> bool) \<Rightarrow> bool list \<Rightarrow> bool" where
  "starts s bs \<longleftrightarrow> (\<forall>k < length bs. s k = bs ! k)"

lemma starts_Nil [simp]: "starts s []"
  by (simp add: starts_def)

lemma starts_append: "starts s (xs @ ys) \<longleftrightarrow> starts s xs \<and> starts (\<lambda>k. s (k + length xs)) ys"
proof
  assume s: "starts s (xs @ ys)"
  have "s k = xs ! k" if "k < length xs" for k using s that by (simp add: starts_def nth_append)
  moreover have "s (k + length xs) = ys ! k" if "k < length ys" for k
    using s [unfolded starts_def, rule_format, of "k + length xs"] that by (simp add: nth_append)
  ultimately show "starts s xs \<and> starts (\<lambda>k. s (k + length xs)) ys" by (simp add: starts_def)
next
  assume s: "starts s xs \<and> starts (\<lambda>k. s (k + length xs)) ys"
  show "starts s (xs @ ys)"
    unfolding starts_def
  proof (intro allI impI)
    fix k assume k: "k < length (xs @ ys)"
    show "s k = (xs @ ys) ! k"
    proof (cases "k < length xs")
      case False
      with k s [THEN conjunct2, unfolded starts_def, rule_format, of "k - length xs"] show ?thesis by (simp add: nth_append)
    qed (use s in \<open>simp add: starts_def nth_append\<close>)
  qed
qed

lemma to_bits_inj:
  assumes "to_bits n v = to_bits n w" "fits n v" "fits n w"
  shows "v = w"
proof (rule bit_word_eqI)
  fix k
  have "bit v k = bit w k" if "k < n"
    using arg_cong [OF assms(1), of "\<lambda>bs. bs ! (n - 1 - k)"] that by (simp add: nth_to_bits)
  then show "bit v k = bit w k" using assms(2,3) by (auto simp: fits_def)
qed

lemma fits_take_bit: "fits n (take_bit n w)"
  by (simp add: fits_def bit_take_bit_iff)

lemma to_bits_take_bit [simp]: "to_bits n (take_bit n w) = to_bits n w"
  by (rule nth_equalityI) (simp_all add: nth_to_bits bit_take_bit_iff)

subsection \<open>The end of the data\<close>

text \<open>The marker that ends the data, and the number of bits in front of it while it is not reached.\<close>

fun marker_of :: "byte list \<Rightarrow> int" where
  "marker_of [] = 0"
| "marker_of (b # p) = (if b = 0xff then (case p of [] \<Rightarrow> 0 | m # q \<Rightarrow> if m \<noteq> 0 then uint m else marker_of q) else marker_of p)"

definition ending :: "jpeg_in \<Rightarrow> int" where
  "ending i = (if marker i \<noteq> 0 then marker i else marker_of (jp i))"

definition room :: "jpeg_in \<Rightarrow> nat" where
  "room i = left i + 8 * length (unstuff (jp i))"

definition follows :: "nat \<Rightarrow> jpeg_in \<Rightarrow> jpeg_in \<Rightarrow> bool" where
  "follows n i i' \<longleftrightarrow> ending i' = ending i \<and> (marker i' = 0 \<longrightarrow> marker i = 0 \<and> room i = n + room i')"

lemma follows_refl [simp]: "follows 0 i i"
  by (simp add: follows_def)

lemma follows_trans: "follows m i i' \<Longrightarrow> follows n i' i'' \<Longrightarrow> follows (m + n) i i''"
  by (auto simp: follows_def)

lemma follows_left: "follows 0 i i' \<Longrightarrow> n \<le> left i' \<Longrightarrow> follows n i (i'\<lparr>left := left i' - n\<rparr>)"
  by (auto simp: follows_def ending_def room_def)

lemma marker_of_stuff: "m \<noteq> 0 \<Longrightarrow> marker_of (stuff bs @ 0xff # m # behind) = uint m"
  by (induction bs) (auto simp: stuff_Cons)

lemma fill_loop_follows:
  assumes "fill_loop le bi (stuff bs @ 0xff # m # behind) = Inr (le', bi', mk, p')" "m \<noteq> 0"
  shows "(if mk \<noteq> 0 then mk else marker_of p') = uint m \<and> (mk = 0 \<longrightarrow> le' + 8 * length (unstuff p') = le + 8 * length bs)"
  using assms(1)
proof (induction bs arbitrary: le bi)
  case Nil
  have "uint m \<noteq> 0" using assms(2) by (simp add: uint_0_iff)
  with Nil assms(2) show ?case
    by (subst (asm) fill_loop.simps) (auto simp: stuff_def unstuff_terminated [of m "[]" behind, simplified stuff_def] split: if_splits)
next
  case (Cons b bs)
  show ?case
  proof (cases "le \<le> 24")
    case True
    have "fill_loop le bi (stuff (b # bs) @ 0xff # m # behind) = fill_loop (le + 8) (push_bit 8 bi OR ucast b) (stuff bs @ 0xff # m # behind)"
      using True by (subst fill_loop.simps) (simp add: stuff_Cons)
    with Cons.IH [of "le + 8" "push_bit 8 bi OR ucast b"] Cons.prems show ?thesis by simp
  next
    case False
    then have "le' = le" "mk = 0" "p' = stuff (b # bs) @ 0xff # m # behind"
      using Cons.prems by (subst (asm) fill_loop.simps, simp)+
    then show ?thesis
      using marker_of_stuff [OF assms(2), of "b # bs" behind] unstuff_terminated [OF assms(2), of "b # bs" behind] by simp
  qed
qed

lemma fillbits_follows:
  assumes "fillbits i = Inr i1" "in_ok i"
  shows "follows 0 i i1"
proof (cases "marker i = 0")
  case True
  obtain bs m behind where p: "jp i = stuff bs @ 0xff # m # behind" "m \<noteq> 0"
    using assms(2) True by (auto simp: in_ok_def terminated_def)
  obtain le bi mk q where loop: "fill_loop (left i) (bits i) (jp i) = Inr (le, bi, mk, q)" "i1 = i\<lparr>left := le, bits := bi, marker := mk, jp := q\<rparr>"
    using assms(1) True by (auto simp: fillbits_def sbind_Inr)
  from fill_loop_follows [OF loop(1) [unfolded p(1)] p(2)] show ?thesis
    using True loop(2) marker_of_stuff [OF p(2), of bs behind] unstuff_terminated [OF p(2), of bs behind] p(1)
    by (simp add: follows_def ending_def room_def split: if_splits)
next
  case False
  with assms(1) show ?thesis by (auto simp: fillbits_def follows_def ending_def split: if_splits)
qed

text \<open>The marker is reached when too few bits for the window are in front of it.\<close>

lemma fill_loop_end:
  assumes "m \<noteq> 0"
  shows "le + 8 * length bs \<le> 24 \<Longrightarrow> \<exists>le' bi' p'. fill_loop le bi (stuff bs @ 0xff # m # behind) = Inr (le', bi', uint m, p')"
proof (induction bs arbitrary: le bi)
  case Nil
  with assms show ?case by (subst fill_loop.simps) (auto simp: stuff_def)
next
  case (Cons b bs)
  have "fill_loop le bi (stuff (b # bs) @ 0xff # m # behind) = fill_loop (le + 8) (push_bit 8 bi OR ucast b) (stuff bs @ 0xff # m # behind)"
    using Cons.prems by (subst fill_loop.simps) (simp add: stuff_Cons)
  with Cons.IH [of "le + 8" "push_bit 8 bi OR ucast b"] Cons.prems show ?case by simp
qed

lemma dec_readmarker_end:
  assumes "in_ok i" "marker i = 0 \<Longrightarrow> room i \<le> 24"
  shows "\<exists>i'. dec_readmarker i = Inr (ending i, i')"
proof (cases "marker i = 0")
  case True
  obtain bs m behind where p: "jp i = stuff bs @ 0xff # m # behind" "m \<noteq> 0"
    using assms(1) True by (auto simp: in_ok_def terminated_def)
  have len: "length (unstuff (jp i)) = length bs" unfolding p(1) unstuff_terminated [OF p(2)] ..
  then have "left i + 8 * length bs \<le> 24" using assms(2) [OF True] by (simp add: room_def)
  from fill_loop_end [OF p(2) this, of "bits i" behind] obtain le' bi' p' where
    "fill_loop (left i) (bits i) (jp i) = Inr (le', bi', uint m, p')" unfolding p(1) by blast
  moreover have "uint m \<noteq> 0" using p(2) by (simp add: uint_0_iff)
  ultimately show ?thesis
    using True marker_of_stuff [OF p(2), of bs behind] p(1) by (simp add: dec_readmarker_def fillbits_def ending_def)
next
  case False
  then show ?thesis by (simp add: dec_readmarker_def fillbits_def ending_def)
qed

subsection \<open>Reading bits\<close>

lemma GETBITS_stream:
  assumes "in_ok i" "n \<le> 16"
  shows "\<exists>w i1. GETBITS n i = Inr (w, i1\<lparr>left := left i1 - n\<rparr>) \<and> in_ok i1 \<and> n \<le> left i1 \<and> stream i1 = stream i \<and>
    fits n w \<and> starts (stream i) (to_bits n w) \<and> follows 0 i i1"
proof -
  obtain i1 where i1: "(if left i < n then fillbits i else Inr i) = Inr i1" "in_ok i1" "n \<le> left i1" "stream i1 = stream i"
  proof (cases "left i < n")
    case True
    with fillbits_stream [OF assms(1)] assms(2) that show ?thesis by fastforce
  next
    case False
    with assms(1) that [of i] show ?thesis by simp
  qed
  define w where "w = take_bit n (signed_drop_bit (left i1 - n) (bits i1))"
  have "left i1 \<le> 32" using i1(2) by (simp add: in_ok_def)
  then have "w = take_bit n (drop_bit (left i1 - n) (bits i1))"
    unfolding w_def using i1(3) by (intro bit_word_eqI) (auto simp: bit_simps min_def)
  moreover have "to_bits (left i1) (bits i1) = to_bits n (drop_bit (left i1 - n) (bits i1)) @ to_bits (left i1 - n) (bits i1)"
    using to_bits_split [of n "left i1 - n" "bits i1"] i1(3) by simp
  ultimately have "starts (stream i1) (to_bits n w)"
    by (simp add: starts_def stream_def nth_default_def nth_append)
  moreover have "GETBITS n i = Inr (w, i1\<lparr>left := left i1 - n\<rparr>)"
    using i1(1) by (simp add: GETBITS_def w_def Let_def)
  moreover have "follows 0 i i1" using i1(1) fillbits_follows assms(1) by (cases "left i < n") auto
  ultimately show ?thesis using i1 fits_take_bit unfolding w_def by metis
qed

lemma in_ok_left: "in_ok i \<Longrightarrow> in_ok (i\<lparr>left := left i - m\<rparr>)"
  by (auto simp: in_ok_def)

end
