(* ===== verification/Gspca_Tables.thy ===== *)
theory Gspca_Tables
  imports Gspca_Decoder
begin

text \<open>
  The tables that \<^verbatim>\<open>dec_makehuff\<close> of \<^verbatim>\<open>src/mjpg-streamer/plugins/input_gspcav1/utils.c\<close> builds are those of the canonical
  code of the given lengths, and \<^verbatim>\<open>DEC_REC\<close> decodes this code: the lookup of short codes, of codes without
  their values and the loop for long codes.
\<close>

subsection \<open>Filling the tables\<close>

lemma nat_or_add: "d < 2 ^ m \<Longrightarrow> push_bit m c OR d = c * 2 ^ m + (d :: nat)"
proof -
  assume d: "d < 2 ^ m"
  then have "take_bit m d = d" by (simp add: take_bit_nat_eq_self)
  then have "\<And>k. bit d k \<Longrightarrow> k < m" by (metis bit_take_bit_iff)
  then have "push_bit m c AND d = 0" by (intro bit_eqI) (auto simp: bit_and_iff bit_push_bit_iff dest!: leD)
  then show ?thesis by (simp add: push_bit_eq_mult flip: disjunctive_add_eq_or)
qed

lemma ll_fill_run:
  assumes "n \<le> 2 ^ m" "(c + 1) * 2 ^ m \<le> length ll"
  shows "\<exists>ll'. ll_fill i b (push_bit m c) n ll = Inr ll' \<and> length ll' = length ll \<and>
    (\<forall>x < length ll. ll' ! x = (if x div 2 ^ m = c \<and> x mod 2 ^ m < n then ll_entry i b (x mod 2 ^ m) else ll ! x))"
  using assms
proof (induction n arbitrary: ll)
  case (Suc n)
  have n: "n < 2 ^ m" using Suc.prems(1) by simp
  define y where "y = c * 2 ^ m + n"
  have y: "push_bit m c OR n = y" "y < length ll" "y div 2 ^ m = c" "y mod 2 ^ m = n"
    using nat_or_add [OF n] Suc.prems(2) n by (simp_all add: y_def)
  have eq: "x = y \<longleftrightarrow> x div 2 ^ m = c \<and> x mod 2 ^ m = n" for x
    using y(3,4) div_mult_mod_eq [of x "2 ^ m"] by (auto simp: y_def)
  obtain ll' where ll': "ll_fill i b (push_bit m c) n (ll[y := ll_entry i b n]) = Inr ll'" "length ll' = length ll"
    "\<forall>x < length ll. ll' ! x = (if x div 2 ^ m = c \<and> x mod 2 ^ m < n then ll_entry i b (x mod 2 ^ m) else ll[y := ll_entry i b n] ! x)"
    using Suc.IH [of "ll[y := ll_entry i b n]"] Suc.prems by auto
  have "ll' ! x = (if x div 2 ^ m = c \<and> x mod 2 ^ m < Suc n then ll_entry i b (x mod 2 ^ m) else ll ! x)" if "x < length ll" for x
    using ll'(3) that eq [of x] y(2) by (cases "x = y") (auto simp: less_Suc_eq y(3,4))
  then show ?case using ll'(1,2) y(1,2) by (simp add: store_def)
qed simp

definition sized :: "dec_hufftbl \<Rightarrow> bool" where
  "sized hu \<longleftrightarrow> length (maxcode hu) = 17 \<and> length (valptr hu) = 16 \<and> length (vals hu) = 256 \<and> length (llvals hu) = 1024"

lemma make_codes_run:
  assumes "sized hu" "j \<le> length hv" "k + j \<le> 256" "i < 10 \<Longrightarrow> c + j \<le> 2 ^ (i + 1)"
  shows "\<exists>hu'. make_codes i j hv (c, k, hu) = Inr (drop j hv, c + j, k + j, hu') \<and> sized hu' \<and>
    maxcode hu' = maxcode hu \<and> valptr hu' = valptr hu \<and>
    (\<forall>t < 256. vals hu' ! t = (if k \<le> t \<and> t < k + j then hv ! (t - k) else vals hu ! t)) \<and>
    (\<forall>x < 1024. llvals hu' ! x =
      (if i < 10 \<and> c \<le> x div 2 ^ (9 - i) \<and> x div 2 ^ (9 - i) < c + j
       then ll_entry i (hv ! (x div 2 ^ (9 - i) - c)) (x mod 2 ^ (9 - i)) else llvals hu ! x))"
  using assms
proof (induction j arbitrary: hv c k hu)
  case (Suc j)
  obtain b hv' where hv: "hv = b # hv'" using Suc.prems(2) by (cases hv) auto
  have k: "k < length (vals hu)" using Suc.prems(1,3) by (simp add: sized_def)
  have "\<exists>ll. (if i < DECBITS then ll_fill i b (push_bit (DECBITS - 1 - i) c) (2 ^ (DECBITS - 1 - i)) (llvals hu) else Inr (llvals hu)) = Inr ll \<and>
    length ll = 1024 \<and>
    (\<forall>x < 1024. ll ! x = (if i < 10 \<and> x div 2 ^ (9 - i) = c then ll_entry i b (x mod 2 ^ (9 - i)) else llvals hu ! x))"
  proof (cases "i < 10")
    case True
    have "(2::nat) ^ (i + 1) * 2 ^ (9 - i) = 2 ^ 10" using True by (simp flip: power_add)
    moreover have "(c + 1) * 2 ^ (9 - i) \<le> 2 ^ (i + 1) * 2 ^ (9 - i)" using Suc.prems(4) True by (intro mult_le_mono1) simp
    ultimately have "(c + 1) * 2 ^ (9 - i) \<le> length (llvals hu)" using Suc.prems(1) by (simp add: sized_def)
    from ll_fill_run [OF order_refl this, of i b] True Suc.prems(1) show ?thesis by (auto simp: DECBITS_def sized_def)
  next
    case False
    then show ?thesis using Suc.prems(1) by (simp add: DECBITS_def sized_def)
  qed
  then obtain ll where ll: "(if i < DECBITS then ll_fill i b (push_bit (DECBITS - 1 - i) c) (2 ^ (DECBITS - 1 - i)) (llvals hu) else Inr (llvals hu)) = Inr ll"
    "length ll = 1024"
    "\<forall>x < 1024. ll ! x = (if i < 10 \<and> x div 2 ^ (9 - i) = c then ll_entry i b (x mod 2 ^ (9 - i)) else llvals hu ! x)"
    by blast
  define hu1 where "hu1 = hu\<lparr>vals := (vals hu)[k := b], llvals := ll\<rparr>"
  have "sized hu1" using Suc.prems(1) ll(2) by (simp add: hu1_def sized_def)
  from Suc.IH [OF this, of hv' "k + 1" "c + 1"] Suc.prems obtain hu' where
    hu': "make_codes i j hv' (c + 1, k + 1, hu1) = Inr (drop j hv', c + 1 + j, k + 1 + j, hu')" "sized hu'"
      "maxcode hu' = maxcode hu1" "valptr hu' = valptr hu1"
    and vals: "\<forall>t < 256. vals hu' ! t = (if k + 1 \<le> t \<and> t < k + 1 + j then hv' ! (t - (k + 1)) else vals hu1 ! t)"
    and llv: "\<forall>x < 1024. llvals hu' ! x =
      (if i < 10 \<and> c + 1 \<le> x div 2 ^ (9 - i) \<and> x div 2 ^ (9 - i) < c + 1 + j
       then ll_entry i (hv' ! (x div 2 ^ (9 - i) - (c + 1))) (x mod 2 ^ (9 - i)) else llvals hu1 ! x)"
    unfolding hv by auto
  have "vals hu' ! t = (if k \<le> t \<and> t < k + Suc j then hv ! (t - k) else vals hu ! t)" if "t < 256" for t
    using vals that k by (cases "t = k") (auto simp: hu1_def hv nth_Cons')
  moreover have "llvals hu' ! x =
      (if i < 10 \<and> c \<le> x div 2 ^ (9 - i) \<and> x div 2 ^ (9 - i) < c + Suc j
       then ll_entry i (hv ! (x div 2 ^ (9 - i) - c)) (x mod 2 ^ (9 - i)) else llvals hu ! x)" if "x < 1024" for x
    using llv [rule_format, OF that] ll(3) [rule_format, OF that]
    by (cases "x div 2 ^ (9 - i) = c") (auto simp: hu1_def hv nth_Cons')
  moreover have "make_codes i (Suc j) hv (c, k, hu) = Inr (drop (Suc j) hv, c + Suc j, k + Suc j, hu')"
    using hu'(1) ll(1) k by (simp add: hv store_def hu1_def)
  ultimately show ?case using hu'(2-4) by (auto simp: hu1_def)
qed auto


subsection \<open>Canonical codes\<close>

text \<open>The first code of each length, less one, and the index of its value.\<close>

fun first_code :: "nat list \<Rightarrow> nat \<Rightarrow> nat" where
  "first_code lens 0 = 0"
| "first_code lens (Suc i) = 2 * (first_code lens i + lens ! i)"

definition first_index :: "nat list \<Rightarrow> nat \<Rightarrow> nat" where
  "first_index lens i = sum_list (take i lens)"

lemma first_index_Suc: "i < length lens \<Longrightarrow> first_index lens (Suc i) = first_index lens i + lens ! i"
  by (simp add: first_index_def take_Suc_conv_app_nth)

lemma first_index_le: "first_index lens i \<le> sum_list lens"
  by (simp add: first_index_def) (metis append_take_drop_id le_add1 sum_list_append)

text \<open>There are codes for all values.\<close>

definition lens_ok :: "nat list \<Rightarrow> byte list \<Rightarrow> bool" where
  "lens_ok lens hv \<longleftrightarrow> length lens = 16 \<and> sum_list lens \<le> 256 \<and> sum_list lens \<le> length hv \<and>
     list_all (\<lambda>i. first_code lens i + lens ! i \<le> 2 ^ (i + 1)) [0..<16]"

lemma first_code_mono: "i' < i \<Longrightarrow> 2 ^ (i - i') * (first_code lens i' + lens ! i') \<le> first_code lens i"
proof (induction i)
  case (Suc i)
  show ?case
  proof (cases "i' = i")
    case False
    with Suc have "2 ^ (i - i') * (first_code lens i' + lens ! i') \<le> first_code lens i" "Suc i - i' = Suc (i - i')" by auto
    then show ?thesis by simp
  qed simp
qed simp

lemma code_above:
  assumes "i' < i" "first_code lens i \<le> c"
  shows "first_code lens i' + lens ! i' \<le> c div 2 ^ (i - i')"
proof -
  have "2 ^ (i - i') * (first_code lens i' + lens ! i') \<le> c"
    using first_code_mono [OF assms(1)] assms(2) by (rule order_trans)
  then show ?thesis by (simp add: less_eq_div_iff_mult_less_eq mult.commute)
qed

text \<open>The tables of the lengths below \<open>i\<close> are built.\<close>

definition built :: "nat list \<Rightarrow> byte list \<Rightarrow> nat \<Rightarrow> dec_hufftbl \<Rightarrow> bool" where
  "built lens hv i hu \<longleftrightarrow> sized hu \<and>
     (\<forall>i' < i. maxcode hu ! i' = first_code lens i' + lens ! i' \<and> valptr hu ! i' = first_index lens i') \<and>
     (\<forall>t < first_index lens i. vals hu ! t = hv ! t) \<and>
     (\<forall>i' < min i 10. \<forall>x < 1024. let y = x div 2 ^ (9 - i') in
        first_code lens i' \<le> y \<and> y < first_code lens i' + lens ! i' \<longrightarrow>
        llvals hu ! x = ll_entry i' (hv ! (first_index lens i' + (y - first_code lens i'))) (x mod 2 ^ (9 - i'))) \<and>
     (\<forall>x < 1024. (\<forall>i' < min i 10. first_code lens i' + lens ! i' \<le> x div 2 ^ (9 - i')) \<longrightarrow> llvals hu ! x = 0)"

lemma built_step:
  assumes "built lens hv i hu" "lens_ok lens hv" "i < 16"
  shows "\<exists>hu'. make_codes i (lens ! i) (drop (first_index lens i) hv) (first_code lens i, first_index lens i, hu\<lparr>valptr := (valptr hu)[i := first_index lens i]\<rparr>) =
      Inr (drop (first_index lens (Suc i)) hv, first_code lens i + lens ! i, first_index lens (Suc i), hu') \<and>
    built lens hv (Suc i) (hu'\<lparr>maxcode := (maxcode hu')[i := first_code lens i + lens ! i]\<rparr>)"
proof -
  let ?hu = "hu\<lparr>valptr := (valptr hu)[i := first_index lens i]\<rparr>"
  have len: "length lens = 16" using assms(2) by (simp add: lens_ok_def)
  have total: "first_index lens i + lens ! i \<le> 256" "first_index lens i + lens ! i \<le> length hv"
    using first_index_le [of lens "Suc i"] first_index_Suc [of i lens] assms(2,3) len by (auto simp: lens_ok_def)
  have kraft: "first_code lens i + lens ! i \<le> 2 ^ (i + 1)"
    using assms(2,3) by (auto simp: lens_ok_def list_all_iff simp del: upt_rec_numeral)
  have sz: "sized ?hu" using assms(1) by (simp add: built_def sized_def)
  have drp: "lens ! i \<le> length (drop (first_index lens i) hv)" using total by simp
  obtain hu' where
    hu': "make_codes i (lens ! i) (drop (first_index lens i) hv) (first_code lens i, first_index lens i, ?hu) =
        Inr (drop (lens ! i) (drop (first_index lens i) hv), first_code lens i + lens ! i, first_index lens i + lens ! i, hu')"
      "sized hu'" "maxcode hu' = maxcode ?hu" "valptr hu' = valptr ?hu"
    and vals: "\<forall>t < 256. vals hu' ! t = (if first_index lens i \<le> t \<and> t < first_index lens i + lens ! i
        then drop (first_index lens i) hv ! (t - first_index lens i) else vals ?hu ! t)"
    and llv: "\<forall>x < 1024. llvals hu' ! x =
      (if i < 10 \<and> first_code lens i \<le> x div 2 ^ (9 - i) \<and> x div 2 ^ (9 - i) < first_code lens i + lens ! i
       then ll_entry i (drop (first_index lens i) hv ! (x div 2 ^ (9 - i) - first_code lens i)) (x mod 2 ^ (9 - i)) else llvals ?hu ! x)"
    using make_codes_run [OF sz drp total(1), of i "first_code lens i"] kraft by blast
  let ?hu' = "hu'\<lparr>maxcode := (maxcode hu')[i := first_code lens i + lens ! i]\<rparr>"
  have "sized ?hu'" using hu'(2) by (simp add: sized_def)
  moreover have "\<forall>i' < Suc i. maxcode ?hu' ! i' = first_code lens i' + lens ! i' \<and> valptr ?hu' ! i' = first_index lens i'"
    using assms(1,3) hu'(2-4) sz by (auto simp: built_def sized_def less_Suc_eq)
  moreover have "\<forall>t < first_index lens (Suc i). vals ?hu' ! t = hv ! t"
    using vals assms(1,3) total len by (auto simp: built_def first_index_Suc)
  moreover have "\<forall>i' < min (Suc i) 10. \<forall>x < 1024. let y = x div 2 ^ (9 - i') in
        first_code lens i' \<le> y \<and> y < first_code lens i' + lens ! i' \<longrightarrow>
        llvals ?hu' ! x = ll_entry i' (hv ! (first_index lens i' + (y - first_code lens i'))) (x mod 2 ^ (9 - i'))"
    unfolding Let_def
  proof (intro allI impI, elim conjE)
    fix i' x :: nat
    assume i': "i' < min (Suc i) 10" and x: "x < 1024"
      and y: "first_code lens i' \<le> x div 2 ^ (9 - i')" "x div 2 ^ (9 - i') < first_code lens i' + lens ! i'"
    show "llvals ?hu' ! x = ll_entry i' (hv ! (first_index lens i' + (x div 2 ^ (9 - i') - first_code lens i'))) (x mod 2 ^ (9 - i'))"
    proof (cases "i' = i")
      case True
      then have "i < 10" using i' by simp
      with True llv [rule_format, OF x] y total show ?thesis by simp
    next
      case False
      then have i'': "i' < i" "i' < min i 10" using i' by auto
      have "\<not> (i < 10 \<and> first_code lens i \<le> x div 2 ^ (9 - i))"
      proof
        assume a: "i < 10 \<and> first_code lens i \<le> x div 2 ^ (9 - i)"
        then have "9 - i' = (9 - i) + (i - i')" using i'' by simp
        then have "x div 2 ^ (9 - i) div 2 ^ (i - i') = x div 2 ^ (9 - i')" by (simp add: div_mult2_eq power_add)
        with code_above [OF i''(1) a [THEN conjunct2]] y(2) show False by simp
      qed
      then have "llvals hu' ! x = llvals hu ! x" using llv [rule_format, OF x] by auto
      then show ?thesis using assms(1) i''(2) x y unfolding built_def Let_def by auto
    qed
  qed
  moreover have "\<forall>x < 1024. (\<forall>i' < min (Suc i) 10. first_code lens i' + lens ! i' \<le> x div 2 ^ (9 - i')) \<longrightarrow> llvals ?hu' ! x = 0"
  proof (intro allI impI)
    fix x :: nat
    assume x: "x < 1024" and above: "\<forall>i' < min (Suc i) 10. first_code lens i' + lens ! i' \<le> x div 2 ^ (9 - i')"
    from above [rule_format, of i] have "\<not> (i < 10 \<and> x div 2 ^ (9 - i) < first_code lens i + lens ! i)" by auto
    then have "llvals hu' ! x = llvals hu ! x" using llv [rule_format, OF x] by auto
    then show "llvals ?hu' ! x = 0" using assms(1) x above unfolding built_def by auto
  qed
  ultimately have "built lens hv (Suc i) ?hu'" unfolding built_def by blast
  then show ?thesis using hu'(1) first_index_Suc [of i lens] assms(3) len by (auto simp: add.commute)
qed

lemma make_sizes_run:
  assumes "lens_ok lens hv" "built lens hv i hu" "i \<le> 16"
  shows "\<exists>hu'. make_sizes i (drop i lens) (drop (first_index lens i) hv) (first_code lens i, first_index lens i, hu) = Inr hu' \<and> built lens hv 16 hu'"
  using assms(2,3)
proof (induction "16 - i" arbitrary: i hu)
  case 0
  then have "drop i lens = []" "i = 16" using assms(1) by (simp_all add: lens_ok_def)
  then show ?case using 0 by auto
next
  case (Suc n)
  then have i: "i < 16" "length lens = 16" using assms(1) by (simp_all add: lens_ok_def)
  obtain hu1 where hu1: "make_codes i (lens ! i) (drop (first_index lens i) hv)
      (first_code lens i, first_index lens i, hu\<lparr>valptr := (valptr hu)[i := first_index lens i]\<rparr>) =
      Inr (drop (first_index lens (Suc i)) hv, first_code lens i + lens ! i, first_index lens (Suc i), hu1)"
    "built lens hv (Suc i) (hu1\<lparr>maxcode := (maxcode hu1)[i := first_code lens i + lens ! i]\<rparr>)"
    using built_step [OF Suc.prems(1) assms(1) i(1)] by blast
  have "push_bit 1 (first_code lens i + lens ! i) = first_code lens (Suc i)" by (simp add: push_bit_eq_mult algebra_simps)
  moreover have "drop i lens = lens ! i # drop (Suc i) lens" using i by (simp add: Cons_nth_drop_Suc)
  moreover have "n = 16 - Suc i" using Suc.hyps(2) by simp
  ultimately show ?case using Suc.hyps(1) [OF _ hu1(2)] i hu1(1)
    by (simp del: push_bit_Suc push_bit_of_nat first_code.simps add: push_bit_eq_mult [of 1, symmetric])
qed

lemma dec_makehuff_built:
  assumes "lens_ok lens hv" "sized hu"
  shows "\<exists>hu'. dec_makehuff lens hv hu = Inr hu' \<and> built lens hv 16 hu'"
proof -
  have "built lens hv 0 (hu\<lparr>llvals := replicate (2 ^ DECBITS) 0\<rparr>)"
    using assms(2) by (simp add: built_def sized_def first_index_def DECBITS_def del: replicate.simps)
  from make_sizes_run [OF assms(1) this] obtain hu1 where
    hu1: "make_sizes 0 lens hv (0, 0, hu\<lparr>llvals := replicate (2 ^ DECBITS) 0\<rparr>) = Inr hu1" "built lens hv 16 hu1"
    by (auto simp: first_index_def)
  moreover from hu1(2) have "built lens hv 16 (hu1\<lparr>maxcode := (maxcode hu1)[16 := 0x20000]\<rparr>)"
    by (simp add: built_def sized_def)
  ultimately show ?thesis by (simp add: dec_makehuff_def)
qed

subsection \<open>Decoding a symbol\<close>

text \<open>The table decodes the code \<open>c\<close> of \<open>l\<close> bits to the symbol.\<close>

definition decodes :: "dec_hufftbl \<Rightarrow> byte \<Rightarrow> nat \<Rightarrow> nat \<Rightarrow> bool" where
  "decodes hu symb c l \<longleftrightarrow> 1 \<le> l \<and> l \<le> 16 \<and> c < 2 ^ l \<and>
     (if l \<le> 10 then \<forall>x < 1024. x div 2 ^ (10 - l) = c \<longrightarrow> llvals hu ! x = ll_entry (l - 1) symb (x mod 2 ^ (10 - l))
      else llvals hu ! (c div 2 ^ (l - 10)) = 0 \<and>
        (\<forall>i. 10 \<le> i \<and> i < l - 1 \<longrightarrow> maxcode hu ! i \<le> c div 2 ^ (l - 1 - i)) \<and> c < maxcode hu ! (l - 1) \<and>
        2 * maxcode hu ! (l - 2) \<le> c \<and> valptr hu ! (l - 1) + (c - 2 * maxcode hu ! (l - 2)) < 256 \<and>
        vals hu ! (valptr hu ! (l - 1) + (c - 2 * maxcode hu ! (l - 2))) = symb)"

lemma built_decodes:
  assumes b: "built lens hv 16 hu" and ok: "lens_ok lens hv" and i: "i < 16" "j < lens ! i"
  shows "decodes hu (hv ! (first_index lens i + j)) (first_code lens i + j) (i + 1)"
proof -
  let ?c = "first_code lens i + j"
  have len: "length lens = 16" using ok by (simp add: lens_ok_def)
  have "first_code lens i + lens ! i \<le> 2 ^ (i + 1)"
    using ok i(1) by (auto simp: lens_ok_def list_all_iff simp del: upt_rec_numeral)
  then have c: "?c < 2 ^ (i + 1)" using i(2) by linarith
  have index: "first_index lens i + j < first_index lens (Suc i)" "first_index lens (Suc i) \<le> first_index lens 16"
      "first_index lens i + j < 256"
    using i len first_index_le [of lens "Suc i"] ok by (simp_all add: first_index_Suc lens_ok_def) (simp add: first_index_def)
  show ?thesis
  proof (cases "i < 10")
    case True
    have "llvals hu ! x = ll_entry i (hv ! (first_index lens i + j)) (x mod 2 ^ (9 - i))" if "x < 1024" "x div 2 ^ (9 - i) = ?c" for x
      using b that i True unfolding built_def Let_def by auto
    then show ?thesis using True c by (simp add: decodes_def)
  next
    case False
    have above: "first_code lens i' + lens ! i' \<le> ?c div 2 ^ (i - i')" if "i' < i" for i'
      using code_above [OF that, of lens ?c] by simp
    have max: "maxcode hu ! i' = first_code lens i' + lens ! i'" if "i' < 16" for i'
      using b that by (simp add: built_def)
    have "llvals hu ! (?c div 2 ^ (i - 9)) = 0"
    proof -
      have "?c div 2 ^ (i - 9) < 1024"
      proof (rule less_mult_imp_div_less)
        have "i + 1 = 10 + (i - 9)" using False by simp
        then have "(2::nat) ^ (i + 1) = 2 ^ 10 * 2 ^ (i - 9)" by (simp only: power_add)
        then show "?c < 1024 * 2 ^ (i - 9)" using c by simp
      qed
      moreover have "first_code lens i' + lens ! i' \<le> ?c div 2 ^ (i - 9) div 2 ^ (9 - i')" if "i' < 10" for i'
      proof -
        have "i - i' = (i - 9) + (9 - i')" using that False by simp
        then have "?c div 2 ^ (i - 9) div 2 ^ (9 - i') = ?c div 2 ^ (i - i')" by (simp add: div_mult2_eq power_add)
        then show ?thesis using above [of i'] that False by simp
      qed
      ultimately show ?thesis using b unfolding built_def by auto
    qed
    moreover have "first_code lens i = 2 * maxcode hu ! (i - 1)"
      using max [of "i - 1"] i False by (cases i) simp_all
    moreover have "valptr hu ! i = first_index lens i" "vals hu ! (first_index lens i + j) = hv ! (first_index lens i + j)"
      using b i index by (simp_all add: built_def)
    ultimately show ?thesis
      using False c above max i index by (simp add: decodes_def numeral_2_eq_2)
  qed
qed

subsection \<open>Entries\<close>

lemma masks: "(127 :: cint) = mask 7" "(15 :: cint) = mask 4" "(0xf0 :: byte) = push_bit 4 (mask 4)"
    "(15 :: byte) = mask 4"
  by (simp_all add: mask_eq_exp_minus_1 push_bit_eq_mult)

lemma bit_128: "bit (128 :: cint) k \<longleftrightarrow> k = 7" "bit (128 :: nat) k \<longleftrightarrow> k = 7" "bit (128 :: int) k \<longleftrightarrow> k = 7"
  using bit_exp_iff [where 'a = int, of 7 k] bit_exp_iff [where 'a = cint, of 7 k] bit_exp_iff [where 'a = nat, of 7 k] by auto

lemma ll_fields:
  fixes b :: byte and x e :: cint
  assumes "u < 16" "e = push_bit 16 x OR push_bit 4 (ucast (b AND 0xf0)) OR of_nat u OR (if known then 128 else 0)"
  shows "e AND 128 \<noteq> 0 \<longleftrightarrow> known" "unat (e AND 127) = u" "unat (signed_drop_bit 8 e AND 15) = unat (drop_bit 4 b)"
    "bit (signed_drop_bit 16 e) k \<longleftrightarrow> k < 32 \<and> bit x (min 15 k)"
proof -
  have u: "bit (of_nat u :: cint) k \<Longrightarrow> k < 4" for k
    using fits_of_nat [of u 4] assms(1) by (auto simp: fits_def)
  have "take_bit 4 u = u" using assms(1) by (simp add: take_bit_nat_eq_self)
  then have u': "bit u k \<Longrightarrow> k < 4" for k by (metis bit_take_bit_iff)
  have bits: "bit e k \<longleftrightarrow> 16 \<le> k \<and> bit x (k - 16) \<and> k < 32 \<or> 8 \<le> k \<and> bit b (k - 4) \<and> k < 12 \<or> bit (of_nat u :: cint) k \<or> known \<and> k = 7" for k
    unfolding assms(2) masks by (auto simp: bit_simps bit_128 dest: bit_imp_le_length)
  have "e AND 127 = of_nat u"
    unfolding masks by (rule bit_word_eqI) (auto simp: bit_and_iff bit_mask_iff bits dest: u u')
  moreover have "unat (of_nat u :: cint) = u" using assms(1) by (simp add: unat_of_nat take_bit_nat_eq_self)
  ultimately show "unat (e AND 127) = u" by simp
  have "e AND 128 = (if known then 128 else 0)"
    by (rule bit_word_eqI) (auto simp: bit_and_iff bit_128 bits dest: u u')
  then show "e AND 128 \<noteq> 0 \<longleftrightarrow> known" by simp
  have "signed_drop_bit 8 e AND 15 = ucast (drop_bit 4 b)"
    unfolding masks by (rule bit_word_eqI) (auto simp: bit_simps bits min_def dest: u u' bit_imp_le_length)
  then show "unat (signed_drop_bit 8 e AND 15) = unat (drop_bit 4 b)" 
    using unsigned_less [where 'a = nat, of "drop_bit 4 b"] by (simp add: unsigned_ucast_eq take_bit_nat_eq_self)
  show "bit (signed_drop_bit 16 e) k \<longleftrightarrow> k < 32 \<and> bit x (min 15 k)"
    by (cases "k = 15") (auto simp: bit_signed_drop_bit_iff bits min_def dest: u u')
qed

lemma ll_value:
  fixes b :: byte and e :: cint
  assumes "u < 16" "e = push_bit 16 (word_of_int v) OR push_bit 4 (ucast (b AND 0xf0)) OR of_nat u OR (if known then 128 else 0)"
    and v: "- 32768 \<le> v" "v < 32768"
  shows "signed_drop_bit 16 e = word_of_int v" "sint (signed_drop_bit 16 e) = v"
proof -
  have "signed_take_bit 15 v = v" using v by (simp add: signed_take_bit_int_eq_self)
  then have bit: "bit v k \<longleftrightarrow> bit v (min 15 k)" for k
    using bit_signed_take_bit_iff [of 15 v k] by (simp add: min.commute)
  show *: "signed_drop_bit 16 e = word_of_int v"
  proof (rule bit_word_eqI)
    fix n assume "n < LENGTH(32)"
    with bit [of n] show "bit (signed_drop_bit 16 e) n = bit (word_of_int v :: cint) n"
      by (simp add: ll_fields(4) [OF assms(1,2)] bit_word_of_int_iff min_less_iff_disj)
  qed
  show "sint (signed_drop_bit 16 e) = v" unfolding * using v by (simp add: sint_sbintrunc' signed_take_bit_int_eq_self)
qed

lemma sign_extend_bounds:
  assumes "0 \<le> x" "x < 2 ^ n"
  shows "- (2 ^ n) < sign_extend n x" "sign_extend n x < 2 ^ n"
proof -
  show "- (2 ^ n) < sign_extend n x" using assms by (simp add: sign_extend_def)
  show "sign_extend n x < 2 ^ n" using assms by (simp add: sign_extend_def)
qed

definition sym_size :: "byte \<Rightarrow> nat" where "sym_size b = unat (b AND 15)"
definition sym_run :: "byte \<Rightarrow> nat" where "sym_run b = unat (drop_bit 4 b)"

lemma sym_size_less: "sym_size b < 16"
proof -
  have "b AND 15 = take_bit 4 b" unfolding masks(4) by (simp add: take_bit_eq_mask)
  then show ?thesis by (simp add: sym_size_def unsigned_take_bit_eq take_bit_nat_less_exp [of 4, simplified])
qed

lemma entry_known:
  assumes "sym_size b + i < 10" "d < 2 ^ (9 - i)"
  defines "e \<equiv> ll_entry i b d"
  shows "e AND 128 \<noteq> 0" "unat (e AND 127) = 10 - (i + 1 + sym_size b)" "unat (signed_drop_bit 8 e AND 15) = sym_run b"
    "sint (signed_drop_bit 16 e) = sign_extend (sym_size b) (int (d div 2 ^ (9 - sym_size b - i)))"
proof -
  let ?x = "int (d div 2 ^ (9 - sym_size b - i))"
  let ?u = "10 - (i + 1 + sym_size b)"
  have e: "e = push_bit 16 (word_of_int (sign_extend (sym_size b) ?x)) OR push_bit 4 (ucast (b AND 0xf0)) OR of_nat ?u OR (if True then 128 else 0)"
    using assms(1) by (simp add: e_def ll_entry_def Let_def DECBITS_def sym_size_def)
  have "9 - i = sym_size b + (9 - sym_size b - i)" using assms(1) by simp
  then have "d < 2 ^ sym_size b * 2 ^ (9 - sym_size b - i)" using assms(2) by (metis power_add)
  then have "d div 2 ^ (9 - sym_size b - i) < 2 ^ sym_size b" by (rule less_mult_imp_div_less)
  then have "?x < int (2 ^ sym_size b)" by (simp only: of_nat_less_iff)
  then have x: "0 \<le> ?x" "?x < 2 ^ sym_size b" by (simp_all only: of_nat_power of_nat_numeral of_nat_0_le_iff)
  have "(2::int) ^ sym_size b \<le> 2 ^ 9" using assms(1) by (intro power_increasing) simp_all
  then have "- 32768 \<le> sign_extend (sym_size b) ?x" "sign_extend (sym_size b) ?x < 32768"
    using sign_extend_bounds [OF x] by simp_all
  from ll_value [OF _ e this] show "sint (signed_drop_bit 16 e) = sign_extend (sym_size b) ?x" by simp
  show "e AND 128 \<noteq> 0" "unat (e AND 127) = ?u" "unat (signed_drop_bit 8 e AND 15) = sym_run b"
    using ll_fields(1-3) [OF _ e] by (simp_all add: sym_run_def)
qed

lemma entry_size:
  fixes d :: nat
  assumes "\<not> sym_size b + i < 10" "i < 10"
  defines "e \<equiv> ll_entry i b d"
  shows "e AND 128 = 0" "e \<noteq> 0" "unat (e AND 127) = 10 - (i + 1)" "unat (signed_drop_bit 8 e AND 15) = sym_run b"
    "unat (signed_drop_bit 16 e) = sym_size b"
proof -
  have e: "e = push_bit 16 (word_of_int (int (sym_size b))) OR push_bit 4 (ucast (b AND 0xf0)) OR of_nat (10 - (i + 1)) OR (if False then 128 else 0)"
    using assms(1) by (simp add: e_def ll_entry_def Let_def DECBITS_def sym_size_def)
  show "e AND 128 = 0" "unat (e AND 127) = 10 - (i + 1)" "unat (signed_drop_bit 8 e AND 15) = sym_run b"
    using ll_fields(1-3) [OF _ e] assms(2) by (simp_all add: sym_run_def)
  have "signed_drop_bit 16 e = word_of_int (int (sym_size b))"
    using ll_value(1) [OF _ e] sym_size_less [of b] by simp
  then show size: "unat (signed_drop_bit 16 e) = sym_size b"
    using sym_size_less [of b] by (simp add: unat_of_nat take_bit_nat_eq_self)
  show "e \<noteq> 0"
  proof
    assume "e = 0"
    then have "sym_size b = 0" using size by simp
    then show False using assms(1,2) by simp
  qed
qed

subsection \<open>Reading a symbol\<close>

text \<open>\<open>n\<close> bits are read between the two states.\<close>

definition reads :: "nat \<Rightarrow> jpeg_in \<Rightarrow> jpeg_in \<Rightarrow> bool" where
  "reads n i i' \<longleftrightarrow> in_ok i' \<and> stream i' = (\<lambda>k. stream i (k + n)) \<and> follows n i i'"

lemma reads_trans: "reads m i i' \<Longrightarrow> reads n i' i'' \<Longrightarrow> reads (m + n) i i''"
  using follows_trans [of m i i' n i''] by (simp add: reads_def add_ac)

lemma starts_inj: "starts s xs \<Longrightarrow> starts s ys \<Longrightarrow> length xs = length ys \<Longrightarrow> xs = ys"
  by (rule nth_equalityI) (simp_all add: starts_def)

lemma GETBITS_reads:
  assumes "in_ok i" "n \<le> 16" "starts (stream i) (to_bits n v)" "fits n v"
  shows "\<exists>i'. GETBITS n i = Inr (v, i') \<and> reads n i i'"
proof -
  obtain w i1 where w: "GETBITS n i = Inr (w, i1\<lparr>left := left i1 - n\<rparr>)" "in_ok i1" "n \<le> left i1" "stream i1 = stream i"
      "fits n w" "starts (stream i) (to_bits n w)" "follows 0 i i1"
    using GETBITS_stream [OF assms(1,2)] by blast
  have "to_bits n w = to_bits n v" using starts_inj [OF w(6) assms(3)] by simp
  then have "w = v" using to_bits_inj w(5) assms(4) by blast
  then show ?thesis using w(1-4) stream_left [OF w(3)] in_ok_left follows_left [OF w(7,3)] by (auto simp: reads_def)
qed

lemma receive_reads:
  fixes v :: cint
  assumes "in_ok i" "n \<le> 16" "starts (stream i) (to_bits n v)"
  shows "\<exists>i'. receive n i = Inr (sign_extend n (uint (take_bit n v)), i') \<and> reads n i i'"
proof -
  obtain i' where "GETBITS n i = Inr (take_bit n v, i')" "reads n i i'"
    using GETBITS_reads [OF assms(1,2) _ fits_take_bit, of v] assms(3) by auto
  then show ?thesis by (simp add: receive_def)
qed

lemma at_index: "n < length xs \<Longrightarrow> at xs (int n) = Inr (xs ! n)"
  by simp

lemma at_word: "unat w < length xs \<Longrightarrow> at xs (uint w) = Inr (xs ! unat w)"
proof -
  assume "unat w < length xs"
  moreover have "uint w = int (unat w)" by (rule uint_nat)
  ultimately show ?thesis by (simp only: at_ok of_nat_0_le_iff of_nat_less_iff nat_int)
qed

lemma unat_drop: "unat (drop_bit n (w :: cint)) = unat w div 2 ^ n"
  using unsigned_less [where 'a = nat, of w] by (simp only: unsigned_drop_bit_eq) (simp add: drop_bit_eq_div take_bit_nat_eq_self)

lemma unat_code: "c < 2 ^ l \<Longrightarrow> l \<le> 16 \<Longrightarrow> unat (of_nat c :: cint) = c"
proof -
  assume c: "c < 2 ^ l" "l \<le> 16"
  have "(2::nat) ^ l \<le> 2 ^ 16" using c(2) by (intro power_increasing) simp_all
  then show ?thesis using c(1) by (simp add: unat_of_nat take_bit_nat_eq_self)
qed

lemma long_code_reads:
  assumes "sized hu" "10 < l" "l \<le> 16" "c < 2 ^ l" "c < maxcode hu ! (l - 1)"
    and above: "\<And>i. 10 \<le> i \<Longrightarrow> i < l - 1 \<Longrightarrow> maxcode hu ! i \<le> c div 2 ^ (l - 1 - i)"
  shows "10 \<le> i \<Longrightarrow> i < l \<Longrightarrow> in_ok inp \<Longrightarrow> starts (stream inp) (to_bits (l - i) (of_nat c :: cint)) \<Longrightarrow>
    \<exists>inp'. long_code hu i (c div 2 ^ (l - i)) inp = Some (Inr (l - 1, c, inp')) \<and> reads (l - i) inp inp'"
proof (induction "l - i" arbitrary: i inp)
  case (Suc n)
  define b where "b = (c div 2 ^ n) mod 2"
  have n: "l - i = Suc n" "l - Suc i = n" "l - 1 - i = n" using Suc.hyps(2) by simp_all
  have "to_bits (l - i) (of_nat c :: cint) = to_bits 1 (of_nat b :: cint) @ to_bits n (of_nat c :: cint)"
  proof -
    have "n < 32" using n assms(3) by simp
    then have "to_bits 1 (drop_bit n (of_nat c :: cint)) = to_bits 1 (of_nat b :: cint)"
      by (simp add: to_bits_def bit_drop_bit_eq bit_of_nat_iff b_def bit_0 even_mod_2_iff) (simp add: bit_iff_odd)
    then show ?thesis using to_bits_split [of 1 n "of_nat c :: cint"] n by simp
  qed
  then have start: "starts (stream inp) (to_bits 1 (of_nat b :: cint))" "starts (\<lambda>k. stream inp (k + 1)) (to_bits n (of_nat c :: cint))"
    using Suc.prems(4) by (simp_all add: starts_append)
  have "fits 1 (of_nat b :: cint)" by (rule fits_of_nat) (simp add: b_def)
  from GETBITS_reads [OF Suc.prems(3) _ start(1) this] obtain inp1 where
    inp1: "GETBITS 1 inp = Inr (of_nat b, inp1)" "reads 1 inp inp1" by auto
  have b: "2 * (c div 2 ^ (l - i)) + unat (of_nat b :: cint) = c div 2 ^ n"
    unfolding n b_def by (simp add: unat_of_nat take_bit_nat_eq_self) (metis div_mult2_eq mult.commute div_mult_mod_eq mult_2_right)
  have i: "i < length (maxcode hu)" using Suc.prems(2) assms(1,3) by (simp add: sized_def)
  have unfold: "long_code hu i (c div 2 ^ (l - i)) inp =
      (if c div 2 ^ n \<ge> maxcode hu ! i then long_code hu (Suc i) (c div 2 ^ n) inp1 else Some (Inr (i, c div 2 ^ n, inp1)))"
    by (subst long_code.simps) (use inp1(1) b i in simp)
  show ?case
  proof (cases "n = 0")
    case True
    then have "i = l - 1" using n Suc.prems(2) by simp
    then show ?thesis using unfold True assms(5) inp1(2) n by auto
  next
    case False
    then have i1: "10 \<le> Suc i" "Suc i < l" using n Suc.prems by simp_all
    have "maxcode hu ! i \<le> c div 2 ^ n" using above [of i] Suc.prems(1) i1 n by simp
    then have "long_code hu i (c div 2 ^ (l - i)) inp = long_code hu (Suc i) (c div 2 ^ (l - Suc i)) inp1"
      using unfold n by simp
    moreover have "in_ok inp1" "starts (stream inp1) (to_bits (l - Suc i) (of_nat c :: cint))"
      using inp1(2) start(2) n by (simp_all add: reads_def)
    ultimately show ?thesis
      using Suc.hyps(1) [OF _ i1, of inp1] n reads_trans [OF inp1(2)] by fastforce
  qed
qed simp

lemma DEC_REC_reads:
  fixes v :: cint
  assumes "decodes hu b c l" "sized hu" "in_ok inp"
    and start: "starts (stream inp) (to_bits l (of_nat c :: cint) @ to_bits (sym_size b) v)"
  shows "\<exists>inp'. DEC_REC hu inp = Some (Inr (sym_run b, sign_extend (sym_size b) (uint (take_bit (sym_size b) v)), inp')) \<and>
    reads (l + sym_size b) inp inp'"
proof -
  obtain w i1 where w: "GETBITS 10 inp = Inr (w, i1\<lparr>left := left i1 - 10\<rparr>)" "in_ok i1" "10 \<le> left i1" "stream i1 = stream inp"
      "fits 10 w" "starts (stream inp) (to_bits 10 w)" "follows 0 inp i1"
    using GETBITS_stream [OF assms(3), of 10] by auto
  have l: "1 \<le> l" "l \<le> 16" "c < 2 ^ l" using assms(1) by (simp_all add: decodes_def)
  have "take_bit 10 w = w" using w(5) by (intro bit_word_eqI) (auto simp: fits_def bit_take_bit_iff)
  then have "unat w < 2 ^ 10" by (metis unsigned_take_bit_eq take_bit_nat_less_exp)
  then have w10: "unat w < 1024" by simp
  then have at: "at (llvals hu) (uint w) = Inr (llvals hu ! unat w)"
    using assms(2) by (intro at_word) (simp add: sized_def)
  let ?s = "sym_size b"
  have read: "reads m inp (i1\<lparr>left := left i1 - m\<rparr>)" if "m \<le> 10" for m
    using w(2-4) that stream_left [of m i1] in_ok_left follows_left [OF w(7), of m] by (simp add: reads_def)
  show ?thesis
  proof (cases "l \<le> 10")
    case True
    have split: "to_bits 10 w = to_bits l (drop_bit (10 - l) w) @ to_bits (10 - l) w"
      using to_bits_split [of l "10 - l" w] True by simp
    have "to_bits l (drop_bit (10 - l) w) = to_bits l (of_nat c :: cint)"
      using w(6) start unfolding split starts_append by (intro starts_inj [of "stream inp"]) simp_all
    moreover have "fits l (drop_bit (10 - l) w)" using w(5) True by (intro fits_drop) simp
    ultimately have "drop_bit (10 - l) w = of_nat c" using to_bits_inj fits_of_nat [OF l(3)] by blast
    then have c: "unat w div 2 ^ (10 - l) = c"
      using unat_drop [of "10 - l" w] unat_code [OF l(3,2)] by simp
    then have entry: "llvals hu ! unat w = ll_entry (l - 1) b (unat w mod 2 ^ (10 - l))"
      using assms(1) True w10 by (simp add: decodes_def)
    have d: "unat w mod 2 ^ (10 - l) < 2 ^ (9 - (l - 1))" using l(1) True by simp
    show ?thesis
    proof (cases "?s + (l - 1) < 10")
      case True
      define u where "u = 10 - (l + ?s)"
      have u: "10 = (l + ?s) + u" "10 - l = u + ?s" "9 - ?s - (l - 1) = u" "10 - (l - 1 + 1 + ?s) = u" using True l(1) by (simp_all add: u_def)
      have "to_bits 10 w = to_bits l (drop_bit ?s (drop_bit u w)) @ to_bits ?s (drop_bit u w) @ to_bits u w"
        using to_bits_split [of "l + ?s" u w] to_bits_split [of l ?s "drop_bit u w"] u(1) by simp
      then have "to_bits ?s (drop_bit u w) = to_bits ?s v"
        using w(6) start by (intro starts_inj [of "\<lambda>k. stream inp (k + l)"]) (simp_all add: starts_append)
      then have "take_bit ?s v = take_bit ?s (drop_bit u w)"
        by (intro to_bits_inj [of ?s]) (simp_all add: fits_take_bit)
      moreover have "unat w mod 2 ^ (10 - l) div 2 ^ (9 - ?s - (l - 1)) = unat (take_bit ?s (drop_bit u w))"
        unfolding u(2,3) unsigned_take_bit_eq unat_drop
        by (simp flip: take_bit_eq_mod drop_bit_eq_div) (simp add: drop_bit_take_bit)
      ultimately have "uint (take_bit ?s v) = int (unat w mod 2 ^ (10 - l) div 2 ^ (9 - ?s - (l - 1)))"
        by (simp only: uint_nat)
      moreover have "UNGETBITS u (i1\<lparr>left := left i1 - 10\<rparr>) = i1\<lparr>left := left i1 - (l + ?s)\<rparr>"
        using w(3) u(1) by (simp add: UNGETBITS_def)
      ultimately show ?thesis
        using entry_known(1,3,4) [OF True d] entry_known(2) [OF True d, unfolded u(4)] read [of "l + ?s"] w(1) at entry u(1) by (simp add: DEC_REC_def DECBITS_def)
    next
      case False
      have u: "UNGETBITS (10 - (l - 1 + 1)) (i1\<lparr>left := left i1 - 10\<rparr>) = i1\<lparr>left := left i1 - l\<rparr>"
        using w(3) l(1) True by (simp add: UNGETBITS_def)
      have "?s \<noteq> 0" using False True by simp
      obtain inp' where "receive ?s (i1\<lparr>left := left i1 - l\<rparr>) = Inr (sign_extend ?s (uint (take_bit ?s v)), inp')"
        "reads ?s (i1\<lparr>left := left i1 - l\<rparr>) inp'"
        using receive_reads [of "i1\<lparr>left := left i1 - l\<rparr>" ?s v] read [OF True] start sym_size_less [of b]
        by (auto simp: reads_def starts_append)
      moreover note reads_trans [OF read [OF True] this(2)]
      ultimately show ?thesis
        using entry_size [OF False, of "unat w mod 2 ^ (10 - l)"] True l(1) w(1) at entry u \<open>?s \<noteq> 0\<close>
        by (simp add: DEC_REC_def dec_rec2_def DECBITS_def)
    qed
  next
    case False
    then have l': "l = 10 + (l - 10)" by simp
    have split: "to_bits l (of_nat c :: cint) = to_bits 10 (drop_bit (l - 10) (of_nat c :: cint)) @ to_bits (l - 10) (of_nat c :: cint)"
      using to_bits_split [of 10 "l - 10" "of_nat c :: cint"] False by simp
    have "to_bits 10 w = to_bits 10 (drop_bit (l - 10) (of_nat c :: cint))"
      using w(6) start unfolding split starts_append by (intro starts_inj [of "stream inp"]) simp_all
    moreover have "fits 10 (drop_bit (l - 10) (of_nat c :: cint))" using fits_of_nat [OF l(3)] l' by (intro fits_drop) simp
    ultimately have "w = drop_bit (l - 10) (of_nat c)" using to_bits_inj w(5) by blast
    then have c: "unat w = c div 2 ^ (l - 10)"
      using unat_drop [of "l - 10" "of_nat c"] unat_code [OF l(3,2)] by simp
    define I where "I = i1\<lparr>left := left i1 - 10\<rparr>"
    have I: "reads 10 inp I" using read [of 10] by (simp add: I_def)
    have startI: "starts (stream I) (to_bits (l - 10) (of_nat c :: cint))" "starts (\<lambda>k. stream I (k + (l - 10))) (to_bits ?s v)"
      using I start l' unfolding split starts_append reads_def by (simp_all add: add_ac)
    have hu: "llvals hu ! unat w = 0" "c < maxcode hu ! (l - 1)" "2 * maxcode hu ! (l - 2) \<le> c"
      "\<And>i. 10 \<le> i \<Longrightarrow> i < l - 1 \<Longrightarrow> maxcode hu ! i \<le> c div 2 ^ (l - 1 - i)"
      "valptr hu ! (l - 1) + (c - 2 * maxcode hu ! (l - 2)) < 256"
      "vals hu ! (valptr hu ! (l - 1) + (c - 2 * maxcode hu ! (l - 2))) = b"
      using assms(1) False c by (simp_all add: decodes_def del: Nat.add_diff_assoc)
    obtain inp1 where inp1: "long_code hu 10 (unat w) I = Some (Inr (l - 1, c, inp1))" "reads (l - 10) I inp1"
      using long_code_reads [OF assms(2) _ l(2,3) hu(2,4), of 10 I] False I startI(1) c by (auto simp: reads_def)
    have vp: "at (valptr hu) (int (l - 1)) = Inr (valptr hu ! (l - 1))"
      using assms(2) l(2) False by (intro at_index) (simp add: sized_def)
    have index: "int (valptr hu ! (l - 1)) + int c - int (maxcode hu ! (l - 1 - 1)) * 2 = int (valptr hu ! (l - 1) + (c - 2 * maxcode hu ! (l - 2)))"
      using hu(3) by (simp add: numeral_2_eq_2 of_nat_diff)
    have vl: "at (vals hu) (int (valptr hu ! (l - 1)) + int c - int (maxcode hu ! (l - 1 - 1)) * 2) = Inr b"
      unfolding index using at_index [of _ "vals hu", OF hu(5) [folded assms(2) [unfolded sized_def, THEN conjunct2, THEN conjunct2, THEN conjunct1]]] hu(6)
      by simp
    have l16: "\<not> 16 \<le> l - 1" using l by simp
    have rec: "dec_rec2 hu r (unat w) 0 I = Some (if ?s = 0 then Inr (sym_run b, 0, inp1) else sbind (receive ?s inp1) (\<lambda>(v, inp). Inr (sym_run b, v, inp)))" for r
      using inp1(1) vp vl l16 by (simp add: dec_rec2_def DECBITS_def sym_size_def sym_run_def Let_def)
    have run: "DEC_REC hu inp = dec_rec2 hu (unat w) (unat w) 0 I"
      using w(1) at hu(1) by (simp add: DEC_REC_def DECBITS_def I_def)
    have reads1: "reads l inp inp1" using reads_trans [OF I inp1(2)] l' by simp
    obtain inp' where inp': "receive ?s inp1 = Inr (sign_extend ?s (uint (take_bit ?s v)), inp')" "reads ?s inp1 inp'"
      using receive_reads [of inp1 ?s v] inp1(2) startI(2) sym_size_less [of b] by (auto simp: reads_def)
    show ?thesis
    proof (cases "?s = 0")
      case True
      then show ?thesis using run rec reads1 by (simp add: sign_extend_def)
    next
      case False
      then show ?thesis using run rec inp'(1) reads_trans [OF reads1 inp'(2)] by simp
    qed
  qed
qed

end
