(* ===== verification/Gspca_Marker.thy ===== *)
theory Gspca_Marker
  imports Gspca_Quant Gspca_Tables
begin

text \<open>
  The header of the JPEG files of the gspca codec: \<^verbatim>\<open>write_markers\<close> of
  \<^verbatim>\<open>src/mjpg-streamer/plugins/input_gspcav1/marker.c\<close>, and \<^verbatim>\<open>readtables\<close> of \<^verbatim>\<open>utils.c\<close>, which reads the tables back.  The image
  formats are those of \<^verbatim>\<open>encoder.h\<close>.
\<close>

abbreviation (input) FOUR_ZERO_ZERO :: nat where "FOUR_ZERO_ZERO \<equiv> 0"
abbreviation (input) FOUR_TWO_ZERO :: nat where "FOUR_TWO_ZERO \<equiv> 1"
abbreviation (input) FOUR_TWO_TWO :: nat where "FOUR_TWO_TWO \<equiv> 2"
abbreviation (input) FOUR_FOUR_FOUR :: nat where "FOUR_FOUR_FOUR \<equiv> 3"

subsection \<open>Writing\<close>

definition markerdata :: "short list" where
  "markerdata = [
    0xFFC4, 0x01A2, 0x0000, 0x0105, 0x0101, 0x0101, 0x0101, 0x0000, 0x0000, 0x0000, 0x0000, 0x0102,
    0x0304, 0x0506, 0x0708, 0x090A, 0x0B01, 0x0003, 0x0101, 0x0101, 0x0101, 0x0101, 0x0100, 0x0000,
    0x0000, 0x0001, 0x0203, 0x0405, 0x0607, 0x0809, 0x0A0B, 0x1000, 0x0201, 0x0303, 0x0204, 0x0305,
    0x0504, 0x0400, 0x0001, 0x7D01, 0x0203, 0x0004, 0x1105, 0x1221, 0x3141, 0x0613, 0x5161, 0x0722,
    0x7114, 0x3281, 0x91A1, 0x0823, 0x42B1, 0xC115, 0x52D1, 0xF024, 0x3362, 0x7282, 0x090A, 0x1617,
    0x1819, 0x1A25, 0x2627, 0x2829, 0x2A34, 0x3536, 0x3738, 0x393A, 0x4344, 0x4546, 0x4748, 0x494A,
    0x5354, 0x5556, 0x5758, 0x595A, 0x6364, 0x6566, 0x6768, 0x696A, 0x7374, 0x7576, 0x7778, 0x797A,
    0x8384, 0x8586, 0x8788, 0x898A, 0x9293, 0x9495, 0x9697, 0x9899, 0x9AA2, 0xA3A4, 0xA5A6, 0xA7A8,
    0xA9AA, 0xB2B3, 0xB4B5, 0xB6B7, 0xB8B9, 0xBAC2, 0xC3C4, 0xC5C6, 0xC7C8, 0xC9CA, 0xD2D3, 0xD4D5,
    0xD6D7, 0xD8D9, 0xDAE1, 0xE2E3, 0xE4E5, 0xE6E7, 0xE8E9, 0xEAF1, 0xF2F3, 0xF4F5, 0xF6F7, 0xF8F9,
    0xFA11, 0x0002, 0x0102, 0x0404, 0x0304, 0x0705, 0x0404, 0x0001, 0x0277, 0x0001, 0x0203, 0x1104,
    0x0521, 0x3106, 0x1241, 0x5107, 0x6171, 0x1322, 0x3281, 0x0814, 0x4291, 0xA1B1, 0xC109, 0x2333,
    0x52F0, 0x1562, 0x72D1, 0x0A16, 0x2434, 0xE125, 0xF117, 0x1819, 0x1A26, 0x2728, 0x292A, 0x3536,
    0x3738, 0x393A, 0x4344, 0x4546, 0x4748, 0x494A, 0x5354, 0x5556, 0x5758, 0x595A, 0x6364, 0x6566,
    0x6768, 0x696A, 0x7374, 0x7576, 0x7778, 0x797A, 0x8283, 0x8485, 0x8687, 0x8889, 0x8A92, 0x9394,
    0x9596, 0x9798, 0x999A, 0xA2A3, 0xA4A5, 0xA6A7, 0xA8A9, 0xAAB2, 0xB3B4, 0xB5B6, 0xB7B8, 0xB9BA,
    0xC2C3, 0xC4C5, 0xC6C7, 0xC8C9, 0xCAD2, 0xD3D4, 0xD5D6, 0xD7D8, 0xD9DA, 0xE2E3, 0xE4E5, 0xE6E7,
    0xE8E9, 0xEAF2, 0xF3F4, 0xF5F6, 0xF7F8, 0xF9FA]"

text \<open>The two bytes of a 16-bit value, the high one first.\<close>

definition two_bytes :: "short \<Rightarrow> byte list" where
  "two_bytes m = [ucast (drop_bit 8 m), ucast m]"

definition frame_header :: "nat \<Rightarrow> cint \<Rightarrow> cint \<Rightarrow> byte list" where
  "frame_header image_format image_width image_height =
     (let number_of_components = (if image_format = FOUR_ZERO_ZERO then 1 else 3)
      in [0xff, 0xc0] @ two_bytes (8 + 3 * ucast number_of_components) @ [0x08] @
         two_bytes (ucast image_height) @ two_bytes (ucast image_width) @ [number_of_components] @
         (if image_format = FOUR_ZERO_ZERO then [0x01, 0x11, 0x00]
          else [0x01, if image_format = FOUR_TWO_ZERO then 0x22 else if image_format = FOUR_TWO_TWO then 0x21 else 0x11, 0x00,
            0x02, 0x11, 0x01, 0x03, 0x11, 0x01]))"

definition scan_header :: "nat \<Rightarrow> byte list" where
  "scan_header image_format =
     (let number_of_components = (if image_format = FOUR_ZERO_ZERO then 1 else 3)
      in [0xff, 0xda] @ two_bytes (6 + push_bit 1 (ucast number_of_components)) @ [number_of_components] @
         (if image_format = FOUR_ZERO_ZERO then [0x01, 0x00] else [0x01, 0x00, 0x02, 0x11, 0x03, 0x11]) @
         [0x00, 0x3f, 0x00])"

definition write_markers :: "quant_tables \<Rightarrow> nat \<Rightarrow> cint \<Rightarrow> cint \<Rightarrow> byte list \<Rightarrow> byte list" where
  "write_markers q image_format image_width image_height out =
     out @ [0xff, 0xd8] @ [0xff, 0xdb] @ [0x00, 0x84] @ [0x00] @ Lqt q @ [0x01] @ Cqt q @ concat (map two_bytes markerdata) @
     frame_header image_format image_width image_height @ scan_header image_format"

subsection \<open>Reading\<close>

definition M_SOF0 :: nat where "M_SOF0 = 0xc0"
definition M_SOS :: nat where "M_SOS = 0xda"
definition M_DQT :: nat where "M_DQT = 0xdb"
definition M_DHT :: nat where "M_DHT = 0xc4"
definition M_DRI :: nat where "M_DRI = 0xdd"

text \<open>The global variables that the tables are read into; \<^verbatim>\<open>dhuff\<close> holds two DC tables and two AC tables.\<close>

record jpeg_tables =
  datap :: "byte list"
  quant :: "byte list list"
  dhuff :: "dec_hufftbl list"
  dri :: nat

definition getbyte :: "byte list \<Rightarrow> crash + (nat \<times> byte list)" where
  "getbyte p = (case p of [] \<Rightarrow> Inl OutOfBounds | b # p \<Rightarrow> Inr (unat b, p))"

definition getword :: "byte list \<Rightarrow> crash + (nat \<times> byte list)" where
  "getword p = sbind (getbyte p) (\<lambda>(c1, p). sbind (getbyte p) (\<lambda>(c2, p). Inr (push_bit 8 c1 OR c2, p)))"

text \<open>A loop of \<open>n\<close> calls to \<^verbatim>\<open>getbyte\<close>.\<close>

definition getbytes :: "nat \<Rightarrow> byte list \<Rightarrow> crash + (byte list \<times> byte list)" where
  "getbytes n p = (if n \<le> length p then Inr (take n p, drop n p) else Inl OutOfBounds)"

text \<open>The loops inside of a marker; the result is the value that \<^verbatim>\<open>readtables\<close> returns there, if it does.\<close>

function read_dqt :: "int \<Rightarrow> jpeg_tables \<Rightarrow> crash + (int option \<times> jpeg_tables)" where
  "read_dqt lq s =
     (if lq > 2 then
        case getbyte (datap s) of
          Inl e \<Rightarrow> Inl e
        | Inr (pq, p) \<Rightarrow>
            let tq = pq AND 15; s = s\<lparr>datap := p\<rparr>
            in if tq > 3 then Inr (Some (- 1), s)
               else if drop_bit 4 pq \<noteq> 0 then Inr (Some (- 1), s)
               else
                 case getbytes 64 p of
                   Inl e \<Rightarrow> Inl e
                 | Inr (vs, p) \<Rightarrow> read_dqt (lq - 65) (s\<lparr>datap := p, quant := (quant s)[tq := vs]\<rparr>)
      else Inr (None, s))"
  by pat_completeness auto

termination by (relation "measure (\<lambda>(lq, s). nat lq)") auto

declare read_dqt.simps [simp del]

text \<open>\<^verbatim>\<open>huffvals\<close> has 256 entries; more values than that are written outside.\<close>

function read_dht :: "int \<Rightarrow> jpeg_tables \<Rightarrow> crash + (int option \<times> jpeg_tables)" where
  "read_dht l s =
     (if l > 2 then
        case getbyte (datap s) of
          Inl e \<Rightarrow> Inl e
        | Inr (b, p) \<Rightarrow>
            let th = b AND 15; tc = drop_bit 4 b; tt = tc * 2 + th; s = s\<lparr>datap := p\<rparr>
            in if tc > 1 \<or> th > 1 then Inr (Some (- 1), s)
               else
                 case getbytes 16 p of
                   Inl e \<Rightarrow> Inl e
                 | Inr (lens, p) \<Rightarrow>
                     let hufflen = map unat lens
                     in if sum_list hufflen > 256 then Inl OutOfBounds
                        else
                          case getbytes (sum_list hufflen) p of
                            Inl e \<Rightarrow> Inl e
                          | Inr (huffvals, p) \<Rightarrow>
                              case dec_makehuff hufflen huffvals (dhuff s ! tt) of
                                Inl e \<Rightarrow> Inl e
                              | Inr hu \<Rightarrow>
                                  read_dht (l - 17 - int (sum_list hufflen)) (s\<lparr>datap := p, dhuff := (dhuff s)[tt := hu]\<rparr>)
      else Inr (None, s))"
  by pat_completeness auto

termination by (relation "measure (\<lambda>(l, s). nat l)") auto

declare read_dht.simps [simp del]

definition readtables_marker :: "nat \<Rightarrow> jpeg_tables \<Rightarrow> crash + (int option \<times> jpeg_tables)" where
  "readtables_marker till s =
     sbind (getbyte (datap s)) (\<lambda>(b, p).
       if b \<noteq> 0xff then Inr (Some (- 1), s\<lparr>datap := p\<rparr>)
       else sbind (getbyte p) (\<lambda>(m, p).
         if m = till then Inr (Some 0, s\<lparr>datap := p\<rparr>)
         else if m = 0xc2 then Inr (Some 0, s\<lparr>datap := p\<rparr>)
         else sbind (getword p) (\<lambda>(l, p).
           if m = M_DQT then read_dqt (int l) (s\<lparr>datap := p\<rparr>)
           else if m = M_DHT then read_dht (int l) (s\<lparr>datap := p\<rparr>)
           else if m = M_DRI then sbind (getword p) (\<lambda>(d, p). Inr (None, s\<lparr>datap := p, dri := d\<rparr>))
           else sbind (getbytes (l - 2) p) (\<lambda>(_, p). Inr (None, s\<lparr>datap := p\<rparr>)))))"

partial_function (option) readtables :: "nat \<Rightarrow> jpeg_tables \<Rightarrow> (crash + (int \<times> jpeg_tables)) option" where
  "readtables till s =
     (case readtables_marker till s of
        Inl e \<Rightarrow> Some (Inl e)
      | Inr (Some r, s) \<Rightarrow> Some (Inr (r, s))
      | Inr (None, s) \<Rightarrow> readtables till s)"

end
