(* ===== verification/Gspca_Picture.thy ===== *)
theory Gspca_Picture
  imports Streamer_Types
begin

text \<open>
  From coefficients to pixels, \<^verbatim>\<open>src/mjpg-streamer/plugins/input_gspcav1/utils.c\<close>: the inverse transform \<^verbatim>\<open>idct\<close> with the tables
  that \<^verbatim>\<open>idctqtab\<close> and \<^verbatim>\<open>initcol\<close> prepare for it, and \<^verbatim>\<open>col221111\<close>, which writes the pixels of one MCU.  Numbers are
  32-bit words; \<^verbatim>\<open>>>\<close> is an arithmetic shift.
\<close>

subsection \<open>Fixed point numbers\<close>

definition IMULT :: "cint \<Rightarrow> cint \<Rightarrow> cint" where
  "IMULT a b = signed_drop_bit 11 (a * b)"

definition ITOINT :: "cint \<Rightarrow> cint" where
  "ITOINT a = signed_drop_bit 11 a"

text \<open>The values of \<^verbatim>\<open>IFIX\<close> for the constants of the code.\<close>

definition S22 :: cint where "S22 = 1567"
definition C22 :: cint where "C22 = 3784"
definition IC4 :: cint where "IC4 = 2896"
definition IFIX_0_5 :: cint where "IFIX_0_5 = 1024"
definition IFIX_128_5 :: cint where "IFIX_128_5 = 263168"

subsection \<open>The inverse transform\<close>

text \<open>\<^verbatim>\<open>XPP\<close>, \<^verbatim>\<open>XMP\<close>, \<^verbatim>\<open>ROT\<close> as functions on the two variables.\<close>

definition XPP :: "cint \<Rightarrow> cint \<Rightarrow> cint \<times> cint" where "XPP a b = (a + b, a - b)"
definition XMP :: "cint \<Rightarrow> cint \<Rightarrow> cint \<times> cint" where "XMP a b = (a - b, b + a)"

definition ROT :: "cint \<Rightarrow> cint \<Rightarrow> cint \<Rightarrow> cint \<Rightarrow> cint \<times> cint" where
  "ROT a b s c = (let t = IMULT (a + b) s in (IMULT a (c - s) + t, IMULT b (c + s) - t))"

text \<open>\<^verbatim>\<open>IDCT\<close> on the variables \<open>t0\<close> to \<open>t7\<close>.\<close>

definition IDCT :: "cint list \<Rightarrow> cint list" where
  "IDCT ts =
     (let t0 = ts ! 0; t1 = ts ! 1; t2 = ts ! 2; t3 = ts ! 3; t4 = ts ! 4; t5 = ts ! 5; t6 = ts ! 6; t7 = ts ! 7;
          (t0, t1) = XPP t0 t1;
          (t2, t3) = XMP t2 t3;
          t2 = IMULT t2 IC4 - t3;
          (t0, t3) = XPP t0 t3;
          (t1, t2) = XPP t1 t2;
          (t4, t7) = XMP t4 t7;
          (t5, t6) = XPP t5 t6;
          (t5, t7) = XMP t5 t7;
          t5 = IMULT t5 IC4;
          (t4, t6) = ROT t4 t6 S22 C22;
          t6 = t6 - t7;
          t5 = t5 - t6;
          t4 = t4 - t5;
          (t0, t7) = XPP t0 t7;
          (t1, t6) = XPP t1 t6;
          (t2, t5) = XPP t2 t5;
          (t3, t4) = XPP t3 t4
      in [t0, t1, t2, t3, t4, t5, t6, t7])"

definition zig2 :: "nat list" where
  "zig2 = [
    0, 2, 3, 9, 10, 20, 21, 35,
    14, 16, 25, 31, 39, 46, 50, 57,
    5, 7, 12, 18, 23, 33, 37, 48,
    27, 29, 41, 44, 52, 55, 59, 62,
    15, 26, 30, 40, 45, 51, 56, 58,
    1, 4, 8, 11, 19, 22, 34, 36,
    28, 42, 43, 53, 54, 60, 61, 63,
    6, 13, 17, 24, 32, 38, 47, 49]"

text \<open>The coefficients of row \<open>i\<close> go to \<open>t0, t5, t2, t7, t1, t4, t3, t6\<close>; the first one is added to the offset.\<close>

definition idct_row :: "cint list \<Rightarrow> cint list \<Rightarrow> cint \<Rightarrow> nat \<Rightarrow> cint list" where
  "idct_row inp quant off i =
     (let v = (\<lambda>k. let j = zig2 ! (8 * i + k) in inp ! j * quant ! j)
      in IDCT [(if i = 0 then off else 0) + v 0, v 4, v 2, v 6, v 5, v 1, v 7, v 3])"

text \<open>\<^verbatim>\<open>tmp\<close> has the results of the first pass in its columns.\<close>

definition idct :: "cint list \<Rightarrow> cint list \<Rightarrow> cint \<Rightarrow> int \<Rightarrow> cint list" where
  "idct inp quant off maxi =
     (if maxi = 1 then replicate 64 (ITOINT (off + inp ! 0 * quant ! 0))
      else
        let tmp = map (idct_row inp quant off) [0..<8]
        in concat (map (\<lambda>i. map ITOINT (IDCT (map (\<lambda>r. r ! i) tmp))) [0..<8]))"

subsection \<open>Its tables\<close>

definition zig :: "nat list" where
  "zig = [
    0, 1, 5, 6, 14, 15, 27, 28,
    2, 4, 7, 13, 16, 26, 29, 42,
    3, 8, 12, 17, 25, 30, 41, 43,
    9, 11, 18, 24, 31, 40, 44, 53,
    10, 19, 23, 32, 39, 45, 52, 54,
    20, 22, 33, 38, 46, 51, 55, 60,
    21, 34, 37, 47, 50, 56, 59, 61,
    35, 36, 48, 49, 57, 58, 62, 63]"

definition aaidct :: "cint list" where
  "aaidct = [724, 1004, 946, 851, 724, 569, 392, 200]"

definition idctqtab :: "byte list \<Rightarrow> cint list" where
  "idctqtab qin =
     fold (\<lambda>k qout. qout[zig ! k := ucast (qin ! (zig ! k)) * IMULT (aaidct ! (k div 8)) (aaidct ! (k mod 8))]) [0..<64] (replicate 64 0)"

definition scaleidctqtab :: "cint list \<Rightarrow> cint \<Rightarrow> cint list" where
  "scaleidctqtab q sc = map (\<lambda>x. IMULT x sc) q"

definition initcol :: "cint list list \<Rightarrow> cint list list" where
  "initcol q = q[1 := scaleidctqtab (q ! 1) 3629, 2 := scaleidctqtab (q ! 2) 2871]"

subsection \<open>Colours\<close>

definition STORECLAMP :: "cint \<Rightarrow> byte" where
  "STORECLAMP x = (if uint x \<ge> 256 then if x <s 0 then 0 else 255 else ucast x)"

definition store_byte :: "byte list \<Rightarrow> nat \<Rightarrow> byte \<Rightarrow> crash + byte list" where
  "store_byte p i b = (if i < length p then Inr (p[i := b]) else Inl OutOfBounds)"

text \<open>\<^verbatim>\<open>PIC\<close>: the pixel at index \<open>yi\<close> of the luminance goes to \<open>at\<close>, blue first.\<close>

definition PIC :: "cint list \<Rightarrow> nat \<Rightarrow> cint \<times> cint \<times> cint \<Rightarrow> nat \<Rightarrow> byte list \<Rightarrow> crash + byte list" where
  "PIC outp yi = (\<lambda>(cb, cr, cg) pos pic.
     let y = outp ! yi
     in sbind (store_byte pic (pos + 2) (STORECLAMP (y + cr))) (\<lambda>pic.
        sbind (store_byte pic (pos + 1) (STORECLAMP (y - cg))) (\<lambda>pic.
        store_byte pic pos (STORECLAMP (y + cb)))))"

definition CBCRCG :: "cint list \<Rightarrow> nat \<Rightarrow> cint \<times> cint \<times> cint" where
  "CBCRCG outp i =
     (let cb = outp ! (256 + i); cr = outp ! (320 + i)
      in (cb, cr, signed_drop_bit 8 (50 * cb + 130 * cr + 128)))"

text \<open>
  \<^verbatim>\<open>PIC221111\<close> for the chroma value \<open>xin\<close> of row \<open>r\<close>: four pixels, two on the line that begins at \<open>pos\<close> and two on the next.
  Rows 0 to 3 take the luminance blocks 0 and 1, rows 4 to 7 the blocks 2 and 3.
\<close>

definition PIC221111 :: "cint list \<Rightarrow> nat \<Rightarrow> nat \<Rightarrow> nat \<Rightarrow> nat \<Rightarrow> byte list \<Rightarrow> crash + byte list" where
  "PIC221111 outp pos stride r xin pic =
     (let c = CBCRCG outp (8 * r + xin);
          yi = 128 * (r div 4) + 16 * (r mod 4) + 64 * (xin div 4) + 2 * (xin mod 4);
          pic0 = pos + 2 * r * stride; pic1 = pic0 + stride
      in sbind (PIC outp yi c (pic0 + 6 * xin) pic) (\<lambda>pic.
         sbind (PIC outp (yi + 1) c (pic0 + 6 * xin + 3) pic) (\<lambda>pic.
         sbind (PIC outp (yi + 8) c (pic1 + 6 * xin) pic) (\<lambda>pic.
         PIC outp (yi + 9) c (pic1 + 6 * xin + 3) pic))))"

fun sfold :: "('a \<Rightarrow> 'b \<Rightarrow> crash + 'b) \<Rightarrow> 'a list \<Rightarrow> 'b \<Rightarrow> crash + 'b" where
  "sfold f [] s = Inr s"
| "sfold f (x # xs) s = sbind (f x s) (sfold f xs)"

text \<open>The picture is written from \<open>pos\<close> on.\<close>

definition col221111 :: "cint list \<Rightarrow> nat \<Rightarrow> nat \<Rightarrow> byte list \<Rightarrow> crash + byte list" where
  "col221111 outp pos stride = sfold (\<lambda>r. sfold (PIC221111 outp pos stride r) [0..<8]) [0..<8]"

subsection \<open>The shortcut of the inverse transform\<close>

definition idct_full :: "cint list \<Rightarrow> cint list \<Rightarrow> cint \<Rightarrow> cint list" where
  "idct_full inp quant off = idct inp quant off 64"

lemma IMULT_0 [simp]: "IMULT 0 b = 0"
  by (simp add: IMULT_def)

lemma IDCT_dc: "IDCT [a, 0, 0, 0, 0, 0, 0, 0] = replicate 8 a"
  by (simp add: IDCT_def XPP_def XMP_def ROT_def numeral_eq_Suc)

lemma zig2_positive: "\<forall>k < 64. k \<noteq> 0 \<longrightarrow> zig2 ! k \<noteq> 0 \<and> zig2 ! k < 64"
proof -
  have "list_all (\<lambda>k. k \<noteq> 0 \<longrightarrow> zig2 ! k \<noteq> 0 \<and> zig2 ! k < 64) [0..<64]" by code_simp
  then show ?thesis by (simp add: list_all_iff del: upt_rec_numeral)
qed

lemma idct_row_dc:
  assumes "\<forall>j. 0 < j \<and> j < 64 \<longrightarrow> inp ! j = 0" "i < 8"
  shows "idct_row inp quant off i = replicate 8 (if i = 0 then off + inp ! 0 * quant ! 0 else 0)"
proof -
  have zero: "inp ! (zig2 ! (8 * i + k)) = 0" if "8 * i + k \<noteq> 0" "k < 8" for k
    using zig2_positive [rule_format, of "8 * i + k"] assms that by auto
  have z0: "zig2 ! 0 = 0" by (simp add: zig2_def)
  show ?thesis
  proof (cases "i = 0")
    case True
    with zero z0 IDCT_dc [of "off + inp ! 0 * quant ! 0"] show ?thesis by (simp add: idct_row_def Let_def)
  next
    case False
    have "inp ! (zig2 ! (8 * i)) = 0" "inp ! (zig2 ! Suc (8 * i)) = 0" "inp ! (zig2 ! Suc (Suc (8 * i))) = 0"
      using zero [of 0] zero [of 1] zero [of 2] False by simp_all
    with zero False IDCT_dc [of 0] show ?thesis by (simp add: idct_row_def Let_def)
  qed
qed

lemma upt_8: "[0..<8] = [0, 1, 2, 3, 4, 5, 6, 7]"
  by (simp add: upt_conv_Cons)

lemma idct_dc_only:
  assumes "\<forall>j. 0 < j \<and> j < 64 \<longrightarrow> inp ! j = 0" "maxi \<noteq> 1"
  shows "idct inp quant off maxi = idct inp quant off 1"
proof -
  have rows: "map (idct_row inp quant off) [0..<8] = replicate 8 (off + inp ! 0 * quant ! 0) # replicate 7 (replicate 8 0)"
    using idct_row_dc [OF assms(1), of 0 quant off] idct_row_dc [OF assms(1), of _ quant off]
    unfolding upt_8 by (simp add: numeral_eq_Suc)
  have "map (\<lambda>r. r ! i) (map (idct_row inp quant off) [0..<8]) = [off + inp ! 0 * quant ! 0, 0, 0, 0, 0, 0, 0, 0]" if "i < 8" for i
  proof -
    have "map (\<lambda>r. r ! i) (replicate 8 a # replicate 7 (replicate 8 0)) = a # replicate 7 0" for a :: cint
      using that by simp
    then show ?thesis unfolding rows by (simp add: numeral_eq_Suc)
  qed
  then have "concat (map (\<lambda>i. map ITOINT (IDCT (map (\<lambda>r. r ! i) (map (idct_row inp quant off) [0..<8])))) [0..<8]) =
      concat (map (\<lambda>i. replicate 8 (ITOINT (off + inp ! 0 * quant ! 0))) [0..<8])"
    by (intro arg_cong [of _ _ concat] map_cong refl) (simp add: IDCT_dc)
  also have "\<dots> = replicate 64 (ITOINT (off + inp ! 0 * quant ! 0))"
    by (simp add: upt_8 flip: replicate_add)
  finally show ?thesis using assms(2) by (simp add: idct_def Let_def)
qed

subsection \<open>The pixels of an MCU\<close>

text \<open>The pixel in row \<open>y\<close> and column \<open>x\<close> of an MCU, with the luminance in four blocks and one chroma value for four pixels.\<close>

definition luma :: "cint list \<Rightarrow> nat \<Rightarrow> nat \<Rightarrow> cint" where
  "luma outp y x = outp ! (64 * (2 * (y div 8) + x div 8) + 8 * (y mod 8) + x mod 8)"

definition channel :: "cint list \<Rightarrow> nat \<Rightarrow> nat \<Rightarrow> nat \<Rightarrow> byte" where
  "channel outp y x ch =
     (case CBCRCG outp (8 * (y div 2) + x div 2) of (cb, cr, cg) \<Rightarrow>
        STORECLAMP (if ch = 0 then luma outp y x + cb else if ch = 1 then luma outp y x - cg else luma outp y x + cr))"

text \<open>Every store puts the right value for its place; \<open>Q\<close> are the places that are written.\<close>

definition writes :: "(nat \<Rightarrow> byte) \<Rightarrow> nat set \<Rightarrow> (byte list \<Rightarrow> crash + byte list) \<Rightarrow> bool" where
  "writes F Q f \<longleftrightarrow> (\<forall>pic. Q \<subseteq> {..<length pic} \<longrightarrow>
     (\<exists>pic'. f pic = Inr pic' \<and> length pic' = length pic \<and> (\<forall>i < length pic. pic' ! i = (if i \<in> Q then F i else pic ! i))))"

lemma writes_store: "F i = b \<Longrightarrow> writes F {i} (\<lambda>pic. store_byte pic i b)"
  by (auto simp: writes_def store_byte_def nth_list_update)

lemma writes_bind:
  assumes "writes F Q f" "writes F R g"
  shows "writes F (Q \<union> R) (\<lambda>pic. sbind (f pic) g)"
  unfolding writes_def
proof (intro allI impI)
  fix pic :: "byte list" assume len: "Q \<union> R \<subseteq> {..<length pic}"
  then obtain pic1 where pic1: "f pic = Inr pic1" "length pic1 = length pic" "\<forall>i < length pic. pic1 ! i = (if i \<in> Q then F i else pic ! i)"
    using assms(1) unfolding writes_def by blast
  have "R \<subseteq> {..<length pic1}" using len pic1(2) by simp
  then obtain pic2 where "g pic1 = Inr pic2" "length pic2 = length pic1" "\<forall>i < length pic1. pic2 ! i = (if i \<in> R then F i else pic1 ! i)"
    using assms(2) unfolding writes_def by blast
  with pic1 show "\<exists>pic'. sbind (f pic) g = Inr pic' \<and> length pic' = length pic \<and>
      (\<forall>i < length pic. pic' ! i = (if i \<in> Q \<union> R then F i else pic ! i))" by auto
qed

lemma writes_sfold:
  assumes "\<And>x. x \<in> set xs \<Longrightarrow> writes F (Q x) (f x)"
  shows "writes F (\<Union> (Q ` set xs)) (sfold f xs)"
  using assms
proof (induction xs)
  case Nil
  then show ?case by (simp add: writes_def)
next
  case (Cons x xs)
  then show ?case using writes_bind [of F "Q x" "f x" "\<Union> (Q ` set xs)" "sfold f xs"] by simp
qed

text \<open>What belongs at an index of the picture, when the MCU begins at \<open>pos\<close>.\<close>

definition picture_value :: "cint list \<Rightarrow> nat \<Rightarrow> nat \<Rightarrow> nat \<Rightarrow> byte" where
  "picture_value outp pos stride i =
     channel outp ((i - pos) div stride) ((i - pos) mod stride div 3) ((i - pos) mod stride mod 3)"

lemma picture_value_at:
  assumes "48 \<le> stride" "x < 16" "ch < 3"
  shows "picture_value outp pos stride (pos + y * stride + 3 * x + ch) = channel outp y x ch"
proof -
  have "(y * stride + (3 * x + ch)) div stride = y" "(y * stride + (3 * x + ch)) mod stride = 3 * x + ch" using assms by simp_all
  moreover have "(3 * x + ch) div 3 = x" "(3 * x + ch) mod 3 = ch" using assms(3) by simp_all
  moreover have "pos + y * stride + 3 * x + ch - pos = y * stride + (3 * x + ch)" by simp
  ultimately show ?thesis unfolding picture_value_def by (simp only:)
qed

definition pixel_places :: "nat \<Rightarrow> nat \<Rightarrow> nat \<Rightarrow> nat \<Rightarrow> nat set" where
  "pixel_places pos stride y x = {pos + y * stride + 3 * x + 2} \<union> ({pos + y * stride + 3 * x + 1} \<union> {pos + y * stride + 3 * x})"

lemma writes_PIC:
  assumes "48 \<le> stride" "x < 16" "c = CBCRCG outp (8 * (y div 2) + x div 2)" "yi = 64 * (2 * (y div 8) + x div 8) + 8 * (y mod 8) + x mod 8"
    and "p = pos + y * stride + 3 * x"
  shows "writes (picture_value outp pos stride) (pixel_places pos stride y x) (PIC outp yi c p)"
proof -
  obtain cb cr cg where c: "c = (cb, cr, cg)" by (cases c)
  have l: "outp ! yi = luma outp y x" by (simp add: luma_def assms(4))
  have "picture_value outp pos stride (p + 2) = STORECLAMP (outp ! yi + cr)"
    "picture_value outp pos stride (p + 1) = STORECLAMP (outp ! yi - cg)"
    "picture_value outp pos stride p = STORECLAMP (outp ! yi + cb)"
    using picture_value_at [OF assms(1,2), of 2 outp pos y] picture_value_at [OF assms(1,2), of 1 outp pos y]
      picture_value_at [OF assms(1,2), of 0 outp pos y] c assms(3,5)
    by (simp_all add: channel_def l split: prod.splits)
  then have "writes (picture_value outp pos stride) ({p + 2} \<union> ({p + 1} \<union> {p})) (PIC outp yi c p)"
    unfolding PIC_def c prod.case Let_def by (intro writes_bind writes_store)
  then show ?thesis by (simp add: pixel_places_def assms(5))
qed

lemma halves:
  fixes n :: nat
  shows "2 * n div 8 = n div 4" "2 * n mod 8 = 2 * (n mod 4)" "(2 * n + 1) div 8 = n div 4" "(2 * n + 1) mod 8 = 2 * (n mod 4) + 1"
  using div_mult2_eq [of "2 * n" 2 4] div_mult2_eq [of "2 * n + 1" 2 4] mod_mult2_eq [of "2 * n" 2 4] mod_mult2_eq [of "2 * n + 1" 2 4]
  by simp_all

lemma writes_PIC221111:
  assumes "48 \<le> stride" "r < 8" "xin < 8"
  shows "writes (picture_value outp pos stride)
    (pixel_places pos stride (2 * r) (2 * xin) \<union> (pixel_places pos stride (2 * r) (2 * xin + 1) \<union>
      (pixel_places pos stride (2 * r + 1) (2 * xin) \<union> pixel_places pos stride (2 * r + 1) (2 * xin + 1))))
    (PIC221111 outp pos stride r xin)"
proof -
  note r = halves [of r] and x = halves [of xin]
  let ?yi = "128 * (r div 4) + 16 * (r mod 4) + 64 * (xin div 4) + 2 * (xin mod 4)"
  let ?c = "CBCRCG outp (8 * r + xin)"
  have half: "(2 * n) div 2 = n" "(2 * n + 1) div 2 = n" for n :: nat by simp_all
  have pixel: "writes (picture_value outp pos stride) (pixel_places pos stride y' x') (PIC outp yi ?c p)"
    if "x' < 16" "y' div 2 = r" "x' div 2 = xin" "yi = 64 * (2 * (y' div 8) + x' div 8) + 8 * (y' mod 8) + x' mod 8" "p = pos + y' * stride + 3 * x'"
    for x' y' yi p
    using writes_PIC [OF assms(1) that(1) _ that(4,5), of ?c outp] that(2,3) by simp
  have "writes (picture_value outp pos stride) (pixel_places pos stride (2 * r) (2 * xin)) (PIC outp ?yi ?c (pos + 2 * r * stride + 6 * xin))"
    by (rule pixel) (use assms(3) half in \<open>simp_all only: r x\<close>, simp_all)
  moreover have "writes (picture_value outp pos stride) (pixel_places pos stride (2 * r) (2 * xin + 1)) (PIC outp (?yi + 1) ?c (pos + 2 * r * stride + 6 * xin + 3))"
    by (rule pixel) (use assms(3) half in \<open>simp_all only: r x\<close>, simp_all)
  moreover have "writes (picture_value outp pos stride) (pixel_places pos stride (2 * r + 1) (2 * xin)) (PIC outp (?yi + 8) ?c (pos + 2 * r * stride + stride + 6 * xin))"
    by (rule pixel) (use assms(3) half in \<open>simp_all only: r x\<close>, simp_all)
  moreover have "writes (picture_value outp pos stride) (pixel_places pos stride (2 * r + 1) (2 * xin + 1)) (PIC outp (?yi + 9) ?c (pos + 2 * r * stride + stride + 6 * xin + 3))"
    by (rule pixel) (use assms(3) half in \<open>simp_all only: r x\<close>, simp_all)
  ultimately show ?thesis
    unfolding PIC221111_def Let_def by (intro writes_bind)
qed

lemma union_pairs: "(\<Union>y < (16::nat). f y) = (\<Union>r < (8::nat). f (2 * r) \<union> f (2 * r + 1))"
proof -
  have l: "[0..<16] = [0, 1, 2, 3, 4, 5, 6, 7, 8, 9, 10, 11, 12, 13, 14, 15]" "[0..<8] = [0, 1, 2, 3, 4, 5, 6, 7]"
    by (simp_all add: upt_conv_Cons)
  have "{..<16} = {0, 1, 2, 3, 4, 5, 6, 7, 8, 9, 10, 11, 12, 13, 14, 15 :: nat}" "{..<8} = {0, 1, 2, 3, 4, 5, 6, 7 :: nat}"
    unfolding lessThan_atLeast0 set_upt [symmetric] l by simp_all
  then show ?thesis by (simp add: Un_assoc)
qed

lemma writes_col221111:
  assumes "48 \<le> stride"
  shows "writes (picture_value outp pos stride) (\<Union>y < 16. \<Union>x < 16. pixel_places pos stride y x) (col221111 outp pos stride)"
proof -
  let ?Q = "\<lambda>r xin. pixel_places pos stride (2 * r) (2 * xin) \<union> (pixel_places pos stride (2 * r) (2 * xin + 1) \<union>
      (pixel_places pos stride (2 * r + 1) (2 * xin) \<union> pixel_places pos stride (2 * r + 1) (2 * xin + 1)))"
  have "writes (picture_value outp pos stride) (\<Union> ((\<lambda>r. \<Union> (?Q r ` set [0..<8])) ` set [0..<8])) (col221111 outp pos stride)"
    unfolding col221111_def by (intro writes_sfold writes_PIC221111 assms) simp_all
  moreover have "\<Union> ((\<lambda>r. \<Union> (?Q r ` set [0..<8])) ` set [0..<8]) = (\<Union>y < 16. \<Union>x < 16. pixel_places pos stride y x)"
  proof -
    have "(\<Union>y < 16. \<Union>x < 16. pixel_places pos stride y x) =
        (\<Union>r < 8. (\<Union>x < 8. pixel_places pos stride (2 * r) (2 * x) \<union> pixel_places pos stride (2 * r) (2 * x + 1)) \<union>
          (\<Union>x < 8. pixel_places pos stride (2 * r + 1) (2 * x) \<union> pixel_places pos stride (2 * r + 1) (2 * x + 1)))"
      by (simp only: union_pairs)
    then show ?thesis by (simp only: set_upt atLeast0LessThan UN_Un_distrib Un_assoc)
  qed
  ultimately show ?thesis by simp
qed

lemma pixel_places_iff: "i \<in> pixel_places pos stride y x \<longleftrightarrow> (\<exists>ch < 3. i = pos + y * stride + 3 * x + ch)"
proof -
  have "(\<exists>ch < 3. P ch) \<longleftrightarrow> P 2 \<or> P 1 \<or> P (0 :: nat)" for P
    by (metis One_nat_def less_Suc_eq less_one numeral_2_eq_2 numeral_3_eq_3)
  then show ?thesis by (auto simp add: pixel_places_def)
qed

lemma col221111_writes:
  assumes "48 \<le> stride" "pos + 15 * stride + 48 \<le> length pic"
  shows "\<exists>pic'. col221111 outp pos stride pic = Inr pic' \<and> length pic' = length pic \<and>
    (\<forall>y < 16. \<forall>x < 16. \<forall>ch < 3. pic' ! (pos + y * stride + 3 * x + ch) = channel outp y x ch) \<and>
    (\<forall>i < length pic. (\<forall>y < 16. \<forall>x < 16. \<forall>ch < 3. i \<noteq> pos + y * stride + 3 * x + ch) \<longrightarrow> pic' ! i = pic ! i)"
proof -
  let ?Q = "\<Union>y < 16. \<Union>x < 16. pixel_places pos stride y x"
  have Q: "i \<in> ?Q \<longleftrightarrow> (\<exists>y < 16. \<exists>x < 16. \<exists>ch < 3. i = pos + y * stride + 3 * x + ch)" for i
    by (simp add: pixel_places_iff) (blast intro: lessThan_iff [THEN iffD2])
  have bound: "pos + y * stride + 3 * x + ch < length pic" if "y < 16" "x < 16" "ch < 3" for y x ch
  proof -
    have "y * stride \<le> 15 * stride" using that(1) by (intro mult_le_mono1) simp
    then show ?thesis using assms(2) that(2,3) by linarith
  qed
  have "?Q \<subseteq> {..<length pic}"
  proof
    fix i assume "i \<in> ?Q"
    then obtain y x ch where "y < 16" "x < 16" "ch < 3" "i = pos + y * stride + 3 * x + ch" unfolding Q by blast
    with bound show "i \<in> {..<length pic}" by simp
  qed
  then obtain pic' where pic': "col221111 outp pos stride pic = Inr pic'" "length pic' = length pic"
    "\<forall>i < length pic. pic' ! i = (if i \<in> ?Q then picture_value outp pos stride i else pic ! i)"
    using writes_col221111 [OF assms(1), of outp pos] unfolding writes_def by blast
  have "pic' ! (pos + y * stride + 3 * x + ch) = channel outp y x ch" if "y < 16" "x < 16" "ch < 3" for y x ch
  proof -
    have "pos + y * stride + 3 * x + ch \<in> ?Q" unfolding Q using that by blast
    then show ?thesis using pic'(3) [rule_format, OF bound [OF that]] picture_value_at [OF assms(1) that(2,3), of outp pos y] by simp
  qed
  moreover have "pic' ! i = pic ! i" if "i < length pic" "\<forall>y < 16. \<forall>x < 16. \<forall>ch < 3. i \<noteq> pos + y * stride + 3 * x + ch" for i
    using pic'(3) that Q by auto
  ultimately show ?thesis using pic'(1,2) by blast
qed

text \<open>
  C13.  \<^verbatim>\<open>col221111\<close> writes the 16 times 16 pixels of an MCU to their places in the picture, each from the right values of the four
  luminance blocks and the two chroma blocks, and nothing else, as long as the MCU lies inside of the picture.
\<close>

theorem col221111_pixels:
  assumes "48 \<le> stride" "pos + 15 * stride + 48 \<le> length pic"
  shows "\<exists>pic'. col221111 outp pos stride pic = Inr pic' \<and> length pic' = length pic \<and>
    (\<forall>y < 16. \<forall>x < 16. \<forall>ch < 3. pic' ! (pos + y * stride + 3 * x + ch) = channel outp y x ch) \<and>
    (\<forall>i < length pic. (\<forall>y < 16. \<forall>x < 16. \<forall>ch < 3. i \<noteq> pos + y * stride + 3 * x + ch) \<longrightarrow> pic' ! i = pic ! i)"
  by (rule col221111_writes [OF assms])

theorem col221111_pixels_witness:
  "\<exists>pic'. col221111 (replicate 384 0) 0 48 (replicate 768 0) = Inr pic' \<and> length pic' = 768 \<and> pic' ! 767 = channel (replicate 384 0) 15 15 2"
proof -
  obtain pic' where pic': "col221111 (replicate 384 0) 0 48 (replicate 768 0) = Inr pic'" "length pic' = length (replicate 768 (0 :: byte))"
    "\<forall>y < 16. \<forall>x < 16. \<forall>ch < 3. pic' ! (0 + y * 48 + 3 * x + ch) = channel (replicate 384 0) y x ch"
    using col221111_pixels [of 48 0 "replicate 768 0" "replicate 384 0"] by (auto simp del: replicate.simps)
  then show ?thesis using pic'(3) [rule_format, of 15 15 2] by (auto simp del: replicate.simps)
qed

text \<open>
  C12.  Skipping the transform of a block that has nothing but its first coefficient, as \<^verbatim>\<open>idct\<close> does when the decoder says so,
  gives what the full transform gives.
\<close>

theorem idct_shortcut:
  assumes "\<forall>j. 0 < j \<and> j < 64 \<longrightarrow> inp ! j = 0"
  shows "idct inp quant off maxi = idct inp quant off 1"
  using idct_dc_only [OF assms] by (cases "maxi = 1") simp_all

theorem idct_shortcut_witness: "idct (7 # replicate 63 0) (replicate 64 3) 1024 64 = idct (7 # replicate 63 0) (replicate 64 3) 1024 1"
  by (rule idct_shortcut) (auto simp: nth_Cons' simp del: replicate.simps)


end
