(* ===== verification/Gspca_Jpeg.thy ===== *)
theory Gspca_Jpeg
imports Gspca_Marker Gspca_Picture
begin

text \<open>
  The driver of the decoder, \<^verbatim>\<open>jpeg_decode()\<close> of \<^verbatim>\<open>src/mjpg-streamer/plugins/input_gspcav1/utils.c\<close>: the frame and scan headers
  with their checks, the allocation of the picture, restart markers and the loop over the MCUs.  A return value is the
  first component of a result; the global tables survive it whatever it is.
\<close>

subsection \<open>Return values\<close>

definition ERR_NO_SOI :: int where "ERR_NO_SOI = 1"
definition ERR_NOT_8BIT :: int where "ERR_NOT_8BIT = 2"
definition ERR_BAD_WIDTH_OR_HEIGHT :: int where "ERR_BAD_WIDTH_OR_HEIGHT = 5"
definition ERR_TOO_MANY_COMPPS :: int where "ERR_TOO_MANY_COMPPS = 6"
definition ERR_ILLEGAL_HV :: int where "ERR_ILLEGAL_HV = 7"
definition ERR_QUANT_TABLE_SELECTOR :: int where "ERR_QUANT_TABLE_SELECTOR = 8"
definition ERR_NOT_YCBCR_221111 :: int where "ERR_NOT_YCBCR_221111 = 9"
definition ERR_UNKNOWN_CID_IN_SCAN :: int where "ERR_UNKNOWN_CID_IN_SCAN = 10"
definition ERR_NOT_SEQUENTIAL_DCT :: int where "ERR_NOT_SEQUENTIAL_DCT = 11"
definition ERR_WRONG_MARKER :: int where "ERR_WRONG_MARKER = 12"
definition ERR_NO_EOI :: int where "ERR_NO_EOI = 13"
definition ERR_BAD_TABLES :: int where "ERR_BAD_TABLES = 14"

definition M_SOI :: nat where "M_SOI = 0xd8"
definition M_RST0 :: int where "M_RST0 = 0xd0"
definition M_EOI :: int where "M_EOI = 0xd9"
definition MAXCOMP :: nat where "MAXCOMP = 4"

text \<open>\<^verbatim>\<open>err = ...; goto error\<close> inside of a part that otherwise gives a value, and the same for parts that may not return.\<close>

definition ebind :: "crash + (int + 'a) \<Rightarrow> ('a \<Rightarrow> crash + (int + 'b)) \<Rightarrow> crash + (int + 'b)" where
  "ebind m f = sbind m (\<lambda>r. case r of Inl err \<Rightarrow> Inr (Inl err) | Inr x \<Rightarrow> f x)"

definition obind :: "(crash + 'a) option \<Rightarrow> ('a \<Rightarrow> (crash + 'b) option) \<Rightarrow> (crash + 'b) option" where
  "obind m f = (case m of None \<Rightarrow> None | Some (Inl e) \<Rightarrow> Some (Inl e) | Some (Inr x) \<Rightarrow> f x)"

definition check :: "bool \<Rightarrow> int \<Rightarrow> crash + (int + 'a) \<Rightarrow> crash + (int + 'a)" where
  "check bad err k = (if bad then Inr (Inl err) else k)"

subsection \<open>The headers\<close>

record comp =
  cid :: nat
  hv :: nat
  tq :: nat

definition read_soi :: "byte list \<Rightarrow> crash + (int + byte list)" where
  "read_soi p =
     sbind (getbyte p) (\<lambda>(b, p). check (b \<noteq> 0xff) ERR_NO_SOI (
     sbind (getbyte p) (\<lambda>(b, p). check (b \<noteq> M_SOI) ERR_NO_SOI (
     Inr (Inr p)))))"

fun read_comps :: "nat \<Rightarrow> byte list \<Rightarrow> crash + (int + (comp list \<times> byte list))" where
  "read_comps 0 p = Inr (Inr ([], p))"
| "read_comps (Suc n) p =
     sbind (getbyte p) (\<lambda>(c, p).
     sbind (getbyte p) (\<lambda>(h, p).
     sbind (getbyte p) (\<lambda>(t, p).
     check (drop_bit 4 h > 3 \<or> h AND 15 > 3) ERR_ILLEGAL_HV (
     check (t > 3) ERR_QUANT_TABLE_SELECTOR (
     ebind (read_comps n p) (\<lambda>(cs, p). Inr (Inr (\<lparr>cid = c, hv = h, tq = t\<rparr> # cs, p))))))))"

text \<open>Height, width and components.\<close>

definition read_frame :: "byte list \<Rightarrow> crash + (int + (nat \<times> nat \<times> comp list \<times> byte list))" where
  "read_frame p =
     sbind (getword p) (\<lambda>(_, p).
     sbind (getbyte p) (\<lambda>(i, p). check (i \<noteq> 8) ERR_NOT_8BIT (
     sbind (getword p) (\<lambda>(intheight, p).
     sbind (getword p) (\<lambda>(intwidth, p).
     check (intheight AND 7 \<noteq> 0 \<or> intwidth AND 15 \<noteq> 0) ERR_BAD_WIDTH_OR_HEIGHT (
     sbind (getbyte p) (\<lambda>(nc, p).
     check (nc > MAXCOMP) ERR_TOO_MANY_COMPPS (
     ebind (read_comps nc p) (\<lambda>(comps, p). Inr (Inr (intheight, intwidth, comps, p)))))))))))"

text \<open>A component of the scan with its DC and AC tables.\<close>

record dscan =
  comp +
  tdc :: nat
  tac :: nat

fun read_dscans :: "comp list \<Rightarrow> nat \<Rightarrow> byte list \<Rightarrow> crash + (int + (dscan list \<times> byte list))" where
  "read_dscans comps 0 p = Inr (Inr ([], p))"
| "read_dscans comps (Suc n) p =
     sbind (getbyte p) (\<lambda>(c, p).
     sbind (getbyte p) (\<lambda>(t, p).
     check (drop_bit 4 t > 1 \<or> t AND 15 > 1) ERR_QUANT_TABLE_SELECTOR (
     case find (\<lambda>co. cid co = c) comps of
       None \<Rightarrow> Inr (Inl ERR_UNKNOWN_CID_IN_SCAN)
     | Some co \<Rightarrow>
         ebind (read_dscans comps n p) (\<lambda>(ds, p).
           Inr (Inr (\<lparr>cid = c, hv = hv co, tq = tq co, tdc = drop_bit 4 t, tac = t AND 15\<rparr> # ds, p))))))"

definition read_scan :: "comp list \<Rightarrow> byte list \<Rightarrow> crash + (int + (dscan list \<times> byte list))" where
  "read_scan comps p =
     sbind (getword p) (\<lambda>(_, p).
     sbind (getbyte p) (\<lambda>(ns, p). check (ns \<noteq> 3) ERR_NOT_YCBCR_221111 (
     ebind (read_dscans comps 3 p) (\<lambda>(ds, p).
     sbind (getbyte p) (\<lambda>(i, p).
     sbind (getbyte p) (\<lambda>(j, p).
     sbind (getbyte p) (\<lambda>(m, p).
     check (i \<noteq> 0 \<or> j \<noteq> 63 \<or> m \<noteq> 0) ERR_NOT_SEQUENTIAL_DCT (
     check (map cid ds \<noteq> [1, 2, 3]) ERR_NOT_YCBCR_221111 (
     check (hv (ds ! 1) \<noteq> 0x11 \<or> hv (ds ! 2) \<noteq> 0x11) ERR_NOT_YCBCR_221111 (
     Inr (Inr (ds, p))))))))))))"

subsection \<open>The picture\<close>

text \<open>\<^verbatim>\<open>struct jpeg_decdata\<close> as \<^verbatim>\<open>malloc\<close> gives it, \<^verbatim>\<open>dquant\<close> apart, which is filled before it is used.\<close>

record decdata =
  dcts :: "int list"
  decout :: "cint list"

text \<open>What changes from MCU to MCU; \<^verbatim>\<open>max\<close> is an array of the stack frame, \<^verbatim>\<open>pic\<close> is \<^verbatim>\<open>None\<close> for the null pointer.\<close>

record decoder = decdata +
  dscans :: "scan list"
  input :: jpeg_in
  nm :: nat
  rm :: int
  maxs :: "int list"
  picture :: "byte list option"

definition dec_checkmarker :: "nat \<Rightarrow> decoder \<Rightarrow> crash + (int \<times> decoder)" where
  "dec_checkmarker interval d =
     sbind (dec_readmarker (input d)) (\<lambda>(m, inp).
       let d = d\<lparr>input := inp\<rparr>
       in if m \<noteq> rm d then Inr (- 1, d)
          else Inr (0, d\<lparr>nm := interval, rm := (rm d + 1) AND NOT 8, dscans := map (\<lambda>sc. sc\<lparr>dc := 0\<rparr>) (dscans d)\<rparr>))"

text \<open>\<^verbatim>\<open>idct\<close> from block \<open>k\<close> of \<^verbatim>\<open>dcts\<close> to block \<open>l\<close> of \<^verbatim>\<open>out\<close> with \<^verbatim>\<open>max[m]\<close>.\<close>

definition idct_block :: "cint list list \<Rightarrow> int list \<Rightarrow> int list \<Rightarrow> nat \<times> nat \<times> nat \<times> cint \<times> nat \<Rightarrow> cint list \<Rightarrow> cint list" where
  "idct_block dquant cs ms = (\<lambda>(k, l, q, off, m) outp.
     take (64 * l) outp @ idct (map word_of_int (take 64 (drop (64 * k) cs))) (dquant ! q) off (ms ! m) @ drop (64 * l + 64) outp)"

definition idct_plan :: "bool \<Rightarrow> (nat \<times> nat \<times> nat \<times> cint \<times> nat) list" where
  "idct_plan enc411 =
     (if enc411 then
        [(0, 0, 0, IFIX_128_5, 0), (1, 1, 0, IFIX_128_5, 1), (2, 2, 0, IFIX_128_5, 2), (3, 3, 0, IFIX_128_5, 3),
         (4, 4, 1, IFIX_0_5, 4), (5, 5, 2, IFIX_0_5, 5)]
      else [(0, 0, 0, IFIX_128_5, 0), (1, 1, 0, IFIX_128_5, 1), (2, 4, 1, IFIX_0_5, 4), (3, 5, 2, IFIX_0_5, 5)])"

text \<open>One turn of the inner loop at column \<open>mx\<close> of row \<open>my\<close>; the first component of the result is the error.\<close>

definition decode_mcu :: "nat \<Rightarrow> bool \<Rightarrow> cint list list \<Rightarrow> nat \<Rightarrow> nat \<times> nat \<Rightarrow> decoder \<Rightarrow> (crash + (int \<times> decoder)) option" where
  "decode_mcu interval enc411 dquant mcusx = (\<lambda>(my, mx) d.
     let d = (if interval \<noteq> 0 then d\<lparr>nm := nm d - 1\<rparr> else d)
     in obind (Some (if interval \<noteq> 0 \<and> nm d = 0 then dec_checkmarker interval d else Inr (0, d))) (\<lambda>(bad, d).
       if bad \<noteq> 0 then Some (Inr (ERR_WRONG_MARKER, d))
       else obind (decode_mcus (if enc411 then 6 else 4) (dscans d) (dcts d) (input d)) (\<lambda>(scs, cs, inp, ms).
         let ms = ms @ drop (length ms) (maxs d);
             outp = fold (idct_block dquant cs ms) (idct_plan enc411) (decout d);
             d = d\<lparr>dscans := scs, dcts := cs, input := inp, maxs := ms, decout := outp\<rparr>;
             pos = (my * (if enc411 then 16 else 8) * mcusx + mx) * 16 * 3
         in case picture d of
              None \<Rightarrow> Some (Inl NullDereference)
            | Some pic \<Rightarrow>
                Some (sbind (col221111 outp pos (mcusx * 16 * 3) pic) (\<lambda>pic. Inr (0, d\<lparr>picture := Some pic\<rparr>))))))"

fun mcu_loop :: "('m \<Rightarrow> 'd \<Rightarrow> (crash + (int \<times> 'd)) option) \<Rightarrow> 'm list \<Rightarrow> 'd \<Rightarrow> (crash + (int \<times> 'd)) option" where
  "mcu_loop f [] d = Some (Inr (0, d))"
| "mcu_loop f (m # ms) d = obind (f m d) (\<lambda>(err, d). if err \<noteq> 0 then Some (Inr (err, d)) else mcu_loop f ms d)"

definition mcu_positions :: "nat \<Rightarrow> nat \<Rightarrow> (nat \<times> nat) list" where
  "mcu_positions mcusx mcusy = concat (map (\<lambda>my. map (Pair my) [0..<mcusx]) [0..<mcusy])"

text \<open>
  \<^verbatim>\<open>realloc\<close> keeps what fits of the old picture; \<open>memory\<close> is what new memory holds, and without \<open>realloc_ok\<close> the result is the
  null pointer.
\<close>

definition resize :: "bool \<Rightarrow> (nat \<Rightarrow> byte) \<Rightarrow> nat \<Rightarrow> byte list option \<Rightarrow> byte list option" where
  "resize realloc_ok memory n pic =
     (let old = (case pic of None \<Rightarrow> [] | Some p \<Rightarrow> take n p)
      in if realloc_ok then Some (old @ map memory [length old..<n]) else None)"

text \<open>The tables for the inverse transform and the scans as they are before the first MCU.\<close>

definition dquants :: "byte list list \<Rightarrow> dscan list \<Rightarrow> cint list list" where
  "dquants qs ds = initcol (map (\<lambda>sc. idctqtab (qs ! tq sc)) ds)"

definition start_scans :: "dec_hufftbl list \<Rightarrow> dscan list \<Rightarrow> scan list" where
  "start_scans hus ds =
     map (\<lambda>i. \<lparr>dc = 0, hudc = hus ! tdc (ds ! i), huac = hus ! (2 + tac (ds ! i)), snext = 6 - 4 - int i\<rparr>) [0..<length ds]"

definition dec_initscans :: "jpeg_tables \<Rightarrow> dscan list \<Rightarrow> decdata \<Rightarrow> int list \<Rightarrow> byte list option \<Rightarrow> decoder" where
  "dec_initscans s ds dd max0 pic =
     \<lparr>dcts = dcts dd, decout = decout dd, dscans = start_scans (dhuff s) ds, input = setinput (datap s), nm = dri s + 1, rm = M_RST0,
      maxs = max0, picture = pic\<rparr>"

text \<open>From the initialisation of the tables to the end marker.\<close>

definition decode_picture ::
  "jpeg_tables \<Rightarrow> dscan list \<Rightarrow> bool \<Rightarrow> nat \<Rightarrow> nat \<Rightarrow> decoder \<Rightarrow> (crash + (int \<times> byte list option)) option"
where
  "decode_picture s ds enc411 mcusx mcusy d =
     obind (mcu_loop (decode_mcu (dri s) enc411 (dquants (quant s) ds) mcusx) (mcu_positions mcusx mcusy) d) (\<lambda>(err, d).
       if err \<noteq> 0 then Some (Inr (err, picture d))
       else Some (sbind (dec_readmarker (input d)) (\<lambda>(m, _).
         Inr (if m \<noteq> M_EOI then ERR_NO_EOI else 0, picture d))))"

text \<open>
  \<open>dd\<close> is what \<^verbatim>\<open>malloc\<close> returns, \<open>max0\<close> the array \<^verbatim>\<open>max\<close> before anything is stored in it, \<open>s\<close> the tables that are left from earlier
  pictures.  The result is the return value, the tables, the picture with its width and its height.
\<close>

definition jpeg_decode ::
  "decdata option \<Rightarrow> int list \<Rightarrow> bool \<Rightarrow> (nat \<Rightarrow> byte) \<Rightarrow> jpeg_tables \<Rightarrow> byte list option \<Rightarrow> byte list option \<Rightarrow> int \<Rightarrow> int \<Rightarrow>
    (crash + (int \<times> jpeg_tables \<times> byte list option \<times> int \<times> int)) option"
where
  "jpeg_decode malloc max0 realloc_ok memory s pic buf w h =
     (case (malloc, buf) of
        (Some dd, Some p) \<Rightarrow>
          obind (Some (read_soi p)) (\<lambda>r. case r of Inl err \<Rightarrow> Some (Inr (err, s, pic, w, h)) | Inr p \<Rightarrow>
          obind (readtables M_SOF0 (s\<lparr>datap := p\<rparr>)) (\<lambda>(bad, s).
          if bad \<noteq> 0 then Some (Inr (ERR_BAD_TABLES, s, pic, w, h)) else
          obind (Some (read_frame (datap s))) (\<lambda>r. case r of Inl err \<Rightarrow> Some (Inr (err, s, pic, w, h)) | Inr (intheight, intwidth, comps, p) \<Rightarrow>
          obind (readtables M_SOS (s\<lparr>datap := p\<rparr>)) (\<lambda>(bad, s).
          if bad \<noteq> 0 then Some (Inr (ERR_BAD_TABLES, s, pic, w, h)) else
          obind (Some (read_scan comps (datap s))) (\<lambda>r. case r of Inl err \<Rightarrow> Some (Inr (err, s, pic, w, h)) | Inr (ds, p) \<Rightarrow>
          let s = s\<lparr>datap := p\<rparr>;
              pic = (if int intwidth \<noteq> w \<or> int intheight \<noteq> h \<or> pic = None then resize realloc_ok memory (intwidth * (intheight + 8) * 3) pic else pic);
              y = hv (ds ! 0)
          in if y \<noteq> 0x22 \<and> y \<noteq> 0x21 then Some (Inr (ERR_NOT_YCBCR_221111, s, pic, int intwidth, int intheight))
             else
               let enc411 = (y = 0x22)
               in obind (decode_picture s ds enc411 (drop_bit 4 intwidth) (if enc411 then drop_bit 4 intheight else drop_bit 3 intheight)
                      (dec_initscans s ds dd max0 pic)) (\<lambda>(err, pic). Some (Inr (err, s, pic, int intwidth, int intheight))))))))
      | _ \<Rightarrow> Some (Inr (- 1, s, pic, w, h)))"

end
