(* ===== verification/Gspca_Dct.thy ===== *)
theory Gspca_Dct
  imports Gspca_Quant
begin

text \<open>
  The forward cosine transform \<^verbatim>\<open>DCT\<close> of \<^verbatim>\<open>src/mjpg-streamer/plugins/input_gspcav1/encoder.c\<close>: a pass over the rows
  and one over the columns of a block of 64 values, in fixed-point arithmetic.  No intermediate value leaves
  \<^verbatim>\<open>INT32\<close>, so those are integers; what is stored is cast to \<^verbatim>\<open>INT16\<close>.
\<close>

subsection \<open>The code\<close>

text \<open>One line of eight values; \<open>s\<close> and \<open>p\<close> are the shifts of the sums and of the products.\<close>

definition dct_line :: "nat \<Rightarrow> nat \<Rightarrow> int list \<Rightarrow> int list" where
  "dct_line s p data =
     (let x8 = data ! 0 + data ! 7; x0 = data ! 0 - data ! 7;
          x7 = data ! 1 + data ! 6; x1 = data ! 1 - data ! 6;
          x6 = data ! 2 + data ! 5; x2 = data ! 2 - data ! 5;
          x5 = data ! 3 + data ! 4; x3 = data ! 3 - data ! 4;
          x4 = x8 + x5; x8 = x8 - x5;
          x5 = x7 + x6; x7 = x7 - x6
      in [s16 (drop_bit s (x4 + x5)),
          s16 (drop_bit p (x0 * 1420 + x1 * 1204 + x2 * 805 + x3 * 283)),
          s16 (drop_bit p (x8 * 1338 + x7 * 554)),
          s16 (drop_bit p (x0 * 1204 - x1 * 283 - x2 * 1420 - x3 * 805)),
          s16 (drop_bit s (x4 - x5)),
          s16 (drop_bit p (x0 * 805 - x1 * 1420 + x2 * 283 + x3 * 1204)),
          s16 (drop_bit p (x8 * 554 - x7 * 1338)),
          s16 (drop_bit p (x0 * 283 - x1 * 805 + x2 * 1204 - x3 * 1420))])"

definition dct_rows :: "block \<Rightarrow> block" where
  "dct_rows data = concat (map (\<lambda>i. dct_line 0 10 (map (\<lambda>k. data ! (8 * i + k)) [0..<8])) [0..<8])"

definition dct_columns :: "block \<Rightarrow> block" where
  "dct_columns data = map (\<lambda>n. dct_line 3 13 (map (\<lambda>k. data ! (8 * k + n mod 8)) [0..<8]) ! (n div 8)) [0..<64]"

definition DCT :: "block \<Rightarrow> block" where
  "DCT data = dct_columns (dct_rows data)"

subsection \<open>Indices\<close>

lemma eight_cases: "i < 8 \<Longrightarrow> i = 0 \<or> i = 1 \<or> i = 2 \<or> i = 3 \<or> i = 4 \<or> i = 5 \<or> i = 6 \<or> i = (7 :: nat)"
  by linarith

lemma length_dct_line [simp]: "length (dct_line s p data) = 8"
  by (simp add: dct_line_def Let_def)

lemma length_concat_eight: "\<forall>i < m. length (f i) = 8 \<Longrightarrow> length (concat (map f [0..<m])) = 8 * m"
  by (induction m) simp_all

lemma nth_concat_eight:
  "\<forall>i < m. length (f i) = 8 \<Longrightarrow> n < 8 * m \<Longrightarrow> concat (map f [0..<m]) ! n = f (n div 8) ! (n mod 8)"
proof (induction m)
  case (Suc m)
  have len: "length (concat (map f [0..<m])) = 8 * m" using length_concat_eight [of m f] Suc.prems(1) by simp
  show ?case
  proof (cases "n < 8 * m")
    case True
    with Suc len show ?thesis by (simp add: nth_append)
  next
    case False
    with Suc.prems(2) have "n div 8 = m" by auto
    then have "n mod 8 = n - 8 * m" using minus_mult_div_eq_mod [of n 8] by simp
    with \<open>n div 8 = m\<close> False len show ?thesis by (simp add: nth_append)
  qed
qed simp

definition row_of :: "block \<Rightarrow> nat \<Rightarrow> int list" where
  "row_of data i = map (\<lambda>k. data ! (8 * i + k)) [0..<8]"

definition column_of :: "block \<Rightarrow> nat \<Rightarrow> int list" where
  "column_of data j = map (\<lambda>k. data ! (8 * k + j)) [0..<8]"

lemma dct_rows_nth: "n < 64 \<Longrightarrow> dct_rows data ! n = dct_line 0 10 (row_of data (n div 8)) ! (n mod 8)"
  unfolding dct_rows_def row_of_def by (rule nth_concat_eight) simp_all

lemma dct_columns_nth: "n < 64 \<Longrightarrow> dct_columns data ! n = dct_line 3 13 (column_of data (n mod 8)) ! (n div 8)"
  unfolding dct_columns_def column_of_def by (simp del: upt_rec_numeral)

lemma length_DCT [simp]: "length (DCT data) = 64"
  by (simp add: DCT_def dct_columns_def)

subsection \<open>Bounds\<close>

text \<open>The eight values of a line, when those before lie between \<open>lo\<close> and \<open>hi\<close>.\<close>

definition within :: "int \<Rightarrow> int \<Rightarrow> int list \<Rightarrow> bool" where
  "within lo hi d \<longleftrightarrow> (\<forall>i < 8. lo \<le> d ! i \<and> d ! i \<le> hi)"

lemma withinD: 
  assumes "within lo hi d"
  shows "lo \<le> d ! 0" "d ! 0 \<le> hi" "lo \<le> d ! 1" "d ! 1 \<le> hi" "lo \<le> d ! 2" "d ! 2 \<le> hi" "lo \<le> d ! 3" "d ! 3 \<le> hi"
    "lo \<le> d ! 4" "d ! 4 \<le> hi" "lo \<le> d ! 5" "d ! 5 \<le> hi" "lo \<le> d ! 6" "d ! 6 \<le> hi" "lo \<le> d ! 7" "d ! 7 \<le> hi"
  using assms by (simp_all add: within_def)

lemma shift_bounds:
  assumes "lo * 2 ^ n \<le> x" "x \<le> hi * 2 ^ n" "- 32768 \<le> lo" "hi < 32768"
  shows "lo \<le> s16 (drop_bit n x) \<and> s16 (drop_bit n x) \<le> (hi :: int)"
proof -
  have "lo \<le> x div 2 ^ n" using zdiv_mono1 [OF assms(1), of "2 ^ n"] by simp
  moreover have "x div 2 ^ n \<le> hi" using zdiv_mono1 [OF assms(2), of "2 ^ n"] by simp
  ultimately show ?thesis using assms(3,4) by (simp add: drop_bit_eq_div s16_id)
qed

lemma dct_line_nth:
  "dct_line s p d ! 0 = s16 (drop_bit s (d ! 0 + d ! 7 + (d ! 3 + d ! 4) + (d ! 1 + d ! 6 + (d ! 2 + d ! 5))))"
  "dct_line s p d ! 1 = s16 (drop_bit p ((d ! 0 - d ! 7) * 1420 + (d ! 1 - d ! 6) * 1204 + (d ! 2 - d ! 5) * 805 + (d ! 3 - d ! 4) * 283))"
  "dct_line s p d ! 2 = s16 (drop_bit p ((d ! 0 + d ! 7 - (d ! 3 + d ! 4)) * 1338 + (d ! 1 + d ! 6 - (d ! 2 + d ! 5)) * 554))"
  "dct_line s p d ! 3 = s16 (drop_bit p ((d ! 0 - d ! 7) * 1204 - (d ! 1 - d ! 6) * 283 - (d ! 2 - d ! 5) * 1420 - (d ! 3 - d ! 4) * 805))"
  "dct_line s p d ! 4 = s16 (drop_bit s (d ! 0 + d ! 7 + (d ! 3 + d ! 4) - (d ! 1 + d ! 6 + (d ! 2 + d ! 5))))"
  "dct_line s p d ! 5 = s16 (drop_bit p ((d ! 0 - d ! 7) * 805 - (d ! 1 - d ! 6) * 1420 + (d ! 2 - d ! 5) * 283 + (d ! 3 - d ! 4) * 1204))"
  "dct_line s p d ! 6 = s16 (drop_bit p ((d ! 0 + d ! 7 - (d ! 3 + d ! 4)) * 554 - (d ! 1 + d ! 6 - (d ! 2 + d ! 5)) * 1338))"
  "dct_line s p d ! 7 = s16 (drop_bit p ((d ! 0 - d ! 7) * 283 - (d ! 1 - d ! 6) * 805 + (d ! 2 - d ! 5) * 1204 - (d ! 3 - d ! 4) * 1420))"
  by (simp_all add: dct_line_def Let_def)

lemma dct_line_zero:
  assumes d: "within lo hi d" and "L * 2 ^ s \<le> 8 * lo" "8 * hi \<le> H * 2 ^ s" "- 32768 \<le> L" "H < 32768"
  shows "L \<le> dct_line s p d ! 0 \<and> dct_line s p d ! 0 \<le> H"
  unfolding dct_line_nth by (rule shift_bounds) (use withinD [OF d] assms(2-5) in linarith)+

lemma shift_abs: "- (B * 2 ^ n) \<le> x \<Longrightarrow> x \<le> B * 2 ^ n \<Longrightarrow> B < 32768 \<Longrightarrow>
    - B \<le> s16 (drop_bit n x) \<and> s16 (drop_bit n x) \<le> (B :: int)"
  using shift_bounds [of "- B" n x B] by simp

lemma dct_line_others:
  assumes d: "within lo hi d" and b: "4 * (hi - lo) \<le> B * 2 ^ s" "4096 * (hi - lo) \<le> B * 2 ^ p" "B < 32768" "0 < i" "i < 8"
  shows "- B \<le> dct_line s p d ! i \<and> dct_line s p d ! i \<le> B"
proof -
  define w where "w = hi - lo"
  define x0 x1 x2 x3 where "x0 = d ! 0 - d ! 7" and "x1 = d ! 1 - d ! 6" and "x2 = d ! 2 - d ! 5" and "x3 = d ! 3 - d ! 4"
  define y z where "y = d ! 0 + d ! 7 - (d ! 3 + d ! 4)" and "z = d ! 1 + d ! 6 - (d ! 2 + d ! 5)"
  have w: "- w \<le> x0" "x0 \<le> w" "- w \<le> x1" "x1 \<le> w" "- w \<le> x2" "x2 \<le> w" "- w \<le> x3" "x3 \<le> w"
    using withinD [OF d] unfolding w_def x0_def x1_def x2_def x3_def by linarith+
  have w2: "- (2 * w) \<le> y" "y \<le> 2 * w" "- (2 * w) \<le> z" "z \<le> 2 * w"
  proof -
    have "hi = lo + w" by (simp add: w_def)
    note d' = withinD [OF d, unfolded this]
    show "- (2 * w) \<le> y" "y \<le> 2 * w" unfolding y_def using d'(1,2,7-10,15,16) by linarith+
    show "- (2 * w) \<le> z" "z \<le> 2 * w" unfolding z_def using d'(3-6,11-14) by linarith+
  qed
  have sums: "- (4 * w) \<le> d ! 0 + d ! 7 + (d ! 3 + d ! 4) - (d ! 1 + d ! 6 + (d ! 2 + d ! 5))"
    "d ! 0 + d ! 7 + (d ! 3 + d ! 4) - (d ! 1 + d ! 6 + (d ! 2 + d ! 5)) \<le> 4 * w"
  proof -
    have "hi = lo + w" by (simp add: w_def)
    note d' = withinD [OF d, unfolded this]
    show "- (4 * w) \<le> d ! 0 + d ! 7 + (d ! 3 + d ! 4) - (d ! 1 + d ! 6 + (d ! 2 + d ! 5))"
      "d ! 0 + d ! 7 + (d ! 3 + d ! 4) - (d ! 1 + d ! 6 + (d ! 2 + d ! 5)) \<le> 4 * w"
      using d' by linarith+
  qed
  have "0 \<le> w" using w(1,2) by linarith
  note nths = dct_line_nth [of s p d, folded x0_def x1_def x2_def x3_def y_def z_def] and b' = b(1-3) [folded w_def]
  have "- B \<le> dct_line s p d ! 1 \<and> dct_line s p d ! 1 \<le> B"
    unfolding nths by (rule shift_abs) (use w b' in linarith)+
  moreover have "- B \<le> dct_line s p d ! 2 \<and> dct_line s p d ! 2 \<le> B"
    unfolding nths by (rule shift_abs) (use w2 \<open>0 \<le> w\<close> b' in linarith)+
  moreover have "- B \<le> dct_line s p d ! 3 \<and> dct_line s p d ! 3 \<le> B"
    unfolding nths by (rule shift_abs) (use w b' in linarith)+
  moreover have "- B \<le> dct_line s p d ! 4 \<and> dct_line s p d ! 4 \<le> B"
    unfolding nths by (rule shift_abs) (use sums b' in linarith)+
  moreover have "- B \<le> dct_line s p d ! 5 \<and> dct_line s p d ! 5 \<le> B"
    unfolding nths by (rule shift_abs) (use w b' in linarith)+
  moreover have "- B \<le> dct_line s p d ! 6 \<and> dct_line s p d ! 6 \<le> B"
    unfolding nths by (rule shift_abs) (use w2 \<open>0 \<le> w\<close> b' in linarith)+
  moreover have "- B \<le> dct_line s p d ! 7 \<and> dct_line s p d ! 7 \<le> B"
    unfolding nths by (rule shift_abs) (use w b' in linarith)+
  ultimately show ?thesis using eight_cases [OF b(5)] b(4) by auto
qed

text \<open>Samples of eight bits around zero.\<close>

definition samples :: "block \<Rightarrow> bool" where
  "samples data \<longleftrightarrow> length data = 64 \<and> (\<forall>x \<in> set data. - 128 \<le> x \<and> x \<le> 127)"

lemma samples_row: "samples data \<Longrightarrow> i < 8 \<Longrightarrow> within (- 128) 127 (row_of data i)"
  by (auto simp: samples_def within_def row_of_def simp del: upt_rec_numeral)

lemma rows_bounds:
  assumes "samples data" "n < 64"
  shows "n mod 8 = 0 \<Longrightarrow> - 1024 \<le> dct_rows data ! n \<and> dct_rows data ! n \<le> 1016"
    "n mod 8 \<noteq> 0 \<Longrightarrow> - 1020 \<le> dct_rows data ! n \<and> dct_rows data ! n \<le> 1020"
proof -
  have row: "within (- 128) 127 (row_of data (n div 8))" by (rule samples_row [OF assms(1)]) (use assms(2) in auto)
  show "- 1024 \<le> dct_rows data ! n \<and> dct_rows data ! n \<le> 1016" if "n mod 8 = 0"
    using dct_line_zero [OF row, of "- 1024" 0 1016] that by (simp add: dct_rows_nth assms(2))
  show "- 1020 \<le> dct_rows data ! n \<and> dct_rows data ! n \<le> 1020" if "n mod 8 \<noteq> 0"
    using dct_line_others [OF row, of 1020 0 10 "n mod 8"] that by (simp add: dct_rows_nth assms(2))
qed

lemma column_bounds:
  assumes "samples data" "j < 8"
  shows "j = 0 \<Longrightarrow> within (- 1024) 1016 (column_of (dct_rows data) j)"
    "j \<noteq> 0 \<Longrightarrow> within (- 1020) 1020 (column_of (dct_rows data) j)"
proof -
  have nth: "column_of (dct_rows data) j ! k = dct_rows data ! (8 * k + j)" if "k < 8" for k
    using that by (simp add: column_of_def del: upt_rec_numeral)
  have j: "(8 * k + j) mod 8 = j" "k < 8 \<Longrightarrow> 8 * k + j < 64" for k using assms(2) by simp_all
  show "within (- 1024) 1016 (column_of (dct_rows data) j)" if "j = 0"
    unfolding within_def by (intro allI impI) (simp only: nth, rule rows_bounds(1) [OF assms(1) j(2)], use that j(1) in simp_all)
  show "within (- 1020) 1020 (column_of (dct_rows data) j)" if "j \<noteq> 0"
    unfolding within_def by (intro allI impI) (simp only: nth, rule rows_bounds(2) [OF assms(1) j(2)], use that j(1) in simp_all)
qed

lemma DCT_range:
  assumes "samples data" "n < 64"
  shows "- 1024 \<le> DCT data ! n \<and> DCT data ! n \<le> 1020 \<and> (n \<noteq> 0 \<longrightarrow> - 1020 \<le> DCT data ! n) \<and> (n = 0 \<longrightarrow> DCT data ! n \<le> 1016)"
proof -
  let ?c = "column_of (dct_rows data) (n mod 8)"
  have nth: "DCT data ! n = dct_line 3 13 ?c ! (n div 8)" using assms(2) by (simp add: DCT_def dct_columns_nth)
  have div: "n div 8 < 8" using assms(2) by simp
  consider "n mod 8 = 0" "n div 8 = 0" | "n mod 8 = 0" "n div 8 \<noteq> 0" | "n mod 8 \<noteq> 0" "n div 8 = 0" | "n mod 8 \<noteq> 0" "n div 8 \<noteq> 0" by blast
  then show ?thesis
  proof cases
    case 1
    then have "n = 0" using mult_div_mod_eq [of 8 n] by simp
    with dct_line_zero [OF column_bounds(1) [OF assms(1), of "n mod 8"], of "- 1024" 3 1016 13] 1 nth show ?thesis by simp
  next
    case 2
    with dct_line_others [OF column_bounds(1) [OF assms(1), of "n mod 8"], of 1020 3 13 "n div 8"] div show ?thesis by (auto simp: nth)
  next
    case 3
    have "- 1020 \<le> dct_line 3 13 ?c ! 0 \<and> dct_line 3 13 ?c ! 0 \<le> 1020"
      by (rule dct_line_zero [OF column_bounds(2) [OF assms(1)]]) (use 3 in simp_all)
    with 3 show ?thesis by (auto simp: nth)
  next
    case 4
    with dct_line_others [OF column_bounds(2) [OF assms(1), of "n mod 8"], of 1020 3 13 "n div 8"] div show ?thesis by (auto simp: nth)
  qed
qed

text \<open>
  C11.  The transform of a block of 8-bit samples stays in the ranges that the entropy coder has codes for: the
  DC coefficient between -1024 and 1016 and every other coefficient between -1020 and 1020.
\<close>

theorem DCT_bounds:
  assumes "samples data"
  shows "length (DCT data) = 64 \<and> - 1024 \<le> DCT data ! 0 \<and> DCT data ! 0 \<le> 1016 \<and>
    (\<forall>n. 0 < n \<and> n < 64 \<longrightarrow> - 1020 \<le> DCT data ! n \<and> DCT data ! n \<le> 1020)"
  using DCT_range [OF assms] DCT_range [OF assms, of 0] by simp

theorem DCT_bounds_witness:
  "- 1020 \<le> DCT (replicate 64 (- 128)) ! 9 \<and> DCT (replicate 64 (- 128)) ! 9 \<le> 1020"
  using DCT_bounds [of "replicate 64 (- 128)"] by (simp add: samples_def del: replicate.simps)

end
