(* ===== verification/Gspca_Huffman.thy ===== *)
theory Gspca_Huffman
  imports Gspca_Bits Gspca_Dct
begin

text \<open>
  The entropy coder \<^verbatim>\<open>huffman\<close> of \<^verbatim>\<open>src/mjpg-streamer/plugins/input_gspcav1/huffman.c\<close>: the code tables, the coding of one
  block of quantised coefficients, and the list of bits that it appends.
\<close>

subsection \<open>The tables\<close>

definition luminance_dc_code_table :: "nat list" where
  "luminance_dc_code_table = [
    0x0000, 0x0002, 0x0003, 0x0004, 0x0005, 0x0006, 0x000E, 0x001E, 0x003E, 0x007E, 0x00FE, 0x01FE]"

definition luminance_dc_size_table :: "nat list" where
  "luminance_dc_size_table = [
    2, 3, 3, 3, 3, 3, 4, 5, 6, 7, 8, 9]"

definition chrominance_dc_code_table :: "nat list" where
  "chrominance_dc_code_table = [
    0x0000, 0x0001, 0x0002, 0x0006, 0x000E, 0x001E, 0x003E, 0x007E, 0x00FE, 0x01FE, 0x03FE, 0x07FE]"

definition chrominance_dc_size_table :: "nat list" where
  "chrominance_dc_size_table = [
    2, 2, 2, 3, 4, 5, 6, 7, 8, 9, 10, 11]"

definition luminance_ac_code_table :: "nat list" where
  "luminance_ac_code_table = [
    0x000A, 0x0000, 0x0001, 0x0004, 0x000B, 0x001A, 0x0078, 0x00F8, 0x03F6, 0xFF82, 0xFF83, 0x000C, 0x001B,
    0x0079, 0x01F6, 0x07F6, 0xFF84, 0xFF85, 0xFF86, 0xFF87, 0xFF88, 0x001C, 0x00F9, 0x03F7, 0x0FF4, 0xFF89,
    0xFF8A, 0xFF8b, 0xFF8C, 0xFF8D, 0xFF8E, 0x003A, 0x01F7, 0x0FF5, 0xFF8F, 0xFF90, 0xFF91, 0xFF92, 0xFF93,
    0xFF94, 0xFF95, 0x003B, 0x03F8, 0xFF96, 0xFF97, 0xFF98, 0xFF99, 0xFF9A, 0xFF9B, 0xFF9C, 0xFF9D, 0x007A,
    0x07F7, 0xFF9E, 0xFF9F, 0xFFA0, 0xFFA1, 0xFFA2, 0xFFA3, 0xFFA4, 0xFFA5, 0x007B, 0x0FF6, 0xFFA6, 0xFFA7,
    0xFFA8, 0xFFA9, 0xFFAA, 0xFFAB, 0xFFAC, 0xFFAD, 0x00FA, 0x0FF7, 0xFFAE, 0xFFAF, 0xFFB0, 0xFFB1, 0xFFB2,
    0xFFB3, 0xFFB4, 0xFFB5, 0x01F8, 0x7FC0, 0xFFB6, 0xFFB7, 0xFFB8, 0xFFB9, 0xFFBA, 0xFFBB, 0xFFBC, 0xFFBD,
    0x01F9, 0xFFBE, 0xFFBF, 0xFFC0, 0xFFC1, 0xFFC2, 0xFFC3, 0xFFC4, 0xFFC5, 0xFFC6, 0x01FA, 0xFFC7, 0xFFC8,
    0xFFC9, 0xFFCA, 0xFFCB, 0xFFCC, 0xFFCD, 0xFFCE, 0xFFCF, 0x03F9, 0xFFD0, 0xFFD1, 0xFFD2, 0xFFD3, 0xFFD4,
    0xFFD5, 0xFFD6, 0xFFD7, 0xFFD8, 0x03FA, 0xFFD9, 0xFFDA, 0xFFDB, 0xFFDC, 0xFFDD, 0xFFDE, 0xFFDF, 0xFFE0,
    0xFFE1, 0x07F8, 0xFFE2, 0xFFE3, 0xFFE4, 0xFFE5, 0xFFE6, 0xFFE7, 0xFFE8, 0xFFE9, 0xFFEA, 0xFFEB, 0xFFEC,
    0xFFED, 0xFFEE, 0xFFEF, 0xFFF0, 0xFFF1, 0xFFF2, 0xFFF3, 0xFFF4, 0xFFF5, 0xFFF6, 0xFFF7, 0xFFF8, 0xFFF9,
    0xFFFA, 0xFFFB, 0xFFFC, 0xFFFD, 0xFFFE, 0x07F9]"

definition luminance_ac_size_table :: "nat list" where
  "luminance_ac_size_table = [
    4, 2, 2, 3, 4, 5, 7, 8, 10, 16, 16, 4, 5, 7, 9, 11, 16, 16, 16, 16, 16, 5, 8, 10, 12, 16, 16, 16, 16, 16,
    16, 6, 9, 12, 16, 16, 16, 16, 16, 16, 16, 6, 10, 16, 16, 16, 16, 16, 16, 16, 16, 7, 11, 16, 16, 16, 16,
    16, 16, 16, 16, 7, 12, 16, 16, 16, 16, 16, 16, 16, 16, 8, 12, 16, 16, 16, 16, 16, 16, 16, 16, 9, 15, 16,
    16, 16, 16, 16, 16, 16, 16, 9, 16, 16, 16, 16, 16, 16, 16, 16, 16, 9, 16, 16, 16, 16, 16, 16, 16, 16, 16,
    10, 16, 16, 16, 16, 16, 16, 16, 16, 16, 10, 16, 16, 16, 16, 16, 16, 16, 16, 16, 11, 16, 16, 16, 16, 16,
    16, 16, 16, 16, 16, 16, 16, 16, 16, 16, 16, 16, 16, 16, 16, 16, 16, 16, 16, 16, 16, 16, 16, 16, 11]"

definition chrominance_ac_code_table :: "nat list" where
  "chrominance_ac_code_table = [
    0x0000, 0x0001, 0x0004, 0x000A, 0x0018, 0x0019, 0x0038, 0x0078, 0x01F4, 0x03F6, 0x0FF4, 0x000B, 0x0039,
    0x00F6, 0x01F5, 0x07F6, 0x0FF5, 0xFF88, 0xFF89, 0xFF8A, 0xFF8B, 0x001A, 0x00F7, 0x03F7, 0x0FF6, 0x7FC2,
    0xFF8C, 0xFF8D, 0xFF8E, 0xFF8F, 0xFF90, 0x001B, 0x00F8, 0x03F8, 0x0FF7, 0xFF91, 0xFF92, 0xFF93, 0xFF94,
    0xFF95, 0xFF96, 0x003A, 0x01F6, 0xFF97, 0xFF98, 0xFF99, 0xFF9A, 0xFF9B, 0xFF9C, 0xFF9D, 0xFF9E, 0x003B,
    0x03F9, 0xFF9F, 0xFFA0, 0xFFA1, 0xFFA2, 0xFFA3, 0xFFA4, 0xFFA5, 0xFFA6, 0x0079, 0x07F7, 0xFFA7, 0xFFA8,
    0xFFA9, 0xFFAA, 0xFFAB, 0xFFAC, 0xFFAD, 0xFFAE, 0x007A, 0x07F8, 0xFFAF, 0xFFB0, 0xFFB1, 0xFFB2, 0xFFB3,
    0xFFB4, 0xFFB5, 0xFFB6, 0x00F9, 0xFFB7, 0xFFB8, 0xFFB9, 0xFFBA, 0xFFBB, 0xFFBC, 0xFFBD, 0xFFBE, 0xFFBF,
    0x01F7, 0xFFC0, 0xFFC1, 0xFFC2, 0xFFC3, 0xFFC4, 0xFFC5, 0xFFC6, 0xFFC7, 0xFFC8, 0x01F8, 0xFFC9, 0xFFCA,
    0xFFCB, 0xFFCC, 0xFFCD, 0xFFCE, 0xFFCF, 0xFFD0, 0xFFD1, 0x01F9, 0xFFD2, 0xFFD3, 0xFFD4, 0xFFD5, 0xFFD6,
    0xFFD7, 0xFFD8, 0xFFD9, 0xFFDA, 0x01FA, 0xFFDB, 0xFFDC, 0xFFDD, 0xFFDE, 0xFFDF, 0xFFE0, 0xFFE1, 0xFFE2,
    0xFFE3, 0x07F9, 0xFFE4, 0xFFE5, 0xFFE6, 0xFFE7, 0xFFE8, 0xFFE9, 0xFFEA, 0xFFEb, 0xFFEC, 0x3FE0, 0xFFED,
    0xFFEE, 0xFFEF, 0xFFF0, 0xFFF1, 0xFFF2, 0xFFF3, 0xFFF4, 0xFFF5, 0x7FC3, 0xFFF6, 0xFFF7, 0xFFF8, 0xFFF9,
    0xFFFA, 0xFFFB, 0xFFFC, 0xFFFD, 0xFFFE, 0x03FA]"

definition chrominance_ac_size_table :: "nat list" where
  "chrominance_ac_size_table = [
    2, 2, 3, 4, 5, 5, 6, 7, 9, 10, 12, 4, 6, 8, 9, 11, 12, 16, 16, 16, 16, 5, 8, 10, 12, 15, 16, 16, 16, 16,
    16, 5, 8, 10, 12, 16, 16, 16, 16, 16, 16, 6, 9, 16, 16, 16, 16, 16, 16, 16, 16, 6, 10, 16, 16, 16, 16, 16,
    16, 16, 16, 7, 11, 16, 16, 16, 16, 16, 16, 16, 16, 7, 11, 16, 16, 16, 16, 16, 16, 16, 16, 8, 16, 16, 16,
    16, 16, 16, 16, 16, 16, 9, 16, 16, 16, 16, 16, 16, 16, 16, 16, 9, 16, 16, 16, 16, 16, 16, 16, 16, 16, 9,
    16, 16, 16, 16, 16, 16, 16, 16, 16, 9, 16, 16, 16, 16, 16, 16, 16, 16, 16, 11, 16, 16, 16, 16, 16, 16, 16,
    16, 16, 14, 16, 16, 16, 16, 16, 16, 16, 16, 16, 15, 16, 16, 16, 16, 16, 16, 16, 16, 16, 10]"

text \<open>\<^verbatim>\<open>bitsize\<close>, written by its runs.\<close>

definition bitsize :: "nat list" where
  "bitsize = [0, 1] @ replicate 2 2 @ replicate 4 3 @ replicate 8 4 @ replicate 16 5 @ replicate 32 6 @ replicate 64 7 @ replicate 128 8"

subsection \<open>The code\<close>

text \<open>A code table and its sizes.\<close>

type_synonym code_table = "nat list \<times> nat list"

text \<open>The last DC values of the three components.\<close>

record dc_state =
  ldc1 :: int
  ldc2 :: int
  ldc3 :: int

fun data_size :: "nat \<Rightarrow> nat" where
  "data_size AbsCoeff = (if AbsCoeff \<noteq> 0 then Suc (data_size (AbsCoeff div 2)) else 0)"

declare data_size.simps [simp del]

text \<open>\<^verbatim>\<open>(Coeff < 0) ? -Coeff-- : Coeff\<close>, with what is left in \<^verbatim>\<open>Coeff\<close>.\<close>

definition abs_coeff :: "int \<Rightarrow> nat \<times> int" where
  "abs_coeff c = (if c < 0 then (nat (- c), s16 (c - 1)) else (nat c, c))"

text \<open>The code of an entry followed by the low \<^verbatim>\<open>DataSize\<close> bits of the coefficient.\<close>

definition put_value :: "code_table \<Rightarrow> nat \<Rightarrow> nat \<Rightarrow> int \<Rightarrow> bit_writer \<Rightarrow> crash + bit_writer" where
  "put_value tab index DataSize Coeff w =
     sbind (at (fst tab) (int index)) (\<lambda>HuffCode.
     sbind (at (snd tab) (int index)) (\<lambda>HuffSize.
       let Coeff = s16 (take_bit DataSize Coeff);
           data = push_bit DataSize (of_nat HuffCode) OR word_of_int Coeff
       in Inr (PUTBITS data (HuffSize + DataSize) w)))"

definition put_dc :: "code_table \<Rightarrow> int \<Rightarrow> bit_writer \<Rightarrow> crash + bit_writer" where
  "put_dc tab Coeff w =
     (case abs_coeff Coeff of (AbsCoeff, Coeff) \<Rightarrow> put_value tab (data_size AbsCoeff) (data_size AbsCoeff) Coeff w)"

definition put_code :: "code_table \<Rightarrow> nat \<Rightarrow> bit_writer \<Rightarrow> bit_writer" where
  "put_code tab index w = PUTBITS (of_nat (fst tab ! index)) (snd tab ! index) w"

fun put_runs :: "code_table \<Rightarrow> nat \<Rightarrow> bit_writer \<Rightarrow> nat \<times> bit_writer" where
  "put_runs tab RunLength w =
     (if RunLength > 15 then put_runs tab (RunLength - 16) (put_code tab 161 w) else (RunLength, w))"

declare put_runs.simps [simp del]

definition ac_data_size :: "nat \<Rightarrow> crash + nat" where
  "ac_data_size AbsCoeff =
     (if AbsCoeff div 256 = 0 then at bitsize (int AbsCoeff)
      else sbind (at bitsize (int (AbsCoeff div 256))) (\<lambda>n. Inr (n + 8)))"

definition put_ac :: "code_table \<Rightarrow> nat \<Rightarrow> int \<Rightarrow> bit_writer \<Rightarrow> crash + bit_writer" where
  "put_ac tab RunLength Coeff w =
     (case put_runs tab RunLength w of (RunLength, w) \<Rightarrow>
      case abs_coeff Coeff of (AbsCoeff, Coeff) \<Rightarrow>
        sbind (ac_data_size AbsCoeff) (\<lambda>DataSize. put_value tab (RunLength * 10 + DataSize) DataSize Coeff w))"

fun ac_loop :: "code_table \<Rightarrow> int list \<Rightarrow> nat \<Rightarrow> bit_writer \<Rightarrow> crash + bit_writer" where
  "ac_loop tab [] RunLength w = Inr (if RunLength \<noteq> 0 then put_code tab 0 w else w)"
| "ac_loop tab (Coeff # coeffs) RunLength w =
     (if Coeff \<noteq> 0 then sbind (put_ac tab RunLength Coeff w) (ac_loop tab coeffs 0)
      else ac_loop tab coeffs (Suc RunLength) w)"

definition luminance_dc :: code_table where "luminance_dc = (luminance_dc_code_table, luminance_dc_size_table)"
definition luminance_ac :: code_table where "luminance_ac = (luminance_ac_code_table, luminance_ac_size_table)"
definition chrominance_dc :: code_table where "chrominance_dc = (chrominance_dc_code_table, chrominance_dc_size_table)"
definition chrominance_ac :: code_table where "chrominance_ac = (chrominance_ac_code_table, chrominance_ac_size_table)"

definition huffman :: "nat \<Rightarrow> block \<Rightarrow> dc_state \<times> bit_writer \<Rightarrow> crash + (dc_state \<times> bit_writer)" where
  "huffman component Temp = (\<lambda>(s, w).
     let Coeff = Temp ! 0;
         (dc, ac, LastDc, s) =
           (if component = 1 then (luminance_dc, luminance_ac, ldc1 s, s\<lparr>ldc1 := Coeff\<rparr>)
            else if component = 2 then (chrominance_dc, chrominance_ac, ldc2 s, s\<lparr>ldc2 := Coeff\<rparr>)
            else (chrominance_dc, chrominance_ac, ldc3 s, s\<lparr>ldc3 := Coeff\<rparr>))
     in sbind (put_dc dc (s16 (Coeff - LastDc)) w) (\<lambda>w.
        sbind (ac_loop ac (tl Temp) 0 w) (\<lambda>w. Inr (s, w))))"

subsection \<open>Sizes\<close>

lemma data_size_0 [simp]: "data_size 0 = 0"
  by (simp add: data_size.simps)

lemma data_size_bounds: "n < 2 ^ data_size n \<and> (n \<noteq> 0 \<longrightarrow> 2 ^ (data_size n - 1) \<le> n)"
proof (induction n rule: data_size.induct)
  case (1 n)
  show ?case
  proof (cases "n = 0")
    case False
    have size: "data_size n = Suc (data_size (n div 2))" using False by (subst data_size.simps) simp
    have "n div 2 < 2 ^ data_size (n div 2)" using 1 False by simp
    then have "n < 2 ^ data_size n" unfolding size by simp
    moreover have "2 ^ (data_size n - 1) \<le> n"
    proof (cases "n div 2 = 0")
      case True
      with False show ?thesis by (simp add: size)
    next
      case False
      then obtain k where k: "data_size (n div 2) = Suc k" by (metis data_size.simps)
      with 1 False have "2 ^ k \<le> n div 2" by (auto simp: \<open>n \<noteq> 0\<close>)
      then have "2 * 2 ^ k \<le> n" by simp
      then show ?thesis by (simp add: size k)
    qed
    ultimately show ?thesis by simp
  qed simp
qed

lemma data_size_le: "n < 2 ^ k \<Longrightarrow> data_size n \<le> k"
proof (rule ccontr)
  assume n: "n < 2 ^ k" "\<not> data_size n \<le> k"
  then have "n \<noteq> 0" by (cases "n = 0") simp_all
  then have "2 ^ (data_size n - 1) \<le> n" using data_size_bounds by blast
  moreover have "(2::nat) ^ k \<le> 2 ^ (data_size n - 1)" using n(2) by (intro power_increasing) simp_all
  ultimately show False using n(1) by linarith
qed

lemma data_size_pos: "n \<noteq> 0 \<Longrightarrow> 0 < data_size n"
  by (subst data_size.simps) simp

lemma data_size_eq: "2 ^ k \<le> n \<Longrightarrow> n < 2 ^ Suc k \<Longrightarrow> data_size n = Suc k"
proof -
  assume n: "2 ^ k \<le> n" "n < 2 ^ Suc k"
  have "data_size n \<le> Suc k" by (rule data_size_le [OF n(2)])
  moreover have "k < data_size n"
  proof (rule ccontr)
    assume "\<not> k < data_size n"
    then have "(2::nat) ^ data_size n \<le> 2 ^ k" by (intro power_increasing) simp_all
    with data_size_bounds [of n] n(1) show False by simp
  qed
  ultimately show ?thesis by simp
qed

lemma length_bitsize [simp]: "length bitsize = 256"
  by (simp add: bitsize_def del: replicate.simps)

lemma bitsize_runs: "list_all (\<lambda>n. bitsize ! n = data_size n) [0..<256]"
  by code_simp

lemma bitsize_nth: "n < 256 \<Longrightarrow> bitsize ! n = data_size n"
  using bitsize_runs by (simp add: list_all_iff del: upt_rec_numeral)

text \<open>The table gives the number of bits, like the loop for DC values.\<close>

lemma ac_data_size_eq:
  assumes "n < 65536"
  shows "ac_data_size n = Inr (data_size n)"
proof (cases "n div 256 = 0")
  case True
  then have "n < 256" by (simp add: div_eq_0_iff)
  with True show ?thesis by (simp add: ac_data_size_def bitsize_nth)
next
  case False
  define m where "m = n div 256"
  have m: "m \<noteq> 0" "m < 256" "256 * m \<le> n" "n < 256 * (m + 1)" using False assms by (auto simp: m_def)
  obtain k where k: "data_size m = Suc k" using data_size_pos [OF m(1)] gr0_implies_Suc by blast
  have "2 ^ k \<le> m" "m + 1 \<le> 2 ^ Suc k" using data_size_bounds [of m] m(1) k by auto
  then have "256 * 2 ^ k \<le> n" "256 * (m + 1) \<le> 256 * 2 ^ Suc k" using m(3) by (linarith, intro mult_le_mono2)
  then have "256 * 2 ^ k \<le> n" "n < 256 * 2 ^ Suc k" using m(4) by linarith+
  then have "data_size n = Suc (k + 8)" by (intro data_size_eq) (simp_all add: power_add)
  then show ?thesis using False m(2) k bitsize_nth [OF m(2)] by (simp add: ac_data_size_def m_def [symmetric])
qed

subsection \<open>The bits of a block\<close>

definition code_bits :: "code_table \<Rightarrow> nat \<Rightarrow> bool list" where
  "code_bits tab index = to_bits (snd tab ! index) (of_nat (fst tab ! index) :: cint)"

text \<open>The low bits of the coefficient, or of its predecessor when it is negative.\<close>

definition value_bits :: "int \<Rightarrow> bool list" where
  "value_bits c = to_bits (data_size (nat \<bar>c\<bar>)) (word_of_int (if c < 0 then c - 1 else c) :: cint)"

fun ac_bits :: "code_table \<Rightarrow> int list \<Rightarrow> nat \<Rightarrow> bool list" where
  "ac_bits tab [] run = (if run \<noteq> 0 then code_bits tab 0 else [])"
| "ac_bits tab (c # cs) run =
     (if c \<noteq> 0 then
        concat (replicate (run div 16) (code_bits tab 161)) @
        code_bits tab (run mod 16 * 10 + data_size (nat \<bar>c\<bar>)) @ value_bits c @ ac_bits tab cs 0
      else ac_bits tab cs (Suc run))"

definition dc_bits :: "code_table \<Rightarrow> int \<Rightarrow> bool list" where
  "dc_bits tab diff = code_bits tab (data_size (nat \<bar>diff\<bar>)) @ value_bits diff"

text \<open>Every code has at most 16 bits and no more than its size.\<close>

definition table_ok :: "nat \<Rightarrow> code_table \<Rightarrow> bool" where
  "table_ok n tab \<longleftrightarrow> length (fst tab) = n \<and> length (snd tab) = n \<and>
     list_all2 (\<lambda>c s. 0 < s \<and> s \<le> 16 \<and> c < 2 ^ s) (fst tab) (snd tab)"

lemma tables_ok: "table_ok 12 luminance_dc" "table_ok 12 chrominance_dc" "table_ok 162 luminance_ac" "table_ok 162 chrominance_ac"
  by (simp_all add: table_ok_def luminance_dc_def luminance_dc_code_table_def luminance_dc_size_table_def
      chrominance_dc_def chrominance_dc_code_table_def chrominance_dc_size_table_def
      luminance_ac_def luminance_ac_code_table_def luminance_ac_size_table_def
      chrominance_ac_def chrominance_ac_code_table_def chrominance_ac_size_table_def)

lemma put_code_appends:
  assumes "writes_bits base bits w" "table_ok n tab" "i < n"
  shows "writes_bits base (bits @ code_bits tab i) (put_code tab i w)"
proof -
  have "snd tab ! i \<le> 16" "fst tab ! i < 2 ^ (snd tab ! i)"
    using assms(2,3) by (auto simp: table_ok_def list_all2_conv_all_nth)
  then show ?thesis
    unfolding put_code_def code_bits_def by (intro PUTBITS_appends [OF assms(1)] fits_of_nat) simp_all
qed

text \<open>A value is appended behind its code.\<close>

lemma put_value_appends:
  assumes w: "writes_bits base bits w" and tab: "table_ok n tab" and i: "i < n" and ds: "ds < 15"
  shows "\<exists>w'. put_value tab i ds v w = Inr w' \<and> writes_bits base (bits @ code_bits tab i @ to_bits ds (word_of_int v :: cint)) w'"
proof -
  define c s where "c = fst tab ! i" and "s = snd tab ! i"
  have cs: "s \<le> 16" "c < 2 ^ s"
    using tab i by (auto simp: table_ok_def list_all2_conv_all_nth c_def s_def)
  define x where "x = (word_of_int (take_bit ds v) :: cint)"
  have x: "fits ds x"
    by (auto simp: fits_def x_def bit_word_of_int_iff bit_take_bit_iff)
  have "take_bit ds v < 2 ^ ds" by simp
  also have "(2::int) ^ ds \<le> 2 ^ 15" using ds by (intro power_increasing) simp_all
  also have "\<dots> = 32768" by simp
  finally have s16: "s16 (take_bit ds v) = take_bit ds v"
    using take_bit_nonnegative [of ds v] by (intro s16_id) linarith+
  have "to_bits (s + ds) (push_bit ds (of_nat c) OR x) = to_bits s (of_nat c :: cint) @ to_bits ds x"
    using to_bits_push [OF x, of s] cs(1) ds by simp
  moreover have "to_bits ds x = to_bits ds (word_of_int v :: cint)"
    by (rule nth_equalityI) (auto simp: nth_to_bits x_def bit_word_of_int_iff bit_take_bit_iff)
  moreover have "fits (s + ds) (push_bit ds (of_nat c) OR x)"
    using x fits_of_nat [OF cs(2)] by (auto simp: fits_def bit_or_iff bit_push_bit_iff)
  moreover have "put_value tab i ds v w = Inr (PUTBITS (push_bit ds (of_nat c) OR x) (s + ds) w)"
    using tab i s16 by (simp add: put_value_def table_ok_def c_def s_def x_def Let_def)
  ultimately show ?thesis
    using PUTBITS_appends [OF w, of "s + ds" "push_bit ds (of_nat c) OR x"] cs(1) ds
    by (simp add: code_bits_def c_def s_def)
qed

lemma put_runs_appends:
  assumes "writes_bits base bits w" "table_ok 162 tab"
  shows "\<exists>w'. put_runs tab run w = (run mod 16, w') \<and>
    writes_bits base (bits @ concat (replicate (run div 16) (code_bits tab 161))) w'"
  using assms(1)
proof (induction run arbitrary: bits w rule: less_induct)
  case (less run)
  show ?case
  proof (cases "15 < run")
    case True
    then have run: "run div 16 = Suc ((run - 16) div 16)" "run mod 16 = (run - 16) mod 16"
      by (simp_all add: le_div_geq le_mod_geq)
    have "writes_bits base (bits @ code_bits tab 161) (put_code tab 161 w)"
      by (rule put_code_appends [OF less.prems assms(2)]) simp
    from less.IH [OF _ this, of "run - 16"] True show ?thesis
      by (subst put_runs.simps) (simp add: run)
  next
    case False
    then show ?thesis using less.prems by (subst put_runs.simps) simp
  qed
qed

lemma abs_coeff_eq: "\<bar>c\<bar> < 32768 \<Longrightarrow> abs_coeff c = (nat \<bar>c\<bar>, if c < 0 then c - 1 else c)"
  by (simp add: abs_coeff_def s16_id)

lemma put_dc_appends:
  assumes "writes_bits base bits w" "table_ok 12 tab" "\<bar>c\<bar> < 2048"
  shows "\<exists>w'. put_dc tab c w = Inr w' \<and> writes_bits base (bits @ dc_bits tab c) w'"
proof -
  have "data_size (nat \<bar>c\<bar>) \<le> 11" using assms(3) by (intro data_size_le) simp
  then show ?thesis
    using put_value_appends [OF assms(1,2), of "data_size (nat \<bar>c\<bar>)" "data_size (nat \<bar>c\<bar>)" "if c < 0 then c - 1 else c"]
      abs_coeff_eq [of c] assms(3)
    by (simp add: put_dc_def dc_bits_def value_bits_def)
qed

lemma put_ac_appends:
  assumes "writes_bits base bits w" "table_ok 162 tab" "\<bar>c\<bar> < 1024"
  shows "\<exists>w'. put_ac tab run c w = Inr w' \<and>
    writes_bits base (bits @ concat (replicate (run div 16) (code_bits tab 161)) @
      code_bits tab (run mod 16 * 10 + data_size (nat \<bar>c\<bar>)) @ value_bits c) w'"
proof -
  have ds: "data_size (nat \<bar>c\<bar>) \<le> 10" using assms(3) by (intro data_size_le) simp
  obtain w1 where w1: "put_runs tab run w = (run mod 16, w1)"
    "writes_bits base (bits @ concat (replicate (run div 16) (code_bits tab 161))) w1"
    using put_runs_appends [OF assms(1,2)] by blast
  have "run mod 16 * 10 + data_size (nat \<bar>c\<bar>) < 162" using ds by simp
  from put_value_appends [OF w1(2) assms(2) this, of "data_size (nat \<bar>c\<bar>)" "if c < 0 then c - 1 else c"] ds
  show ?thesis
    using w1(1) abs_coeff_eq [of c] ac_data_size_eq [of "nat \<bar>c\<bar>"] assms(3)
    by (simp add: put_ac_def value_bits_def)
qed

lemma ac_loop_appends:
  assumes "writes_bits base bits w" "table_ok 162 tab" "\<forall>c \<in> set cs. \<bar>c\<bar> < 1024"
  shows "\<exists>w'. ac_loop tab cs run w = Inr w' \<and> writes_bits base (bits @ ac_bits tab cs run) w'"
  using assms(1,3)
proof (induction cs arbitrary: bits run w)
  case Nil
  then show ?case using put_code_appends [OF _ assms(2), of base bits w 0] by simp
next
  case (Cons c cs)
  show ?case
  proof (cases "c = 0")
    case False
    obtain w1 where w1: "put_ac tab run c w = Inr w1"
      "writes_bits base (bits @ concat (replicate (run div 16) (code_bits tab 161)) @
        code_bits tab (run mod 16 * 10 + data_size (nat \<bar>c\<bar>)) @ value_bits c) w1"
      using put_ac_appends [OF Cons.prems(1) assms(2), of c run] Cons.prems(2) by auto
    from Cons.IH [OF w1(2), of 0] Cons.prems(2) w1(1) False show ?thesis by simp
  next
    case True
    with Cons.IH [OF Cons.prems(1)] Cons.prems(2) show ?thesis by simp
  qed
qed

text \<open>Tables and last DC value of a component.\<close>

definition dc_table :: "nat \<Rightarrow> code_table" where
  "dc_table component = (if component = 1 then luminance_dc else chrominance_dc)"

definition ac_table :: "nat \<Rightarrow> code_table" where
  "ac_table component = (if component = 1 then luminance_ac else chrominance_ac)"

definition last_dc :: "nat \<Rightarrow> dc_state \<Rightarrow> int" where
  "last_dc component s = (if component = 1 then ldc1 s else if component = 2 then ldc2 s else ldc3 s)"

definition set_last_dc :: "nat \<Rightarrow> int \<Rightarrow> dc_state \<Rightarrow> dc_state" where
  "set_last_dc component c s =
     (if component = 1 then s\<lparr>ldc1 := c\<rparr> else if component = 2 then s\<lparr>ldc2 := c\<rparr> else s\<lparr>ldc3 := c\<rparr>)"

definition block_bits :: "nat \<Rightarrow> int \<Rightarrow> block \<Rightarrow> bool list" where
  "block_bits component prev Temp = dc_bits (dc_table component) (Temp ! 0 - prev) @ ac_bits (ac_table component) (tl Temp) 0"

text \<open>A block whose values have codes.\<close>

definition codable :: "int \<Rightarrow> block \<Rightarrow> bool" where
  "codable prev Temp \<longleftrightarrow> length Temp = 64 \<and> \<bar>Temp ! 0 - prev\<bar> < 2048 \<and> (\<forall>c \<in> set (tl Temp). \<bar>c\<bar> < 1024)"

lemma component_tables_ok: "table_ok 12 (dc_table component)" "table_ok 162 (ac_table component)"
  using tables_ok by (simp_all add: dc_table_def ac_table_def)

lemma huffman_run:
  assumes "writes_bits base bits w" "codable (last_dc component s) Temp"
  shows "\<exists>w'. huffman component Temp (s, w) = Inr (set_last_dc component (Temp ! 0) s, w') \<and>
    writes_bits base (bits @ block_bits component (last_dc component s) Temp) w'"
proof -
  let ?d = "Temp ! 0 - last_dc component s"
  have d: "s16 ?d = ?d" "\<bar>?d\<bar> < 2048" using assms(2) by (auto simp: codable_def intro!: s16_id)
  obtain w1 where w1: "put_dc (dc_table component) ?d w = Inr w1" "writes_bits base (bits @ dc_bits (dc_table component) ?d) w1"
    using put_dc_appends [OF assms(1) component_tables_ok(1) d(2)] by blast
  obtain w2 where w2: "ac_loop (ac_table component) (tl Temp) 0 w1 = Inr w2"
    "writes_bits base ((bits @ dc_bits (dc_table component) ?d) @ ac_bits (ac_table component) (tl Temp) 0) w2"
    using ac_loop_appends [OF w1(2) component_tables_ok(2)] assms(2) unfolding codable_def by blast
  have "huffman component Temp (s, w) =
      sbind (put_dc (dc_table component) (s16 ?d) w) (\<lambda>w. sbind (ac_loop (ac_table component) (tl Temp) 0 w)
        (\<lambda>w. Inr (set_last_dc component (Temp ! 0) s, w)))"
    by (simp add: huffman_def Let_def dc_table_def ac_table_def last_dc_def set_last_dc_def)
  then show ?thesis using w1 w2 d(1) by (simp add: block_bits_def)
qed

end
