(* ===== verification/Gspca_Standard.thy ===== *)
theory Gspca_Standard
  imports Gspca_Marker Gspca_Huffman
begin

text \<open>
  The tables in the header that \<^verbatim>\<open>write_markers\<close> writes are those of the canonical code that the encoder's code tables hold,
  and \<^verbatim>\<open>readtables\<close> builds decoding tables from them that invert the encoder's tables.
\<close>

subsection \<open>The tables of the standard\<close>

definition luminance_dc_lens :: "nat list" where
  "luminance_dc_lens = [
    0, 1, 5, 1, 1, 1, 1, 1, 1, 0, 0, 0, 0, 0, 0, 0]"

definition luminance_dc_values :: "nat list" where
  "luminance_dc_values = [
    0, 1, 2, 3, 4, 5, 6, 7, 8, 9, 10, 11]"

definition chrominance_dc_lens :: "nat list" where
  "chrominance_dc_lens = [
    0, 3, 1, 1, 1, 1, 1, 1, 1, 1, 1, 0, 0, 0, 0, 0]"

definition chrominance_dc_values :: "nat list" where
  "chrominance_dc_values = [
    0, 1, 2, 3, 4, 5, 6, 7, 8, 9, 10, 11]"

definition luminance_ac_lens :: "nat list" where
  "luminance_ac_lens = [
    0, 2, 1, 3, 3, 2, 4, 3, 5, 5, 4, 4, 0, 0, 1, 125]"

definition luminance_ac_values :: "nat list" where
  "luminance_ac_values = [
    1, 2, 3, 0, 4, 17, 5, 18, 33, 49, 65, 6, 19, 81, 97, 7, 34, 113, 20, 50,
    129, 145, 161, 8, 35, 66, 177, 193, 21, 82, 209, 240, 36, 51, 98, 114, 130, 9, 10, 22,
    23, 24, 25, 26, 37, 38, 39, 40, 41, 42, 52, 53, 54, 55, 56, 57, 58, 67, 68, 69,
    70, 71, 72, 73, 74, 83, 84, 85, 86, 87, 88, 89, 90, 99, 100, 101, 102, 103, 104, 105,
    106, 115, 116, 117, 118, 119, 120, 121, 122, 131, 132, 133, 134, 135, 136, 137, 138, 146, 147, 148,
    149, 150, 151, 152, 153, 154, 162, 163, 164, 165, 166, 167, 168, 169, 170, 178, 179, 180, 181, 182,
    183, 184, 185, 186, 194, 195, 196, 197, 198, 199, 200, 201, 202, 210, 211, 212, 213, 214, 215, 216,
    217, 218, 225, 226, 227, 228, 229, 230, 231, 232, 233, 234, 241, 242, 243, 244, 245, 246, 247, 248,
    249, 250]"

definition chrominance_ac_lens :: "nat list" where
  "chrominance_ac_lens = [
    0, 2, 1, 2, 4, 4, 3, 4, 7, 5, 4, 4, 0, 1, 2, 119]"

definition chrominance_ac_values :: "nat list" where
  "chrominance_ac_values = [
    0, 1, 2, 3, 17, 4, 5, 33, 49, 6, 18, 65, 81, 7, 97, 113, 19, 34, 50, 129,
    8, 20, 66, 145, 161, 177, 193, 9, 35, 51, 82, 240, 21, 98, 114, 209, 10, 22, 36, 52,
    225, 37, 241, 23, 24, 25, 26, 38, 39, 40, 41, 42, 53, 54, 55, 56, 57, 58, 67, 68,
    69, 70, 71, 72, 73, 74, 83, 84, 85, 86, 87, 88, 89, 90, 99, 100, 101, 102, 103, 104,
    105, 106, 115, 116, 117, 118, 119, 120, 121, 122, 130, 131, 132, 133, 134, 135, 136, 137, 138, 146,
    147, 148, 149, 150, 151, 152, 153, 154, 162, 163, 164, 165, 166, 167, 168, 169, 170, 178, 179, 180,
    181, 182, 183, 184, 185, 186, 194, 195, 196, 197, 198, 199, 200, 201, 202, 210, 211, 212, 213, 214,
    215, 216, 217, 218, 226, 227, 228, 229, 230, 231, 232, 233, 234, 242, 243, 244, 245, 246, 247, 248,
    249, 250]"

lemmas std_lens = luminance_dc_lens_def chrominance_dc_lens_def luminance_ac_lens_def chrominance_ac_lens_def
lemmas std_values = luminance_dc_values_def chrominance_dc_values_def luminance_ac_values_def chrominance_ac_values_def

definition table_bytes :: "byte \<Rightarrow> nat list \<Rightarrow> nat list \<Rightarrow> byte list" where
  "table_bytes tc lens values = tc # map of_nat lens @ map of_nat values"

lemma marker_bytes:
  "concat (map two_bytes markerdata) =
     [0xff, 0xc4, 0x01, 0xa2] @ table_bytes 0x00 luminance_dc_lens luminance_dc_values @
     table_bytes 0x01 chrominance_dc_lens chrominance_dc_values @ table_bytes 0x10 luminance_ac_lens luminance_ac_values @
     table_bytes 0x11 chrominance_ac_lens chrominance_ac_values"
  by (simp add: markerdata_def two_bytes_def table_bytes_def std_lens std_values)

text \<open>The codes in the order of their values, with their lengths.\<close>

fun codes_up :: "nat \<Rightarrow> nat \<Rightarrow> nat \<Rightarrow> (nat \<times> nat) list" where
  "codes_up c n l = (if n = 0 then [] else (c, l) # codes_up (c + 1) (n - 1) l)"

declare codes_up.simps [simp del]

fun canonical :: "nat \<Rightarrow> nat \<Rightarrow> nat list \<Rightarrow> (nat \<times> nat) list" where
  "canonical l c [] = []"
| "canonical l c (n # lens) = codes_up c n l @ canonical (l + 1) (2 * (c + n)) lens"

definition ac_index :: "nat \<Rightarrow> nat" where
  "ac_index b = (if b = 0 then 0 else if b = 0xf0 then 161 else b div 16 * 10 + b mod 16)"

definition table_codes :: "(nat \<Rightarrow> nat) \<Rightarrow> code_table \<Rightarrow> nat list \<Rightarrow> (nat \<times> nat) list" where
  "table_codes index tab values = map (\<lambda>b. (fst tab ! index b, snd tab ! index b)) values"

lemma std_codes:
  "table_codes id luminance_dc luminance_dc_values = canonical 1 0 luminance_dc_lens"
  "table_codes id chrominance_dc chrominance_dc_values = canonical 1 0 chrominance_dc_lens"
  "table_codes ac_index luminance_ac luminance_ac_values = canonical 1 0 luminance_ac_lens"
  "table_codes ac_index chrominance_ac chrominance_ac_values = canonical 1 0 chrominance_ac_lens"
  by (simp_all add: table_codes_def std_lens std_values ac_index_def codes_up.simps
    luminance_dc_def chrominance_dc_def luminance_dc_code_table_def luminance_dc_size_table_def
    chrominance_dc_code_table_def chrominance_dc_size_table_def luminance_ac_def luminance_ac_code_table_def luminance_ac_size_table_def
    chrominance_ac_def chrominance_ac_code_table_def chrominance_ac_size_table_def)

lemma first_code_numeral: "first_code lens (numeral k) = 2 * (first_code lens (pred_numeral k) + lens ! pred_numeral k)"
  by (simp add: numeral_eq_Suc)

lemma upt_16: "[0..<16] = [0, 1, 2, 3, 4, 5, 6, 7, 8, 9, 10, 11, 12, 13, 14, 15]"
  by (simp add: upt_conv_Cons)

lemma std_lens_ok:
  "lens_ok luminance_dc_lens (map of_nat luminance_dc_values)"
  "lens_ok chrominance_dc_lens (map of_nat chrominance_dc_values)"
  "lens_ok luminance_ac_lens (map of_nat luminance_ac_values)"
  "lens_ok chrominance_ac_lens (map of_nat chrominance_ac_values)"
  by (simp_all only: lens_ok_def upt_16) (simp_all add: std_lens std_values first_code_numeral)

definition ac_symbols :: "nat list" where
  "ac_symbols = 0 # 0xf0 # concat (map (\<lambda>r. map (\<lambda>s. r * 16 + s) [1, 2, 3, 4, 5, 6, 7, 8, 9, 10])
    [0, 1, 2, 3, 4, 5, 6, 7, 8, 9, 10, 11, 12, 13, 14, 15])"

definition dc_symbols :: "nat list" where
  "dc_symbols = [0, 1, 2, 3, 4, 5, 6, 7, 8, 9, 10, 11]"

lemma dc_values_all: "set dc_symbols \<subseteq> set luminance_dc_values" "set dc_symbols \<subseteq> set chrominance_dc_values"
  by (simp_all add: dc_symbols_def std_values)

lemma ac_values_all:
  "set ac_symbols \<subseteq> set luminance_ac_values" "set ac_symbols \<subseteq> set chrominance_ac_values"
  by (simp_all add: ac_symbols_def std_values)

lemma values_bytes: "set luminance_dc_values \<subseteq> {..<256}" "set chrominance_dc_values \<subseteq> {..<256}"
   "set luminance_ac_values \<subseteq> {..<256}" "set chrominance_ac_values \<subseteq> {..<256}"
  by (simp_all add: std_values)

lemma length_codes_up [simp]: "length (codes_up c n l) = n"
  by (induction n arbitrary: c) (simp_all add: codes_up.simps)

lemma codes_up_nth: "j < n \<Longrightarrow> codes_up c n l ! j = (c + j, l)"
proof (induction n arbitrary: c j)
  case (Suc n)
  then show ?case by (subst codes_up.simps) (cases j; simp)
qed simp

lemma canonical_nth:
  assumes "t < length (canonical (i + 1) (first_code lens i) (drop i lens))" "i \<le> length lens"
  shows "\<exists>i' j. i \<le> i' \<and> i' < length lens \<and> j < lens ! i' \<and> first_index lens i + t = first_index lens i' + j \<and>
    canonical (i + 1) (first_code lens i) (drop i lens) ! t = (first_code lens i' + j, i' + 1)"
  using assms
proof (induction "length lens - i" arbitrary: i t)
  case (Suc n)
  then have i: "i < length lens" by simp
  then have unfold: "canonical (i + 1) (first_code lens i) (drop i lens) =
      codes_up (first_code lens i) (lens ! i) (i + 1) @ canonical (Suc i + 1) (first_code lens (Suc i)) (drop (Suc i) lens)"
    by (simp flip: Cons_nth_drop_Suc)
  show ?case
  proof (cases "t < lens ! i")
    case True
    then show ?thesis using i unfold by (intro exI [of _ i] exI [of _ t]) (simp add: nth_append codes_up_nth)
  next
    case False
    define t' where "t' = t - lens ! i"
    have t': "t' < length (canonical (Suc i + 1) (first_code lens (Suc i)) (drop (Suc i) lens))" "n = length lens - Suc i" "Suc i \<le> length lens"
      using Suc.prems(1) unfold False Suc.hyps(2) i by (simp_all add: t'_def)
    obtain i' j where ij: "Suc i \<le> i'" "i' < length lens" "j < lens ! i'" "first_index lens (Suc i) + t' = first_index lens i' + j"
      "canonical (Suc i + 1) (first_code lens (Suc i)) (drop (Suc i) lens) ! t' = (first_code lens i' + j, i' + 1)"
      using Suc.hyps(1) [OF t'(2,1,3)] by blast
    have "canonical (i + 1) (first_code lens i) (drop i lens) ! t = (first_code lens i' + j, i' + 1)"
      using ij(5) unfold False by (simp add: nth_append t'_def)
    moreover have "first_index lens i + t = first_index lens i' + j" using ij(4) False first_index_Suc [OF i] by (simp add: t'_def)
    ultimately show ?thesis using ij(1-3) by (intro exI [of _ i'] exI [of _ j]) simp
  qed
qed simp

text \<open>A table decodes the codes of the encoder.\<close>

definition inverts :: "(nat \<Rightarrow> nat) \<Rightarrow> code_table \<Rightarrow> nat set \<Rightarrow> dec_hufftbl \<Rightarrow> bool" where
  "inverts index tab symbols hu \<longleftrightarrow> sized hu \<and>
     (\<forall>b \<in> symbols. b < 256 \<and> decodes hu (of_nat b) (fst tab ! index b) (snd tab ! index b))"

lemma built_inverts:
  assumes "built lens (map of_nat values) 16 hu" "lens_ok lens (map of_nat values)"
    and "table_codes index tab values = canonical 1 0 lens" "set values \<subseteq> {..<256}" "symbols \<subseteq> set values"
  shows "inverts index tab symbols hu"
  unfolding inverts_def
proof (intro conjI ballI)
  show "sized hu" using assms(1) by (simp add: built_def)
  fix b assume b: "b \<in> symbols"
  then show "b < 256" using assms(4,5) by auto
  obtain t where t: "t < length values" "b = values ! t" using b assms(5) by (metis in_set_conv_nth subsetD)
  have len: "length lens = 16" using assms(2) by (simp add: lens_ok_def)
  have "length (canonical 1 0 lens) = length values"
    using arg_cong [OF assms(3), of length] by (simp add: table_codes_def)
  then obtain i j where ij: "i < 16" "j < lens ! i" "t = first_index lens i + j" "canonical 1 0 lens ! t = (first_code lens i + j, i + 1)"
    using canonical_nth [of t 0 lens] t(1) len by (auto simp: first_index_def)
  have "canonical 1 0 lens ! t = (fst tab ! index b, snd tab ! index b)"
    using arg_cong [OF assms(3), of "\<lambda>xs. xs ! t"] t by (simp add: table_codes_def)
  then show "decodes hu (of_nat b) (fst tab ! index b) (snd tab ! index b)"
    using built_decodes [OF assms(1,2) ij(1,2)] ij(3,4) t by simp
qed

subsection \<open>Reading the tables back\<close>

lemma map_unat_of_nat: "set xs \<subseteq> {..<256} \<Longrightarrow> map unat (map of_nat xs :: byte list) = xs"
  by (induction xs) (auto simp: unat_of_nat take_bit_nat_eq_self)

lemma getbytes_append [simp]: "length xs = n \<Longrightarrow> getbytes n (xs @ p) = Inr (xs, p)"
  by (simp add: getbytes_def)

lemma read_dht_table:
  assumes "lens_ok lens (map of_nat values)" "sum_list lens = length values" "set lens \<subseteq> {..<256}"
    and "datap s = of_nat b # map of_nat lens @ map of_nat values @ p" "b < 256" "b mod 16 \<le> 1" "b div 16 \<le> 1"
    and "sized (dhuff s ! (b div 16 * 2 + b mod 16))" "2 < l"
  shows "\<exists>hu. built lens (map of_nat values) 16 hu \<and>
    read_dht l s = read_dht (l - 17 - int (length values)) (s\<lparr>datap := p, dhuff := (dhuff s)[b div 16 * 2 + b mod 16 := hu]\<rparr>)"
proof -
  obtain hu where hu: "dec_makehuff lens (map of_nat values) (dhuff s ! (b div 16 * 2 + b mod 16)) = Inr hu" "built lens (map of_nat values) 16 hu"
    using dec_makehuff_built [OF assms(1,8)] by blast
  have b: "unat (of_nat b :: byte) = b" using assms(5) by (simp add: unat_of_nat take_bit_nat_eq_self)
  have nib: "b AND 15 = b mod 16" "drop_bit 4 b = b div 16"
    using take_bit_eq_mask [of 4 b] by (simp_all add: take_bit_eq_mod mask_eq_exp_minus_1 drop_bit_eq_div)
  have get: "getbyte (datap s) = Inr (b, map of_nat lens @ map of_nat values @ p)"
    using assms(4) b by (simp add: getbyte_def)
  have len: "length lens = 16" "sum_list lens \<le> 256" using assms(1) by (simp_all add: lens_ok_def)
  have u: "map (unat \<circ> (of_nat :: nat \<Rightarrow> byte)) lens = lens" using map_unat_of_nat [OF assms(3)] by simp
  have "read_dht l s = read_dht (l - 17 - int (sum_list lens)) (s\<lparr>datap := p, dhuff := (dhuff s)[b div 16 * 2 + b mod 16 := hu]\<rparr>)"
    using assms(6,7,9) get nib u len assms(2) hu(1) by (subst read_dht.simps) (simp add: Let_def)
  with hu(2) assms(2) show ?thesis by auto
qed

lemma std_lens_bytes:
  "set luminance_dc_lens \<subseteq> {..<256}" "set chrominance_dc_lens \<subseteq> {..<256}" "set luminance_ac_lens \<subseteq> {..<256}" "set chrominance_ac_lens \<subseteq> {..<256}"
  "sum_list luminance_dc_lens = length luminance_dc_values" "sum_list chrominance_dc_lens = length chrominance_dc_values"
  "sum_list luminance_ac_lens = length luminance_ac_values" "sum_list chrominance_ac_lens = length chrominance_ac_values"
  "length luminance_dc_values = 12" "length chrominance_dc_values = 12" "length luminance_ac_values = 162" "length chrominance_ac_values = 162"
  by (simp_all add: std_lens std_values)

text \<open>The decoder's tables invert the encoder's.\<close>

definition inverts_all :: "dec_hufftbl list \<Rightarrow> bool" where
  "inverts_all hus \<longleftrightarrow> length hus = 4 \<and>
     inverts id luminance_dc (set dc_symbols) (hus ! 0) \<and> inverts id chrominance_dc (set dc_symbols) (hus ! 1) \<and>
     inverts ac_index luminance_ac (set ac_symbols) (hus ! 2) \<and> inverts ac_index chrominance_ac (set ac_symbols) (hus ! 3)"

lemma read_dht_markers:
  assumes "datap s = table_bytes 0x00 luminance_dc_lens luminance_dc_values @ table_bytes 0x01 chrominance_dc_lens chrominance_dc_values @
      table_bytes 0x10 luminance_ac_lens luminance_ac_values @ table_bytes 0x11 chrominance_ac_lens chrominance_ac_values @ p"
    and "length (dhuff s) = 4" "\<forall>hu \<in> set (dhuff s). sized hu"
  shows "\<exists>hus. inverts_all hus \<and> read_dht 0x1a2 s = Inr (None, s\<lparr>datap := p, dhuff := hus\<rparr>)"
proof -
  have sized: "sized (dhuff s ! k)" if "k < 4" for k using assms(2,3) that by simp
  let ?p3 = "table_bytes 0x11 chrominance_ac_lens chrominance_ac_values @ p"
  let ?p2 = "table_bytes 0x10 luminance_ac_lens luminance_ac_values @ ?p3"
  let ?p1 = "table_bytes 0x01 chrominance_dc_lens chrominance_dc_values @ ?p2"
  obtain h0 where h0: "built luminance_dc_lens (map of_nat luminance_dc_values) 16 h0"
    "read_dht 418 s = read_dht 389 (s\<lparr>datap := ?p1, dhuff := (dhuff s)[0 := h0]\<rparr>)"
    using read_dht_table [OF std_lens_ok(1) std_lens_bytes(5,1), of s 0 ?p1 418] assms(1) sized std_lens_bytes(9)
    by (auto simp: table_bytes_def)
  obtain h1 where h1: "built chrominance_dc_lens (map of_nat chrominance_dc_values) 16 h1"
    "read_dht 389 (s\<lparr>datap := ?p1, dhuff := (dhuff s)[0 := h0]\<rparr>) = read_dht 360 (s\<lparr>datap := ?p2, dhuff := (dhuff s)[0 := h0, 1 := h1]\<rparr>)"
    using read_dht_table [OF std_lens_ok(2) std_lens_bytes(6,2), of "s\<lparr>datap := ?p1, dhuff := (dhuff s)[0 := h0]\<rparr>" 1 ?p2 389] sized std_lens_bytes(10)
    by (auto simp: table_bytes_def)
  obtain h2 where h2: "built luminance_ac_lens (map of_nat luminance_ac_values) 16 h2"
    "read_dht 360 (s\<lparr>datap := ?p2, dhuff := (dhuff s)[0 := h0, 1 := h1]\<rparr>) = read_dht 181 (s\<lparr>datap := ?p3, dhuff := (dhuff s)[0 := h0, 1 := h1, 2 := h2]\<rparr>)"
    using read_dht_table [OF std_lens_ok(3) std_lens_bytes(7,3), of "s\<lparr>datap := ?p2, dhuff := (dhuff s)[0 := h0, 1 := h1]\<rparr>" 16 ?p3 360] sized std_lens_bytes(11)
    by (auto simp: table_bytes_def)
  obtain h3 where h3: "built chrominance_ac_lens (map of_nat chrominance_ac_values) 16 h3"
    "read_dht 181 (s\<lparr>datap := ?p3, dhuff := (dhuff s)[0 := h0, 1 := h1, 2 := h2]\<rparr>) = read_dht 2 (s\<lparr>datap := p, dhuff := (dhuff s)[0 := h0, 1 := h1, 2 := h2, 3 := h3]\<rparr>)"
    using read_dht_table [OF std_lens_ok(4) std_lens_bytes(8,4), of "s\<lparr>datap := ?p3, dhuff := (dhuff s)[0 := h0, 1 := h1, 2 := h2]\<rparr>" 17 p 181] sized std_lens_bytes(12)
    by (auto simp: table_bytes_def)
  have "inverts_all ((dhuff s)[0 := h0, 1 := h1, 2 := h2, 3 := h3])"
    using built_inverts [OF h0(1) std_lens_ok(1) std_codes(1) values_bytes(1) dc_values_all(1)]
      built_inverts [OF h1(1) std_lens_ok(2) std_codes(2) values_bytes(2) dc_values_all(2)]
      built_inverts [OF h2(1) std_lens_ok(3) std_codes(3) values_bytes(3) ac_values_all(1)]
      built_inverts [OF h3(1) std_lens_ok(4) std_codes(4) values_bytes(4) ac_values_all(2)] assms(2)
    by (simp add: inverts_all_def)
  moreover have "read_dht 2 t = Inr (None, t)" for t by (subst read_dht.simps) simp
  ultimately show ?thesis using h0(2) h1(2) h2(2) h3(2) by auto
qed

lemma readtables_step:
  "readtables_marker till s = Inr (None, s') \<Longrightarrow> readtables till s = readtables till s'"
  by (subst readtables.simps) simp

lemma readtables_end:
  "datap s = 0xff # m # p \<Longrightarrow> unat m = till \<Longrightarrow> readtables till s = Some (Inr (0, s\<lparr>datap := p\<rparr>))"
  by (subst readtables.simps) (simp add: readtables_marker_def getbyte_def)

lemma readtables_markers:
  assumes "datap s = drop (length out + 2) (write_markers q image_format w h out) @ behind"
    and "length (Lqt q) = 64" "length (Cqt q) = 64" "length (quant s) = 4"
    and "length (dhuff s) = 4" "\<forall>hu \<in> set (dhuff s). sized hu"
  shows "\<exists>hus. inverts_all hus \<and> readtables M_SOF0 s =
    Some (Inr (0, s\<lparr>datap := drop 2 (frame_header image_format w h) @ scan_header image_format @ behind,
      quant := (quant s)[0 := Lqt q, 1 := Cqt q], dhuff := hus\<rparr>))"
proof -
  let ?hd = "drop 2 (frame_header image_format w h) @ scan_header image_format @ behind"
  let ?dht = "table_bytes 0x00 luminance_dc_lens luminance_dc_values @ table_bytes 0x01 chrominance_dc_lens chrominance_dc_values @
      table_bytes 0x10 luminance_ac_lens luminance_ac_values @ table_bytes 0x11 chrominance_ac_lens chrominance_ac_values"
  let ?q = "(quant s)[0 := Lqt q, 1 := Cqt q]"
  have header: "frame_header image_format w h = 0xff # 0xc0 # drop 2 (frame_header image_format w h)"
    by (simp add: frame_header_def Let_def)
  let ?s0 = "s\<lparr>datap := [0x00] @ Lqt q @ [0x01] @ Cqt q @ [0xff, 0xc4, 0x01, 0xa2] @ ?dht @ [0xff, 0xc0] @ ?hd\<rparr>"
  let ?s1 = "s\<lparr>datap := [0x01] @ Cqt q @ [0xff, 0xc4, 0x01, 0xa2] @ ?dht @ [0xff, 0xc0] @ ?hd, quant := (quant s)[0 := Lqt q]\<rparr>"
  let ?s2 = "s\<lparr>datap := [0xff, 0xc4, 0x01, 0xa2] @ ?dht @ [0xff, 0xc0] @ ?hd, quant := ?q\<rparr>"
  have bytes: "datap s = [0xff, 0xdb, 0x00, 0x84, 0x00] @ Lqt q @ [0x01] @ Cqt q @ [0xff, 0xc4, 0x01, 0xa2] @ ?dht @ [0xff, 0xc0] @ ?hd"
    unfolding assms(1) write_markers_def marker_bytes by (subst header) simp
  have "readtables_marker M_SOF0 s = read_dqt 132 ?s0"
    unfolding readtables_marker_def bytes by (simp add: getbyte_def getword_def M_SOF0_def M_DQT_def)
  also have "\<dots> = read_dqt 67 ?s1"
    using assms(2) by (subst read_dqt.simps) (simp add: getbyte_def)
  also have "\<dots> = read_dqt 2 ?s2"
    using assms(3) by (subst read_dqt.simps) (simp add: getbyte_def)
  also have "\<dots> = Inr (None, ?s2)" by (subst read_dqt.simps) simp
  finally have "readtables M_SOF0 s = readtables M_SOF0 ?s2" by (rule readtables_step)
  moreover obtain hus where hus: "inverts_all hus"
    "read_dht 0x1a2 (?s2\<lparr>datap := ?dht @ [0xff, 0xc0] @ ?hd\<rparr>) = Inr (None, ?s2\<lparr>datap := [0xff, 0xc0] @ ?hd, dhuff := hus\<rparr>)"
    using read_dht_markers [of "?s2\<lparr>datap := ?dht @ [0xff, 0xc0] @ ?hd\<rparr>" "[0xff, 0xc0] @ ?hd"] assms(5,6) by auto
  have "readtables_marker M_SOF0 ?s2 = read_dht 0x1a2 (?s2\<lparr>datap := ?dht @ [0xff, 0xc0] @ ?hd\<rparr>)"
    by (simp add: readtables_marker_def getbyte_def getword_def M_SOF0_def M_DQT_def M_DHT_def)
  then have "readtables M_SOF0 ?s2 = readtables M_SOF0 (?s2\<lparr>datap := [0xff, 0xc0] @ ?hd, dhuff := hus\<rparr>)"
    using hus(2) by (intro readtables_step) simp
  moreover have "readtables M_SOF0 (?s2\<lparr>datap := [0xff, 0xc0] @ ?hd, dhuff := hus\<rparr>) =
      Some (Inr (0, ?s2\<lparr>datap := ?hd, dhuff := hus\<rparr>))"
    by (subst readtables_end [where m = "0xc0" and p = ?hd]) (simp_all add: M_SOF0_def)
  ultimately show ?thesis using hus(1) by auto
qed

end
