(* ===== verification/Gspca_Roundtrip.thy ===== *)
theory Gspca_Roundtrip
  imports Gspca_Standard
begin

text \<open>
  What the encoder of the gspca codec writes, the decoder reads: symbols, values, the AC coefficients with their runs of
  zeros, blocks, and the blocks of an MCU.
\<close>

subsection \<open>Decoding what the encoder wrote\<close>

lemma length_code_bits [simp]: "length (code_bits tab i) = snd tab ! i"
  by (simp add: code_bits_def)

lemma sym_of_nat: "b < 256 \<Longrightarrow> sym_size (of_nat b) = b mod 16 \<and> sym_run (of_nat b) = b div 16"
proof -
  assume "b < 256"
  then have b: "unat (of_nat b :: byte) = b" by (simp add: unat_of_nat take_bit_nat_eq_self)
  have "(of_nat b :: byte) AND 15 = take_bit 4 (of_nat b)" by (simp add: take_bit_eq_mask mask_eq_exp_minus_1)
  then have "unat ((of_nat b :: byte) AND 15) = take_bit 4 b" using b by (simp only: unsigned_take_bit_eq)
  moreover have "unat (drop_bit 4 (of_nat b :: byte)) = b div 16"
    using b \<open>b < 256\<close> by (simp only: unsigned_drop_bit_eq) (simp add: drop_bit_eq_div take_bit_nat_eq_self)
  ultimately show ?thesis by (simp add: sym_size_def sym_run_def take_bit_eq_mod)
qed

lemma DEC_REC_symbol:
  fixes v :: cint
  assumes "inverts index tab symbols hu" "b \<in> symbols" "in_ok inp"
    and "starts (stream inp) (code_bits tab (index b) @ to_bits (b mod 16) v)"
  shows "\<exists>inp'. DEC_REC hu inp = Some (Inr (b div 16, sign_extend (b mod 16) (uint (take_bit (b mod 16) v)), inp')) \<and>
    reads (snd tab ! index b + b mod 16) inp inp'"
proof -
  have b: "b < 256" "decodes hu (of_nat b) (fst tab ! index b) (snd tab ! index b)" "sized hu"
    using assms(1,2) by (simp_all add: inverts_def)
  show ?thesis
    using DEC_REC_reads [OF b(2,3) assms(3), of v] assms(4) sym_of_nat [OF b(1)] by (simp add: code_bits_def)
qed

lemma value_decoded:
  assumes "\<bar>c\<bar> < 32768"
  defines "n \<equiv> data_size (nat \<bar>c\<bar>)"
  shows "sign_extend n (uint (take_bit n (word_of_int (if c < 0 then c - 1 else c) :: cint))) = c"
proof (cases "c = 0")
  case True
  then show ?thesis by (simp add: n_def sign_extend_def)
next
  case False
  then have n0: "n \<noteq> 0" using data_size_pos [of "nat \<bar>c\<bar>"] by (simp add: n_def)
  have "nat \<bar>c\<bar> < 2 ^ n" "2 ^ (n - 1) \<le> nat \<bar>c\<bar>"
    using data_size_bounds [of "nat \<bar>c\<bar>"] False by (simp_all add: n_def)
  then have "int (nat \<bar>c\<bar>) < int (2 ^ n)" "int (2 ^ (n - 1)) \<le> int (nat \<bar>c\<bar>)" by (simp_all only: of_nat_less_iff of_nat_le_iff)
  then have c: "\<bar>c\<bar> < 2 ^ n" "2 ^ (n - 1) \<le> \<bar>c\<bar>" by simp_all
  have "n \<le> 15" unfolding n_def using assms(1) by (intro data_size_le) simp
  then have "take_bit n (take_bit 32 (x :: int)) = take_bit n x" for x by simp
  then have u: "uint (take_bit n (word_of_int x :: cint)) = x mod 2 ^ n" for x
    by (simp only: unsigned_take_bit_eq uint_word_of_int_eq len_of_numeral_defs) (simp flip: take_bit_eq_mod)
  have two: "(2::int) ^ n = 2 * 2 ^ (n - 1)" using n0 by (cases n) simp_all
  show ?thesis
  proof (cases "c < 0")
    case True
    have "(c - 1) mod 2 ^ n = (c - 1 + 2 ^ n) mod 2 ^ n" by simp
    also have "\<dots> = c - 1 + 2 ^ n" using True c by (intro mod_pos_pos_trivial) simp_all
    finally have "uint (take_bit n (word_of_int (c - 1) :: cint)) = c - 1 + 2 ^ n" unfolding u .
    then show ?thesis using True c two n0 unfolding if_P [OF True] by (simp add: sign_extend_def)
  next
    case False
    have "c mod 2 ^ n = c" using False c by (intro mod_pos_pos_trivial) simp_all
    then have "uint (take_bit n (word_of_int c :: cint)) = c" unfolding u .
    then show ?thesis using False c unfolding if_not_P [OF False] by (simp add: sign_extend_def)
  qed
qed

lemma value_symbol:
  assumes "inverts index tab symbols hu" "b \<in> symbols" "in_ok inp" "\<bar>c\<bar> < 32768" "b mod 16 = data_size (nat \<bar>c\<bar>)"
    and "starts (stream inp) (code_bits tab (index b) @ value_bits c)"
  shows "\<exists>inp'. DEC_REC hu inp = Some (Inr (b div 16, c, inp')) \<and> reads (length (code_bits tab (index b) @ value_bits c)) inp inp'"
  using DEC_REC_symbol [OF assms(1-3), of "word_of_int (if c < 0 then c - 1 else c)"] value_decoded [OF assms(4)] assms(5,6)
  by (simp add: value_bits_def)

lemma in_grid: "r \<in> set rs \<Longrightarrow> s \<in> set ss \<Longrightarrow> r * 16 + s \<in> set (concat (map (\<lambda>r. map (\<lambda>s. r * 16 + s) ss) rs))"
  by auto

lemma in_ac_symbols: "r < 16 \<Longrightarrow> 1 \<le> s \<Longrightarrow> s \<le> 10 \<Longrightarrow> r * 16 + s \<in> set ac_symbols"
proof -
  assume "r < 16" "1 \<le> s" "s \<le> 10"
  then have "r \<in> set [0, 1, 2, 3, 4, 5, 6, 7, 8, 9, 10, 11, 12, 13, 14, 15]" "s \<in> set [1, 2, 3, 4, 5, 6, 7, 8, 9, 10]"
    by (simp, presburger)+
  note in_grid [OF this]
  then show ?thesis by (simp only: ac_symbols_def list.set(2) insert_iff simp_thms)
qed

lemma special_symbols: "0 \<in> set ac_symbols" "0xf0 \<in> set ac_symbols" "ac_index 0 = 0" "ac_index 0xf0 = 161"
  by (simp_all add: ac_symbols_def ac_index_def)

lemma in_dc_symbols: "s < 12 \<Longrightarrow> s \<in> set dc_symbols"
proof -
  assume "s < 12"
  then have "s \<in> {0, 1, 2, 3, 4, 5, 6, 7, 8, 9, 10, 11}" by (simp, presburger)
  then show ?thesis by (simp add: dc_symbols_def)
qed

lemma skip_runs:
  assumes "inverts ac_index tab (set ac_symbols) hu" "0 < m"
  shows "in_ok inp \<Longrightarrow> starts (stream inp) (concat (replicate (run div 16) (code_bits tab 161))) \<Longrightarrow>
    (\<forall>k < run. pos + k < length dct \<and> dct ! (pos + k) = 0) \<Longrightarrow>
    \<exists>inp'. ac_coeffs hu (int (run + m)) pos dct inp = ac_coeffs hu (int (run mod 16 + m)) (pos + run div 16 * 16) dct inp' \<and>
      reads (length (concat (replicate (run div 16) (code_bits tab 161)))) inp inp'"
proof (induction run arbitrary: pos inp rule: less_induct)
  case (less run)
  show ?case
  proof (cases "run < 16")
    case True
    then show ?thesis using less.prems(1) by (intro exI [of _ inp]) (simp add: reads_def)
  next
    case False
    then have run: "run div 16 = Suc ((run - 16) div 16)" "run mod 16 = (run - 16) mod 16"
      by (simp_all add: le_div_geq le_mod_geq)
    let ?rest = "concat (replicate ((run - 16) div 16) (code_bits tab 161))"
    have start: "starts (stream inp) (code_bits tab 161)" "starts (\<lambda>k. stream inp (k + snd tab ! 161)) ?rest"
      using less.prems(2) unfolding run by (simp_all add: starts_append)
    obtain inp1 where inp1: "DEC_REC hu inp = Some (Inr (15, 0, inp1))" "reads (snd tab ! 161) inp inp1"
      using DEC_REC_symbol [OF assms(1) special_symbols(2) less.prems(1), of 0] start(1) by (auto simp: ac_index_def sign_extend_def)
    have at: "pos + 15 < length dct" "dct[pos + 15 := 0] = dct"
      using less.prems(3) False by (auto simp: list_update_same_conv)
    have "ac_coeffs hu (int (run + m)) pos dct inp = ac_coeffs hu (int (run - 16 + m)) (pos + 16) dct inp1"
      using inp1(1) at False by (subst ac_coeffs.simps) (simp add: store_def of_nat_diff add.commute [of 16])
    moreover obtain inp' where
      "ac_coeffs hu (int (run - 16 + m)) (pos + 16) dct inp1 =
         ac_coeffs hu (int ((run - 16) mod 16 + m)) (pos + 16 + (run - 16) div 16 * 16) dct inp'" "reads (length ?rest) inp1 inp'"
    proof -
      have "\<forall>k < run - 16. pos + 16 + k < length dct \<and> dct ! (pos + 16 + k) = 0"
        using less.prems(3) by (auto simp: add.assoc)
      then show ?thesis
        using less.IH [of "run - 16" inp1 "pos + 16"] False inp1(2) start(2) that by (auto simp: reads_def)
    qed
    moreover note reads_trans [OF inp1(2) this(2)]
    ultimately show ?thesis unfolding run by (auto simp: add_ac)
  qed
qed

lemma ac_coeffs_run:
  assumes "inverts ac_index tab (set ac_symbols) hu"
  shows "\<forall>c \<in> set cs. \<bar>c\<bar> < 1024 \<Longrightarrow> in_ok inp \<Longrightarrow> starts (stream inp) (ac_bits tab cs run) \<Longrightarrow>
    \<exists>i' inp'. ac_coeffs hu (int (run + length cs)) (length pre) (pre @ replicate (run + length cs) 0 @ post) inp =
      Some (Inr (i', length pre + run + length cs, pre @ replicate run 0 @ cs @ post, inp')) \<and>
      reads (length (ac_bits tab cs run)) inp inp'"
proof (induction cs arbitrary: run pre inp)
  case Nil
  show ?case
  proof (cases "run = 0")
    case True
    then show ?thesis using Nil by (subst ac_coeffs.simps) (simp add: reads_def)
  next
    case False
    obtain inp1 where "DEC_REC hu inp = Some (Inr (0, 0, inp1))" "reads (snd tab ! 0) inp inp1"
      using DEC_REC_symbol [OF assms special_symbols(1) Nil.prems(2), of 0] Nil.prems(3) False
      by (auto simp: ac_index_def sign_extend_def)
    then show ?thesis using False by (subst ac_coeffs.simps) simp
  qed
next
  case (Cons c cs)
  show ?case
  proof (cases "c = 0")
    case True
    then show ?thesis using Cons.IH [of inp "Suc run" pre] Cons.prems by (simp add: replicate_app_Cons_same)
  next
    case False
    let ?runs = "concat (replicate (run div 16) (code_bits tab 161))"
    let ?r = "run mod 16" and ?s = "data_size (nat \<bar>c\<bar>)"
    let ?dct = "pre @ replicate (run + length (c # cs)) 0 @ post"
    have s: "1 \<le> ?s" "?s \<le> 10"
      using data_size_pos [of "nat \<bar>c\<bar>"] False Cons.prems(1) by (auto intro!: data_size_le)
    have bits: "ac_bits tab (c # cs) run = ?runs @ (code_bits tab (?r * 10 + ?s) @ value_bits c) @ ac_bits tab cs 0"
      using False by simp
    have start: "starts (stream inp) ?runs" "starts (\<lambda>k. stream inp (k + length ?runs)) (code_bits tab (?r * 10 + ?s) @ value_bits c)"
      "starts (\<lambda>k. stream inp (k + length ?runs + length (code_bits tab (?r * 10 + ?s) @ value_bits c))) (ac_bits tab cs 0)"
      using Cons.prems(3) unfolding bits by (simp_all only: starts_append [of _ ?runs] starts_append [of _ _ "ac_bits tab cs 0"] add_ac)
    obtain inp1 where inp1: "ac_coeffs hu (int (run + length (c # cs))) (length pre) ?dct inp =
        ac_coeffs hu (int (?r + length (c # cs))) (length pre + run div 16 * 16) ?dct inp1" "reads (length ?runs) inp inp1"
      using skip_runs [OF assms, of "length (c # cs)" inp run "length pre" ?dct] Cons.prems(2) start(1)
      by (auto simp: nth_append simp del: replicate_Suc)
    have "1 \<le> n \<Longrightarrow> n \<le> 10 \<Longrightarrow> m * 16 + n \<noteq> 240" for m n :: nat by presburger
    then have "ac_index (?r * 16 + ?s) = ?r * 10 + ?s" using s by (simp add: ac_index_def)
    then obtain inp2 where inp2: "DEC_REC hu inp1 = Some (Inr (?r, c, inp2))"
      "reads (length (code_bits tab (?r * 10 + ?s) @ value_bits c)) inp1 inp2"
      using value_symbol [OF assms in_ac_symbols, of ?r ?s inp1 c] s inp1(2) start(2) Cons.prems(1) by (auto simp: reads_def)
    have "ac_coeffs hu (int (?r + length (c # cs))) (length pre + run div 16 * 16) ?dct inp1 =
        ac_coeffs hu (int (length cs)) (length pre + run + 1) (?dct[length pre + run := c]) inp2"
    proof -
      have pos: "length pre + run div 16 * 16 + ?r = length pre + run" by simp
      show ?thesis using inp2(1) False by (subst ac_coeffs.simps) (simp add: store_def pos)
    qed
    moreover have "?dct[length pre + run := c] = (pre @ replicate run 0 @ [c]) @ replicate (0 + length cs) 0 @ post"
    proof -
      have "?dct = (pre @ replicate run 0) @ 0 # replicate (length cs) 0 @ post"
        by (simp add: replicate_add replicate_app_Cons_same)
      then show ?thesis using list_update_length [of "pre @ replicate run 0" 0 "replicate (length cs) 0 @ post" c] by simp
    qed
    moreover have "length pre + run + 1 = length (pre @ replicate run 0 @ [c])" by simp
    ultimately have step: "ac_coeffs hu (int (run + length (c # cs))) (length pre) ?dct inp =
        ac_coeffs hu (int (0 + length cs)) (length (pre @ replicate run 0 @ [c])) ((pre @ replicate run 0 @ [c]) @ replicate (0 + length cs) 0 @ post) inp2"
      using inp1(1) by simp
    have "in_ok inp2" "starts (stream inp2) (ac_bits tab cs 0)"
      using inp1(2) inp2(2) start(3) by (simp_all add: reads_def add_ac)
    then obtain i' inp' where "ac_coeffs hu (int (run + length (c # cs))) (length pre) ?dct inp =
        Some (Inr (i', length pre + run + 1 + length cs, (pre @ replicate run 0 @ [c]) @ cs @ post, inp'))"
      "reads (length (ac_bits tab cs 0)) inp2 inp'"
      using Cons.IH [of inp2 0 "pre @ replicate run 0 @ [c]"] Cons.prems(1) unfolding step by auto
    moreover note reads_trans [OF inp1(2) reads_trans [OF inp2(2) this(2)]]
    ultimately show ?thesis unfolding bits by (auto simp: add_ac)
  qed
qed

text \<open>When no coefficient is counted, none was stored.\<close>

lemma ac_coeffs_unchanged:
  assumes "ac_coeffs hu i pos dct inp = Some (Inr (i', pos', dct', inp'))"
  shows "i' \<le> i \<and> (i' = i \<longrightarrow> dct' = dct)"
proof -
  have "\<forall>i' pos' dct' inp'. r = Inr (i', pos', dct', inp') \<longrightarrow> i' \<le> i \<and> (i' = i \<longrightarrow> dct' = dct)"
    if "ac_coeffs hu i pos dct inp = Some r" for r
    using that
  proof (induction rule: ac_coeffs.raw_induct [rotated, consumes 1])
    case (1 ac_coeffs hu i pos dct inp r)
    note IH = 1(1) and step = 1(2)
    show ?case
    proof (cases "i > 0")
      case True
      then obtain x where x: "DEC_REC hu inp = Some x" using step by (auto split: option.splits)
      show ?thesis
      proof (cases x)
        case (Inl e)
        with step x True show ?thesis by auto
      next
        case (Inr y)
        obtain rn t inp2 where y: "y = (rn, t, inp2)" by (cases y)
        show ?thesis
        proof (cases "t = 0 \<and> rn = 0")
          case True
          with step x Inr y \<open>i > 0\<close> show ?thesis by auto
        next
          case False
          show ?thesis
          proof (cases "store dct (pos + rn) t")
            case (Inl e)
            with step x Inr y \<open>i > 0\<close> False show ?thesis by auto
          next
            case (Inr dct2)
            with step x \<open>x = Inr y\<close> y \<open>i > 0\<close> False have "ac_coeffs hu (i - int rn - 1) (pos + rn + 1) dct2 inp2 = Some r" by auto
            from IH [OF this] show ?thesis by auto
          qed
        qed
      qed
    next
      case False
      with step show ?thesis by auto
    qed
  qed
  with assms show ?thesis by blast
qed

text \<open>The tables of a scan that belong to a component of the encoder.\<close>

definition scan_inverts :: "nat \<Rightarrow> scan \<Rightarrow> bool" where
  "scan_inverts component sc \<longleftrightarrow> inverts id (dc_table component) (set dc_symbols) (hudc sc) \<and>
     inverts ac_index (ac_table component) (set ac_symbols) (huac sc)"

lemma decode_block_run:
  assumes "scan_inverts component sc" "codable (dc sc) Temp" "in_ok inp" "starts (stream inp) (block_bits component (dc sc) Temp)"
  shows "\<exists>m inp'. decode_block sc (length pre) (pre @ replicate 64 0 @ post) inp =
      Some (Inr (sc\<lparr>dc := Temp ! 0\<rparr>, m, length pre + 64, pre @ Temp @ post, inp')) \<and>
    reads (length (block_bits component (dc sc) Temp)) inp inp' \<and> (m = 1 \<longrightarrow> (\<forall>c \<in> set (tl Temp). c = 0))"
proof -
  let ?d = "Temp ! 0 - dc sc"
  let ?s = "data_size (nat \<bar>?d\<bar>)"
  let ?dcb = "code_bits (dc_table component) (id ?s) @ value_bits ?d"
  have d: "\<bar>?d\<bar> < 2048" and len: "length Temp = 64" and ac: "\<forall>c \<in> set (tl Temp). \<bar>c\<bar> < 1024"
    using assms(2) by (auto simp: codable_def)
  have "?s \<le> 11" using d by (intro data_size_le) simp
  then have s: "?s \<in> set dc_symbols" "?s mod 16 = ?s" "?s div 16 = 0" by (simp_all add: in_dc_symbols)
  have bits: "block_bits component (dc sc) Temp = ?dcb @ ac_bits (ac_table component) (tl Temp) 0"
    by (simp add: block_bits_def dc_bits_def)
  have start: "starts (stream inp) ?dcb" "starts (\<lambda>k. stream inp (k + length ?dcb)) (ac_bits (ac_table component) (tl Temp) 0)"
    using assms(4) unfolding bits starts_append [of _ ?dcb] by simp_all
  have "\<bar>?d\<bar> < 32768" using d by simp
  then obtain inp1 where inp1: "DEC_REC (hudc sc) inp = Some (Inr (0, ?d, inp1))" "reads (length ?dcb) inp inp1"
    using value_symbol [of id "dc_table component" "set dc_symbols" "hudc sc" ?s inp ?d] assms(1,3) s start(1)
    unfolding scan_inverts_def by auto
  have "in_ok inp1" "starts (stream inp1) (ac_bits (ac_table component) (tl Temp) 0)"
    using inp1(2) start(2) by (simp_all add: reads_def)
  from ac_coeffs_run [OF assms(1) [unfolded scan_inverts_def, THEN conjunct2] ac this, of "pre @ [Temp ! 0]" post] len
  obtain i' inp' where inp': "ac_coeffs (huac sc) 63 (Suc (length pre)) (pre @ Temp ! 0 # replicate 63 0 @ post) inp1 =
      Some (Inr (i', length pre + 64, pre @ Temp ! 0 # tl Temp @ post, inp'))"
    "reads (length (ac_bits (ac_table component) (tl Temp) 0)) inp1 inp'"
    by (auto simp del: replicate.simps simp add: Suc_eq_plus1 [symmetric])
  have "Temp ! 0 # tl Temp = Temp" using len by (cases Temp) simp_all
  then have Temp: "pre @ Temp ! 0 # tl Temp @ post = pre @ Temp @ post" by (metis append_Cons)
  have rep: "replicate 64 (0 :: int) = 0 # replicate 63 0" by (simp add: numeral_eq_Suc)
  have "store (pre @ replicate 64 0 @ post) (length pre) (Temp ! 0) = Inr (pre @ Temp ! 0 # replicate 63 0 @ post)"
    unfolding rep by (simp add: store_def del: replicate.simps)
  then have "decode_block sc (length pre) (pre @ replicate 64 0 @ post) inp =
      Some (Inr (sc\<lparr>dc := Temp ! 0\<rparr>, 64 - i', length pre + 64, pre @ Temp @ post, inp'))"
    using inp1(1) inp'(1) Temp by (simp add: decode_block_def Let_def del: replicate.simps)
  moreover have "\<forall>c \<in> set (tl Temp). c = 0" if "64 - i' = 1"
  proof -
    have "i' = 63" using that by simp
    then have "pre @ Temp ! 0 # tl Temp @ post = pre @ Temp ! 0 # replicate 63 0 @ post"
      using ac_coeffs_unchanged [OF inp'(1)] by simp
    then have "tl Temp = replicate 63 0" using len by (simp del: replicate.simps add: append_eq_append_conv)
    then show ?thesis by (simp del: replicate.simps)
  qed
  ultimately show ?thesis using reads_trans [OF inp1(2) inp'(2)] unfolding bits length_append add.assoc by blast
qed

subsection \<open>Sequences of blocks\<close>

text \<open>Blocks with their components are written one after the other.\<close>

fun encode_blocks :: "(nat \<times> block) list \<Rightarrow> dc_state \<times> bit_writer \<Rightarrow> crash + (dc_state \<times> bit_writer)" where
  "encode_blocks [] st = Inr st"
| "encode_blocks ((c, T) # bs) st = sbind (huffman c T st) (encode_blocks bs)"

fun blocks_bits :: "(nat \<times> block) list \<Rightarrow> dc_state \<Rightarrow> bool list" where
  "blocks_bits [] s = []"
| "blocks_bits ((c, T) # bs) s = block_bits c (last_dc c s) T @ blocks_bits bs (set_last_dc c (T ! 0) s)"

fun blocks_codable :: "(nat \<times> block) list \<Rightarrow> dc_state \<Rightarrow> bool" where
  "blocks_codable [] s = True"
| "blocks_codable ((c, T) # bs) s = (codable (last_dc c s) T \<and> blocks_codable bs (set_last_dc c (T ! 0) s))"

definition blocks_dc :: "(nat \<times> block) list \<Rightarrow> dc_state \<Rightarrow> dc_state" where
  "blocks_dc bs s = fold (\<lambda>(c, T). set_last_dc c (T ! 0)) bs s"

lemma encode_blocks_run:
  assumes "writes_bits base bl w" "blocks_codable bs s"
  shows "\<exists>w'. encode_blocks bs (s, w) = Inr (blocks_dc bs s, w') \<and> writes_bits base (bl @ blocks_bits bs s) w'"
  using assms
proof (induction bs arbitrary: bl s w)
  case (Cons b bs)
  obtain c T where b: "b = (c, T)" by (cases b)
  obtain w1 where w1: "huffman c T (s, w) = Inr (set_last_dc c (T ! 0) s, w1)"
    "writes_bits base (bl @ block_bits c (last_dc c s) T) w1"
    using huffman_run [OF Cons.prems(1), of c s T] Cons.prems(2) b by auto
  from Cons.IH [OF w1(2)] Cons.prems(2) w1(1) b show ?case by (auto simp: blocks_dc_def)
qed (simp add: blocks_dc_def)

text \<open>The order of the components in an MCU is that in which the decoder goes through its scans.\<close>

fun in_order :: "nat \<Rightarrow> int list \<Rightarrow> nat list \<Rightarrow> bool" where
  "in_order k nexts [] = True"
| "in_order k nexts (c # cs) =
     (k < length nexts \<and> c = k + 1 \<and> in_order (if int (length cs) = nexts ! k then k + 1 else k) nexts cs)"

definition scans_ok :: "int list \<Rightarrow> dc_state \<Rightarrow> scan list \<Rightarrow> bool" where
  "scans_ok nexts s scs \<longleftrightarrow> map snext scs = nexts \<and> length scs \<le> 3 \<and>
     (\<forall>k < length scs. dc (scs ! k) = last_dc (k + 1) s \<and> scan_inverts (k + 1) (scs ! k))"

lemma last_dc_set: "k < 3 \<Longrightarrow> j < 3 \<Longrightarrow> last_dc (k + 1) (set_last_dc (j + 1) v s) = (if k = j then v else last_dc (k + 1) s)"
  by (auto simp: last_dc_def set_last_dc_def)

lemma scans_ok_update:
  assumes "scans_ok nexts s scs" "k < length scs"
  shows "scans_ok nexts (set_last_dc (k + 1) v s) (scs[k := (scs ! k)\<lparr>dc := v\<rparr>])"
proof -
  have "scan_inverts c (sc\<lparr>dc := v\<rparr>) = scan_inverts c sc" for c sc by (simp add: scan_inverts_def)
  moreover have "map snext (scs[k := (scs ! k)\<lparr>dc := v\<rparr>]) = map snext scs"
    using assms(2) by (intro nth_equalityI) (auto simp: nth_list_update)
  ultimately show ?thesis
    using assms last_dc_set [of _ k v s] unfolding scans_ok_def by (auto simp: nth_list_update simp del: One_nat_def)
qed

text \<open>The decoder says that only the first coefficient of a block is in use when all others are zero.\<close>

definition only_dc :: "int list \<Rightarrow> (nat \<times> block) list \<Rightarrow> bool" where
  "only_dc ms bs \<longleftrightarrow> list_all2 (\<lambda>m b. m = 1 \<longrightarrow> (\<forall>c \<in> set (tl (snd b)). c = 0)) ms bs"

lemma decode_blocks_run:
  assumes "scans_ok nexts s scs" "in_order k nexts (map fst bs)" "blocks_codable bs s" "in_ok inp"
    and "starts (stream inp) (blocks_bits bs s)"
  shows "\<exists>scs' inp' ms. decode_blocks (length bs) k scs (length pre) (pre @ replicate (length bs * 64) 0 @ post) inp maxs =
      Some (Inr (scs', pre @ concat (map snd bs) @ post, inp', maxs @ ms)) \<and>
    scans_ok nexts (blocks_dc bs s) scs' \<and> reads (length (blocks_bits bs s)) inp inp' \<and> only_dc ms bs"
  using assms
proof (induction bs arbitrary: s scs k pre inp maxs)
  case Nil
  then show ?case by (intro exI [of _ scs] exI [of _ inp] exI [of _ "[]"]) (simp add: blocks_dc_def reads_def only_dc_def)
next
  case (Cons b bs)
  obtain c T where b: "b = (c, T)" by (cases b)
  let ?k = "if int (length bs) = snext (scs ! k) then k + 1 else k"
  have k: "k < length scs" "c = k + 1" "dc (scs ! k) = last_dc c s" "scan_inverts c (scs ! k)"
    and order: "in_order ?k nexts (map fst bs)" "nexts ! k = snext (scs ! k)"
    using Cons.prems(1,2) b by (auto simp: scans_ok_def split: if_splits)
  have len: "length T = 64" using Cons.prems(3) b by (simp add: codable_def)
  have start: "starts (stream inp) (block_bits c (dc (scs ! k)) T)"
    "starts (\<lambda>i. stream inp (i + length (block_bits c (dc (scs ! k)) T))) (blocks_bits bs (set_last_dc c (T ! 0) s))"
    using Cons.prems(5) k(3) b by (simp_all add: starts_append)
  have cod: "codable (dc (scs ! k)) T" using Cons.prems(3) k(3) b by simp
  have rep: "replicate (length (b # bs) * 64) (0 :: int) = replicate 64 0 @ replicate (length bs * 64) 0"
    by (simp add: replicate_add)
  obtain m inp1 where inp1: "decode_block (scs ! k) (length pre) (pre @ replicate (length (b # bs) * 64) 0 @ post) inp =
      Some (Inr ((scs ! k)\<lparr>dc := T ! 0\<rparr>, m, length (pre @ T), (pre @ T) @ replicate (length bs * 64) 0 @ post, inp1))"
    "reads (length (block_bits c (dc (scs ! k)) T)) inp inp1" "m = 1 \<longrightarrow> (\<forall>c \<in> set (tl T). c = 0)"
    using decode_block_run [OF k(4) cod Cons.prems(4) start(1), of pre "replicate (length bs * 64) 0 @ post"] len unfolding rep
    by (auto simp del: replicate.simps)
  have "in_ok inp1" "starts (stream inp1) (blocks_bits bs (set_last_dc c (T ! 0) s))"
    using inp1(2) start(2) by (simp_all add: reads_def)
  moreover have "blocks_codable bs (set_last_dc c (T ! 0) s)" using Cons.prems(3) b by simp
  ultimately obtain scs' inp' ms where
    IH: "decode_blocks (length bs) ?k (scs[k := (scs ! k)\<lparr>dc := T ! 0\<rparr>]) (length (pre @ T)) ((pre @ T) @ replicate (length bs * 64) 0 @ post) inp1 (maxs @ [m]) =
      Some (Inr (scs', (pre @ T) @ concat (map snd bs) @ post, inp', (maxs @ [m]) @ ms))"
      "scans_ok nexts (blocks_dc bs (set_last_dc c (T ! 0) s)) scs'"
      "reads (length (blocks_bits bs (set_last_dc c (T ! 0) s))) inp1 inp'" "only_dc ms bs"
    using Cons.IH [OF scans_ok_update [OF Cons.prems(1) k(1)] order(1), of "T ! 0" inp1 "pre @ T" "maxs @ [m]"] k(2) by blast
  have "decode_blocks (length (b # bs)) k scs (length pre) (pre @ replicate (length (b # bs) * 64) 0 @ post) inp maxs =
      Some (Inr (scs', pre @ concat (map snd (b # bs)) @ post, inp', maxs @ m # ms))"
    using inp1(1) IH(1) k(1) b by (simp del: replicate.simps)
  moreover have "reads (length (blocks_bits (b # bs) s)) inp inp'"
    using reads_trans [OF inp1(2) IH(3)] k(3) b by simp
  moreover have "scans_ok nexts (blocks_dc (b # bs) s) scs'" using IH(2) b by (simp add: blocks_dc_def)
  moreover have "only_dc (m # ms) (b # bs)" using IH(4) inp1(3) b by (simp add: only_dc_def)
  ultimately show ?case by blast
qed

lemma decode_mcus_run:
  assumes "scans_ok nexts s scs" "in_order 0 nexts (map fst bs)" "blocks_codable bs s" "in_ok inp"
    and "starts (stream inp) (blocks_bits bs s)"
  shows "\<exists>scs' inp' ms. decode_mcus (length bs) scs dct inp =
      Some (Inr (scs', concat (map snd bs) @ drop (length bs * 64) dct, inp', ms)) \<and>
    scans_ok nexts (blocks_dc bs s) scs' \<and> reads (length (blocks_bits bs s)) inp inp' \<and> only_dc ms bs"
  using decode_blocks_run [OF assms, of "[]" "drop (length bs * 64) dct" "[]"] by (simp add: decode_mcus_def del: replicate.simps)

text \<open>The reader at the beginning of what the writer left.\<close>

lemma closed_stream:
  fixes behind :: "byte list"
  assumes "writes_bits base bl w"
  defines "inp \<equiv> setinput (drop (length base) (close_bitstream w) @ behind)"
  shows "in_ok inp" "starts (stream inp) bl" "marker inp = 0" "ending inp = 0xd9" "room inp < length bl + 8"
proof -
  obtain bs p where bs: "close_bitstream w = base @ stuff bs @ [0xff, 0xd9]" "p < 8" "bytes_bits bs = bl @ replicate p False"
    using close_bitstream_bits [OF assms(1)] by blast
  have inp: "inp = \<lparr>jp = stuff bs @ 0xff # 0xd9 # behind, bits = 0, left = 0, marker = 0\<rparr>"
    by (simp add: inp_def setinput_def bs(1))
  have un: "unstuff (stuff bs @ 0xff # 0xd9 # behind) = bs" by (rule unstuff_terminated) simp
  have "terminated (stuff bs @ 0xff # 0xd9 # behind)" unfolding terminated_def by (intro exI [of _ bs] exI [of _ "0xd9"] exI [of _ behind]) simp
  then show "in_ok inp" by (simp add: in_ok_def inp)
  show "starts (stream inp) bl"
    by (simp add: starts_def stream_def inp rest_bits_def un bs(3) nth_default_def nth_append)
  show "marker inp = 0" by (simp add: inp)
  show "ending inp = 0xd9" using marker_of_stuff [of "0xd9" bs behind] by (simp add: ending_def inp)
  have "8 * length bs = length bl + p" using arg_cong [OF bs(3), of length] by simp
  then show "room inp < length bl + 8" using bs(2) by (simp add: room_def inp un)
qed

end
