(* ===== verification/Gspca_Encoder.thy ===== *)
theory Gspca_Encoder
  imports Gspca_Roundtrip Gspca_Picture
begin

text \<open>
  The encoder of \<^verbatim>\<open>src/mjpg-streamer/plugins/input_gspcav1/encoder.c\<close>: the conversions of a camera's picture to packed YUV in
  place, the reading of an MCU into the six blocks, \<^verbatim>\<open>encodeMCU\<close> and \<^verbatim>\<open>encode_image\<close>.  Sizes and indices are natural
  numbers; the casts to \<^verbatim>\<open>UINT16\<close> and the products of \<^verbatim>\<open>UINT32\<close> are written out.
\<close>

fun srepeat :: "nat \<Rightarrow> ('s \<Rightarrow> crash + 's) \<Rightarrow> 's \<Rightarrow> crash + 's" where
  "srepeat 0 f s = Inr s"
| "srepeat (Suc n) f s = sbind (f s) (srepeat n f)"

definition steps :: "('s \<Rightarrow> crash + 's) list \<Rightarrow> 's \<Rightarrow> crash + 's" where
  "steps = sfold (\<lambda>f. f)"

subsection \<open>Colour conversion\<close>

definition clip :: "int \<Rightarrow> byte" where
  "clip color = (if color > 0xff then 0xff else if color < 0 then 0 else word_of_int color)"

text \<open>A pixel is red, green and blue.\<close>

type_synonym pixel = "int \<times> int \<times> int"

definition pixel_Y :: "pixel \<Rightarrow> byte" where
  "pixel_Y = (\<lambda>(R, G, B). clip (drop_bit 8 (77 * R + 150 * G + 29 * B)))"

definition pixel_Cb :: "pixel \<Rightarrow> byte" where
  "pixel_Cb = (\<lambda>(R, G, B). clip (drop_bit 8 (- 43 * R - 85 * G + 128 * B) + 128))"

definition pixel_Cr :: "pixel \<Rightarrow> byte" where
  "pixel_Cr = (\<lambda>(R, G, B). clip (drop_bit 8 (128 * R - 107 * G - 21 * B) + 128))"

definition mult32 :: "nat \<Rightarrow> nat \<Rightarrow> nat" where
  "mult32 a b = a * b mod 2 ^ 32"

text \<open>Three bytes, blue first.\<close>

definition bgr_at :: "byte list \<Rightarrow> nat \<Rightarrow> crash + pixel" where
  "bgr_at buf p =
     sbind (at buf (int p)) (\<lambda>b. sbind (at buf (int (p + 1))) (\<lambda>g. sbind (at buf (int (p + 2))) (\<lambda>r. Inr (uint r, uint g, uint b))))"

definition puts :: "nat \<Rightarrow> byte list \<Rightarrow> byte list \<Rightarrow> crash + byte list" where
  "puts p bs buf = (if p + length bs \<le> length buf then Inr (take p buf @ bs @ drop (p + length bs) buf) else Inl OutOfBounds)"

definition RGB_2_444 :: "nat \<Rightarrow> nat \<Rightarrow> byte list \<Rightarrow> crash + byte list" where
  "RGB_2_444 image_width image_height =
     sfold (\<lambda>i buf. sbind (bgr_at buf (3 * i)) (\<lambda>p. puts (3 * i) [pixel_Y p, pixel_Cb p, pixel_Cr p] buf)) [0..<mult32 image_width image_height]"

text \<open>The loop runs once for every pixel although it takes two of them.\<close>

definition RGB_2_422 :: "nat \<Rightarrow> nat \<Rightarrow> byte list \<Rightarrow> crash + byte list" where
  "RGB_2_422 image_width image_height =
     sfold (\<lambda>i buf.
       sbind (bgr_at buf (6 * i)) (\<lambda>p.
       sbind (bgr_at buf (6 * i + 3)) (\<lambda>p1.
         puts (4 * i) [pixel_Y p, pixel_Cb p, pixel_Y p1, pixel_Cr p] buf))) [0..<mult32 image_width image_height]"

definition RGB_2_400 :: "nat \<Rightarrow> nat \<Rightarrow> byte list \<Rightarrow> crash + byte list" where
  "RGB_2_400 image_width image_height =
     sfold (\<lambda>i buf. sbind (bgr_at buf (3 * i)) (\<lambda>p. puts i [pixel_Y p] buf)) [0..<mult32 image_width image_height]"

text \<open>
  The loop of the conversions to 4:2:0.  \<open>quad\<close> reads two pixels at \<open>inbuf\<close> and two at \<open>inbuf1\<close>, \<open>bpp\<close> is the number of
  bytes of a pixel.
\<close>

fun to_420 ::
  "(byte list \<Rightarrow> nat \<Rightarrow> nat \<Rightarrow> crash + (pixel \<times> pixel \<times> pixel \<times> pixel)) \<Rightarrow> nat \<Rightarrow> nat \<Rightarrow> nat \<Rightarrow> nat \<Rightarrow> nat \<Rightarrow> nat \<Rightarrow> nat \<Rightarrow> byte list \<Rightarrow>
    crash + byte list"
where
  "to_420 quad bpp image_width 0 j inbuf inbuf1 p buf = Inr buf"
| "to_420 quad bpp image_width (Suc i) j inbuf inbuf1 p buf =
     sbind (quad buf inbuf inbuf1) (\<lambda>(p00, p01, p10, p11).
     sbind (puts p [pixel_Y p00, pixel_Y p01, pixel_Y p10, pixel_Y p11, pixel_Cb p00, pixel_Cr p00] buf) (\<lambda>buf.
       let wrap = (j + 1 \<ge> image_width div 2); skip = (if wrap then bpp * image_width else 0)
       in to_420 quad bpp image_width i (if wrap then 0 else j + 1) (inbuf + 2 * bpp + skip) (inbuf1 + 2 * bpp + skip) (p + 6) buf))"

definition quad_at :: "nat \<Rightarrow> byte list \<Rightarrow> nat \<Rightarrow> nat \<Rightarrow> crash + (pixel \<times> pixel \<times> pixel \<times> pixel)" where
  "quad_at bpp buf inbuf inbuf1 =
     sbind (bgr_at buf inbuf) (\<lambda>p00. sbind (bgr_at buf (inbuf + bpp)) (\<lambda>p01.
     sbind (bgr_at buf inbuf1) (\<lambda>p10. sbind (bgr_at buf (inbuf1 + bpp)) (\<lambda>p11. Inr (p00, p01, p10, p11)))))"

definition RGB_2_420 :: "nat \<Rightarrow> nat \<Rightarrow> byte list \<Rightarrow> crash + byte list" where
  "RGB_2_420 image_width image_height = to_420 (quad_at 3) 3 image_width (mult32 image_width image_height div 4) 0 0 (3 * image_width) 0"

definition RGB32_2_420 :: "nat \<Rightarrow> nat \<Rightarrow> byte list \<Rightarrow> crash + byte list" where
  "RGB32_2_420 image_width image_height = to_420 (quad_at 4) 4 image_width (mult32 image_width image_height div 4) 0 0 (4 * image_width) 0"

text \<open>Five bits of blue, six of green and five of red, from the low end of a little-endian word.\<close>

definition rgb565_at :: "byte list \<Rightarrow> nat \<Rightarrow> crash + pixel" where
  "rgb565_at buf p =
     sbind (at buf (int p)) (\<lambda>lo. sbind (at buf (int (p + 1))) (\<lambda>hi.
       let v = uint lo + 256 * uint hi
       in Inr (8 * (v div 2048), 4 * (v div 32 mod 64), 8 * (v mod 32))))"

text \<open>Green and red of the fourth pixel are taken from the second.\<close>

definition quad565_at :: "byte list \<Rightarrow> nat \<Rightarrow> nat \<Rightarrow> crash + (pixel \<times> pixel \<times> pixel \<times> pixel)" where
  "quad565_at buf inbuf inbuf1 =
     sbind (rgb565_at buf inbuf) (\<lambda>p00. sbind (rgb565_at buf (inbuf + 2)) (\<lambda>p01.
     sbind (rgb565_at buf inbuf1) (\<lambda>p10. sbind (rgb565_at buf (inbuf1 + 2)) (\<lambda>p11.
       Inr (p00, p01, p10, (fst p01, fst (snd p01), snd (snd p11)))))))"

definition RGB565_2_420 :: "nat \<Rightarrow> nat \<Rightarrow> byte list \<Rightarrow> crash + byte list" where
  "RGB565_2_420 image_width image_height = to_420 quad565_at 2 image_width (mult32 image_width image_height div 4) 0 0 (2 * image_width) 0"

subsection \<open>Planar pictures\<close>

text \<open>\<open>malloc_ok\<close> says that \<^verbatim>\<open>realloc\<close> returned a buffer; it gets a copy of the first bytes of the picture.\<close>

definition copy_of :: "nat \<Rightarrow> byte list \<Rightarrow> crash + byte list" where
  "copy_of n buf = (if n \<le> length buf then Inr (take n buf) else Inl OutOfBounds)"

fun gather :: "byte list \<Rightarrow> nat list \<Rightarrow> crash + byte list" where
  "gather Buff [] = Inr []"
| "gather Buff (i # is) = sbind (at Buff (int i)) (\<lambda>b. sbind (gather Buff is) (\<lambda>bs. Inr (b # bs)))"

definition YUV_2_444 :: "bool \<Rightarrow> nat \<Rightarrow> nat \<Rightarrow> byte list \<Rightarrow> crash + byte list" where
  "YUV_2_444 malloc_ok image_width image_height buf =
     (if malloc_ok then
        let size = mult32 image_width image_height
        in sbind (copy_of (mult32 size 3) buf) (\<lambda>Buff.
           sbind (gather Buff (concat (map (\<lambda>i. [i, size + i, mult32 size 2 + i]) [0..<size]))) (\<lambda>bs. puts 0 bs buf))
      else Inr buf)"

text \<open>Here too the loop runs for every pixel and takes two.\<close>

definition YUV_2_422 :: "bool \<Rightarrow> nat \<Rightarrow> nat \<Rightarrow> byte list \<Rightarrow> crash + byte list" where
  "YUV_2_422 malloc_ok image_width image_height buf =
     (if malloc_ok then
        let size = mult32 image_width image_height
        in sbind (copy_of (mult32 size 2) buf) (\<lambda>Buff.
           sbind (gather Buff (concat (map (\<lambda>i. [2 * i, size + i, 2 * i + 1, size + size div 2 + i]) [0..<size]))) (\<lambda>bs. puts 0 bs buf))
      else Inr buf)"

text \<open>The indices of the six bytes of the four pixels at the even row and column \<open>y\<close> and \<open>x\<close>.\<close>

definition packed_420 :: "nat \<Rightarrow> nat \<Rightarrow> nat \<Rightarrow> nat \<Rightarrow> nat list" where
  "packed_420 image_width whole y x =
     (let n = y div 2 * ((image_width + 1) div 2) + x div 2;
          l = y div 2 * (2 * ((image_width + 1) div 2) + image_width) + x
      in [l, l + 1, image_width + l, image_width + l + 1, whole + n, whole + whole div 4 + n])"

definition evens :: "nat \<Rightarrow> nat list" where
  "evens n = map (\<lambda>i. 2 * i) [0..<(n + 1) div 2]"

definition YUV_2_420 :: "bool \<Rightarrow> nat \<Rightarrow> nat \<Rightarrow> byte list \<Rightarrow> crash + byte list" where
  "YUV_2_420 malloc_ok image_width image_height buf =
     (if malloc_ok then
        let size = mult32 image_width image_height
        in sbind (copy_of (mult32 size 3 div 2) buf) (\<lambda>Buff.
           sbind (gather Buff (concat (map (\<lambda>y. concat (map (packed_420 image_width size y) (evens image_width))) (evens image_height))))
             (\<lambda>bs. puts 0 bs buf))
      else Inr buf)"

subsection \<open>Reading an MCU\<close>

text \<open>A block with the pointers that run through it: \<^verbatim>\<open>Y1_Ptr\<close> and \<^verbatim>\<open>Y1Ptr\<close> for the even and the odd lines.\<close>

record pane =
  cells :: block
  ptr :: nat
  ptr' :: nat

definition pane_start :: "block \<Rightarrow> pane" where
  "pane_start b = \<lparr>cells = b, ptr = 0, ptr' = 8\<rparr>"

definition put :: "int \<Rightarrow> pane \<Rightarrow> crash + pane" where
  "put v p = sbind (store (cells p) (ptr p) v) (\<lambda>c. Inr (p\<lparr>cells := c, ptr := ptr p + 1\<rparr>))"

definition put' :: "int \<Rightarrow> pane \<Rightarrow> crash + pane" where
  "put' v p = sbind (store (cells p) (ptr' p) v) (\<lambda>c. Inr (p\<lparr>cells := c, ptr' := ptr' p + 1\<rparr>))"

text \<open>\<^verbatim>\<open>*Ptr = *(Ptr - k); Ptr++\<close>.\<close>

definition repeat_last :: "nat \<Rightarrow> pane \<Rightarrow> crash + pane" where
  "repeat_last k p = sbind (at (cells p) (int (ptr p) - int k)) (\<lambda>v. put v p)"

definition repeat_last' :: "nat \<Rightarrow> pane \<Rightarrow> crash + pane" where
  "repeat_last' k p = sbind (at (cells p) (int (ptr' p) - int k)) (\<lambda>v. put' v p)"

definition advance :: "pane \<Rightarrow> crash + pane" where
  "advance p = Inr (p\<lparr>ptr := ptr p + 8, ptr' := ptr' p + 8\<rparr>)"

record reader =
  rY1 :: pane
  rY2 :: pane
  rY3 :: pane
  rY4 :: pane
  rCB :: pane
  rCR :: pane
  inptr :: nat

text \<open>An operation on one of the panes.\<close>

definition on_pane ::
  "(reader \<Rightarrow> pane) \<Rightarrow> (pane \<Rightarrow> reader \<Rightarrow> reader) \<Rightarrow> (pane \<Rightarrow> crash + pane) \<Rightarrow> reader \<Rightarrow> crash + reader"
where
  "on_pane get upd f r = sbind (f (get r)) (\<lambda>p. Inr (upd p r))"

definition on_Y1 where "on_Y1 = on_pane rY1 (\<lambda>p r. r\<lparr>rY1 := p\<rparr>)"
definition on_Y2 where "on_Y2 = on_pane rY2 (\<lambda>p r. r\<lparr>rY2 := p\<rparr>)"
definition on_Y3 where "on_Y3 = on_pane rY3 (\<lambda>p r. r\<lparr>rY3 := p\<rparr>)"
definition on_Y4 where "on_Y4 = on_pane rY4 (\<lambda>p r. r\<lparr>rY4 := p\<rparr>)"
definition on_CB where "on_CB = on_pane rCB (\<lambda>p r. r\<lparr>rCB := p\<rparr>)"
definition on_CR where "on_CR = on_pane rCR (\<lambda>p r. r\<lparr>rCR := p\<rparr>)"

text \<open>\<^verbatim>\<open>*input_ptr++ - 128\<close> is stored.\<close>

definition take_in :: "byte list \<Rightarrow> (int \<Rightarrow> reader \<Rightarrow> crash + reader) \<Rightarrow> reader \<Rightarrow> crash + reader" where
  "take_in buf f r =
     sbind (at buf (int (inptr r))) (\<lambda>b. sbind (f (uint b - 128) r) (\<lambda>r. Inr (r\<lparr>inptr := inptr r + 1\<rparr>)))"

definition skip_in :: "nat \<Rightarrow> reader \<Rightarrow> crash + reader" where
  "skip_in n r = Inr (r\<lparr>inptr := inptr r + n\<rparr>)"

text \<open>Two pixels of each of two lines and their chroma values.\<close>

definition square :: "byte list \<Rightarrow> ((pane \<Rightarrow> crash + pane) \<Rightarrow> reader \<Rightarrow> crash + reader) \<Rightarrow> reader \<Rightarrow> crash + reader" where
  "square buf on_Y = steps [
     take_in buf (\<lambda>v. on_Y (put v)), take_in buf (\<lambda>v. on_Y (put v)),
     take_in buf (\<lambda>v. on_Y (put' v)), take_in buf (\<lambda>v. on_Y (put' v)),
     take_in buf (\<lambda>v. on_CB (put v)), take_in buf (\<lambda>v. on_CR (put v))]"

text \<open>The chroma values to the right of the picture.\<close>

definition fill_chroma :: "nat \<Rightarrow> reader \<Rightarrow> crash + reader" where
  "fill_chroma c = srepeat ((16 - c) div 2) (steps [on_CB (repeat_last 1), on_CR (repeat_last 1)])"

text \<open>The luminance to the right when the picture ends in the left block \<open>on_A\<close>: the right block \<open>on_B\<close> repeats its last values.\<close>

definition fill_left ::
  "((pane \<Rightarrow> crash + pane) \<Rightarrow> reader \<Rightarrow> crash + reader) \<Rightarrow> ((pane \<Rightarrow> crash + pane) \<Rightarrow> reader \<Rightarrow> crash + reader) \<Rightarrow>
    (reader \<Rightarrow> pane) \<Rightarrow> nat \<Rightarrow> reader \<Rightarrow> crash + reader"
where
  "fill_left on_A on_B A Y1_cols r =
     sbind (srepeat (8 - Y1_cols) (steps [on_A (repeat_last 1), on_A (repeat_last' 1)]) r)
       (srepeat 8 (\<lambda>r.
          sbind (at (cells (A r)) (int (ptr (A r)) - 1)) (\<lambda>v.
          sbind (on_B (put v) r) (\<lambda>r.
          sbind (at (cells (A r)) (int (ptr' (A r)) - 1)) (\<lambda>v. on_B (put' v) r)))))"

text \<open>Two lines of the upper blocks; behind the odd line of the second block the other pointer is advanced.\<close>

definition line_upper :: "byte list \<Rightarrow> nat \<Rightarrow> nat \<Rightarrow> reader \<Rightarrow> crash + reader" where
  "line_upper buf c inc =
     (let Y1_cols = min c 8; Y2_cols = c - 8
      in steps [
        srepeat (Y1_cols div 2) (square buf on_Y1),
        srepeat (Y2_cols div 2) (square buf on_Y2),
        (if c \<le> 8 then fill_left on_Y1 on_Y2 rY1 Y1_cols
         else srepeat (8 - Y2_cols) (steps [on_Y2 (repeat_last 1),
           on_Y2 (\<lambda>p. sbind (repeat_last' 1 p) (\<lambda>q. Inr (q\<lparr>ptr := ptr p + 1, ptr' := ptr' p\<rparr>)))])),
        fill_chroma c,
        on_Y1 advance, on_Y2 advance, skip_in inc])"

definition line_lower :: "byte list \<Rightarrow> nat \<Rightarrow> nat \<Rightarrow> reader \<Rightarrow> crash + reader" where
  "line_lower buf c inc =
     (let Y1_cols = min c 8; Y2_cols = c - 8
      in steps [
        srepeat (Y1_cols div 2) (square buf on_Y3),
        srepeat (Y2_cols div 2) (square buf on_Y4),
        (if c \<le> 8 then fill_left on_Y3 on_Y4 rY3 Y1_cols
         else srepeat (8 - Y2_cols) (steps [on_Y4 (repeat_last 1), on_Y4 (repeat_last' 1)])),
        fill_chroma c,
        on_Y3 advance, on_Y4 advance, skip_in inc])"

text \<open>The lines below the picture.\<close>

definition copy_up :: "reader \<Rightarrow> crash + reader" where
  "copy_up r =
     (let back = (\<lambda>p. Inr (p\<lparr>ptr := ptr p - 8\<rparr>))
      in sbind (steps [on_Y1 back, on_Y2 back] r)
        (srepeat 8 (\<lambda>r.
          sbind (at (cells (rY1 r)) (int (ptr (rY1 r)))) (\<lambda>v1.
          sbind (at (cells (rY2 r)) (int (ptr (rY2 r)))) (\<lambda>v2.
            steps [on_Y3 (put v1), on_Y4 (put v2), on_Y1 (\<lambda>p. Inr (p\<lparr>ptr := ptr p + 1\<rparr>)), on_Y2 (\<lambda>p. Inr (p\<lparr>ptr := ptr p + 1\<rparr>))] r)))))"

definition fill_below :: "nat \<Rightarrow> reader \<Rightarrow> crash + reader" where
  "fill_below n = steps [
     (if n \<le> 8
      then steps [
        srepeat (8 - n) (srepeat 8 (steps [on_Y1 (repeat_last 8), on_Y2 (repeat_last 8)])),
        srepeat 8 copy_up]
      else srepeat (16 - n) (srepeat 8 (steps [on_Y3 (repeat_last 8), on_Y4 (repeat_last 8)]))),
     srepeat ((16 - n) div 2) (srepeat 8 (steps [on_CB (repeat_last 8), on_CR (repeat_last 8)]))]"

text \<open>The global blocks.\<close>

record mcu_blocks =
  Y1 :: block
  Y2 :: block
  Y3 :: block
  Y4 :: block
  CB :: block
  CR :: block
  Temp :: block

definition reader_start :: "mcu_blocks \<Rightarrow> nat \<Rightarrow> reader" where
  "reader_start m input_ptr =
     \<lparr>rY1 = pane_start (Y1 m), rY2 = pane_start (Y2 m), rY3 = pane_start (Y3 m), rY4 = pane_start (Y4 m),
      rCB = pane_start (CB m), rCR = pane_start (CR m), inptr = input_ptr\<rparr>"

definition reader_end :: "mcu_blocks \<Rightarrow> reader \<Rightarrow> mcu_blocks" where
  "reader_end m r = m\<lparr>Y1 := cells (rY1 r), Y2 := cells (rY2 r), Y3 := cells (rY3 r), Y4 := cells (rY4 r),
     CB := cells (rCB r), CR := cells (rCR r)\<rparr>"

definition read_420_format :: "nat \<Rightarrow> nat \<Rightarrow> nat \<Rightarrow> byte list \<Rightarrow> nat \<Rightarrow> mcu_blocks \<Rightarrow> crash + mcu_blocks" where
  "read_420_format n c inc buf input_ptr m =
     sbind (steps [
         srepeat (min n 8 div 2) (line_upper buf c inc),
         srepeat ((n - 8) div 2) (line_lower buf c inc),
         fill_below n] (reader_start m input_ptr))
       (\<lambda>r. Inr (reader_end m r))"

text \<open>
  Where the other formats have a loop over the rest of a line without braces, the pointer is not advanced in it but once
  behind it: \<open>stuck k\<close> stores without advancing, \<open>bump\<close> advances.
\<close>

definition stuck :: "nat \<Rightarrow> pane \<Rightarrow> crash + pane" where
  "stuck k p = sbind (repeat_last k p) (\<lambda>q. Inr (q\<lparr>ptr := ptr p\<rparr>))"

definition bump :: "pane \<Rightarrow> crash + pane" where
  "bump p = Inr (p\<lparr>ptr := ptr p + 1\<rparr>)"

definition read_400_format :: "nat \<Rightarrow> nat \<Rightarrow> nat \<Rightarrow> byte list \<Rightarrow> nat \<Rightarrow> mcu_blocks \<Rightarrow> crash + mcu_blocks" where
  "read_400_format n c inc buf input_ptr m =
     sbind (steps [
         srepeat n (steps [
           srepeat c (take_in buf (\<lambda>v. on_Y1 (put v))),
           srepeat (8 - c) (on_Y1 (stuck 1)), on_Y1 bump,
           skip_in inc]),
         srepeat (8 - n) (steps [srepeat 8 (on_Y1 (stuck 8)), on_Y1 bump])] (reader_start m input_ptr))
       (\<lambda>r. Inr (reader_end m r))"

definition two_pixels :: "byte list \<Rightarrow> ((pane \<Rightarrow> crash + pane) \<Rightarrow> reader \<Rightarrow> crash + reader) \<Rightarrow> reader \<Rightarrow> crash + reader" where
  "two_pixels buf on_Y = steps [
     take_in buf (\<lambda>v. on_Y (put v)), take_in buf (\<lambda>v. on_CB (put v)),
     take_in buf (\<lambda>v. on_Y (put v)), take_in buf (\<lambda>v. on_CR (put v))]"

definition read_422_format :: "nat \<Rightarrow> nat \<Rightarrow> nat \<Rightarrow> byte list \<Rightarrow> nat \<Rightarrow> mcu_blocks \<Rightarrow> crash + mcu_blocks" where
  "read_422_format n c inc buf input_ptr m =
     (let Y1_cols = min c 8; Y2_cols = c - 8
      in sbind (steps [
         srepeat n (steps [
           srepeat (Y1_cols div 2) (two_pixels buf on_Y1),
           srepeat (Y2_cols div 2) (two_pixels buf on_Y2),
           (if c \<le> 8
            then steps [
              srepeat (8 - Y1_cols) (on_Y1 (stuck 1)), on_Y1 bump,
              srepeat (8 - Y2_cols) (\<lambda>r.
                sbind (at (cells (rY1 r)) (int (ptr (rY1 r)) - 1)) (\<lambda>v.
                  on_Y2 (\<lambda>p. sbind (put v p) (\<lambda>q. Inr (q\<lparr>ptr := ptr p\<rparr>))) r)), on_Y2 bump]
            else steps [srepeat (8 - Y2_cols) (on_Y2 (stuck 1)), on_Y2 bump]),
           fill_chroma c,
           skip_in inc]),
         srepeat (8 - n) (srepeat 8 (steps [
           on_Y1 (repeat_last 8), on_Y2 (repeat_last 8), on_CB (repeat_last 8), on_CR (repeat_last 8)]))] (reader_start m input_ptr))
       (\<lambda>r. Inr (reader_end m r)))"

definition read_444_format :: "nat \<Rightarrow> nat \<Rightarrow> nat \<Rightarrow> byte list \<Rightarrow> nat \<Rightarrow> mcu_blocks \<Rightarrow> crash + mcu_blocks" where
  "read_444_format n c inc buf input_ptr m =
     sbind (steps [
         srepeat n (steps [
           srepeat c (steps [take_in buf (\<lambda>v. on_Y1 (put v)), take_in buf (\<lambda>v. on_CB (put v)), take_in buf (\<lambda>v. on_CR (put v))]),
           srepeat (8 - c) (steps [on_Y1 (repeat_last 1), on_CB (repeat_last 1), on_CR (repeat_last 1)]),
           skip_in inc]),
         srepeat (8 - n) (srepeat 8 (steps [on_Y1 (repeat_last 8), on_CB (repeat_last 8), on_CR (repeat_last 8)]))] (reader_start m input_ptr))
       (\<lambda>r. Inr (reader_end m r))"

subsection \<open>Encoding an MCU\<close>

text \<open>The blocks, the tables, the last DC values and the bit stream.\<close>

record enc_state =
  blocks :: mcu_blocks
  tables :: quant_tables
  dcs :: dc_state
  writer :: bit_writer

text \<open>\<^verbatim>\<open>DCT\<close>, \<^verbatim>\<open>quantization\<close> and \<^verbatim>\<open>huffman\<close> on the block that \<open>get\<close> and \<open>upd\<close> select.\<close>

definition encode_block ::
  "(mcu_blocks \<Rightarrow> block) \<Rightarrow> (block \<Rightarrow> mcu_blocks \<Rightarrow> mcu_blocks) \<Rightarrow> (quant_tables \<Rightarrow> short list) \<Rightarrow> nat \<Rightarrow> enc_state \<Rightarrow> crash + enc_state"
where
  "encode_block get upd tab component e =
     (let data = DCT (get (blocks e)); T = quantization data (tab (tables e)) (Temp (blocks e))
      in sbind (huffman component T (dcs e, writer e)) (\<lambda>(s, w).
           Inr (e\<lparr>blocks := (upd data (blocks e))\<lparr>Temp := T\<rparr>, dcs := s, writer := w\<rparr>)))"

definition encode_Y1 where "encode_Y1 = encode_block Y1 (\<lambda>b m. m\<lparr>Y1 := b\<rparr>) ILqt 1"
definition encode_Y2 where "encode_Y2 = encode_block Y2 (\<lambda>b m. m\<lparr>Y2 := b\<rparr>) ILqt 1"
definition encode_Y3 where "encode_Y3 = encode_block Y3 (\<lambda>b m. m\<lparr>Y3 := b\<rparr>) ILqt 1"
definition encode_Y4 where "encode_Y4 = encode_block Y4 (\<lambda>b m. m\<lparr>Y4 := b\<rparr>) ILqt 1"
definition encode_CB where "encode_CB = encode_block CB (\<lambda>b m. m\<lparr>CB := b\<rparr>) ICqt 2"
definition encode_CR where "encode_CR = encode_block CR (\<lambda>b m. m\<lparr>CR := b\<rparr>) ICqt 3"

definition encodeMCU :: "nat \<Rightarrow> enc_state \<Rightarrow> crash + enc_state" where
  "encodeMCU image_format =
     (if image_format = FOUR_ZERO_ZERO then encode_Y1
      else if image_format = FOUR_TWO_TWO then steps [encode_Y1, encode_Y2, encode_CB, encode_CR]
      else steps [encode_Y1, encode_Y2, encode_Y3, encode_Y4, encode_CB, encode_CR])"

subsection \<open>The picture\<close>

definition u16 :: "int \<Rightarrow> nat" where
  "u16 x = nat (x mod 65536)"

text \<open>\<^verbatim>\<open>JPEG_ENCODER_STRUCTURE\<close> without the last DC values and what changes from MCU to MCU.\<close>

record geometry =
  mcu_width :: nat
  mcu_height :: nat
  horizontal_mcus :: nat
  vertical_mcus :: nat
  rows_in_bottom_mcus :: nat
  cols_in_right_mcus :: nat
  length_minus_mcu_width :: nat
  length_minus_width :: nat
  mcu_width_size :: nat
  mcu_offset :: nat

definition mcu_shape :: "nat \<Rightarrow> nat \<times> nat \<times> nat" where
  "mcu_shape image_format =
     (if image_format = FOUR_ZERO_ZERO then (8, 8, 1)
      else if image_format = FOUR_FOUR_FOUR then (8, 8, 3)
      else if image_format = FOUR_TWO_ZERO then (16, 16, 3)
      else (16, 8, 2))"

definition initialization :: "nat \<Rightarrow> nat \<Rightarrow> nat \<Rightarrow> geometry" where
  "initialization image_format image_width image_height =
     (case mcu_shape image_format of (mw, mh, bytes_per_pixel) \<Rightarrow>
        let hm = u16 (int ((image_width + mw - 1) div mw));
            vm = u16 (int ((image_height + mh - 1) div mh));
            right = u16 (int image_width - (int hm - 1) * int mw);
            lines = (if image_format \<noteq> FOUR_TWO_ZERO then mh - 1 else mh div 2 - 1)
        in \<lparr>mcu_width = mw, mcu_height = mh, horizontal_mcus = hm, vertical_mcus = vm,
            rows_in_bottom_mcus = u16 (int image_height - (int vm - 1) * int mh),
            cols_in_right_mcus = right,
            length_minus_mcu_width = u16 ((int image_width - int mw) * int bytes_per_pixel),
            length_minus_width = u16 ((int image_width - int right) * int bytes_per_pixel),
            mcu_width_size = u16 (int (mw * bytes_per_pixel)),
            mcu_offset = u16 ((int (image_width * lines) - (int mw - int right)) * int bytes_per_pixel)\<rparr>)"

definition read_format :: "nat \<Rightarrow> nat \<Rightarrow> nat \<Rightarrow> nat \<Rightarrow> byte list \<Rightarrow> nat \<Rightarrow> mcu_blocks \<Rightarrow> crash + mcu_blocks" where
  "read_format image_format =
     (if image_format = FOUR_ZERO_ZERO then read_400_format
      else if image_format = FOUR_FOUR_FOUR then read_444_format
      else if image_format = FOUR_TWO_ZERO then read_420_format
      else read_422_format)"

text \<open>The loops over the MCUs; the second component of the state is \<^verbatim>\<open>input_ptr\<close>.\<close>

definition encode_at :: "nat \<Rightarrow> geometry \<Rightarrow> byte list \<Rightarrow> nat \<Rightarrow> nat \<Rightarrow> enc_state \<times> nat \<Rightarrow> crash + (enc_state \<times> nat)" where
  "encode_at image_format g buf n j = (\<lambda>(e, input_ptr).
     let inner = (j < horizontal_mcus g);
         c = (if inner then mcu_width g else cols_in_right_mcus g);
         inc = (if inner then length_minus_mcu_width g else length_minus_width g)
     in sbind (read_format image_format n c inc buf input_ptr (blocks e)) (\<lambda>m.
        sbind (encodeMCU image_format (e\<lparr>blocks := m\<rparr>)) (\<lambda>e.
          Inr (e, input_ptr + mcu_width_size g))))"

definition encode_row :: "nat \<Rightarrow> geometry \<Rightarrow> byte list \<Rightarrow> nat \<Rightarrow> enc_state \<times> nat \<Rightarrow> crash + (enc_state \<times> nat)" where
  "encode_row image_format g buf i st =
     (let n = (if i < vertical_mcus g then mcu_height g else rows_in_bottom_mcus g)
      in sbind (sfold (encode_at image_format g buf n) [1..<horizontal_mcus g + 1] st) (\<lambda>(e, input_ptr).
           Inr (e, input_ptr + mcu_offset g)))"

text \<open>The conversion that the caller asks for, and the format it gives.\<close>

definition convert :: "bool \<Rightarrow> nat \<Rightarrow> nat \<Rightarrow> nat \<Rightarrow> byte list \<Rightarrow> crash + (nat \<times> byte list)" where
  "convert malloc_ok image_format w h buf =
     (if image_format = 4 then sbind (RGB_2_444 w h buf) (\<lambda>b. Inr (FOUR_FOUR_FOUR, b))
      else if image_format = 5 then sbind (RGB_2_422 w h buf) (\<lambda>b. Inr (FOUR_TWO_TWO, b))
      else if image_format = 6 then sbind (RGB_2_420 w h buf) (\<lambda>b. Inr (FOUR_TWO_ZERO, b))
      else if image_format = 11 then sbind (RGB565_2_420 w h buf) (\<lambda>b. Inr (FOUR_TWO_ZERO, b))
      else if image_format = 12 then sbind (RGB32_2_420 w h buf) (\<lambda>b. Inr (FOUR_TWO_ZERO, b))
      else if image_format = 7 then sbind (RGB_2_400 w h buf) (\<lambda>b. Inr (FOUR_ZERO_ZERO, b))
      else if image_format = 8 then sbind (YUV_2_444 malloc_ok w h buf) (\<lambda>b. Inr (FOUR_FOUR_FOUR, b))
      else if image_format = 9 then sbind (YUV_2_422 malloc_ok w h buf) (\<lambda>b. Inr (FOUR_TWO_TWO, b))
      else if image_format = 10 then sbind (YUV_2_420 malloc_ok w h buf) (\<lambda>b. Inr (FOUR_TWO_ZERO, b))
      else Inr (image_format, buf))"

text \<open>The result is what is written at \<^verbatim>\<open>output_ptr\<close>, for which no bound is known here, and the globals.\<close>

definition encode_image ::
  "bool \<Rightarrow> byte list \<Rightarrow> cint \<Rightarrow> nat \<Rightarrow> nat \<Rightarrow> nat \<Rightarrow> mcu_blocks \<Rightarrow> quant_tables \<Rightarrow> crash + (byte list \<times> mcu_blocks \<times> quant_tables)"
where
  "encode_image malloc_ok buf quality_factor image_format w h m q =
     sbind (convert malloc_ok image_format w h buf) (\<lambda>(image_format, buf).
       let g = initialization image_format w h;
           q = initialize_quantization_tables quality_factor q;
           e = \<lparr>blocks = m, tables = q, dcs = \<lparr>ldc1 = 0, ldc2 = 0, ldc3 = 0\<rparr>,
             writer = \<lparr>lcode = 0, bitindex = 0, bout = write_markers q image_format (of_nat w) (of_nat h) []\<rparr>\<rparr>
       in sbind (sfold (encode_row image_format g buf) [1..<vertical_mcus g + 1] (e, 0)) (\<lambda>(e, _).
            Inr (close_bitstream (writer e), blocks e, q)))"

end
