(* ===== verification/Gspca_Encoding.thy ===== *)
theory Gspca_Encoding
  imports Gspca_Encoder
begin

text \<open>
  The encoder of the gspca codec never fails on samples: the ranges of transform and quantisation are those of the entropy
  coder, so that every MCU is appended to the file as the bits of its quantised blocks.
\<close>

subsection \<open>Every MCU of samples is encoded\<close>

lemma quantize_between:
  assumes "\<bar>d\<bar> < 32768" "uint r \<le> 32767"
  shows "(0 \<le> d \<longrightarrow> 0 \<le> quantize d r \<and> quantize d r \<le> d) \<and> (d < 0 \<longrightarrow> d \<le> quantize d r \<and> quantize d r \<le> 0)"
proof -
  have r: "0 \<le> uint r" by simp
  have q: "quantize d r = (d * uint r + 16384) div 32768"
    using quantize_value [OF _ _ r assms(2)] assms(1) by simp
  have "0 \<le> d * uint r \<and> d * uint r \<le> d * 32767" if "0 \<le> d"
    using that assms(2) by (auto intro!: mult_left_mono)
  moreover have "d * uint r \<le> 0 \<and> d * 32767 \<le> d * uint r" if "d < 0"
    using that assms(2) by (auto intro!: mult_left_mono_neg mult_nonpos_nonneg)
  ultimately show ?thesis unfolding q by linarith
qed

definition recip_ok :: "short list \<Rightarrow> bool" where
  "recip_ok tab \<longleftrightarrow> length tab = 64 \<and> (\<forall>r \<in> set tab. uint r \<le> 32767)"

definition dc_range :: "int \<Rightarrow> bool" where
  "dc_range v \<longleftrightarrow> - 1024 \<le> v \<and> v \<le> 1016"

definition dcs_ok :: "dc_state \<Rightarrow> bool" where
  "dcs_ok s \<longleftrightarrow> dc_range (ldc1 s) \<and> dc_range (ldc2 s) \<and> dc_range (ldc3 s)"

lemma dcs_ok_simps: "dcs_ok s \<Longrightarrow> dc_range (last_dc c s)" "dcs_ok s \<Longrightarrow> dc_range v \<Longrightarrow> dcs_ok (set_last_dc c v s)"
  by (auto simp: dcs_ok_def last_dc_def set_last_dc_def)

text \<open>The quantised block, whatever \<^verbatim>\<open>Temp\<close> held.\<close>

definition quantised :: "short list \<Rightarrow> block \<Rightarrow> block" where
  "quantised tab data = quantization (DCT data) tab (replicate 64 0)"

lemma quantization_any: "length T = 64 \<Longrightarrow> length T' = 64 \<Longrightarrow> quantization data tab T = quantization data tab T'"
proof (rule nth_equalityI)
  assume len: "length T = 64" "length T' = 64"
  then show "length (quantization data tab T) = length (quantization data tab T')" by simp
  fix k assume "k < length (quantization data tab T)"
  then obtain i where "i < 64" "zigzag_table ! i = k" using zigzag_surj [of k] len by auto
  then show "quantization data tab T ! k = quantization data tab T' ! k"
    using quantization_nth [of i T] quantization_nth [of i T'] len by auto
qed

lemma zigzag_0: "zigzag_table ! 0 = 0" "i < 64 \<Longrightarrow> zigzag_table ! i = 0 \<Longrightarrow> i = 0"
proof -
  show z: "zigzag_table ! 0 = 0" by (simp add: zigzag_table_def)
  assume "i < 64" "zigzag_table ! i = 0"
  then show "i = 0" using z zigzag_permutes nth_eq_iff_index_eq [of zigzag_table i 0] by simp
qed

lemma quantised_range:
  assumes "samples data" "recip_ok tab"
  shows "length (quantised tab data) = 64" "dc_range (quantised tab data ! 0)" "\<forall>c \<in> set (tl (quantised tab data)). \<bar>c\<bar> < 1024"
proof -
  show len: "length (quantised tab data) = 64" by (simp add: quantised_def)
  have nth: "quantised tab data ! (zigzag_table ! i) = quantize (DCT data ! i) (tab ! i)" if "i < 64" for i
    using quantization_nth [OF that, of "replicate 64 0"] by (simp add: quantised_def)
  have tab: "uint (tab ! i) \<le> 32767" if "i < 64" for i using assms(2) that by (simp add: recip_ok_def)
  show "dc_range (quantised tab data ! 0)"
  proof -
    have d: "- 1024 \<le> DCT data ! 0" "DCT data ! 0 \<le> 1016" using DCT_range [OF assms(1), of 0] by simp_all
    then have "\<bar>DCT data ! 0\<bar> < 32768" by simp
    from quantize_between [OF this tab, of 0] d nth [of 0] zigzag_0(1) show ?thesis
      unfolding dc_range_def by (cases "0 \<le> DCT data ! 0") simp_all
  qed
  show "\<forall>c \<in> set (tl (quantised tab data)). \<bar>c\<bar> < 1024"
  proof
    fix c assume "c \<in> set (tl (quantised tab data))"
    then obtain k where k: "k < 63" "c = quantised tab data ! Suc k" using len by (auto simp: in_set_conv_nth nth_tl)
    obtain i where i: "i < 64" "zigzag_table ! i = Suc k" using zigzag_surj [of "Suc k"] k(1) by auto
    then have "i \<noteq> 0" using zigzag_0(1) by (metis nat.distinct(1))
    then have "- 1020 \<le> DCT data ! i" "DCT data ! i \<le> 1020" using DCT_range [OF assms(1) i(1)] by simp_all
    moreover from this have "\<bar>DCT data ! i\<bar> < 32768" by simp
    ultimately show "\<bar>c\<bar> < 1024"
      using nth [OF i(1)] i(2) k(2) quantize_between [OF _ tab [OF i(1)], of "DCT data ! i"] by (cases "0 \<le> DCT data ! i") simp_all
  qed
qed

lemma quantised_codable: "samples data \<Longrightarrow> recip_ok tab \<Longrightarrow> dc_range v \<Longrightarrow> codable v (quantised tab data)"
  using quantised_range [of data tab] by (auto simp: codable_def dc_range_def)

text \<open>What an MCU is encoded to: the components and the quantised blocks in their order.\<close>

definition mcu_sequence :: "nat \<Rightarrow> quant_tables \<Rightarrow> mcu_blocks \<Rightarrow> (nat \<times> block) list" where
  "mcu_sequence image_format q m =
     (let Y = (\<lambda>b. (1, quantised (ILqt q) b)); chroma = [(2, quantised (ICqt q) (CB m)), (3, quantised (ICqt q) (CR m))]
      in if image_format = FOUR_ZERO_ZERO then [Y (Y1 m)]
         else if image_format = FOUR_TWO_TWO then [Y (Y1 m), Y (Y2 m)] @ chroma
         else [Y (Y1 m), Y (Y2 m), Y (Y3 m), Y (Y4 m)] @ chroma)"

definition mcu_ok :: "mcu_blocks \<Rightarrow> bool" where
  "mcu_ok m \<longleftrightarrow> samples (Y1 m) \<and> samples (Y2 m) \<and> samples (Y3 m) \<and> samples (Y4 m) \<and> samples (CB m) \<and> samples (CR m)"

text \<open>The invariant of the encoder between two blocks: \<open>bl\<close> are the bits that are written.\<close>

definition enc_ok :: "byte list \<Rightarrow> bool list \<Rightarrow> enc_state \<Rightarrow> bool" where
  "enc_ok base bl e \<longleftrightarrow> writes_bits base bl (writer e) \<and> dcs_ok (dcs e) \<and> length (Temp (blocks e)) = 64 \<and>
     recip_ok (ILqt (tables e)) \<and> recip_ok (ICqt (tables e))"

lemma encode_block_run:
  assumes "enc_ok base bl e" "samples (get (blocks e))" "recip_ok (tab (tables e))"
  defines "T \<equiv> quantised (tab (tables e)) (get (blocks e))"
  shows "\<exists>e'. encode_block get upd tab c e = Inr e' \<and> enc_ok base (bl @ block_bits c (last_dc c (dcs e)) T) e' \<and>
    dcs e' = set_last_dc c (T ! 0) (dcs e) \<and> tables e' = tables e \<and> codable (last_dc c (dcs e)) T \<and>
    blocks e' = (upd (DCT (get (blocks e))) (blocks e))\<lparr>Temp := T\<rparr>"
proof -
  have T: "quantization (DCT (get (blocks e))) (tab (tables e)) (Temp (blocks e)) = T"
    unfolding T_def quantised_def using assms(1) by (intro quantization_any) (simp_all add: enc_ok_def)
  have cod: "codable (last_dc c (dcs e)) T"
    unfolding T_def using assms(1-3) dcs_ok_simps(1) by (intro quantised_codable) (auto simp: enc_ok_def)
  obtain w' where w': "huffman c T (dcs e, writer e) = Inr (set_last_dc c (T ! 0) (dcs e), w')"
    "writes_bits base (bl @ block_bits c (last_dc c (dcs e)) T) w'"
    using huffman_run [OF _ cod] assms(1) unfolding enc_ok_def by blast
  let ?e = "e\<lparr>blocks := (upd (DCT (get (blocks e))) (blocks e))\<lparr>Temp := T\<rparr>, dcs := set_last_dc c (T ! 0) (dcs e), writer := w'\<rparr>"
  have "encode_block get upd tab c e = Inr ?e" using T w'(1) by (simp add: encode_block_def Let_def)
  moreover have "enc_ok base (bl @ block_bits c (last_dc c (dcs e)) T) ?e"
    using assms(1-3) w'(2) quantised_range [OF assms(2,3)] dcs_ok_simps(2) by (auto simp: enc_ok_def T_def)
  ultimately show ?thesis using cod by (intro exI [of _ ?e]) simp
qed

definition encodes :: "byte list \<Rightarrow> bool list \<Rightarrow> enc_state \<Rightarrow> (nat \<times> block) list \<Rightarrow> enc_state \<Rightarrow> bool" where
  "encodes base bl e bs e' \<longleftrightarrow> enc_ok base (bl @ blocks_bits bs (dcs e)) e' \<and> dcs e' = blocks_dc bs (dcs e) \<and>
     tables e' = tables e \<and> blocks_codable bs (dcs e)"

lemma blocks_append: "blocks_bits (bs @ cs) s = blocks_bits bs s @ blocks_bits cs (blocks_dc bs s)"
  "blocks_codable (bs @ cs) s \<longleftrightarrow> blocks_codable bs s \<and> blocks_codable cs (blocks_dc bs s)"
  "blocks_dc (bs @ cs) s = blocks_dc cs (blocks_dc bs s)"
  by (induction bs arbitrary: s) (auto simp: blocks_dc_def)

lemma encodes_block:
  assumes "encodes base bl e bs e1" "samples (get (blocks e1))" "recip_ok (tab (tables e))"
  shows "\<exists>e'. encode_block get upd tab c e1 = Inr e' \<and> encodes base bl e (bs @ [(c, quantised (tab (tables e)) (get (blocks e1)))]) e' \<and>
    blocks e' = (upd (DCT (get (blocks e1))) (blocks e1))\<lparr>Temp := quantised (tab (tables e)) (get (blocks e1))\<rparr>"
proof -
  have e1: "enc_ok base (bl @ blocks_bits bs (dcs e)) e1" "dcs e1 = blocks_dc bs (dcs e)" "tables e1 = tables e"
    using assms(1) by (simp_all add: encodes_def)
  have "recip_ok (tab (tables e1))" using assms(3) e1(3) by simp
  from encode_block_run [where get = get and tab = tab, OF e1(1) assms(2) this, of upd c] e1 assms(1) show ?thesis
    by (auto simp: encodes_def blocks_append) (simp add: blocks_dc_def)
qed

lemmas encode_parts = encode_Y1_def encode_Y2_def encode_Y3_def encode_Y4_def encode_CB_def encode_CR_def

lemma steps_simps [simp]: "steps [] s = Inr s" "steps (f # fs) s = sbind (f s) (steps fs)"
  by (simp_all add: steps_def)

lemma encodeMCU_run:
  fixes image_format :: nat
  assumes "enc_ok base bl e" "mcu_ok (blocks e)"
  shows "\<exists>e'. encodeMCU image_format e = Inr e' \<and> encodes base bl e (mcu_sequence image_format (tables e) (blocks e)) e'"
proof -
  note recip = assms(1) [unfolded enc_ok_def, THEN conjunct2, THEN conjunct2, THEN conjunct2]
  have m: "samples (Y1 (blocks e))" "samples (Y2 (blocks e))" "samples (Y3 (blocks e))" "samples (Y4 (blocks e))"
    "samples (CB (blocks e))" "samples (CR (blocks e))" using assms(2) by (simp_all add: mcu_ok_def)
  have e0: "encodes base bl e [] e" using assms(1) by (simp add: encodes_def blocks_dc_def)
  let ?Y = "\<lambda>b. (1, quantised (ILqt (tables e)) b)"
  obtain e1 where e1: "encode_Y1 e = Inr e1" "encodes base bl e [?Y (Y1 (blocks e))] e1"
      "Y2 (blocks e1) = Y2 (blocks e)" "Y3 (blocks e1) = Y3 (blocks e)" "Y4 (blocks e1) = Y4 (blocks e)"
      "CB (blocks e1) = CB (blocks e)" "CR (blocks e1) = CR (blocks e)"
    using encodes_block [where get = Y1 and tab = ILqt, OF e0 m(1) recip [THEN conjunct1], of "\<lambda>b m. m\<lparr>Y1 := b\<rparr>" 1]
    by (auto simp: encode_Y1_def)
  obtain e2 where e2: "encode_Y2 e1 = Inr e2" "encodes base bl e [?Y (Y1 (blocks e)), ?Y (Y2 (blocks e))] e2"
      "Y3 (blocks e2) = Y3 (blocks e)" "Y4 (blocks e2) = Y4 (blocks e)"
      "CB (blocks e2) = CB (blocks e)" "CR (blocks e2) = CR (blocks e)"
    using encodes_block [where get = Y2 and tab = ILqt, OF e1(2) _ recip [THEN conjunct1], of "\<lambda>b m. m\<lparr>Y2 := b\<rparr>" 1] m(2) e1(3-)
    by (auto simp: encode_Y2_def)
  have chroma: "\<exists>e'. steps [encode_CB, encode_CR] e3 = Inr e' \<and>
      encodes base bl e (bs @ [(2, quantised (ICqt (tables e)) (CB (blocks e))), (3, quantised (ICqt (tables e)) (CR (blocks e)))]) e'"
    if e3: "encodes base bl e bs e3" "CB (blocks e3) = CB (blocks e)" "CR (blocks e3) = CR (blocks e)" for e3 bs
  proof -
    obtain e4 where e4: "encode_CB e3 = Inr e4" "encodes base bl e (bs @ [(2, quantised (ICqt (tables e)) (CB (blocks e)))]) e4"
        "CR (blocks e4) = CR (blocks e)"
      using encodes_block [where get = CB and tab = ICqt, OF e3(1) _ recip [THEN conjunct2], of "\<lambda>b m. m\<lparr>CB := b\<rparr>" 2] m(5) e3(2-)
      by (auto simp: encode_CB_def)
    obtain e5 where "encode_CR e4 = Inr e5"
        "encodes base bl e ((bs @ [(2, quantised (ICqt (tables e)) (CB (blocks e)))]) @ [(3, quantised (ICqt (tables e)) (CR (blocks e)))]) e5"
      using encodes_block [where get = CR and tab = ICqt, OF e4(2) _ recip [THEN conjunct2], of "\<lambda>b m. m\<lparr>CR := b\<rparr>" 3] m(6) e4(3)
      by (auto simp: encode_CR_def)
    with e4(1) show ?thesis by simp
  qed
  consider "image_format = FOUR_ZERO_ZERO" | "image_format = FOUR_TWO_TWO" | "image_format \<noteq> FOUR_ZERO_ZERO" "image_format \<noteq> FOUR_TWO_TWO" by blast
  then show ?thesis
  proof cases
    case 1
    with e1 show ?thesis by (simp add: encodeMCU_def mcu_sequence_def)
  next
    case 2
    with e1(1) e2(1) chroma [OF e2(2,5,6)] show ?thesis by (simp add: encodeMCU_def mcu_sequence_def)
  next
    case 3
    obtain e3 where e3: "encode_Y3 e2 = Inr e3" "encodes base bl e [?Y (Y1 (blocks e)), ?Y (Y2 (blocks e)), ?Y (Y3 (blocks e))] e3"
        "Y4 (blocks e3) = Y4 (blocks e)" "CB (blocks e3) = CB (blocks e)" "CR (blocks e3) = CR (blocks e)"
      using encodes_block [where get = Y3 and tab = ILqt, OF e2(2) _ recip [THEN conjunct1], of "\<lambda>b m. m\<lparr>Y3 := b\<rparr>" 1] m(3) e2(3-)
      by (auto simp: encode_Y3_def)
    obtain e4 where e4: "encode_Y4 e3 = Inr e4"
        "encodes base bl e [?Y (Y1 (blocks e)), ?Y (Y2 (blocks e)), ?Y (Y3 (blocks e)), ?Y (Y4 (blocks e))] e4"
        "CB (blocks e4) = CB (blocks e)" "CR (blocks e4) = CR (blocks e)"
      using encodes_block [where get = Y4 and tab = ILqt, OF e3(2) _ recip [THEN conjunct1], of "\<lambda>b m. m\<lparr>Y4 := b\<rparr>" 1] m(4) e3(3-)
      by (auto simp: encode_Y4_def)
    with 3 e1(1) e2(1) e3(1) chroma [OF e4(2-4)] show ?thesis by (simp add: encodeMCU_def mcu_sequence_def)
  qed
qed

end
