(* ===== verification/Gspca_Reader.thy ===== *)
theory Gspca_Reader
  imports Gspca_Encoding
begin

text \<open>
  Reading an MCU that lies inside of the picture: the pointers of \<^verbatim>\<open>read_420_format\<close> run through all cells of the six
  blocks, and every cell gets its value of the packed picture.  The locales state what the loops rely on of the blocks
  that they fill, and are interpreted on the upper and the lower pair of luminance blocks.
\<close>

text \<open>The cells that the two pointers of a pane have passed hold the values of \<open>F\<close>; a chroma pane has one pointer.\<close>

definition filled :: "(nat \<Rightarrow> int) \<Rightarrow> nat \<Rightarrow> pane \<Rightarrow> bool" where
  "filled F a p \<longleftrightarrow> length (cells p) = 64 \<and> ptr p = a \<and> ptr' p = a + 8 \<and>
     (\<forall>i < 64. (if i mod 16 < 8 then i < a else i < a + 8) \<longrightarrow> cells p ! i = F i)"

definition chroma_filled :: "(nat \<Rightarrow> int) \<Rightarrow> nat \<Rightarrow> pane \<Rightarrow> bool" where
  "chroma_filled G b p \<longleftrightarrow> length (cells p) = 64 \<and> ptr p = b \<and> (\<forall>i < b. cells p ! i = G i)"

definition sample :: "byte list \<Rightarrow> nat \<Rightarrow> int" where
  "sample buf n = uint (buf ! n) - 128"

lemma filled_square:
  assumes "filled F a p" "a mod 16 + 2 \<le> 8" "a + 10 \<le> 64"
  shows "filled F (a + 2) (p\<lparr>cells := (cells p)[a := F a, a + 1 := F (a + 1), a + 8 := F (a + 8), a + 9 := F (a + 9)], ptr := a + 2, ptr' := a + 10\<rparr>)"
proof -
  define c where "c = (cells p)[a := F a, a + 1 := F (a + 1), a + 8 := F (a + 8), a + 9 := F (a + 9)]"
  have "c ! i = F i" if i: "i < 64" "if i mod 16 < 8 then i < a + 2 else i < a + 10" for i
  proof (cases "i = a \<or> i = a + 1 \<or> i = a + 8 \<or> i = a + 9")
    case True
    then show ?thesis using assms i(1) by (auto simp: c_def filled_def nth_list_update)
  next
    case False
    then have "if i mod 16 < 8 then i < a else i < a + 8" using i(2) by (auto split: if_splits)
    then show ?thesis using assms(1) i(1) False by (simp add: c_def filled_def)
  qed
  moreover have "length c = 64" using assms(1) by (simp add: c_def filled_def)
  ultimately show ?thesis unfolding c_def [symmetric] filled_def by (simp split: if_splits)
qed

lemma put_steps:
  "ptr p < length (cells p) \<Longrightarrow> put v p = Inr (p\<lparr>cells := (cells p)[ptr p := v], ptr := ptr p + 1\<rparr>)"
  "ptr' p < length (cells p) \<Longrightarrow> put' v p = Inr (p\<lparr>cells := (cells p)[ptr' p := v], ptr' := ptr' p + 1\<rparr>)"
  by (simp_all add: put_def put'_def store_def)

lemma chroma_put:
  assumes "chroma_filled G b p" "b < 64"
  shows "put (G b) p = Inr (p\<lparr>cells := (cells p)[b := G b], ptr := b + 1\<rparr>)"
    "chroma_filled G (b + 1) (p\<lparr>cells := (cells p)[b := G b], ptr := b + 1\<rparr>)"
  using assms by (auto simp: chroma_filled_def put_steps nth_list_update less_Suc_eq)

lemma take_in_sample:
  "inptr r < length buf \<Longrightarrow> take_in buf f r = sbind (f (sample buf (inptr r)) r) (\<lambda>r. Inr (r\<lparr>inptr := inptr r + 1\<rparr>))"
  by (simp add: take_in_def sample_def)

text \<open>A line of squares.\<close>

definition line_values :: "byte list \<Rightarrow> nat \<Rightarrow> nat \<Rightarrow> (nat \<Rightarrow> int) \<Rightarrow> nat \<Rightarrow> (nat \<Rightarrow> int) \<Rightarrow> (nat \<Rightarrow> int) \<Rightarrow> nat \<Rightarrow> bool" where
  "line_values buf base n F a G H b \<longleftrightarrow> base + 6 * n \<le> length buf \<and> (\<forall>j < n.
     F (a + 2 * j) = sample buf (base + 6 * j) \<and> F (a + 2 * j + 1) = sample buf (base + 6 * j + 1) \<and>
     F (a + 2 * j + 8) = sample buf (base + 6 * j + 2) \<and> F (a + 2 * j + 9) = sample buf (base + 6 * j + 3) \<and>
     G (b + j) = sample buf (base + 6 * j + 4) \<and> H (b + j) = sample buf (base + 6 * j + 5))"

lemma line_values_Suc:
  "line_values buf base (Suc n) F a G H b \<Longrightarrow> base + 6 \<le> length buf \<and> F a = sample buf base \<and> F (a + 1) = sample buf (base + 1) \<and>
    F (a + 8) = sample buf (base + 2) \<and> F (a + 9) = sample buf (base + 3) \<and> G b = sample buf (base + 4) \<and> H b = sample buf (base + 5) \<and>
    line_values buf (base + 6) n F (a + 2) G H (b + 1)"
proof -
  assume l: "line_values buf base (Suc n) F a G H b"
  have "F (a + 2 + 2 * j) = sample buf (base + 6 + 6 * j) \<and> F (a + 2 + 2 * j + 1) = sample buf (base + 6 + 6 * j + 1) \<and>
     F (a + 2 + 2 * j + 8) = sample buf (base + 6 + 6 * j + 2) \<and> F (a + 2 + 2 * j + 9) = sample buf (base + 6 + 6 * j + 3) \<and>
     G (b + 1 + j) = sample buf (base + 6 + 6 * j + 4) \<and> H (b + 1 + j) = sample buf (base + 6 + 6 * j + 5)" if "j < n" for j
  proof -
    have "Suc j < Suc n" "2 * Suc j = 2 + 2 * j" "6 * Suc j = 6 + 6 * j" "b + Suc j = b + 1 + j" using that by simp_all
    with l [unfolded line_values_def, THEN conjunct2, rule_format, of "Suc j"] show ?thesis by (simp only: add.assoc)
  qed
  moreover have "base + 6 * Suc n \<le> length buf" using l by (simp add: line_values_def)
  ultimately show ?thesis using l [unfolded line_values_def, THEN conjunct2, rule_format, of 0] by (simp add: line_values_def)
qed

lemma srepeat_snoc: "srepeat (Suc n) f x = sbind (srepeat n f x) f"
proof (induction n arbitrary: x)
  case 0
  show ?case by (cases "f x") simp_all
next
  case (Suc n)
  then show ?case by (cases "f x") simp_all
qed

text \<open>
  The interface of a luminance pane of the reader: what selects it and what replaces it have nothing to do with the chroma
  panes and the input pointer.
\<close>

locale luma_pane =
  fixes get :: "reader \<Rightarrow> pane" and upd :: "pane \<Rightarrow> reader \<Rightarrow> reader"
  assumes get_upd: "get (upd p r) = p"
    and upd_upd: "upd p (upd q r) = upd p r"
    and upd_get: "upd (get r) r = r"
    and get_other: "get (r\<lparr>rCB := q\<rparr>) = get r" "get (r\<lparr>rCR := q\<rparr>) = get r" "get (r\<lparr>inptr := n\<rparr>) = get r"
    and other_get: "rCB (upd p r) = rCB r" "rCR (upd p r) = rCR r" "inptr (upd p r) = inptr r"
    and upd_other: "upd p (r\<lparr>rCB := q\<rparr>) = (upd p r)\<lparr>rCB := q\<rparr>" "upd p (r\<lparr>rCR := q\<rparr>) = (upd p r)\<lparr>rCR := q\<rparr>"
      "upd p (r\<lparr>inptr := n\<rparr>) = (upd p r)\<lparr>inptr := n\<rparr>"
begin

lemmas laws = get_upd upd_upd upd_get get_other other_get upd_other

lemma square_run:
  assumes "filled F a (get r)" "chroma_filled G b (rCB r)" "chroma_filled H b (rCR r)"
    and "a mod 16 + 2 \<le> 8" "a + 10 \<le> 64" "b < 64" "inptr r + 6 \<le> length buf"
    and "F a = sample buf (inptr r)" "F (a + 1) = sample buf (inptr r + 1)" "F (a + 8) = sample buf (inptr r + 2)"
      "F (a + 9) = sample buf (inptr r + 3)" "G b = sample buf (inptr r + 4)" "H b = sample buf (inptr r + 5)"
  shows "\<exists>p q s. square buf (on_pane get upd) r = Inr ((upd p r)\<lparr>rCB := q, rCR := s, inptr := inptr r + 6\<rparr>) \<and>
    filled F (a + 2) p \<and> chroma_filled G (b + 1) q \<and> chroma_filled H (b + 1) s"
proof -
  have p: "length (cells (get r)) = 64" "ptr (get r) = a" "ptr' (get r) = a + 8" using assms(1) by (simp_all add: filled_def)
  note q = chroma_put [OF assms(2,6)] and s = chroma_put [OF assms(3,6)]
  let ?p = "(get r)\<lparr>ptr := a + 2, cells := (cells (get r))[a := F a, a + 1 := F (a + 1), a + 8 := F (a + 8), a + 9 := F (a + 9)], ptr' := a + 10\<rparr>"
  let ?q = "(rCB r)\<lparr>cells := (cells (rCB r))[b := G b], ptr := b + 1\<rparr>"
  let ?s = "(rCR r)\<lparr>cells := (cells (rCR r))[b := H b], ptr := b + 1\<rparr>"
  have vals: "sample buf (Suc (Suc (inptr r))) = F (a + 8)" "sample buf (Suc (Suc (Suc (inptr r)))) = F (a + 9)"
    "sample buf (Suc (Suc (Suc (Suc (inptr r))))) = G b" "sample buf (Suc (Suc (Suc (Suc (Suc (inptr r)))))) = H b"
    "inptr r + 6 = Suc (Suc (Suc (Suc (Suc (Suc (inptr r))))))"
    using assms(10-13) by (simp_all add: eval_nat_numeral)
  have "square buf (on_pane get upd) r = Inr ((upd ?p r)\<lparr>rCB := ?q, rCR := ?s, inptr := inptr r + 6\<rparr>)"
    using q(1) s(1) p assms(5-7) vals assms(8,9) [symmetric]
    by (simp add: add.commute [of 9 a] add.commute [of 10 a] square_def take_in_sample on_pane_def on_CB_def on_CR_def put_steps laws)
  moreover have "filled F (a + 2) ?p" using filled_square [OF assms(1,4,5)] by (simp add: filled_def)
  ultimately show ?thesis using q(2) s(2) by blast
qed

lemma squares_run:
  assumes "filled F a (get r)" "chroma_filled G b (rCB r)" "chroma_filled H b (rCR r)"
    and "a mod 16 + 2 * n \<le> 8" "a + 2 * n + 8 \<le> 64" "b + n \<le> 64" "line_values buf (inptr r) n F a G H b"
  shows "\<exists>p q s. srepeat n (square buf (on_pane get upd)) r = Inr ((upd p r)\<lparr>rCB := q, rCR := s, inptr := inptr r + 6 * n\<rparr>) \<and>
    filled F (a + 2 * n) p \<and> chroma_filled G (b + n) q \<and> chroma_filled H (b + n) s"
  using assms
proof (induction n arbitrary: r a b)
  case 0
  then show ?case by (intro exI [of _ "get r"] exI [of _ "rCB r"] exI [of _ "rCR r"]) (simp add: laws)
next
  case (Suc n)
  note l = line_values_Suc [OF Suc.prems(7)]
  have "a mod 16 + 2 \<le> 8" "a + 10 \<le> 64" "b < 64" using Suc.prems(4-6) by simp_all
  then obtain p q s where pqs: "square buf (on_pane get upd) r = Inr ((upd p r)\<lparr>rCB := q, rCR := s, inptr := inptr r + 6\<rparr>)"
    "filled F (a + 2) p" "chroma_filled G (b + 1) q" "chroma_filled H (b + 1) s"
    using square_run [OF Suc.prems(1-3), of buf] l by blast
  let ?r = "(upd p r)\<lparr>rCB := q, rCR := s, inptr := inptr r + 6\<rparr>"
  have "a mod 16 + 2 < 16" using Suc.prems(4) by simp
  moreover have "(a + 2) mod 16 = (a mod 16 + 2) mod 16" by (rule mod_add_left_eq [symmetric])
  ultimately have "(a + 2) mod 16 = a mod 16 + 2" by simp
  then have "(a + 2) mod 16 + 2 * n \<le> 8" using Suc.prems(4) by simp
  moreover have "filled F (a + 2) (get ?r)" "chroma_filled G (b + 1) (rCB ?r)" "chroma_filled H (b + 1) (rCR ?r)"
    "line_values buf (inptr ?r) n F (a + 2) G H (b + 1)" "a + 2 + 2 * n + 8 \<le> 64" "b + 1 + n \<le> 64"
    using pqs(2-4) l Suc.prems(5,6) by (simp_all add: laws)
  ultimately obtain p' q' s' where "srepeat n (square buf (on_pane get upd)) ?r = Inr ((upd p' ?r)\<lparr>rCB := q', rCR := s', inptr := inptr ?r + 6 * n\<rparr>)"
    "filled F (a + 2 + 2 * n) p'" "chroma_filled G (b + 1 + n) q'" "chroma_filled H (b + 1 + n) s'"
    using Suc.IH [of "a + 2" ?r "b + 1"] by blast
  then show ?case using pqs(1) by (intro exI [of _ p'] exI [of _ q'] exI [of _ s']) (simp add: laws add.assoc)
qed

end

lemma filled_advance:
  assumes "filled F (16 * k + 8) p"
  shows "filled F (16 * (k + 1)) (p\<lparr>ptr := ptr p + 8, ptr' := ptr' p + 8\<rparr>)"
proof -
  have "i < 16 * k + 8" if "i mod 16 < 8" "i < 16 * (k + 1)" for i :: nat
  proof -
    have "i div 16 < k + 1" using that(2) by (intro less_mult_imp_div_less) simp
    then show ?thesis using that(1) mult_div_mod_eq [of 16 i] by linarith
  qed
  moreover have "i < 16 * k + 8 + 8" if "\<not> i mod 16 < 8" "i < 16 * (k + 1) + 8" for i :: nat
  proof (rule ccontr)
    assume "\<not> i < 16 * k + 8 + 8"
    then have "i = 16 * (k + 1) + (i - 16 * (k + 1))" "i - 16 * (k + 1) < 8" using that(2) by simp_all
    then obtain j where "i = 16 * (k + 1) + j" "j < 8" by blast
    then have "i = j + (k + 1) * 16" by simp
    then have "i mod 16 = j" using mod_mult_self1 [of j "k + 1" 16] \<open>j < 8\<close> by (simp only: mod_less)
    then show False using that(1) \<open>j < 8\<close> by simp
  qed
  ultimately show ?thesis using assms by (simp add: filled_def)
qed

text \<open>Two panes side by side.\<close>

locale luma_pair = A: luma_pane getA updA + B: luma_pane getB updB
  for getA :: "reader \<Rightarrow> pane" and updA :: "pane \<Rightarrow> reader \<Rightarrow> reader" and getB :: "reader \<Rightarrow> pane" and updB :: "pane \<Rightarrow> reader \<Rightarrow> reader" +
  assumes separate: "getB (updA p r) = getB r" "getA (updB p r) = getA r" "updA p (updB q r) = updB q (updA p r)"
begin

definition pair_line :: "byte list \<Rightarrow> nat \<Rightarrow> reader \<Rightarrow> crash + reader" where
  "pair_line buf inc = steps [srepeat 4 (square buf (on_pane getA updA)), srepeat 4 (square buf (on_pane getB updB)),
     on_pane getA updA advance, on_pane getB updB advance, skip_in inc]"

lemma pair_line_run:
  assumes "filled F (16 * k) (getA r)" "filled F' (16 * k) (getB r)" "chroma_filled G b (rCB r)" "chroma_filled H b (rCR r)"
    and "k < 4" "b + 8 \<le> 64" "line_values buf (inptr r) 4 F (16 * k) G H b" "line_values buf (inptr r + 24) 4 F' (16 * k) G H (b + 4)"
  shows "\<exists>p p' q s. pair_line buf inc r = Inr ((updB p' (updA p r))\<lparr>rCB := q, rCR := s, inptr := inptr r + (48 + inc)\<rparr>) \<and>
    filled F (16 * (k + 1)) p \<and> filled F' (16 * (k + 1)) p' \<and> chroma_filled G (b + 8) q \<and> chroma_filled H (b + 8) s"
proof -
  obtain p q s where pqs: "srepeat 4 (square buf (on_pane getA updA)) r = Inr ((updA p r)\<lparr>rCB := q, rCR := s, inptr := inptr r + 24\<rparr>)"
    "filled F (16 * k + 8) p" "chroma_filled G (b + 4) q" "chroma_filled H (b + 4) s"
    using A.squares_run [OF assms(1,3,4), of 4 buf] assms(5-7) by auto
  let ?r = "(updA p r)\<lparr>rCB := q, rCR := s, inptr := inptr r + 24\<rparr>"
  have r: "filled F' (16 * k) (getB ?r)" "chroma_filled G (b + 4) (rCB ?r)" "chroma_filled H (b + 4) (rCR ?r)" "inptr ?r = inptr r + 24"
    using assms(2) pqs(3,4) by (simp_all add: B.laws separate)
  obtain p' q' s' where pqs': "srepeat 4 (square buf (on_pane getB updB)) ?r = Inr ((updB p' ?r)\<lparr>rCB := q', rCR := s', inptr := inptr r + 48\<rparr>)"
    "filled F' (16 * k + 8) p'" "chroma_filled G (b + 8) q'" "chroma_filled H (b + 8) s'"
  proof -
    have "16 * k mod 16 + 2 * 4 \<le> 8" "16 * k + 2 * 4 + 8 \<le> 64" "b + 4 + 4 \<le> 64" using assms(5,6) by simp_all
    moreover have "16 * k + 2 * 4 = 16 * k + 8" "b + 4 + 4 = b + 8" "inptr ?r + 6 * 4 = inptr r + 48" using r(4) by simp_all
    moreover have "line_values buf (inptr ?r) 4 F' (16 * k) G H (b + 4)" using assms(8) r(4) by simp
    ultimately show ?thesis using B.squares_run [OF r(1-3), of 4 buf] that by metis
  qed
  have "pair_line buf inc r = Inr ((updB (p'\<lparr>ptr := ptr p' + 8, ptr' := ptr' p' + 8\<rparr>) (updA (p\<lparr>ptr := ptr p + 8, ptr' := ptr' p + 8\<rparr>) r))
      \<lparr>rCB := q', rCR := s', inptr := inptr r + (48 + inc)\<rparr>)"
    using pqs(1) pqs'(1) by (simp add: pair_line_def on_pane_def advance_def skip_in_def A.laws B.laws separate add.assoc)
  with filled_advance [OF pqs(2)] filled_advance [OF pqs'(2)] pqs'(3,4) show ?thesis by blast
qed

lemma pair_lines_run:
  assumes "filled F 0 (getA r)" "filled F' 0 (getB r)" "chroma_filled G b (rCB r)" "chroma_filled H b (rCR r)" "n \<le> 4" "b + 8 * n \<le> 64"
    and "\<And>k. k < n \<Longrightarrow> line_values buf (inptr r + k * (48 + inc)) 4 F (16 * k) G H (b + 8 * k)"
    and "\<And>k. k < n \<Longrightarrow> line_values buf (inptr r + k * (48 + inc) + 24) 4 F' (16 * k) G H (b + 8 * k + 4)"
  shows "\<exists>p p' q s. srepeat n (pair_line buf inc) r = Inr ((updB p' (updA p r))\<lparr>rCB := q, rCR := s, inptr := inptr r + n * (48 + inc)\<rparr>) \<and>
    filled F (16 * n) p \<and> filled F' (16 * n) p' \<and> chroma_filled G (b + 8 * n) q \<and> chroma_filled H (b + 8 * n) s"
  using assms(5-8)
proof (induction n)
  case 0
  then show ?case using assms(1-4)
    by (intro exI [of _ "getA r"] exI [of _ "getB r"] exI [of _ "rCB r"] exI [of _ "rCR r"]) (simp add: A.laws B.laws)
next
  case (Suc n)
  then obtain p p' q s where pqs: "srepeat n (pair_line buf inc) r = Inr ((updB p' (updA p r))\<lparr>rCB := q, rCR := s, inptr := inptr r + n * (48 + inc)\<rparr>)"
    "filled F (16 * n) p" "filled F' (16 * n) p'" "chroma_filled G (b + 8 * n) q" "chroma_filled H (b + 8 * n) s"
    by (auto simp: less_Suc_eq)
  let ?r = "(updB p' (updA p r))\<lparr>rCB := q, rCR := s, inptr := inptr r + n * (48 + inc)\<rparr>"
  have "filled F (16 * n) (getA ?r)" "filled F' (16 * n) (getB ?r)" using pqs(2,3) by (simp_all add: A.laws B.laws separate)
  then obtain p1 p1' q1 s1 where "pair_line buf inc ?r = Inr ((updB p1' (updA p1 ?r))\<lparr>rCB := q1, rCR := s1, inptr := inptr ?r + (48 + inc)\<rparr>)"
    "filled F (16 * (n + 1)) p1" "filled F' (16 * (n + 1)) p1'" "chroma_filled G (b + 8 * n + 8) q1" "chroma_filled H (b + 8 * n + 8) s1"
    using pair_line_run [of F n ?r F' G "b + 8 * n" H buf inc] pqs(4,5) Suc.prems(1,2) Suc.prems(3,4) [of n] by auto
  then show ?case using pqs(1) unfolding srepeat_snoc
    by (intro exI [of _ p1] exI [of _ p1'] exI [of _ q1] exI [of _ s1]) (simp add: A.laws B.laws separate add_ac)
qed

end

interpretation upper: luma_pair rY1 "\<lambda>p r. r\<lparr>rY1 := p\<rparr>" rY2 "\<lambda>p r. r\<lparr>rY2 := p\<rparr>"
  by unfold_locales simp_all

interpretation lower: luma_pair rY3 "\<lambda>p r. r\<lparr>rY3 := p\<rparr>" rY4 "\<lambda>p r. r\<lparr>rY4 := p\<rparr>"
  by unfold_locales simp_all

lemma line_upper_16: "line_upper buf 16 inc = upper.pair_line buf inc"
  by (rule ext) (simp add: line_upper_def upper.pair_line_def on_Y1_def on_Y2_def fill_chroma_def sbind_def split: sum.splits)

lemma line_lower_16: "line_lower buf 16 inc = lower.pair_line buf inc"
  by (rule ext) (simp add: line_lower_def lower.pair_line_def on_Y3_def on_Y4_def fill_chroma_def sbind_def split: sum.splits)

text \<open>Where the values of a whole MCU are in the packed picture whose line pairs are \<open>skip\<close> bytes apart.\<close>

definition luma_value :: "byte list \<Rightarrow> nat \<Rightarrow> nat \<Rightarrow> nat \<Rightarrow> int" where
  "luma_value buf base skip i = sample buf (base + i div 16 * skip + 6 * (i mod 8 div 2) + 2 * (i mod 16 div 8) + i mod 2)"

definition chroma_value :: "byte list \<Rightarrow> nat \<Rightarrow> nat \<Rightarrow> nat \<Rightarrow> int" where
  "chroma_value buf base skip i = sample buf (base + i div 8 * skip + 6 * (i mod 8))"

lemma whole_line:
  assumes "h \<le> 1" "base + k * skip + 24 * h + 24 \<le> length buf" "base = base' + k' * skip"
  shows "line_values buf (base + k * skip + 24 * h) 4 (luma_value buf (base + 24 * h) skip) (16 * k)
    (chroma_value buf (base' + 4) skip) (chroma_value buf (base' + 5) skip) (8 * (k + k') + 4 * h)"
  unfolding line_values_def
proof (intro conjI allI impI)
  show "base + k * skip + 24 * h + 6 * 4 \<le> length buf" using assms(2) by simp
  fix j :: nat assume "j < 4"
  then have j: "j = 0 \<or> j = 1 \<or> j = 2 \<or> j = 3" by linarith
  have h: "h = 0 \<or> h = 1" using assms(1) by linarith
  have m: "(16 * k + n) div 16 = k + n div 16" "(16 * k + n) mod 8 = n mod 8" "(16 * k + n) mod 16 = n mod 16" "(16 * k + n) mod 2 = n mod 2" for n
  proof -
    have "16 * k + n = 8 * (2 * k) + n" "16 * k + n = 2 * (8 * k) + n" by simp_all
    then show "(16 * k + n) mod 8 = n mod 8" "(16 * k + n) mod 2 = n mod 2" by (metis mod_mult_self4)+
  qed simp_all
  have c: "(8 * (k + k') + n) div 8 = k + k' + n div 8" "(8 * (k + k') + n) mod 8 = n mod 8" for n
    by (rule div_mult_self4, simp) (rule mod_mult_self4)
  show "luma_value buf (base + 24 * h) skip (16 * k + 2 * j) = sample buf (base + k * skip + 24 * h + 6 * j)"
    "luma_value buf (base + 24 * h) skip (16 * k + 2 * j + 1) = sample buf (base + k * skip + 24 * h + 6 * j + 1)"
    "luma_value buf (base + 24 * h) skip (16 * k + 2 * j + 8) = sample buf (base + k * skip + 24 * h + 6 * j + 2)"
    "luma_value buf (base + 24 * h) skip (16 * k + 2 * j + 9) = sample buf (base + k * skip + 24 * h + 6 * j + 3)"
    unfolding luma_value_def add.assoc [of "16 * k"] m using j by (auto intro!: arg_cong [of _ _ "sample buf"])
  show "chroma_value buf (base' + 4) skip (8 * (k + k') + 4 * h + j) = sample buf (base + k * skip + 24 * h + 6 * j + 4)"
    "chroma_value buf (base' + 5) skip (8 * (k + k') + 4 * h + j) = sample buf (base + k * skip + 24 * h + 6 * j + 5)"
    unfolding chroma_value_def add.assoc [of "8 * (k + k')"] c using j h assms(3) by (auto intro!: arg_cong [of _ _ "sample buf"] simp: algebra_simps)
qed

lemma filled_cells: "filled F 64 p \<Longrightarrow> cells p = map F [0..<64]" "chroma_filled G 64 q \<Longrightarrow> cells q = map G [0..<64]"
  by (auto simp: filled_def chroma_filled_def intro!: nth_equalityI simp del: upt_rec_numeral split: if_splits)

lemma filled_start: "length b = 64 \<Longrightarrow> filled F 0 (pane_start b)" "length b = 64 \<Longrightarrow> chroma_filled G 0 (pane_start b)"
proof -
  have "i < 8 \<Longrightarrow> i mod 16 < 8" for i :: nat by simp
  then show "length b = 64 \<Longrightarrow> filled F 0 (pane_start b)" by (auto simp: filled_def pane_start_def)
  show "length b = 64 \<Longrightarrow> chroma_filled G 0 (pane_start b)" by (simp add: chroma_filled_def pane_start_def)
qed

definition mcu_sized :: "mcu_blocks \<Rightarrow> bool" where
  "mcu_sized m \<longleftrightarrow> length (Y1 m) = 64 \<and> length (Y2 m) = 64 \<and> length (Y3 m) = 64 \<and> length (Y4 m) = 64 \<and>
     length (CB m) = 64 \<and> length (CR m) = 64"

definition whole_mcu :: "byte list \<Rightarrow> nat \<Rightarrow> nat \<Rightarrow> mcu_blocks \<Rightarrow> mcu_blocks" where
  "whole_mcu buf base skip m = m\<lparr>
     Y1 := map (luma_value buf base skip) [0..<64], Y2 := map (luma_value buf (base + 24) skip) [0..<64],
     Y3 := map (luma_value buf (base + 4 * skip) skip) [0..<64], Y4 := map (luma_value buf (base + 4 * skip + 24) skip) [0..<64],
     CB := map (chroma_value buf (base + 4) skip) [0..<64], CR := map (chroma_value buf (base + 5) skip) [0..<64]\<rparr>"

lemma read_420_whole:
  assumes "mcu_sized m" "base + 7 * (48 + inc) + 48 \<le> length buf"
  shows "read_420_format 16 16 inc buf base m = Inr (whole_mcu buf base (48 + inc) m)"
proof -
  let ?skip = "48 + inc" and ?r = "reader_start m base"
  let ?F = "\<lambda>d. luma_value buf (base + d) ?skip" and ?G = "\<lambda>d. chroma_value buf (base + d) ?skip"
  have bound: "base + k * ?skip + 48 \<le> length buf" if "k < 8" for k
  proof -
    have "k * ?skip \<le> 7 * ?skip" using that by (intro mult_le_mono1) simp
    then show ?thesis using assms(2) by linarith
  qed
  have start: "filled F 0 (rY1 ?r)" "filled F 0 (rY2 ?r)" "filled F 0 (rY3 ?r)" "filled F 0 (rY4 ?r)"
    "chroma_filled G 0 (rCB ?r)" "chroma_filled G 0 (rCR ?r)" "inptr ?r = base" for F G
    using assms(1) filled_start by (simp_all add: reader_start_def mcu_sized_def)
  have "line_values buf (base + k * ?skip) 4 (?F 0) (16 * k) (?G 4) (?G 5) (0 + 8 * k) \<and>
      line_values buf (base + k * ?skip + 24) 4 (?F 24) (16 * k) (?G 4) (?G 5) (0 + 8 * k + 4)" if "k < 4" for k
    using whole_line [of 0 base k ?skip buf base 0] whole_line [of 1 base k ?skip buf base 0] bound [of k] that by simp
  then obtain p1 p2 q s where u: "srepeat 4 (upper.pair_line buf inc) ?r = Inr (?r\<lparr>rY1 := p1, rY2 := p2, rCB := q, rCR := s, inptr := base + 4 * ?skip\<rparr>)"
    "filled (?F 0) 64 p1" "filled (?F 24) 64 p2" "chroma_filled (?G 4) 32 q" "chroma_filled (?G 5) 32 s"
    using upper.pair_lines_run [where F = "?F 0" and F' = "?F 24" and G = "?G 4" and H = "?G 5", OF start(1,2,5,6), of 4 buf inc] start(7) by auto
  let ?r1 = "?r\<lparr>rY1 := p1, rY2 := p2, rCB := q, rCR := s, inptr := base + 4 * ?skip\<rparr>"
  have "line_values buf (base + 4 * ?skip + k * ?skip) 4 (?F (4 * ?skip)) (16 * k) (?G 4) (?G 5) (32 + 8 * k) \<and>
      line_values buf (base + 4 * ?skip + k * ?skip + 24) 4 (?F (4 * ?skip + 24)) (16 * k) (?G 4) (?G 5) (32 + 8 * k + 4)" if "k < 4" for k
  proof -
    have "base + 4 * ?skip + k * ?skip + 48 \<le> length buf" using bound [of "4 + k"] that by (simp add: algebra_simps)
    then show ?thesis
      using whole_line [of 0 "base + 4 * ?skip" k ?skip buf base 4] whole_line [of 1 "base + 4 * ?skip" k ?skip buf base 4]
      by (simp add: algebra_simps)
  qed
  then obtain p3 p4 q' s' where l: "srepeat 4 (lower.pair_line buf inc) ?r1 =
      Inr (?r1\<lparr>rY3 := p3, rY4 := p4, rCB := q', rCR := s', inptr := base + 4 * ?skip + 4 * ?skip\<rparr>)"
    "filled (?F (4 * ?skip)) 64 p3" "filled (?F (4 * ?skip + 24)) 64 p4" "chroma_filled (?G 4) 64 q'" "chroma_filled (?G 5) 64 s'"
    using lower.pair_lines_run [where F = "?F (4 * ?skip)" and F' = "?F (4 * ?skip + 24)" and G = "?G 4" and H = "?G 5" and r = ?r1 and b = 32 and n = 4
      and buf = buf and inc = inc] start(3,4) u(4,5) by auto
  show ?thesis
    using u(1) l(1) filled_cells(1) [OF u(2)] filled_cells(1) [OF u(3)] filled_cells(1) [OF l(2)] filled_cells(1) [OF l(3)]
      filled_cells(2) [OF l(4)] filled_cells(2) [OF l(5)]
    by (simp add: read_420_format_def line_upper_16 line_lower_16 fill_below_def reader_end_def whole_mcu_def add.assoc del: upt_rec_numeral)
qed

end
