(* ===== verification/Gspca_Image.thy ===== *)
theory Gspca_Image
imports Gspca_Reader
begin

text \<open>
  The whole of \<^verbatim>\<open>encode_image()\<close> (encoder.c) on 4:2:0 pictures of whole MCUs: the loops over the MCUs never leave
  the model, and what is written is the header, the bits of the quantised blocks in the order of the picture and the
  closing marker.  \<open>picture_data\<close> says which blocks these are, directly from the samples of the picture.
\<close>

subsection \<open>Loops\<close>

lemma sfold_append: "sfold f (xs @ ys) s = sbind (sfold f xs s) (sfold f ys)"
proof (induction xs arbitrary: s)
  case (Cons x xs)
  then show ?case by (cases "f x s") simp_all
qed simp

lemma sfold_upt:
  assumes "\<And>k s. k < n \<Longrightarrow> I k s \<Longrightarrow> \<exists>s'. f (k + 1) s = Inr s' \<and> I (k + 1) s'" and "I 0 s"
  shows "\<exists>s'. sfold f [1..<n + 1] s = Inr s' \<and> I n s'"
  using assms(1)
proof (induction n)
  case 0
  then show ?case using assms(2) by simp
next
  case (Suc n)
  then obtain s1 where "sfold f [1..<n + 1] s = Inr s1" "I n s1" by auto
  moreover from this(2) obtain s' where "f (n + 1) s1 = Inr s'" "I (n + 1) s'" using Suc.prems by blast
  ultimately show ?case by (simp add: sfold_append)
qed

subsection \<open>Pictures of whole MCUs\<close>

lemma samples_map: "(\<And>i. - 128 \<le> f i \<and> f i \<le> 127) \<Longrightarrow> samples (map f [0..<64])"
  by (auto simp: samples_def simp del: upt_rec_numeral)

lemma sample_range: "- 128 \<le> sample buf n \<and> sample buf n \<le> 127"
proof -
  have "uint (buf ! n) < 256" using uint_bounded [of "buf ! n"] by simp
  then show ?thesis by (simp add: sample_def)
qed

lemma whole_mcu_ok: "mcu_ok (whole_mcu buf base skip m)"
  unfolding mcu_ok_def whole_mcu_def
  by (simp del: upt_rec_numeral) (intro conjI samples_map, simp_all only: luma_value_def chroma_value_def sample_range simp_thms)

lemma encode_block_sized:
  assumes "encode_block get upd tab c e = Inr e'" "\<And>b. length b = 64 \<Longrightarrow> mcu_sized (upd b (blocks e))"
  shows "mcu_sized (blocks e')"
proof -
  have "blocks e' = (upd (DCT (get (blocks e))) (blocks e))\<lparr>Temp := quantization (DCT (get (blocks e))) (tab (tables e)) (Temp (blocks e))\<rparr>"
    using assms(1) by (auto simp: encode_block_def Let_def sbind_Inr)
  moreover have "mcu_sized (m\<lparr>Temp := T\<rparr>) = mcu_sized m" for m T by (simp add: mcu_sized_def)
  ultimately show ?thesis using assms(2) by simp
qed

lemma encode_parts_sized:
  "encode_Y1 e = Inr e' \<Longrightarrow> mcu_sized (blocks e) \<Longrightarrow> mcu_sized (blocks e')"
  "encode_Y2 e = Inr e' \<Longrightarrow> mcu_sized (blocks e) \<Longrightarrow> mcu_sized (blocks e')"
  "encode_Y3 e = Inr e' \<Longrightarrow> mcu_sized (blocks e) \<Longrightarrow> mcu_sized (blocks e')"
  "encode_Y4 e = Inr e' \<Longrightarrow> mcu_sized (blocks e) \<Longrightarrow> mcu_sized (blocks e')"
  "encode_CB e = Inr e' \<Longrightarrow> mcu_sized (blocks e) \<Longrightarrow> mcu_sized (blocks e')"
  "encode_CR e = Inr e' \<Longrightarrow> mcu_sized (blocks e) \<Longrightarrow> mcu_sized (blocks e')"
  unfolding encode_parts by (erule encode_block_sized; simp add: mcu_sized_def)+

lemma encodeMCU_sized: "encodeMCU f e = Inr e' \<Longrightarrow> mcu_sized (blocks e) \<Longrightarrow> mcu_sized (blocks e')"
  by (auto simp: encodeMCU_def sbind_Inr intro: encode_parts_sized split: if_splits) (blast dest: encode_parts_sized)+

definition blank_mcu :: mcu_blocks where
  "blank_mcu = \<lparr>Y1 = [], Y2 = [], Y3 = [], Y4 = [], CB = [], CR = [], Temp = []\<rparr>"

text \<open>The quantised blocks of the MCU at \<open>base\<close>, and those of a picture of \<open>a\<close> times \<open>b\<close> MCUs.\<close>

definition mcu_data :: "byte list \<Rightarrow> quant_tables \<Rightarrow> nat \<Rightarrow> nat \<Rightarrow> (nat \<times> block) list" where
  "mcu_data buf q base skip = mcu_sequence FOUR_TWO_ZERO q (whole_mcu buf base skip blank_mcu)"

definition row_data :: "byte list \<Rightarrow> quant_tables \<Rightarrow> nat \<Rightarrow> nat \<Rightarrow> nat \<Rightarrow> (nat \<times> block) list" where
  "row_data buf q a n i = concat (map (\<lambda>j. mcu_data buf q (384 * a * i + 48 * j) (48 * a)) [0..<n])"

definition picture_data :: "byte list \<Rightarrow> quant_tables \<Rightarrow> nat \<Rightarrow> nat \<Rightarrow> (nat \<times> block) list" where
  "picture_data buf q a b = concat (map (row_data buf q a a) [0..<b])"

lemma mcu_sequence_whole: "mcu_sequence f q (whole_mcu buf base skip m) = mcu_sequence f q (whole_mcu buf base skip m')"
  by (simp add: mcu_sequence_def whole_mcu_def Let_def del: upt_rec_numeral)

lemma encodes_mcu:
  assumes "encodes base bl e bs e1" "mcu_sized (blocks e1)"
    and "p + 7 * (48 + inc) + 48 \<le> length buf"
  shows "\<exists>e'. sbind (read_format FOUR_TWO_ZERO 16 16 inc buf p (blocks e1)) (\<lambda>m. encodeMCU FOUR_TWO_ZERO (e1\<lparr>blocks := m\<rparr>)) = Inr e' \<and>
    encodes base bl e (bs @ mcu_data buf (tables e) p (48 + inc)) e' \<and> mcu_sized (blocks e')"
proof -
  let ?m = "whole_mcu buf p (48 + inc) (blocks e1)"
  have read: "read_format FOUR_TWO_ZERO 16 16 inc buf p (blocks e1) = Inr ?m"
    using read_420_whole [OF assms(2,3)] by (simp add: read_format_def)
  have e1: "enc_ok base (bl @ blocks_bits bs (dcs e)) e1" "dcs e1 = blocks_dc bs (dcs e)" "tables e1 = tables e" "blocks_codable bs (dcs e)"
    using assms(1) by (simp_all add: encodes_def)
  then have ok: "enc_ok base (bl @ blocks_bits bs (dcs e)) (e1\<lparr>blocks := ?m\<rparr>)"
    by (simp add: enc_ok_def whole_mcu_def)
  obtain e' where e': "encodeMCU FOUR_TWO_ZERO (e1\<lparr>blocks := ?m\<rparr>) = Inr e'"
    "encodes base (bl @ blocks_bits bs (dcs e)) (e1\<lparr>blocks := ?m\<rparr>) (mcu_sequence FOUR_TWO_ZERO (tables e1) ?m) e'"
    using encodeMCU_run [OF ok, of FOUR_TWO_ZERO] whole_mcu_ok by auto
  have seq: "mcu_sequence FOUR_TWO_ZERO (tables e1) ?m = mcu_data buf (tables e) p (48 + inc)"
    unfolding mcu_data_def e1(3) by (rule mcu_sequence_whole)
  have "mcu_sized ?m" by (simp add: mcu_sized_def whole_mcu_def del: upt_rec_numeral)
  then have "mcu_sized (blocks e')" using encodeMCU_sized [OF e'(1)] by simp
  moreover have "encodes base bl e (bs @ mcu_data buf (tables e) p (48 + inc)) e'"
    using e'(2) e1 unfolding encodes_def seq by (simp add: blocks_append)
  ultimately show ?thesis using read e'(1) by simp
qed

subsection \<open>The geometry\<close>

lemma u16_nat: "n < 65536 \<Longrightarrow> u16 (int n) = n"
  by (simp add: u16_def)

lemma initialization_whole:
  assumes "0 < a" "a \<le> 195" "0 < b" "b < 4096"
  shows "initialization FOUR_TWO_ZERO (16 * a) (16 * b) = \<lparr>mcu_width = 16, mcu_height = 16, horizontal_mcus = a, vertical_mcus = b,
    rows_in_bottom_mcus = 16, cols_in_right_mcus = 16, length_minus_mcu_width = 48 * (a - 1), length_minus_width = 48 * (a - 1),
    mcu_width_size = 48, mcu_offset = 336 * a\<rparr>"
proof -
  have div: "(16 * a + 16 - 1) div 16 = a" "(16 * b + 16 - 1) div 16 = b" by simp_all
  have ints: "int (16 * a) - (int a - 1) * int 16 = int 16" "int (16 * b) - (int b - 1) * int 16 = int 16"
    "(int (16 * a) - int 16) * int 3 = int (48 * (a - 1))" "(int (16 * a * (16 div 2 - 1)) - (int 16 - int 16)) * int 3 = int (336 * a)"
    "int (16 * 3) = int 48"
    using assms by (simp_all add: of_nat_diff)
  have words: "u16 (int a) = a" "u16 (int b) = b" "u16 (int 16) = 16" "u16 (int (48 * (a - 1))) = 48 * (a - 1)" "u16 (int 48) = 48"
    "u16 (int (336 * a)) = 336 * a"
    by ((rule u16_nat, use assms in simp))+
  have shape: "mcu_shape FOUR_TWO_ZERO = (16, 16, 3)" by (simp add: mcu_shape_def)
  show ?thesis
    unfolding initialization_def shape Let_def prod.case by (simp only: simp_thms if_False div ints words)
qed

subsection \<open>The loops over the MCUs\<close>

text \<open>What holds when the blocks \<open>bs\<close> are encoded, with \<^verbatim>\<open>input_ptr\<close> at \<open>p\<close>.\<close>

definition at_mcu :: "byte list \<Rightarrow> bool list \<Rightarrow> enc_state \<Rightarrow> (nat \<times> block) list \<Rightarrow> nat \<Rightarrow> enc_state \<times> nat \<Rightarrow> bool" where
  "at_mcu base bl e bs p st \<longleftrightarrow> encodes base bl e bs (fst st) \<and> mcu_sized (blocks (fst st)) \<and> snd st = p"

lemma picture_bound:
  assumes "384 * a * b \<le> length buf" "i < b" "j < a"
  shows "384 * a * i + 48 * j + 7 * (48 + 48 * (a - 1)) + 48 \<le> length buf"
proof -
  have "384 * a * (i + 1) \<le> 384 * a * b" using assms(2) by (intro mult_le_mono2) simp
  moreover have "48 + 48 * (a - 1) = 48 * a" "48 * j + 48 \<le> 48 * a" using assms(3) by (simp_all add: diff_mult_distrib2)
  ultimately show ?thesis using assms(1) by (simp add: distrib_left)
qed

lemma encode_row_run:
  assumes "0 < a" "a \<le> 195" "i < b" "b < 4096" "384 * a * b \<le> length buf"
    and "at_mcu base bl e bs (384 * a * i) st"
  defines "g \<equiv> initialization FOUR_TWO_ZERO (16 * a) (16 * b)"
  shows "\<exists>st'. encode_row FOUR_TWO_ZERO g buf (i + 1) st = Inr st' \<and>
    at_mcu base bl e (bs @ row_data buf (tables e) a a i) (384 * a * (i + 1)) st'"
proof -
  have g: "g = \<lparr>mcu_width = 16, mcu_height = 16, horizontal_mcus = a, vertical_mcus = b, rows_in_bottom_mcus = 16,
      cols_in_right_mcus = 16, length_minus_mcu_width = 48 * (a - 1), length_minus_width = 48 * (a - 1), mcu_width_size = 48, mcu_offset = 336 * a\<rparr>"
    using initialization_whole assms(1-4) unfolding g_def by simp
  have skip: "48 + 48 * (a - 1) = 48 * a" using assms(1) by (simp add: diff_mult_distrib2)
  have "\<exists>st'. sfold (encode_at FOUR_TWO_ZERO g buf 16) [1..<a + 1] st = Inr st' \<and>
      at_mcu base bl e (bs @ row_data buf (tables e) a a i) (384 * a * i + 48 * a) st'"
  proof (rule sfold_upt [where I = "\<lambda>j. at_mcu base bl e (bs @ row_data buf (tables e) a j i) (384 * a * i + 48 * j)"])
    show "at_mcu base bl e (bs @ row_data buf (tables e) a 0 i) (384 * a * i + 48 * 0) st" using assms(6) by (simp add: row_data_def)
    fix j s assume j: "j < a" and s: "at_mcu base bl e (bs @ row_data buf (tables e) a j i) (384 * a * i + 48 * j) s"
    obtain e1 p where s1: "s = (e1, p)" by (cases s)
    obtain e' where e': "sbind (read_format FOUR_TWO_ZERO 16 16 (48 * (a - 1)) buf p (blocks e1)) (\<lambda>m. encodeMCU FOUR_TWO_ZERO (e1\<lparr>blocks := m\<rparr>)) = Inr e'"
      "encodes base bl e ((bs @ row_data buf (tables e) a j i) @ mcu_data buf (tables e) p (48 + 48 * (a - 1))) e'" "mcu_sized (blocks e')"
      using encodes_mcu [of base bl e "bs @ row_data buf (tables e) a j i" e1 p "48 * (a - 1)" buf] picture_bound [OF assms(5,3) j] s s1
      by (auto simp: at_mcu_def)
    have "encode_at FOUR_TWO_ZERO g buf 16 (j + 1) s = Inr (e', p + 48)"
      using e'(1) unfolding s1 g by (auto simp: encode_at_def sbind_Inr cong: if_cong)
    moreover have "at_mcu base bl e (bs @ row_data buf (tables e) a (j + 1) i) (384 * a * i + 48 * (j + 1)) (e', p + 48)"
      using e'(2,3) s s1 unfolding skip by (simp add: at_mcu_def row_data_def)
    ultimately show "\<exists>s'. encode_at FOUR_TWO_ZERO g buf 16 (j + 1) s = Inr s' \<and>
        at_mcu base bl e (bs @ row_data buf (tables e) a (j + 1) i) (384 * a * i + 48 * (j + 1)) s'" by blast
  qed
  then obtain st' where st': "sfold (encode_at FOUR_TWO_ZERO g buf 16) [1..<a + 1] st = Inr st'"
    "at_mcu base bl e (bs @ row_data buf (tables e) a a i) (384 * a * i + 48 * a) st'" by blast
  have "encode_row FOUR_TWO_ZERO g buf (i + 1) st = Inr (fst st', snd st' + 336 * a)"
  proof -
    have "encode_row FOUR_TWO_ZERO g buf (i + 1) st =
        sbind (sfold (encode_at FOUR_TWO_ZERO g buf 16) [1..<a + 1] st) (\<lambda>(e, input_ptr). Inr (e, input_ptr + 336 * a))"
      unfolding encode_row_def by (simp add: g)
    then show ?thesis unfolding st'(1) by (simp add: case_prod_beta)
  qed
  moreover have "at_mcu base bl e (bs @ row_data buf (tables e) a a i) (384 * a * (i + 1)) (fst st', snd st' + 336 * a)"
    using st'(2) by (simp add: at_mcu_def)
  ultimately show ?thesis by blast
qed

lemma recip_tables: "tables_sized q \<Longrightarrow> recip_ok (ILqt (initialize_quantization_tables f q)) \<and> recip_ok (ICqt (initialize_quantization_tables f q))"
proof -
  assume q: "tables_sized q"
  have "uint (DSP_Division 0x8000 (table_value e f)) \<le> 32767" for e
  proof -
    have v: "0 < unat (table_value e f)" "unat (table_value e f) < 256" using table_value_range by simp_all
    then have "0 < uint (table_value e f)" unfolding uint_nat by linarith
    then show ?thesis unfolding uint_reciprocal [OF v] using zdiv_mono2 [of 32767 1 "uint (table_value e f)"] by simp
  qed
  moreover have "tables_sized (initialize_quantization_tables f q)" using initialize_tables_nth(5) [OF q, of 0 f] by simp
  ultimately show ?thesis using initialize_tables_nth(3,4) [OF q, of _ f]
    by (auto simp: recip_ok_def tables_sized_def in_set_conv_nth simp del: One_nat_def)
qed

definition zero_dc :: dc_state where
  "zero_dc = \<lparr>ldc1 = 0, ldc2 = 0, ldc3 = 0\<rparr>"

lemma encode_image_whole:
  fixes quality :: cint
  assumes "tables_sized q" "mcu_sized m" "length (Temp m) = 64" "0 < a" "a \<le> 195" "0 < b" "b < 4096" "384 * a * b \<le> length buf"
  defines "q' \<equiv> initialize_quantization_tables quality q"
  shows "\<exists>w m'. encode_image ok buf quality FOUR_TWO_ZERO (16 * a) (16 * b) m q = Inr (close_bitstream w, m', q') \<and>
    writes_bits (write_markers q' FOUR_TWO_ZERO (of_nat (16 * a)) (of_nat (16 * b)) []) (blocks_bits (picture_data buf q' a b) zero_dc) w \<and>
    blocks_codable (picture_data buf q' a b) zero_dc"
proof -
  let ?g = "initialization FOUR_TWO_ZERO (16 * a) (16 * b)"
  let ?base = "write_markers q' FOUR_TWO_ZERO (of_nat (16 * a)) (of_nat (16 * b)) []"
  let ?e = "\<lparr>blocks = m, tables = q', dcs = zero_dc, writer = \<lparr>lcode = 0, bitindex = 0, bout = ?base\<rparr>\<rparr>"
  have "writes_bits ?base [] \<lparr>lcode = 0, bitindex = 0, bout = ?base\<rparr>"
    by (auto simp: writes_bits_def intro!: exI [of _ "[]"])
  then have "enc_ok ?base [] ?e"
    using recip_tables [OF assms(1)] assms(3) by (simp add: enc_ok_def q'_def dcs_ok_def dc_range_def zero_dc_def)
  then have start: "at_mcu ?base [] ?e [] 0 (?e, 0)" using assms(2) by (simp add: at_mcu_def encodes_def blocks_dc_def)
  have vm: "vertical_mcus ?g = b" using initialization_whole assms(4-7) by simp
  have "\<exists>st. sfold (encode_row FOUR_TWO_ZERO ?g buf) [1..<b + 1] (?e, 0) = Inr st \<and>
      at_mcu ?base [] ?e (picture_data buf q' a b) (384 * a * b) st"
    unfolding picture_data_def
  proof (rule sfold_upt [where I = "\<lambda>i. at_mcu ?base [] ?e (concat (map (row_data buf q' a a) [0..<i])) (384 * a * i)"])
    show "at_mcu ?base [] ?e (concat (map (row_data buf q' a a) [0..<0])) (384 * a * 0) (?e, 0)" using start by simp
    fix i s assume "i < b" "at_mcu ?base [] ?e (concat (map (row_data buf q' a a) [0..<i])) (384 * a * i) s"
    from encode_row_run [OF assms(4,5) this(1) assms(7,8) this(2)]
    show "\<exists>s'. encode_row FOUR_TWO_ZERO ?g buf (i + 1) s = Inr s' \<and>
        at_mcu ?base [] ?e (concat (map (row_data buf q' a a) [0..<i + 1])) (384 * a * (i + 1)) s'" by simp
  qed
  then obtain e1 p where st: "sfold (encode_row FOUR_TWO_ZERO ?g buf) [1..<b + 1] (?e, 0) = Inr (e1, p)"
    "encodes ?base [] ?e (picture_data buf q' a b) e1" by (auto simp: at_mcu_def)
  have "encode_image ok buf quality FOUR_TWO_ZERO (16 * a) (16 * b) m q = Inr (close_bitstream (writer e1), blocks e1, q')"
  proof -
    have same: "convert ok FOUR_TWO_ZERO (16 * a) (16 * b) buf = Inr (FOUR_TWO_ZERO, buf)" by (simp add: convert_def)
    show ?thesis
      unfolding encode_image_def same sbind_simps prod.case Let_def vm
        zero_dc_def [symmetric] q'_def [symmetric] st(1) by (rule refl)
  qed
  with st(2) show ?thesis by (auto simp: encodes_def enc_ok_def)
qed

end
