(* ===== verification/Gspca_Codec.thy ===== *)
theory Gspca_Codec
imports Gspca_Jpeg Gspca_Image
begin

text \<open>
  The encoder and the decoder of the plugin together: \<^verbatim>\<open>jpeg_decode()\<close> accepts what \<^verbatim>\<open>encode_image()\<close> writes for a 4:2:0 picture
  of whole MCUs, and every pixel that it stores is the inverse transform of the blocks that the encoder quantised.
\<close>

subsection \<open>The headers are accepted\<close>

lemma obind_simps [simp]: "obind (Some (Inr x)) f = f x"
  by (simp add: obind_def)

lemma getword_two_bytes: "n < 65536 \<Longrightarrow> getword (two_bytes (ucast (of_nat n :: cint)) @ p) = Inr (n, p)"
proof -
  assume n: "n < 65536"
  let ?S = "ucast (of_nat n :: cint) :: short"
  have S: "unat ?S = n" using n by (simp add: unsigned_ucast_eq unat_of_nat take_bit_nat_eq_self)
  have "unat (ucast (drop_bit 8 ?S) :: byte) = take_bit 8 (drop_bit 8 (take_bit 16 (unat ?S)))"
    by (simp only: unsigned_ucast_eq unsigned_drop_bit_eq) simp
  then have hi: "unat (ucast (drop_bit 8 ?S) :: byte) = n div 256"
    unfolding S using n by (simp add: drop_bit_eq_div take_bit_eq_mod)
  have lo: "unat (ucast ?S :: byte) = n mod 256"
    unfolding unsigned_ucast_eq [of ?S] S by (simp add: take_bit_eq_mod)
  have "push_bit 8 (n div 256) OR n mod 256 = n"
  proof -
    have "push_bit 8 (drop_bit 8 n) OR take_bit 8 n = n" by (rule bit_eqI) (auto simp: bit_simps)
    then show ?thesis by (simp add: drop_bit_eq_div take_bit_eq_mod)
  qed
  then show ?thesis by (simp add: getword_def getbyte_def two_bytes_def hi lo)
qed

lemma and_low_bits: "n AND 7 = n mod (8 :: nat)" "n AND 15 = n mod (16 :: nat)"
proof -
  have "mask 3 = (7 :: nat)" "mask 4 = (15 :: nat)" by (simp_all add: mask_eq_exp_minus_1)
  then show "n AND 7 = n mod (8 :: nat)" "n AND 15 = n mod (16 :: nat)"
    using take_bit_eq_mask [of 3 n] take_bit_eq_mask [of 4 n] by (simp_all add: take_bit_eq_mod)
qed

text \<open>The components of a 4:2:0 picture and the tables they use.\<close>

definition comps_420 :: "comp list" where
  "comps_420 = [\<lparr>cid = 1, hv = 0x22, tq = 0\<rparr>, \<lparr>cid = 2, hv = 0x11, tq = 1\<rparr>, \<lparr>cid = 3, hv = 0x11, tq = 1\<rparr>]"

definition dscans_420 :: "dscan list" where
  "dscans_420 = [\<lparr>cid = 1, hv = 0x22, tq = 0, tdc = 0, tac = 0\<rparr>, \<lparr>cid = 2, hv = 0x11, tq = 1, tdc = 1, tac = 1\<rparr>,
     \<lparr>cid = 3, hv = 0x11, tq = 1, tdc = 1, tac = 1\<rparr>]"

lemma three: "read_comps 3 = read_comps (Suc (Suc (Suc 0)))" "read_dscans comps 3 = read_dscans comps (Suc (Suc (Suc 0)))"
  by (simp_all add: numeral_3_eq_3)

lemma read_frame_420:
  assumes "h < 65536" "w < 65536" "h mod 8 = 0" "w mod 16 = 0"
  shows "read_frame (drop 2 (frame_header FOUR_TWO_ZERO (of_nat w) (of_nat h)) @ p) = Inr (Inr (h, w, comps_420, p))"
proof -
  have bytes: "drop 2 (frame_header FOUR_TWO_ZERO (of_nat w) (of_nat h)) @ p =
      0x00 # 0x11 # 0x08 # two_bytes (ucast (of_nat h :: cint)) @ two_bytes (ucast (of_nat w :: cint)) @
      [3, 0x01, 0x22, 0x00, 0x02, 0x11, 0x01, 0x03, 0x11, 0x01] @ p"
    by (simp add: frame_header_def two_bytes_def)
  have word: "getword (0x00 # 0x11 # p) = Inr (17, p)" for p by (simp add: getword_def getbyte_def)
  have byte: "getbyte (b # p) = Inr (unat b, p)" for b p by (simp add: getbyte_def)
  have comps: "read_comps 3 ([0x01, 0x22, 0x00, 0x02, 0x11, 0x01, 0x03, 0x11, 0x01] @ p) = Inr (Inr (comps_420, p))"
    unfolding three(1) by (simp add: getbyte_def check_def ebind_def comps_420_def)
  show ?thesis
    unfolding read_frame_def bytes word
    using assms comps by (simp add: byte getword_two_bytes and_low_bits check_def MAXCOMP_def ebind_def)
qed

lemma read_scan_420: "read_scan comps_420 (drop 2 (scan_header FOUR_TWO_ZERO) @ p) = Inr (Inr (dscans_420, p))"
proof -
  have bytes: "drop 2 (scan_header FOUR_TWO_ZERO) @ p = [0x00, 0x0c, 0x03, 0x01, 0x00, 0x02, 0x11, 0x03, 0x11, 0x00, 0x3f, 0x00] @ p"
    by (simp add: scan_header_def two_bytes_def)
  have scans: "read_dscans comps_420 3 ([0x01, 0x00, 0x02, 0x11, 0x03, 0x11, 0x00, 0x3f, 0x00] @ p) = Inr (Inr (dscans_420, [0x00, 0x3f, 0x00] @ p))"
    unfolding three(2) by (simp add: getbyte_def check_def ebind_def comps_420_def dscans_420_def)
  show ?thesis
    unfolding read_scan_def bytes using scans by (simp add: getword_def getbyte_def check_def ebind_def) (simp add: dscans_420_def)
qed

lemma readtables_sos:
  assumes "datap s = scan_header image_format @ p"
  shows "readtables M_SOS s = Some (Inr (0, s\<lparr>datap := drop 2 (scan_header image_format) @ p\<rparr>))"
  by (rule readtables_end [of _ "0xda"]) (simp_all add: assms scan_header_def M_SOS_def)

subsection \<open>One MCU\<close>

lemma length_IDCT [simp]: "length (IDCT ts) = 8"
  by (simp add: IDCT_def Let_def split: prod.splits)

lemma length_idct [simp]: "length (idct inp qt off m) = 64"
  by (simp add: idct_def Let_def upt_conv_Cons del: replicate.simps)

text \<open>The pixel values of an MCU, as the decoder gets them from its quantised blocks by the full inverse transform.\<close>

definition mcu_values :: "cint list list \<Rightarrow> (nat \<times> block) list \<Rightarrow> cint list" where
  "mcu_values dquant bs =
     concat (map (\<lambda>(c, T). idct (map word_of_int T) (dquant ! (c - 1)) (if c = 1 then IFIX_128_5 else IFIX_0_5) 64) bs)"

lemma idct_used:
  assumes "length T = 64" "m = 1 \<longrightarrow> (\<forall>c \<in> set (tl T). c = 0)"
  shows "idct (map word_of_int T) qt off m = idct (map word_of_int T) qt off 64"
proof (cases "m = 1")
  case True
  have "map word_of_int T ! j = (0 :: cint)" if "0 < j \<and> j < 64" for j
  proof -
    have "T ! j = tl T ! (j - 1)" using that assms(1) by (cases T; cases j) simp_all
    also have "\<dots> \<in> set (tl T)" using that assms(1) by (intro nth_mem) auto
    finally have "T ! j = 0" using True assms(2) by blast
    then show ?thesis using that assms(1) by simp
  qed
  then show ?thesis using idct_dc_only [of "map word_of_int T" 64 qt off] True by simp
next
  case False
  show ?thesis unfolding idct_def using False by simp
qed

lemma mcu_blocks_decoded:
  assumes "map fst bs = [1, 1, 1, 1, 2, 3]" "\<forall>b \<in> set bs. length (snd b) = 64" "only_dc ms bs" "length outp = 384"
  shows "fold (idct_block dquant (concat (map snd bs) @ behind) (ms @ others)) (idct_plan True) outp = mcu_values dquant bs"
proof -
  obtain T0 T1 T2 T3 T4 T5 where bs: "bs = [(1, T0), (1, T1), (1, T2), (1, T3), (2, T4), (3, T5)]"
    using assms(1) by (auto simp: map_eq_Cons_conv)
  obtain m0 m1 m2 m3 m4 m5 where ms: "ms = [m0, m1, m2, m3, m4, m5]" "m0 = 1 \<longrightarrow> (\<forall>c \<in> set (tl T0). c = 0)"
    "m1 = 1 \<longrightarrow> (\<forall>c \<in> set (tl T1). c = 0)" "m2 = 1 \<longrightarrow> (\<forall>c \<in> set (tl T2). c = 0)" "m3 = 1 \<longrightarrow> (\<forall>c \<in> set (tl T3). c = 0)"
    "m4 = 1 \<longrightarrow> (\<forall>c \<in> set (tl T4). c = 0)" "m5 = 1 \<longrightarrow> (\<forall>c \<in> set (tl T5). c = 0)"
    using assms(3) unfolding bs only_dc_def list_all2_Cons2 by auto
  have len: "length T0 = 64" "length T1 = 64" "length T2 = 64" "length T3 = 64" "length T4 = 64" "length T5 = 64"
    using assms(2) unfolding bs by simp_all
  show ?thesis
    using assms(4) len
    by (simp add: idct_plan_def idct_block_def bs ms(1) mcu_values_def idct_used [OF len(1) ms(2)] idct_used [OF len(2) ms(3)]
      idct_used [OF len(3) ms(4)] idct_used [OF len(4) ms(5)] idct_used [OF len(5) ms(6)] idct_used [OF len(6) ms(7)])
qed

lemma codable_lengths: "blocks_codable bs s \<Longrightarrow> \<forall>b \<in> set bs. length (snd b) = 64"
proof (induction bs arbitrary: s)
  case (Cons b bs)
  obtain c T where b: "b = (c, T)" by (cases b)
  have "\<forall>b \<in> set bs. length (snd b) = 64" using Cons.IH [of "set_last_dc c (T ! 0) s"] Cons.prems b by simp
  with Cons.prems b show ?case by (simp add: codable_def)
qed simp

lemma decode_mcu_run:
  assumes "map fst bs = [1, 1, 1, 1, 2, 3]" "scans_ok [2, 1, 0] s (dscans d)" "blocks_codable bs s" "in_ok (input d)"
    and "starts (stream (input d)) (blocks_bits bs s)" "length (decout d) = 384" "picture d = Some pic"
    and "col221111 (mcu_values dquant bs) ((my * 16 * a + mx) * 48) (a * 48) pic = Inr pic'"
  shows "\<exists>d'. decode_mcu 0 True dquant a (my, mx) d = Some (Inr (0, d')) \<and> scans_ok [2, 1, 0] (blocks_dc bs s) (dscans d') \<and>
    reads (length (blocks_bits bs s)) (input d) (input d') \<and> length (decout d') = 384 \<and> picture d' = Some pic'"
proof -
  have order: "in_order 0 [2, 1, 0] (map fst bs)" unfolding assms(1) by simp
  have six: "length bs = 6" using arg_cong [OF assms(1), of length] by simp
  obtain scs' inp' ms where run: "decode_mcus 6 (dscans d) (dcts d) (input d) =
      Some (Inr (scs', concat (map snd bs) @ drop (6 * 64) (dcts d), inp', ms))"
    "scans_ok [2, 1, 0] (blocks_dc bs s) scs'" "reads (length (blocks_bits bs s)) (input d) inp'" "only_dc ms bs"
    using decode_mcus_run [OF assms(2) order assms(3-5), of "dcts d"] unfolding six by blast
  note lens = codable_lengths [OF assms(3)]
  note decoded = mcu_blocks_decoded [OF assms(1) lens run(4) assms(6), of dquant "drop (6 * 64) (dcts d)" "drop (length ms) (maxs d)"]
  have "length (mcu_values dquant bs) = 384"
  proof -
    have "length (mcu_values dquant bs) = 64 * length bs"
      unfolding mcu_values_def by (induction bs) (auto split: prod.splits)
    then show ?thesis using six by simp
  qed
  with run assms(7,8) decoded show ?thesis
    by (auto simp: decode_mcu_def Let_def mult.assoc)
qed

subsection \<open>All MCUs\<close>

lemma mcu_loop_run:
  assumes "\<And>xs m ys d. ms = xs @ m # ys \<Longrightarrow> I xs d \<Longrightarrow> \<exists>d'. f m d = Some (Inr (0, d')) \<and> I (xs @ [m]) d'" "I [] d"
  shows "\<exists>d'. mcu_loop f ms d = Some (Inr (0, d')) \<and> I ms d'"
proof -
  have "\<exists>d'. mcu_loop f ys d = Some (Inr (0, d')) \<and> I ms d'" if "ms = xs @ ys" "I xs d" for xs ys d
    using that
  proof (induction ys arbitrary: xs d)
    case (Cons m ys)
    then obtain d1 where d1: "f m d = Some (Inr (0, d1))" "I (xs @ [m]) d1" using assms(1) by blast
    from Cons.IH [OF _ d1(2)] Cons.prems(1) d1(1) show ?case by simp
  qed auto
  from this [of "[]" ms d] assms(2) show ?thesis by simp
qed

lemma mcu_positions_iff: "(i, j) \<in> set (mcu_positions a b) \<longleftrightarrow> i < b \<and> j < a"
  by (auto simp: mcu_positions_def intro!: bexI [of _ i])

lemma distinct_mcu_positions: "distinct (mcu_positions a b)"
proof (cases "a = 0")
  case True
  then have "mcu_positions a b = []" by (simp add: mcu_positions_def)
  then show ?thesis by simp
next
  case False
  then show ?thesis unfolding mcu_positions_def
    by (intro distinct_concat) (auto simp: distinct_map inj_on_def)
qed

text \<open>The MCUs of a picture do not share pixels.\<close>

lemma mcu_places_apart:
  fixes i i' j j' x x' y y' c c' a :: nat
  assumes "(i * 16 * a + j) * 48 + y * (a * 48) + 3 * x + c = (i' * 16 * a + j') * 48 + y' * (a * 48) + 3 * x' + c'"
    and "j < a" "j' < a" "x < 16" "x' < 16" "y < 16" "y' < 16" "c < 3" "c' < 3"
  shows "i = i' \<and> j = j'"
proof -
  have small: "j * 48 + (3 * x + c) < a * 48" "j' * 48 + (3 * x' + c') < a * 48" using assms(2-5,8,9) by linarith+
  have "(i * 16 + y) * (a * 48) + (j * 48 + (3 * x + c)) = (i' * 16 + y') * (a * 48) + (j' * 48 + (3 * x' + c'))"
    using assms(1) by (simp add: algebra_simps)
  from arg_cong [OF this, of "\<lambda>n. n div (a * 48)"] arg_cong [OF this, of "\<lambda>n. n mod (a * 48)"]
  have "i * 16 + y = i' * 16 + y'" "j * 48 + (3 * x + c) = j' * 48 + (3 * x' + c')" using small by simp_all
  then show ?thesis using assms(4-9) by linarith
qed

text \<open>Where the pixel in row \<open>y\<close> and column \<open>x\<close> of an MCU is stored, in a picture of \<open>a\<close> MCUs per row.\<close>

definition pixel_index :: "nat \<Rightarrow> nat \<times> nat \<Rightarrow> nat \<Rightarrow> nat \<Rightarrow> nat \<Rightarrow> nat" where
  "pixel_index a = (\<lambda>(i, j) y x ch. (i * 16 * a + j) * 48 + y * (a * 48) + 3 * x + ch)"

definition shows_mcu :: "nat \<Rightarrow> nat \<times> nat \<Rightarrow> cint list \<Rightarrow> byte list \<Rightarrow> bool" where
  "shows_mcu a m outp pic \<longleftrightarrow> (\<forall>y < 16. \<forall>x < 16. \<forall>ch < 3. pic ! pixel_index a m y x ch = channel outp y x ch)"

lemma col221111_mcu:
  assumes "m \<in> set (mcu_positions a b)" "768 * a * b \<le> length pic"
  shows "\<exists>pic'. col221111 outp (pixel_index a m 0 0 0) (a * 48) pic = Inr pic' \<and> length pic' = length pic \<and> shows_mcu a m outp pic' \<and>
    (\<forall>m' \<in> set (mcu_positions a b). \<forall>outp'. m' \<noteq> m \<longrightarrow> shows_mcu a m' outp' pic \<longrightarrow> shows_mcu a m' outp' pic')"
proof -
  obtain i j where m: "m = (i, j)" by (cases m)
  have ij: "i < b" "j < a" using assms(1) unfolding m mcu_positions_iff by simp_all
  have inside: "pixel_index a (i', j') y x ch < length pic" if "i' < b" "j' < a" "y < 16" "x < 16" "ch < 3" for i' j' y x ch
  proof -
    have "(i' * 16 + y) * (a * 48) + a * 48 \<le> (b * 16) * (a * 48)"
    proof -
      have "(i' * 16 + y + 1) * (a * 48) \<le> (b * 16) * (a * 48)" using that(1,3) by (intro mult_le_mono1) simp
      then show ?thesis by simp
    qed
    moreover have "j' * 48 + 3 * x + ch < a * 48" using that(2,4,5) by linarith
    ultimately show ?thesis using assms(2) by (simp add: pixel_index_def algebra_simps)
  qed
  have "pixel_index a m 0 0 0 + 15 * (a * 48) + 48 \<le> length pic"
    using inside [OF ij, of 15 15 2] by (simp add: pixel_index_def m)
  then obtain pic' where pic': "col221111 outp (pixel_index a m 0 0 0) (a * 48) pic = Inr pic'" "length pic' = length pic"
    "\<forall>y < 16. \<forall>x < 16. \<forall>ch < 3. pic' ! (pixel_index a m 0 0 0 + y * (a * 48) + 3 * x + ch) = channel outp y x ch"
    "\<forall>k < length pic. (\<forall>y < 16. \<forall>x < 16. \<forall>ch < 3. k \<noteq> pixel_index a m 0 0 0 + y * (a * 48) + 3 * x + ch) \<longrightarrow> pic' ! k = pic ! k"
    using col221111_writes [of "a * 48" "pixel_index a m 0 0 0" pic outp] ij(2) by auto
  have at: "pixel_index a m 0 0 0 + y * (a * 48) + 3 * x + ch = pixel_index a m y x ch" for y x ch
    by (simp add: pixel_index_def m)
  have "shows_mcu a m' outp' pic'" if m': "m' \<in> set (mcu_positions a b)" "m' \<noteq> m" "shows_mcu a m' outp' pic" for m' outp'
  proof -
    obtain i' j' where e: "m' = (i', j')" by (cases m')
    have ij': "i' < b" "j' < a" using m'(1) unfolding e mcu_positions_iff by simp_all
    have "pic' ! pixel_index a m' y x ch = pic ! pixel_index a m' y x ch" if "y < 16" "x < 16" "ch < 3" for y x ch
    proof -
      have "pixel_index a m' y x ch \<noteq> pixel_index a m y' x' ch'" if "y' < 16" "x' < 16" "ch' < 3" for y' x' ch'
        using mcu_places_apart [of i' a j' y x ch i j y' x' ch'] m'(2) ij ij' \<open>y < 16\<close> \<open>x < 16\<close> \<open>ch < 3\<close> that
        unfolding e m pixel_index_def by auto
      then show ?thesis using pic'(4) inside [OF ij' that] unfolding at e [symmetric] by blast
    qed
    then show ?thesis using m'(3) by (simp add: shows_mcu_def)
  qed
  then show ?thesis using pic'(1,2,3) unfolding at by (auto simp: shows_mcu_def)
qed

subsection \<open>The picture\<close>

text \<open>The blocks of the MCUs in \<open>ms\<close>, one after the other.\<close>

definition blocks_of :: "(nat \<times> nat \<Rightarrow> (nat \<times> block) list) \<Rightarrow> (nat \<times> nat) list \<Rightarrow> (nat \<times> block) list" where
  "blocks_of D ms = concat (map D ms)"

lemma blocks_of_simps: "blocks_of D [] = []" "blocks_of D (xs @ ys) = blocks_of D xs @ blocks_of D ys" "blocks_of D [m] = D m"
  by (simp_all add: blocks_of_def)

text \<open>The state of the decoder behind the MCUs in \<open>xs\<close>.\<close>

definition decoded ::
  "(nat \<times> nat \<Rightarrow> (nat \<times> block) list) \<Rightarrow> nat \<Rightarrow> cint list list \<Rightarrow> jpeg_in \<Rightarrow> nat \<Rightarrow> (nat \<times> nat) list \<Rightarrow> decoder \<Rightarrow> bool"
where
  "decoded D a dquant inp n xs d \<longleftrightarrow>
     scans_ok [2, 1, 0] (blocks_dc (blocks_of D xs) zero_dc) (dscans d) \<and> reads (length (blocks_bits (blocks_of D xs) zero_dc)) inp (input d) \<and>
     length (decout d) = 384 \<and>
     (\<exists>pic. picture d = Some pic \<and> length pic = n \<and> (\<forall>m \<in> set xs. shows_mcu a m (mcu_values dquant (D m)) pic))"

lemma decoded_step:
  assumes "mcu_positions a b = xs @ m # ys" "decoded D a dquant inp n xs d" "768 * a * b \<le> n"
    and "map fst (D m) = [1, 1, 1, 1, 2, 3]" "blocks_codable (blocks_of D (mcu_positions a b)) zero_dc"
    and "starts (stream inp) (blocks_bits (blocks_of D (mcu_positions a b)) zero_dc)"
  shows "\<exists>d'. decode_mcu 0 True dquant a m d = Some (Inr (0, d')) \<and> decoded D a dquant inp n (xs @ [m]) d'"
proof -
  let ?s = "blocks_dc (blocks_of D xs) zero_dc"
  have split: "blocks_of D (mcu_positions a b) = blocks_of D xs @ D m @ blocks_of D ys"
    unfolding assms(1) using blocks_of_simps(2) [of D "[m]" ys] by (simp add: blocks_of_simps)
  obtain pic where d: "scans_ok [2, 1, 0] ?s (dscans d)" "reads (length (blocks_bits (blocks_of D xs) zero_dc)) inp (input d)"
    "length (decout d) = 384" "picture d = Some pic" "length pic = n" "\<forall>m \<in> set xs. shows_mcu a m (mcu_values dquant (D m)) pic"
    using assms(2) unfolding decoded_def by blast
  have cod: "blocks_codable (D m) ?s" using assms(5) unfolding split by (simp add: blocks_append)
  have start: "starts (stream (input d)) (blocks_bits (D m) ?s)"
    using assms(6) d(2) unfolding split blocks_append starts_append reads_def by simp
  have ok: "in_ok (input d)" using d(2) by (simp add: reads_def)
  have m: "m \<in> set (mcu_positions a b)" unfolding assms(1) by simp
  obtain pic' where pic': "col221111 (mcu_values dquant (D m)) (pixel_index a m 0 0 0) (a * 48) pic = Inr pic'" "length pic' = length pic"
    "shows_mcu a m (mcu_values dquant (D m)) pic'"
    "\<forall>m' \<in> set (mcu_positions a b). \<forall>outp'. m' \<noteq> m \<longrightarrow> shows_mcu a m' outp' pic \<longrightarrow> shows_mcu a m' outp' pic'"
    using col221111_mcu [OF m, of pic "mcu_values dquant (D m)"] assms(3) d(5) by blast
  obtain i j where e: "m = (i, j)" by (cases m)
  have "col221111 (mcu_values dquant (D m)) ((i * 16 * a + j) * 48) (a * 48) pic = Inr pic'"
    using pic'(1) by (simp add: pixel_index_def e)
  from decode_mcu_run [OF assms(4) d(1) cod ok start d(3,4) this] obtain d' where
    d': "decode_mcu 0 True dquant a m d = Some (Inr (0, d'))" "scans_ok [2, 1, 0] (blocks_dc (D m) ?s) (dscans d')"
      "reads (length (blocks_bits (D m) ?s)) (input d) (input d')" "length (decout d') = 384" "picture d' = Some pic'"
    unfolding e by blast
  have "m \<notin> set xs" using distinct_mcu_positions [of a b] unfolding assms(1) by simp
  then have "\<forall>m' \<in> set (xs @ [m]). shows_mcu a m' (mcu_values dquant (D m')) pic'"
    using pic'(3,4) d(6) unfolding assms(1) by auto
  moreover have "reads (length (blocks_bits (blocks_of D (xs @ [m])) zero_dc)) inp (input d')"
    using reads_trans [OF d(2) d'(3)] by (simp add: blocks_of_simps blocks_append)
  ultimately have "decoded D a dquant inp n (xs @ [m]) d'"
    using d' pic'(2) d(5) by (simp add: decoded_def blocks_of_simps blocks_append)
  then show ?thesis using d'(1) by blast
qed

lemma decode_picture_run:
  assumes "dri s = 0" "\<And>m. map fst (D m) = [1, 1, 1, 1, 2, 3]" "blocks_codable (blocks_of D (mcu_positions a b)) zero_dc"
    and "in_ok (input d)" "starts (stream (input d)) (blocks_bits (blocks_of D (mcu_positions a b)) zero_dc)"
    and "marker (input d) = 0" "ending (input d) = 0xd9" "room (input d) < length (blocks_bits (blocks_of D (mcu_positions a b)) zero_dc) + 8"
    and "scans_ok [2, 1, 0] zero_dc (dscans d)" "length (decout d) = 384" "picture d = Some pic" "768 * a * b \<le> length pic"
  shows "\<exists>pic'. decode_picture s ds True a b d = Some (Inr (0, Some pic')) \<and> length pic' = length pic \<and>
    (\<forall>m \<in> set (mcu_positions a b). shows_mcu a m (mcu_values (dquants (quant s) ds) (D m)) pic')"
proof -
  let ?dq = "dquants (quant s) ds"
  have "decoded D a ?dq (input d) (length pic) [] d"
    using assms(4,9-11) by (simp add: decoded_def blocks_of_simps blocks_dc_def reads_def)
  then obtain d' where d': "mcu_loop (decode_mcu 0 True ?dq a) (mcu_positions a b) d = Some (Inr (0, d'))"
    "decoded D a ?dq (input d) (length pic) (mcu_positions a b) d'"
    using mcu_loop_run [of "mcu_positions a b" "decoded D a ?dq (input d) (length pic)" "decode_mcu 0 True ?dq a" d]
      decoded_step [OF _ _ assms(12) assms(2,3,5)] by blast
  have read: "reads (length (blocks_bits (blocks_of D (mcu_positions a b)) zero_dc)) (input d) (input d')"
    using d'(2) by (simp add: decoded_def)
  then have "in_ok (input d')" "ending (input d') = 0xd9" "marker (input d') = 0 \<Longrightarrow> room (input d') \<le> 24"
    using assms(7,8) by (auto simp: reads_def follows_def)
  from dec_readmarker_end [OF this(1,3)] this(2) obtain i' where "dec_readmarker (input d') = Inr (0xd9, i')" by auto
  then show ?thesis using d' assms(1) by (auto simp: decode_picture_def decoded_def M_EOI_def)
qed

subsection \<open>The round trip\<close>

definition whole_picture :: "byte list \<Rightarrow> quant_tables \<Rightarrow> nat \<Rightarrow> nat \<times> nat \<Rightarrow> (nat \<times> block) list" where
  "whole_picture buf q a = (\<lambda>(i, j). mcu_data buf q (384 * a * i + 48 * j) (48 * a))"

lemma picture_data_mcus: "picture_data buf q a b = blocks_of (whole_picture buf q a) (mcu_positions a b)"
proof -
  have "concat (map (whole_picture buf q a) (map (Pair i) [0..<a])) = row_data buf q a a i" for i
    by (simp add: row_data_def whole_picture_def comp_def)
  then have "concat (map (\<lambda>i. concat (map (whole_picture buf q a) (map (Pair i) [0..<a]))) [0..<b]) = picture_data buf q a b"
    by (simp add: picture_data_def)
  moreover have "concat (map f (concat xss)) = concat (map (\<lambda>xs. concat (map f xs)) xss)" for f :: "nat \<times> nat \<Rightarrow> (nat \<times> block) list" and xss
    by (induction xss) simp_all
  ultimately show ?thesis by (simp add: blocks_of_def mcu_positions_def comp_def)
qed

lemma components_420: "map fst (whole_picture buf q a m) = [1, 1, 1, 1, 2, 3]"
  by (cases m) (simp add: whole_picture_def mcu_data_def mcu_sequence_def Let_def del: upt_rec_numeral)

text \<open>The tables as they may be before a picture; no restart interval is left from an earlier one.\<close>

definition decoder_ready :: "jpeg_tables \<Rightarrow> bool" where
  "decoder_ready s \<longleftrightarrow> length (quant s) = 4 \<and> length (dhuff s) = 4 \<and> (\<forall>hu \<in> set (dhuff s). sized hu) \<and> dri s = 0"

lemma start_scans_ok: "inverts_all hus \<Longrightarrow> scans_ok [2, 1, 0] zero_dc (start_scans hus dscans_420)"
proof -
  assume hus: "inverts_all hus"
  have "[0..<length dscans_420] = [0, 1, 2]" by (simp add: dscans_420_def upt_conv_Cons)
  then have scs: "start_scans hus dscans_420 =
      [\<lparr>dc = 0, hudc = hus ! 0, huac = hus ! 2, snext = 2\<rparr>, \<lparr>dc = 0, hudc = hus ! 1, huac = hus ! 3, snext = 1\<rparr>,
       \<lparr>dc = 0, hudc = hus ! 1, huac = hus ! 3, snext = 0\<rparr>]"
    unfolding start_scans_def by (simp only: list.map) (simp add: dscans_420_def)
  have three: "k < Suc (Suc (Suc 0)) \<longleftrightarrow> k = 0 \<or> k = 1 \<or> k = 2" for k by auto
  show ?thesis
    using hus unfolding scs scans_ok_def
    by (auto simp: three inverts_all_def scan_inverts_def dc_table_def ac_table_def last_dc_def zero_dc_def)
qed

text \<open>The tables of the inverse transform for the three components.\<close>

definition decoder_quants :: "quant_tables \<Rightarrow> cint list list" where
  "decoder_quants q = initcol [idctqtab (Lqt q), idctqtab (Cqt q), idctqtab (Cqt q)]"

lemma dquants_420:
  "length qs = 4 \<Longrightarrow> dquants (qs[0 := Lqt q, 1 := Cqt q]) dscans_420 = decoder_quants q"
  by (simp add: dquants_def dscans_420_def decoder_quants_def)

lemma jpeg_decode_accepts:
  assumes "read_soi p = Inr (Inr p1)" "readtables M_SOF0 (s\<lparr>datap := p1\<rparr>) = Some (Inr (0, s1))"
    and "read_frame (datap s1) = Inr (Inr (ih, iw, comps, p2))" "readtables M_SOS (s1\<lparr>datap := p2\<rparr>) = Some (Inr (0, s2))"
    and "read_scan comps (datap s2) = Inr (Inr (ds, p3))" "hv (ds ! 0) = 0x22"
    and "pic1 = (if int iw \<noteq> w \<or> int ih \<noteq> h \<or> pic = None then resize realloc_ok memory (iw * (ih + 8) * 3) pic else pic)"
    and "decode_picture (s2\<lparr>datap := p3\<rparr>) ds True (drop_bit 4 iw) (drop_bit 4 ih) (dec_initscans (s2\<lparr>datap := p3\<rparr>) ds dd max0 pic1) =
      Some (Inr (err, pic'))"
  shows "jpeg_decode (Some dd) max0 realloc_ok memory s pic (Some p) w h = Some (Inr (err, s2\<lparr>datap := p3\<rparr>, pic', int iw, int ih))"
  using assms(8) unfolding assms(7) jpeg_decode_def by (auto simp: assms(1-6) Let_def)

lemma codec_run:
  fixes quality :: cint and behind :: "byte list"
  assumes "tables_sized q" "mcu_sized m" "length (Temp m) = 64" "0 < a" "a \<le> 195" "0 < b" "b < 4096" "384 * a * b \<le> length buf"
    and "decoder_ready s" "length (decout dd) = 384"
    and "\<forall>p. pic = Some p \<and> w = int (16 * a) \<and> h = int (16 * b) \<longrightarrow> 768 * a * b \<le> length p"
  defines "q' \<equiv> initialize_quantization_tables quality q"
  shows "\<exists>out m' s' pic'. encode_image ok buf quality FOUR_TWO_ZERO (16 * a) (16 * b) m q = Inr (out, m', q') \<and>
    jpeg_decode (Some dd) max0 True memory s pic (Some (out @ behind)) w h = Some (Inr (0, s', Some pic', int (16 * a), int (16 * b))) \<and>
    (\<forall>mcu \<in> set (mcu_positions a b). shows_mcu a mcu (mcu_values (decoder_quants q') (whole_picture buf q' a mcu)) pic')"
proof -
  let ?base = "write_markers q' FOUR_TWO_ZERO (of_nat (16 * a)) (of_nat (16 * b)) []"
  let ?fh = "frame_header FOUR_TWO_ZERO (of_nat (16 * a)) (of_nat (16 * b))"
  let ?sh = "scan_header FOUR_TWO_ZERO"
  obtain wr m' where enc: "encode_image ok buf quality FOUR_TWO_ZERO (16 * a) (16 * b) m q = Inr (close_bitstream wr, m', q')"
    "writes_bits ?base (blocks_bits (blocks_of (whole_picture buf q' a) (mcu_positions a b)) zero_dc) wr"
    "blocks_codable (blocks_of (whole_picture buf q' a) (mcu_positions a b)) zero_dc"
    using encode_image_whole [OF assms(1-8), of ok quality] unfolding q'_def picture_data_mcus by blast
  define R where "R = drop (length ?base) (close_bitstream wr) @ behind"
  have out: "close_bitstream wr @ behind = ?base @ R"
    using close_bitstream_bits [OF enc(2)] by (auto simp: R_def)
  note stream = closed_stream [OF enc(2), of behind, folded R_def]
  have sized: "length (Lqt q') = 64" "length (Cqt q') = 64"
    using initialize_tables_nth(5) [OF assms(1), of 0 quality] unfolding q'_def tables_sized_def by simp_all
  have ready: "length (quant s) = 4" "length (dhuff s) = 4" "\<forall>hu \<in> set (dhuff s). sized hu" "dri s = 0"
    using assms(9) by (simp_all add: decoder_ready_def)
  obtain hus where hus: "inverts_all hus" "readtables M_SOF0 (s\<lparr>datap := drop 2 ?base @ R\<rparr>) =
      Some (Inr (0, s\<lparr>datap := drop 2 ?fh @ ?sh @ R, quant := (quant s)[0 := Lqt q', 1 := Cqt q'], dhuff := hus\<rparr>))"
  proof -
    let ?s0 = "s\<lparr>datap := drop 2 ?base @ R\<rparr>"
    have "datap ?s0 = drop (length ([] :: byte list) + 2) ?base @ R" unfolding list.size add_0 by simp
    from readtables_markers [OF this sized] ready that show ?thesis by simp blast
  qed
  have soi: "read_soi (?base @ R) = Inr (Inr (drop 2 ?base @ R))"
    by (simp add: read_soi_def write_markers_def getbyte_def check_def M_SOI_def)
  have frame: "read_frame (drop 2 ?fh @ ?sh @ R) = Inr (Inr (16 * b, 16 * a, comps_420, ?sh @ R))"
    using read_frame_420 [of "16 * b" "16 * a" "?sh @ R"] assms(5,7) by simp
  let ?s2 = "s\<lparr>datap := R, quant := (quant s)[0 := Lqt q', 1 := Cqt q'], dhuff := hus\<rparr>"
  define pic1 where "pic1 = (if int (16 * a) \<noteq> w \<or> int (16 * b) \<noteq> h \<or> pic = None then resize True memory (16 * a * (16 * b + 8) * 3) pic else pic)"
  obtain p where p: "pic1 = Some p" "768 * a * b \<le> length p"
  proof (cases "int (16 * a) \<noteq> w \<or> int (16 * b) \<noteq> h \<or> pic = None")
    case True
    have "\<exists>p. resize True memory n pic = Some p \<and> length p = n" for n
      by (auto simp: resize_def split: option.splits)
    then obtain p where "resize True memory (16 * a * (16 * b + 8) * 3) pic = Some p" "length p = 16 * a * (16 * b + 8) * 3" by blast
    with True that [of p] show ?thesis by (simp add: pic1_def algebra_simps)
  next
    case False
    with assms(11) that show ?thesis by (auto simp: pic1_def)
  qed
  let ?d = "dec_initscans ?s2 dscans_420 dd max0 pic1"
  have "dri ?s2 = 0" using ready(4) by simp
  moreover have "input ?d = setinput R" "scans_ok [2, 1, 0] zero_dc (dscans ?d)" "length (decout ?d) = 384" "picture ?d = Some p"
    using start_scans_ok [OF hus(1)] assms(10) p(1) by (simp_all add: dec_initscans_def)
  ultimately obtain pic' where pic': "decode_picture ?s2 dscans_420 True a b ?d = Some (Inr (0, Some pic'))"
    "\<forall>mcu \<in> set (mcu_positions a b). shows_mcu a mcu (mcu_values (dquants (quant ?s2) dscans_420) (whole_picture buf q' a mcu)) pic'"
    using decode_picture_run [of ?s2 "whole_picture buf q' a" a b ?d p dscans_420] enc(3) stream p(2) components_420 by auto
  have sos: "readtables M_SOS (s\<lparr>datap := ?sh @ R, quant := (quant s)[0 := Lqt q', 1 := Cqt q'], dhuff := hus\<rparr>) =
      Some (Inr (0, s\<lparr>datap := drop 2 ?sh @ R, quant := (quant s)[0 := Lqt q', 1 := Cqt q'], dhuff := hus\<rparr>))"
    using readtables_sos [of "s\<lparr>datap := ?sh @ R, quant := (quant s)[0 := Lqt q', 1 := Cqt q'], dhuff := hus\<rparr>"] by simp
  have y: "hv (dscans_420 ! 0) = 0x22" by (simp add: dscans_420_def)
  have sizes: "drop_bit 4 (16 * a) = a" "drop_bit 4 (16 * b) = b" by (simp_all add: drop_bit_eq_div)
  have order: "s\<lparr>datap := x, quant := qs, dhuff := hus\<rparr>\<lparr>datap := x'\<rparr> = s\<lparr>datap := x', quant := qs, dhuff := hus\<rparr>" for x x' qs
    by simp
  note accepted = jpeg_decode_accepts [where comps = comps_420 and ?p2.0 = "?sh @ R" and ?p3.0 = R and dd = dd and ?max0.0 = max0 and err = 0
      and pic' = "Some pic'" and ?s2.0 = "s\<lparr>datap := drop 2 ?sh @ R, quant := (quant s)[0 := Lqt q', 1 := Cqt q'], dhuff := hus\<rparr>",
      OF soi hus(2) _ _ _ y pic1_def, unfolded order, OF _ sos, unfolded sizes, OF _ _ pic'(1)]
  have "jpeg_decode (Some dd) max0 True memory s pic (Some (close_bitstream wr @ behind)) w h =
      Some (Inr (0, ?s2, Some pic', int (16 * a), int (16 * b)))"
    unfolding out by (rule accepted) (simp_all add: frame read_scan_420 del: One_nat_def of_nat_mult)
  then show ?thesis using enc(1) pic'(2) dquants_420 [OF ready(1), of q'] by auto
qed

subsection \<open>What the codec does\<close>

definition zero_mcu :: mcu_blocks where
  "zero_mcu = \<lparr>Y1 = replicate 64 0, Y2 = replicate 64 0, Y3 = replicate 64 0, Y4 = replicate 64 0, CB = replicate 64 0, CR = replicate 64 0,
     Temp = replicate 64 0\<rparr>"

lemma zero_inputs: "tables_sized zero_tables" "mcu_sized zero_mcu" "length (Temp zero_mcu) = 64"
  by (simp_all add: zero_tables_def tables_sized_def zero_mcu_def mcu_sized_def del: replicate.simps)

definition zero_decoder :: jpeg_tables where
  "zero_decoder = \<lparr>datap = [], quant = replicate 4 (replicate 64 0),
     dhuff = replicate 4 \<lparr>maxcode = replicate 17 0, valptr = replicate 16 0, vals = replicate 256 0, llvals = replicate 1024 0\<rparr>, dri = 0\<rparr>"

definition zero_decdata :: decdata where
  "zero_decdata = \<lparr>dcts = replicate 400 0, decout = replicate 384 0\<rparr>"

lemma zero_decoder_ready: "decoder_ready zero_decoder" "length (decout zero_decdata) = 384"
  by (simp_all add: zero_decoder_def decoder_ready_def sized_def zero_decdata_def del: replicate.simps)

text \<open>
  C9.  \<^verbatim>\<open>encode_image()\<close> never leaves its buffers on a packed 4:2:0 picture of whole MCUs, for every quality, and what it writes is
  the header, the data with its 0xff bytes stuffed, and the end marker.  The bits of the data are those of the quantised blocks of
  the picture, MCU after MCU and line after line, padded by less than a byte.
\<close>

theorem encode_image_written:
  fixes quality :: cint
  assumes "tables_sized q" "mcu_sized m" "length (Temp m) = 64" "0 < a" "a \<le> 195" "0 < b" "b < 4096" "384 * a * b \<le> length buf"
  shows "\<exists>bs p m'. encode_image malloc_ok buf quality FOUR_TWO_ZERO (16 * a) (16 * b) m q =
      Inr (write_markers (initialize_quantization_tables quality q) FOUR_TWO_ZERO (of_nat (16 * a)) (of_nat (16 * b)) [] @ stuff bs @ [0xff, 0xd9],
        m', initialize_quantization_tables quality q) \<and>
    p < 8 \<and> bytes_bits bs = blocks_bits (picture_data buf (initialize_quantization_tables quality q) a b) zero_dc @ replicate p False"
proof -
  obtain w m' where w: "encode_image malloc_ok buf quality FOUR_TWO_ZERO (16 * a) (16 * b) m q =
      Inr (close_bitstream w, m', initialize_quantization_tables quality q)"
    "writes_bits (write_markers (initialize_quantization_tables quality q) FOUR_TWO_ZERO (of_nat (16 * a)) (of_nat (16 * b)) [])
      (blocks_bits (picture_data buf (initialize_quantization_tables quality q) a b) zero_dc) w"
    using encode_image_whole [OF assms] by blast
  from close_bitstream_bits [OF w(2)] w(1) show ?thesis by (metis (no_types))
qed

theorem encode_image_written_witness:
  "\<exists>out m'. encode_image True (replicate 384 0) 1024 FOUR_TWO_ZERO 16 16 zero_mcu zero_tables =
     Inr (out, m', initialize_quantization_tables 1024 zero_tables)"
  using encode_image_written [OF zero_inputs, of 1 1 "replicate 384 0" True 1024] by (auto simp del: replicate.simps One_nat_def)

text \<open>
  C8.  The decoder accepts what the encoder writes: \<^verbatim>\<open>jpeg_decode()\<close> of \<^verbatim>\<open>encode_image()\<close>'s output, whatever follows it in the buffer
  and whatever tables earlier pictures left, returns 0 with the size of the picture, and each of the three bytes of every pixel is the
  colour that the inverse transform and the colour conversion give for the blocks that were quantised.
\<close>

theorem jpeg_round_trip:
  fixes quality :: cint and behind :: "byte list"
  assumes "tables_sized q" "mcu_sized m" "length (Temp m) = 64" "0 < a" "a \<le> 195" "0 < b" "b < 4096" "384 * a * b \<le> length buf"
    and "decoder_ready s" "length (decout dd) = 384"
    and "\<forall>p. pic = Some p \<and> w = int (16 * a) \<and> h = int (16 * b) \<longrightarrow> 768 * a * b \<le> length p"
    and "q' = initialize_quantization_tables quality q"
  shows "\<exists>out m' s' pic'. encode_image malloc_ok buf quality FOUR_TWO_ZERO (16 * a) (16 * b) m q = Inr (out, m', q') \<and>
    jpeg_decode (Some dd) max0 True memory s pic (Some (out @ behind)) w h = Some (Inr (0, s', Some pic', int (16 * a), int (16 * b))) \<and>
    (\<forall>i < b. \<forall>j < a. \<forall>y < 16. \<forall>x < 16. \<forall>ch < 3. pic' ! ((16 * i + y) * (48 * a) + 48 * j + 3 * x + ch) =
      channel (mcu_values (decoder_quants q') (mcu_data buf q' (384 * a * i + 48 * j) (48 * a))) y x ch)"
proof -
  have index: "pixel_index a (i, j) y x ch = (16 * i + y) * (48 * a) + 48 * j + 3 * x + ch" for i j y x ch
    by (simp add: pixel_index_def algebra_simps)
  have all: "(\<forall>i < b. \<forall>j < a. P i j) \<longleftrightarrow> (\<forall>mcu \<in> set (mcu_positions a b). P (fst mcu) (snd mcu))" for P
    by (auto simp: Ball_def mcu_positions_iff)
  show ?thesis
    using codec_run [OF assms(1-11), of malloc_ok quality max0 memory behind]
    unfolding all assms(12) [symmetric] shows_mcu_def whole_picture_def case_prod_beta index [symmetric] prod.collapse .
qed

theorem jpeg_round_trip_witness:
  "\<exists>out m' s' pic'. encode_image True (replicate 384 0) 1024 FOUR_TWO_ZERO 16 16 zero_mcu zero_tables =
      Inr (out, m', initialize_quantization_tables 1024 zero_tables) \<and>
    jpeg_decode (Some zero_decdata) [] True (\<lambda>_. 0) zero_decoder None (Some out) 0 0 = Some (Inr (0, s', Some pic', 16, 16))"
  using jpeg_round_trip [OF zero_inputs, of 1 1 "replicate 384 0" zero_decoder zero_decdata None 0 0 _ 1024 True "[]" "\<lambda>_. 0" "[]"]
    zero_decoder_ready by (auto simp del: replicate.simps One_nat_def)

end
