(* ===== verification/Spec2Isabelle.thy ===== *)
theory Spec2Isabelle
  imports Robot_Safety Http_Safety Streamer_Main Plugin_Flow Gspca_Codec
begin

text \<open>
  The software of the WiFiBot, a small wheeled robot with a camera, at its C sources: the robot
  server that drives the motors and the streamer that serves the camera's pictures over HTTP.

  \<^bold>\<open>The programs.\<close>  \<^verbatim>\<open>src/raw_server/simple_server_main.c\<close> is a server of five threads around global
  buffers: orders arrive by TCP or UDP, a thread writes the order frame to the motor board over a serial line and
  reads telemetry back, a watchdog stops the motors when no order arrives.  \<^verbatim>\<open>src/mjpg-streamer\<close> is a host for
  plugins (\<^verbatim>\<open>mjpg_streamer.c\<close>): input plugins publish JPEG frames in the shared structure \<^verbatim>\<open>globals\<close>, output plugins
  read them.  The robot runs the camera plugin \<^verbatim>\<open>plugins/input_uvc\<close> and the HTTP server
  \<^verbatim>\<open>plugins/output_http\<close>, which also hands control commands of the clients to the plugins.

  \<^bold>\<open>Conventions.\<close>  The programs are built for 32-bit ARM: \<^verbatim>\<open>int\<close>, \<^verbatim>\<open>long\<close> and \<^verbatim>\<open>size_t\<close> are 32-bit words
  or integers with the wrap-around written out, \<^verbatim>\<open>char\<close> is unsigned.  An operation takes and returns the state it
  works on; what the C standard leaves undefined (an index out of range, a null pointer, a copy over
  the end of a buffer, use of freed memory, division by zero) is an error value \<open>Inl\<close>.  The kernel, the C library's
  input and output, \<^verbatim>\<open>getopt\<close>, the dynamic linker, libjpeg and the video driver are arguments of the operations that call
  them; what a theorem needs of them is a hypothesis.  Loops that always end are recursive functions; loops that
  depend on the answers of a device are partial functions with \<open>None\<close> for not returning, and the theorems state
  when they return.  The only bounds are those of the sources: five attempts in \<open>xioctl\<close>, 2049 positions in
  \<open>is_huffman\<close>, four capture buffers, the declared array sizes.

  \<^bold>\<open>The robot server.\<close>
  \<^item> \<open>Crc16\<close>: \<^verbatim>\<open>crc16\<close> at its machine widths and the shift register it refines; it detects every change inside two
    consecutive bytes.
  \<^item> \<open>Serial_Port\<close>, \<open>Motor_Frames\<close>, \<open>Telemetry\<close>: \<^verbatim>\<open>openrs232\<close> to \<^verbatim>\<open>writers232\<close>, the command frames byte by byte
    with their decoding, and \<^verbatim>\<open>GetRS232Motor33f\<close> with what makes it return and what makes it hang.
  \<^item> \<open>Robot_Server\<close>, \<open>Robot_Safety\<close>: the global variables as one record, a turn of each thread as one operation, their
    interleavings as a step relation; the invariant of the reachable states, the stop after four watchdog turns, where
    the frame sent to the motors comes from.

  \<^bold>\<open>The streamer and its HTTP plugin.\<close>
  \<^item> \<open>Streamer_Types\<close>, \<open>C_Strings\<close>: the shared structures, the string functions of C.
  \<^item> \<open>Http_Io\<close>, \<open>Http_Codec\<close>, \<open>Http_Response\<close>, \<open>Http_Json\<close>, \<open>Http_Command\<close>, \<open>Http_Client\<close>, \<open>Http_Server\<close>: the functions of
    \<^verbatim>\<open>httpd.c\<close> and \<^verbatim>\<open>output_http.c\<close> in that grouping.  The buffered reader implements the contract of a source of
    characters (locale \<open>char_source\<close>), on which line reading is proved once.  \<open>Http_Safety\<close> has the properties of a whole
    client thread: no answer without the credentials, no file outside the folder, no access outside the input buffer.
    A streaming client waits on a condition variable, so \<open>stream_turns\<close> gives the frames it gets in an interleaving with
    the thread that publishes them: those published while it writes are missed.
  \<^item> \<open>Streamer_Main\<close>: command line, loading and starting the plugins, the signal handler of \<^verbatim>\<open>mjpg_streamer.c\<close>, \<^verbatim>\<open>utils.c\<close>.

  \<^bold>\<open>The camera plugin\<close> (\<^verbatim>\<open>plugins/input_uvc\<close>).
  \<^item> \<open>Uvc_Os\<close>: the requests to the system with their answers, recorded in order, and \<^verbatim>\<open>xioctl\<close>.
  \<^item> \<open>Uvc_Device\<close>: \<^verbatim>\<open>struct vdIn\<close> and the operations on the open device.  \<open>Uvc_Queue\<close>: the contract they keep (locale
    \<open>camera_op\<close>), and the accounting of the four capture buffers read off the recorded requests.
  \<^item> \<open>Uvc_Formats\<close>, \<open>Uvc_Controls\<close>, \<open>Uvc_Dynctrl\<close>: \<^verbatim>\<open>init_videoIn\<close>, the table of controls, the Logitech tables of
    \<^verbatim>\<open>dynctrl.c\<close>; each enumeration is complete and ends with a driver that answers as V4L2 describes.
  \<^item> \<open>Uvc_Picture\<close>, \<open>Uvc_Jpeg\<close>: \<^verbatim>\<open>memcpy_picture\<close> against a reference, and the colour conversion and the destination
    manager of \<^verbatim>\<open>jpeg_utils.c\<close> as a sink of bytes (locale \<open>byte_sink\<close>).
  \<^item> \<open>Uvc_Input\<close>, \<open>Uvc_Safety\<close>: the plugin interface and the camera thread of \<^verbatim>\<open>input_uvc.c\<close>, what a turn publishes, what
    commands do to the stream and to the buffers, and which requests any sequence of control commands sends to the driver.

  \<^bold>\<open>Further plugins.\<close>
  \<^item> \<open>Output_File\<close>, \<open>Output_Udp\<close>: the workers of \<^verbatim>\<open>output_file.c\<close> and \<^verbatim>\<open>output_udp.c\<close>.  The files are a list of paths with their
    contents.  Names of pictures sort by time, so the file output refines a ring buffer of the most recent pictures; the UDP output
    writes wherever a datagram says.
  \<^item> \<open>Input_File\<close>, \<open>Input_Testpicture\<close>: the workers of \<^verbatim>\<open>input_file.c\<close> and \<^verbatim>\<open>input_testpicture.c\<close>.
  \<^item> \<open>Frame_Flow\<close>: the contract of an input (locale \<open>frame_publisher\<close>: the shared record shows the picture that was meant) and what the
    outputs make of it; the three inputs are its interpretations.  \<open>Plugin_Flow\<close> has the one of the camera, and the way of
    a picture from one streamer through the folder into another.

  \<^bold>\<open>The JPEG codec of the gspca plugin\<close> (\<^verbatim>\<open>plugins/input_gspcav1\<close>).
  \<^item> \<open>Gspca_Quant\<close>, \<open>Gspca_Dct\<close>: \<^verbatim>\<open>quant.c\<close> with its division by reciprocals, and \<^verbatim>\<open>DCT\<close> with the ranges of its results.
  \<^item> \<open>Gspca_Bits\<close>, \<open>Gspca_Huffman\<close>: the bit writer and the entropy coder of \<^verbatim>\<open>huffman.c\<close>; a block appends exactly its bits.
  \<^item> \<open>Gspca_Decoder\<close>, \<open>Gspca_Tables\<close>: the bit reader and the Huffman decoder of \<^verbatim>\<open>utils.c\<close>; the reader is a stream of bits that
    ends at a marker, and \<^verbatim>\<open>dec_makehuff\<close> builds tables that decode the canonical code.
  \<^item> \<open>Gspca_Marker\<close>, \<open>Gspca_Standard\<close>, \<open>Gspca_Roundtrip\<close>: \<^verbatim>\<open>write_markers\<close> and \<^verbatim>\<open>readtables\<close>; the tables that are read invert those of
    the encoder, and sequences of blocks are read back.
  \<^item> \<open>Gspca_Encoder\<close>, \<open>Gspca_Encoding\<close>, \<open>Gspca_Reader\<close>, \<open>Gspca_Image\<close>: \<^verbatim>\<open>encoder.c\<close> as a whole, what \<^verbatim>\<open>encodeMCU\<close> appends, how
    \<^verbatim>\<open>read_420_format\<close> takes an MCU from the picture (locales \<open>luma_pane\<close> and \<open>luma_pair\<close> for its two halves), and the loop over the MCUs.
  \<^item> \<open>Gspca_Picture\<close>, \<open>Gspca_Jpeg\<close>: the inverse transform, the colour conversion, and \<^verbatim>\<open>jpeg_decode\<close> with its checks.
  \<^item> \<open>Gspca_Codec\<close>: \<^verbatim>\<open>jpeg_decode\<close> of what \<^verbatim>\<open>encode_image\<close> writes.  The bounds are those of the 16-bit variables of \<^verbatim>\<open>encode_image\<close>: the
    offset from one line of MCUs to the next fits up to 195 MCUs in a line, the height up to 4095 lines of MCUs.

  This theory joins the camera plugin and the HTTP plugin.

  \<^bold>\<open>Not modelled.\<close>  Help texts, messages and the system log.  Timing: \<^verbatim>\<open>usleep\<close> and time-outs are answers of the
  system.  A thread's turn between two blocking calls is taken as one step, so data races within a turn are
  not covered.  The remaining plugins of the streamer (\<^verbatim>\<open>input_control\<close>, \<^verbatim>\<open>output_autofocus\<close>, \<^verbatim>\<open>output_rtsp\<close>,
  \<^verbatim>\<open>output_viewer\<close>) and the V4L1 capture around the gspca codec
  (\<^verbatim>\<open>spcav4l.c\<close>, \<^verbatim>\<open>input_gspcav1.c\<close>) are left for later;
  \<^verbatim>\<open>simple_server_main_prod_4w.c\<close> uses an undeclared variable and does not compile; Node.js, jsmpeg and the web pages are
  third-party code the programs run beside or only serve.
\<close>

subsection \<open>From the camera to the client\<close>


text \<open>A camera with a frame of 200 bytes and no tables.\<close>

definition streaming_vd :: vdIn where
  "streaming_vd = sample_vd\<lparr>streamingState := STREAMING_ON, vmem := replicate NB_BUFFER True, tmpbuffer := Some (replicate 4096 0), framesizeIn := 4096\<rparr>"

definition sample_frame :: "byte list" where
  "sample_frame = bare_picture @ replicate 188 0"

definition streaming_world :: "(nat list \<times> byte list list) world" where
  "streaming_world = \<lparr>drv = ([0, 1, 2, 3], [sample_frame]), trace = []\<rparr>"

definition streaming_globals :: globals where
  "streaming_globals = upd_in 0 (\<lambda>p. p\<lparr>in_buf := Some (replicate 4096 0)\<rparr>) (sample_globals [])"


end
